(* ===== verification/Prelude.thy ===== *)
theory Prelude
  imports Main "HOL-Library.AList" "HOL-Library.Sublist"
begin

text \<open>
  Shared vocabulary of the development.

  \<^item> Rust's \<open>Result<T, E>\<close> is the sum \<open>'e + 'a\<close>, \<open>Inl\<close> the error. \<open>map_result\<close> is
    \<open>iter.map(f).collect::<Result<Vec<_>, _>>()\<close>: it stops at the first error.
  \<^item> \<open>IndexMap\<close> (and every other map that is iterated) is an association list in iteration
    order: \<open>insert\<close> is \<open>AList.update\<close>, which overwrites in place and appends a new key.
    A \<open>HashMap\<close> iterates in no specified order; it is the same association list, and every
    theorem quantifies over the list, so it holds for each order the map may choose.
  \<^item> A Rust string is its sequence of UTF-8 bytes, an Isabelle \<^typ>\<open>string\<close>.
    Code that works on characters works on the list of code points.
\<close>

named_theorems res_simps \<open>simplification rules for results\<close>

type_synonym ('k, 'v) index_map = "('k \<times> 'v) list"

definition im_get :: "('k, 'v) index_map \<Rightarrow> 'k \<Rightarrow> 'v option" where
  [simp]: "im_get m k = map_of m k"

definition im_contains :: "('k, 'v) index_map \<Rightarrow> 'k \<Rightarrow> bool" where
  [simp]: "im_contains m k = (map_of m k \<noteq> None)"

definition im_insert :: "'k \<Rightarrow> 'v \<Rightarrow> ('k, 'v) index_map \<Rightarrow> ('k, 'v) index_map" where
  [simp]: "im_insert k v m = AList.update k v m"

definition im_ok :: "('k, 'v) index_map \<Rightarrow> bool" where
  "im_ok m \<longleftrightarrow> distinct (map fst m)"

lemma im_ok_insert: "im_ok m \<Longrightarrow> im_ok (im_insert k v m)"
  by (simp add: im_ok_def distinct_update)

lemma im_get_insert: "im_get (im_insert k v m) k' = (if k' = k then Some v else im_get m k')"
  by (simp add: update_conv')

subsection \<open>Results\<close>

definition bind_result :: "'e + 'a \<Rightarrow> ('a \<Rightarrow> 'e + 'b) \<Rightarrow> 'e + 'b" where
  "bind_result r f = (case r of Inl e \<Rightarrow> Inl e | Inr x \<Rightarrow> f x)"

lemma bind_result_simps [simp, res_simps]:
  "bind_result (Inl e) f = Inl e"
  "bind_result (Inr x) f = f x"
  by (simp_all add: bind_result_def)

lemma bind_result_Inr_iff [res_simps]:
  "bind_result r f = Inr y \<longleftrightarrow> (\<exists>x. r = Inr x \<and> f x = Inr y)"
  by (cases r) simp_all

lemma bind_result_Inl_iff [res_simps]:
  "bind_result r f = Inl e \<longleftrightarrow> r = Inl e \<or> (\<exists>x. r = Inr x \<and> f x = Inl e)"
  by (cases r) simp_all

lemma bind_result_cong [fundef_cong]:
  "r = r' \<Longrightarrow> (\<And>x. r' = Inr x \<Longrightarrow> f x = f' x) \<Longrightarrow> bind_result r f = bind_result r' f'"
  by (cases r') simp_all

definition map_ok :: "('a \<Rightarrow> 'b) \<Rightarrow> 'e + 'a \<Rightarrow> 'e + 'b" where
  "map_ok f r = (case r of Inl e \<Rightarrow> Inl e | Inr x \<Rightarrow> Inr (f x))"

lemma map_ok_simps [simp, res_simps]:
  "map_ok f (Inl e) = Inl e"
  "map_ok f (Inr x) = Inr (f x)"
  by (simp_all add: map_ok_def)

lemma map_ok_Inr_iff [res_simps]: "map_ok f r = Inr y \<longleftrightarrow> (\<exists>x. r = Inr x \<and> y = f x)"
  by (cases r) auto

lemma map_ok_Inl_iff [res_simps]: "map_ok f r = Inl e \<longleftrightarrow> r = Inl e"
  by (cases r) auto

definition ok :: "'e + 'a \<Rightarrow> 'a option" where
  "ok r = (case r of Inl _ \<Rightarrow> None | Inr x \<Rightarrow> Some x)"

lemma ok_simps [simp, res_simps]: "ok (Inl e) = None" "ok (Inr x) = Some x"
  by (simp_all add: ok_def)

primrec map_result :: "('a \<Rightarrow> 'e + 'b) \<Rightarrow> 'a list \<Rightarrow> 'e + 'b list" where
  "map_result f [] = Inr []"
| "map_result f (x # xs) =
     bind_result (f x) (\<lambda>y. bind_result (map_result f xs) (\<lambda>ys. Inr (y # ys)))"

lemma map_result_cong [fundef_cong]:
  "xs = ys \<Longrightarrow> (\<And>x. x \<in> set ys \<Longrightarrow> f x = g x) \<Longrightarrow> map_result f xs = map_result g ys"
  by (induction ys arbitrary: xs) auto

lemma map_result_Inr: "map_result (\<lambda>x. Inr (f x)) xs = Inr (map f xs)"
  by (induction xs) simp_all

lemma map_result_Inr_set:
  "(\<And>x. x \<in> set xs \<Longrightarrow> f x = Inr (g x)) \<Longrightarrow> map_result f xs = Inr (map g xs)"
  by (induction xs) simp_all

lemma map_result_map [simp]: "map_result f (map g xs) = map_result (\<lambda>x. f (g x)) xs"
  by (induction xs) simp_all

lemma map_result_id: "(\<And>x. x \<in> set xs \<Longrightarrow> f x = Inr x) \<Longrightarrow> map_result f xs = Inr xs"
  by (induction xs) simp_all

lemma map_result_inverse:
  assumes "map_result f xs = Inr ys" and "\<forall>x\<in>set xs. \<forall>y. f x = Inr y \<longrightarrow> g y = x"
  shows "map g ys = xs"
  using assms by (induction xs arbitrary: ys) (auto simp: res_simps)

lemma map_result_ok_iff:
  "(\<exists>ys. map_result f xs = Inr ys) \<longleftrightarrow> (\<forall>x\<in>set xs. \<exists>y. f x = Inr y)"
  by (induction xs) (auto simp: res_simps)

lemma map_result_InlD: "map_result f xs = Inl e \<Longrightarrow> \<exists>x\<in>set xs. f x = Inl e"
  by (induction xs) (auto simp: res_simps)

subsection \<open>Lists and options\<close>

definition last_option :: "'a list \<Rightarrow> 'a option" where
  "last_option xs = (if xs = [] then None else Some (last xs))"

lemma last_option_simps [simp]: "last_option [] = None" "last_option (xs @ [x]) = Some x"
  by (simp_all add: last_option_def)

definition strip_prefix :: "char \<Rightarrow> string \<Rightarrow> string option" where
  "strip_prefix c s = (case s of [] \<Rightarrow> None | x # xs \<Rightarrow> if x = c then Some xs else None)"

definition strip_suffix :: "char \<Rightarrow> string \<Rightarrow> string option" where
  "strip_suffix c s = (if s \<noteq> [] \<and> last s = c then Some (butlast s) else None)"

lemma strip_suffix_snoc [simp]: "strip_suffix c (s @ [x]) = (if x = c then Some s else None)"
  by (simp add: strip_suffix_def)

lemma strip_suffix_Nil [simp]: "strip_suffix c [] = None"
  by (simp add: strip_suffix_def)

lemma strip_suffix_len: "strip_suffix c s = Some r \<Longrightarrow> length r < length s"
  by (auto simp: strip_suffix_def split: if_splits)

lemma strip_prefix_Cons [simp]: "strip_prefix c (x # s) = (if x = c then Some s else None)"
  by (simp add: strip_prefix_def)

lemma strip_prefix_Nil [simp]: "strip_prefix c [] = None"
  by (simp add: strip_prefix_def)

lemma strip_prefix_len: "strip_prefix c s = Some r \<Longrightarrow> length r < length s"
  by (cases s) (auto split: if_splits)

lemma size_prod_snd: "size_prod (\<lambda>_. 0) f = (\<lambda>x. Suc (f (snd x)))"
  by (rule ext) (simp add: size_prod_def case_prod_beta)

lemma size_list_snd_less [termination_simp]:
  "(k, v) \<in> set m \<Longrightarrow> f v < size_list (\<lambda>x. Suc (f (snd x))) m"
  by (induction m) auto

lemma map_of_size_less [termination_simp]:
  "map_of m k = Some v \<Longrightarrow> f v < size_list (\<lambda>x. Suc (f (snd x))) m"
  by (rule size_list_snd_less) (rule map_of_SomeD)

lemma zip_size_le:
  "(x, y) \<in> set (zip xs ys) \<Longrightarrow> f x \<le> size_list f xs \<and> g y \<le> size_list g ys"
  by (meson set_zip_leftD set_zip_rightD size_list_estimation' order_refl)

lemma zip_size_less [termination_simp]:
  "(x, y) \<in> set (zip xs ys) \<Longrightarrow> f x + g y < Suc (Suc (size_list f xs + size_list g ys))"
  using zip_size_le [of x y xs ys f g] by simp

lemma object_pair_size_less [termination_simp]:
  "(k, v) \<in> set m \<Longrightarrow> map_of m' k' = Some w \<Longrightarrow>
   f w + f v < Suc (Suc (size_list (\<lambda>x. Suc (f (snd x))) m + size_list (\<lambda>x. Suc (f (snd x))) m'))"
  using size_list_snd_less [of k v m f] map_of_size_less [of m' k' w f] by simp

lemma object_pair_size_less' [termination_simp]:
  "(k, v) \<in> set m \<Longrightarrow> map_of m' k' = Some w \<Longrightarrow>
   f v + f w < Suc (Suc (size_list (\<lambda>x. Suc (f (snd x))) m + size_list (\<lambda>x. Suc (f (snd x))) m'))"
  using object_pair_size_less [of k v m m' k' w f] by simp

lemma map_of_in_set_snd: "map_of m k = Some v \<Longrightarrow> v \<in> snd ` set m"
  by (force dest: map_of_SomeD)

end
