(* ===== verification/Values.thy ===== *)
theory Values
  imports Prelude "HOL-Library.Word"
begin

text \<open>
  GraphQL values: \<open>value/src/lib.rs\<close> and \<open>value/src/variables.rs\<close>.

  \<^item> \<open>const_value\<close> and \<open>gvalue\<close> are the enums \<open>ConstValue\<close> and \<open>Value\<close>; an object is an
    \<open>IndexMap\<close>, an association list in insertion order.
  \<^item> \<open>number\<close> stands for \<open>serde_json::Number\<close>: an integer or the bits of a finite double, taken
    up to that crate's equality.
    How a number is printed is the business of that crate and is a parameter
    (\<open>show_number\<close>) of the functions that print values.
  \<^item> A closure \<open>impl FnMut(Name) -> Result<ConstValue, E>\<close> is a function to a sum.
  \<^item> Lemmas: \<open>const_eq\<close> is an equivalence (what the \<open>Eq\<close> marker promises), \<open>into_value\<close> and
    \<open>into_const\<close> are inverse, and \<open>into_const_with\<close> is substitution that fails exactly when
    some variable of the value has no binding.
\<close>

type_synonym name = string

datatype number = NInt int | NFloat "64 word"

datatype const_value =
    CNull
  | CNumber number
  | CString string
  | CBoolean bool
  | CBinary "8 word list"
  | CEnum name
  | CList "const_value list"
  | CObject "(name \<times> const_value) list"

datatype gvalue =
    VVariable name
  | VNull
  | VNumber number
  | VString string
  | VBoolean bool
  | VBinary "8 word list"
  | VEnum name
  | VList "gvalue list"
  | VObject "(name \<times> gvalue) list"

type_synonym variables = "(name, const_value) index_map"

subsection \<open>Conversions\<close>

fun into_value :: "const_value \<Rightarrow> gvalue" where
  "into_value CNull = VNull"
| "into_value (CNumber num) = VNumber num"
| "into_value (CString s) = VString s"
| "into_value (CBoolean b) = VBoolean b"
| "into_value (CBinary bytes) = VBinary bytes"
| "into_value (CEnum v) = VEnum v"
| "into_value (CList items) = VList (map into_value items)"
| "into_value (CObject m) = VObject (map (\<lambda>(key, value). (key, into_value value)) m)"

fun into_const_with :: "gvalue \<Rightarrow> (name \<Rightarrow> 'e + const_value) \<Rightarrow> 'e + const_value" where
  "into_const_with (VVariable name) f = f name"
| "into_const_with VNull f = Inr CNull"
| "into_const_with (VNumber num) f = Inr (CNumber num)"
| "into_const_with (VString s) f = Inr (CString s)"
| "into_const_with (VBoolean b) f = Inr (CBoolean b)"
| "into_const_with (VBinary v) f = Inr (CBinary v)"
| "into_const_with (VEnum v) f = Inr (CEnum v)"
| "into_const_with (VList items) f =
     map_ok CList (map_result (\<lambda>value. into_const_with value f) items)"
| "into_const_with (VObject m) f =
     map_ok CObject
       (map_result (\<lambda>(key, value). map_ok (\<lambda>v. (key, v)) (into_const_with value f)) m)"

definition into_const :: "gvalue \<Rightarrow> const_value option" where
  "into_const v = ok (into_const_with v (\<lambda>_. Inl ()))"

text \<open>\<open>validation/utils.rs\<close>, \<open>referenced_variables\<close>: the variables of a value, in order.\<close>

fun referenced_variables :: "gvalue \<Rightarrow> name list" where
  "referenced_variables (VVariable name) = [name]"
| "referenced_variables (VList values) = concat (map referenced_variables values)"
| "referenced_variables (VObject obj) = concat (map (\<lambda>(k, v). referenced_variables v) obj)"
| "referenced_variables _ = []"

subsection \<open>Equality\<close>

text \<open>
  \<open>impl PartialEq for ConstValue\<close>: an enum equals the string of the same spelling, and objects
  are compared key by key, whatever their order. The loop over \<open>a\<close> compares
  \<open>b_value != a_value\<close>, that is, with the right-hand value on the left.
\<close>

function const_eq :: "const_value \<Rightarrow> const_value \<Rightarrow> bool" where
  "const_eq x y =
    (case (x, y) of
       (CNull, CNull) \<Rightarrow> True
     | (CNumber a, CNumber b) \<Rightarrow> a = b
     | (CBoolean a, CBoolean b) \<Rightarrow> a = b
     | (CString a, CString b) \<Rightarrow> a = b
     | (CEnum a, CString b) \<Rightarrow> a = b
     | (CString a, CEnum b) \<Rightarrow> a = b
     | (CEnum a, CEnum b) \<Rightarrow> a = b
     | (CBinary a, CBinary b) \<Rightarrow> a = b
     | (CList a, CList b) \<Rightarrow>
         length a = length b \<and> list_all (\<lambda>(a, b). const_eq a b) (zip a b)
     | (CObject a, CObject b) \<Rightarrow>
         length a = length b \<and>
         list_all (\<lambda>(a_key, a_value).
           case map_of b a_key of
             Some b_value \<Rightarrow> const_eq b_value a_value
           | None \<Rightarrow> False) a
     | _ \<Rightarrow> False)"
  by pat_completeness auto
termination
  by (relation "measure (\<lambda>(x, y). size x + size y)")
     (auto simp: termination_simp)

declare const_eq.simps [simp del]

lemma const_eq_CList:
  "const_eq (CList a) (CList b) \<longleftrightarrow> list_all2 const_eq a b"
  by (subst const_eq.simps) (simp add: list_all2_iff list_all_iff)

lemma const_eq_CObject:
  "const_eq (CObject a) (CObject b) \<longleftrightarrow>
     length a = length b \<and>
     (\<forall>(k, v)\<in>set a. \<exists>w. map_of b k = Some w \<and> const_eq w v)"
  by (subst const_eq.simps) (fastforce simp: list_all_iff split: option.splits)

lemma const_eq_simps [simp]:
  "const_eq CNull y \<longleftrightarrow> y = CNull"
  "const_eq x CNull \<longleftrightarrow> x = CNull"
  "const_eq (CNumber a) y \<longleftrightarrow> y = CNumber a"
  "const_eq (CBoolean p) y \<longleftrightarrow> y = CBoolean p"
  "const_eq (CBinary bs) y \<longleftrightarrow> y = CBinary bs"
  "const_eq (CString s) y \<longleftrightarrow> y = CString s \<or> y = CEnum s"
  "const_eq (CEnum s) y \<longleftrightarrow> y = CString s \<or> y = CEnum s"
  by (cases x; cases y; auto simp: const_eq.simps)+

text \<open>
  \<open>Value\<close> derives \<open>PartialEq\<close>: the variants must agree, and two \<open>IndexMap\<close>s are equal when they
  have as many entries and each entry of the first has an equal one in the second.
\<close>

function value_eq :: "gvalue \<Rightarrow> gvalue \<Rightarrow> bool" where
  "value_eq x y =
    (case (x, y) of
       (VVariable a, VVariable b) \<Rightarrow> a = b
     | (VNull, VNull) \<Rightarrow> True
     | (VNumber a, VNumber b) \<Rightarrow> a = b
     | (VString a, VString b) \<Rightarrow> a = b
     | (VBoolean a, VBoolean b) \<Rightarrow> a = b
     | (VBinary a, VBinary b) \<Rightarrow> a = b
     | (VEnum a, VEnum b) \<Rightarrow> a = b
     | (VList a, VList b) \<Rightarrow>
         length a = length b \<and> list_all (\<lambda>(a, b). value_eq a b) (zip a b)
     | (VObject a, VObject b) \<Rightarrow>
         length a = length b \<and>
         list_all (\<lambda>(a_key, a_value).
           case map_of b a_key of
             Some b_value \<Rightarrow> value_eq a_value b_value
           | None \<Rightarrow> False) a
     | _ \<Rightarrow> False)"
  by pat_completeness auto
termination
  by (relation "measure (\<lambda>(x, y). size x + size y)")
     (auto simp: termination_simp)

declare value_eq.simps [simp del]

subsection \<open>Well-formed values\<close>

text \<open>The keys of an \<open>IndexMap\<close> are distinct; \<open>wf_const\<close> says so at every level of a value.\<close>

fun wf_const :: "const_value \<Rightarrow> bool" where
  "wf_const (CList items) \<longleftrightarrow> list_all wf_const items"
| "wf_const (CObject m) \<longleftrightarrow> im_ok m \<and> list_all (\<lambda>(k, v). wf_const v) m"
| "wf_const _ \<longleftrightarrow> True"

lemma const_eq_refl: "wf_const x \<Longrightarrow> const_eq x x"
proof (induction x)
  case (CList xs)
  then show ?case
    by (auto simp: const_eq_CList list_all_iff intro!: list.rel_refl_strong)
next
  case (CObject m)
  have "const_eq v v" if "(k, v) \<in> set m" for k v
    using CObject.IH [OF that] CObject.prems that by (auto simp: list_all_iff)
  then show ?case
    using CObject.prems by (auto simp: const_eq_CObject im_ok_def)
qed simp_all

lemma same_keys:
  assumes "length a = length b" "distinct (map fst a)" "distinct (map fst b)"
    and "fst ` set a \<subseteq> fst ` set b"
  shows "fst ` set b = fst ` set a"
proof -
  have "card (fst ` set a) = length a" and "card (fst ` set b) = length b"
    using assms(2,3) distinct_card [of "map fst a"] distinct_card [of "map fst b"] by simp_all
  then show ?thesis
    using card_subset_eq [OF _ assms(4)] assms(1) by simp
qed

lemma const_eq_sym: "const_eq x y \<Longrightarrow> wf_const x \<Longrightarrow> wf_const y \<Longrightarrow> const_eq y x"
proof (induction x y rule: const_eq.induct)
  case (1 x y)
  note IH = "1.IH"
  show ?case
  proof (cases "\<exists>a b. x = CObject a \<and> y = CObject b")
    case True
    then obtain a b where xy: "x = CObject a" "y = CObject b" by blast
    note eq = "1.prems"(1) [unfolded xy const_eq_CObject]
    have wf: "distinct (map fst a)" "distinct (map fst b)"
      using "1.prems"(2,3) xy by (auto simp: im_ok_def)
    have sub: "fst ` set a \<subseteq> fst ` set b"
      using eq by (fastforce simp flip: dom_map_of_conv_image_fst dest: map_of_SomeD)
    have "\<exists>v. map_of a k = Some v \<and> const_eq v w" if kw: "(k, w) \<in> set b" for k w
    proof -
      have "k \<in> fst ` set a"
        using same_keys [OF _ wf sub] eq kw by force
      then obtain v where v: "(k, v) \<in> set a" by auto
      have w: "map_of b k = Some w" using kw wf by simp
      with eq v have "const_eq w v" by fastforce
      moreover have "wf_const v" "wf_const w"
        using "1.prems"(2,3) xy v kw by (auto simp: list_all_iff)
      ultimately have "const_eq v w"
        using IH(2) [OF refl] xy v w by auto
      then show ?thesis using v wf by simp
    qed
    then show ?thesis using eq xy by (auto simp: const_eq_CObject)
  next
    case no_obj: False
    show ?thesis
    proof (cases "\<exists>a b. x = CList a \<and> y = CList b")
      case True
      then obtain a b where xy: "x = CList a" "y = CList b" by blast
      have "const_eq v u" if "(u, v) \<in> set (zip a b)" for u v
      proof -
        have "const_eq u v" "wf_const u" "wf_const v"
          using "1.prems" xy that set_zip_leftD [OF that] set_zip_rightD [OF that]
          by (auto simp: const_eq_CList list_all2_iff list_all_iff)
        then show ?thesis by (rule IH(1) [OF refl xy that refl])
      qed
      then show ?thesis
        using "1.prems"(1) xy by (auto simp: const_eq_CList list_all2_conv_all_nth set_zip)
    next
      case False
      with no_obj "1.prems"(1) show ?thesis
        by (cases x; cases y; auto simp: const_eq.simps)
    qed
  qed
qed

lemma const_eq_trans: "const_eq x y \<Longrightarrow> const_eq y z \<Longrightarrow> const_eq x z"
proof (induction "size x + size y + size z" arbitrary: x y z rule: less_induct)
  case less
  show ?case
  proof (cases "(\<exists>a. x = CObject a) \<or> (\<exists>a. x = CList a)")
    case False
    with less.prems show ?thesis by (cases x; cases y) (auto simp: const_eq.simps)
  next
    case True
    then consider (obj) a b c where "x = CObject a" "y = CObject b" "z = CObject c"
      | (list) a b c where "x = CList a" "y = CList b" "z = CList c"
      using less.prems by (cases x; cases y; cases z) (auto simp: const_eq.simps)
    then show ?thesis
    proof cases
      case obj
      have "\<exists>u. map_of c k = Some u \<and> const_eq u v" if kv: "(k, v) \<in> set a" for k v
      proof -
        obtain w where w: "map_of b k = Some w" "const_eq w v"
          using less.prems(1) obj kv by (fastforce simp: const_eq_CObject)
        then obtain u where u: "map_of c k = Some u" "const_eq u w"
          using less.prems(2) obj by (fastforce simp: const_eq_CObject dest: map_of_SomeD)
        have "size u + size w + size v < size x + size y + size z"
          using obj size_list_snd_less [OF kv, of size] map_of_size_less [OF w(1), of size]
            map_of_size_less [OF u(1), of size] by (simp add: size_prod_snd)
        then show ?thesis using less.hyps [OF _ u(2) w(2)] u(1) by blast
      qed
      then show ?thesis using less.prems obj by (auto simp: const_eq_CObject)
    next
      case list
      have "const_eq (a ! i) (c ! i)" if i: "i < length a" for i
      proof -
        have ab: "const_eq (a ! i) (b ! i)" and bc: "const_eq (b ! i) (c ! i)"
          and len: "i < length b" "i < length c"
          using less.prems list i by (auto simp: const_eq_CList list_all2_conv_all_nth)
        have "size (a ! i) + size (b ! i) + size (c ! i) < size x + size y + size z"
          using list size_list_estimation' [of "a ! i" a _ size]
            size_list_estimation' [of "b ! i" b _ size]
            size_list_estimation' [of "c ! i" c _ size] i len by fastforce
        then show ?thesis using less.hyps ab bc by blast
      qed
      then show ?thesis
        using less.prems list by (auto simp: const_eq_CList list_all2_conv_all_nth)
    qed
  qed
qed

subsection \<open>Substitution\<close>

lemma map_result_append:
  "map_result f (xs @ ys) =
     bind_result (map_result f xs) (\<lambda>as. bind_result (map_result f ys) (\<lambda>bs. Inr (as @ bs)))"
  by (induction xs) (auto simp: bind_result_def split: sum.splits)

abbreviation forget :: "'e + 'a \<Rightarrow> 'e + unit" where
  "forget \<equiv> map_ok (\<lambda>_. ())"

lemma forget_bind:
  "forget (bind_result r f) = bind_result (forget r) (\<lambda>_. case r of Inr x \<Rightarrow> forget (f x))"
  by (cases r) simp_all

lemma forget_map_ok [simp]: "forget (map_ok f r) = forget r"
  by (cases r) simp_all

lemma forget_map_result_append:
  "forget (map_result f (xs @ ys)) =
     bind_result (forget (map_result f xs)) (\<lambda>_. forget (map_result f ys))"
  by (cases "map_result f xs"; cases "map_result f ys") (simp_all add: map_result_append)

lemma forget_map_result_concat:
  assumes "\<And>x. x \<in> set xs \<Longrightarrow> forget (g x) = forget (map_result f (h x))"
  shows "forget (map_result g xs) = forget (map_result f (concat (map h xs)))"
  using assms
proof (induction xs)
  case (Cons x xs)
  have "forget (g x) = forget (map_result f (h x))" using Cons.prems by simp
  moreover have "forget (map_result g xs) = forget (map_result f (concat (map h xs)))"
    using Cons by simp
  ultimately show ?case
    by (cases "g x"; cases "map_result g xs")
       (auto simp: forget_map_result_append bind_result_def split: sum.splits)
qed simp

lemma into_const_with_forget:
  "forget (into_const_with v f) = forget (map_result f (referenced_variables v))"
proof (induction v)
  case (VList xs)
  then show ?case by (simp add: forget_map_result_concat)
next
  case (VObject m)
  have "forget (map_result (\<lambda>(k, v). map_ok (\<lambda>u. (k, u)) (into_const_with v f)) m) =
        forget (map_result f (concat (map (\<lambda>(k, v). referenced_variables v) m)))"
    by (rule forget_map_result_concat) (use VObject in \<open>auto split: prod.splits\<close>)
  then show ?case by simp
qed (simp_all, simp add: bind_result_def map_ok_def split: sum.splits)

lemma into_const_with_into_value: "into_const_with (into_value c) f = Inr c"
proof (induction c)
  case (CList xs)
  then show ?case by (simp add: map_result_id)
next
  case (CObject m)
  then have "map_result (\<lambda>x. case (case x of (k, v) \<Rightarrow> (k, into_value v)) of
      (k, v) \<Rightarrow> map_ok (Pair k) (into_const_with v f)) m = Inr m"
    by (intro map_result_id) (fastforce split: prod.splits)
  then show ?case by simp
qed simp_all

lemma into_const_with_no_vars:
  "into_const_with v (\<lambda>_. Inl e) = Inr c \<Longrightarrow> into_value c = v"
proof (induction v arbitrary: c)
  case (VList xs)
  then show ?case by (auto simp: res_simps dest!: map_result_inverse [where g = into_value])
next
  case (VObject m)
  then obtain ys where c: "c = CObject ys"
    and "map_result (\<lambda>(k, v). map_ok (Pair k) (into_const_with v (\<lambda>_. Inl e))) m = Inr ys"
    by (auto simp: res_simps)
  then have "map (\<lambda>(k, v). (k, into_value v)) ys = m"
    by (rule_tac map_result_inverse) (use VObject.IH in \<open>fastforce simp: res_simps\<close>)+
  then show ?case by (simp add: c)
qed auto

lemma referenced_variables_into_value [simp]: "referenced_variables (into_value c) = []"
  by (induction c) auto

subsection \<open>Variables\<close>

text \<open>
  \<open>value/src/variables.rs\<close>: \<open>Variables\<close> is a \<open>BTreeMap<Name, ConstValue>\<close>, here an association
  list; \<open>from_value\<close> collects the entries of an object and yields no variables otherwise.
\<close>

definition variables_from_value :: "const_value \<Rightarrow> variables" where
  "variables_from_value v =
     (case v of CObject obj \<Rightarrow> fold (\<lambda>(k, v). im_insert k v) obj [] | _ \<Rightarrow> [])"

end
