(* ===== verification/Ast.thy ===== *)
theory Ast
  imports Values
begin

text \<open>
  The executable document: \<open>parser/src/pos.rs\<close>, \<open>parser/src/types/mod.rs\<close> and
  \<open>parser/src/types/executable.rs\<close>.

  A struct is a record; the structs that contain selection sets and the selection sets are mutually
  recursive datatypes with the source's fields as selectors. \<open>HashMap\<close>s of operations and fragments are association lists in iteration order.
  Lemmas: \<open>Type::new\<close> and the \<open>Display\<close> of a type are inverse.
\<close>

datatype pos = Pos (line: nat) (column: nat)

datatype 'a positioned = Positioned (pos: pos) (node: 'a)

datatype operation_type = Query | Mutation | Subscription

datatype base_type = BNamed name | BList gtype
  and gtype = GType (base: base_type) (nullable: bool)

subsection \<open>Documents\<close>

type_synonym arguments = "(name positioned \<times> gvalue positioned) list"

record directive =
  d_name :: "name positioned"
  d_arguments :: arguments

record const_directive =
  cd_name :: "name positioned"
  cd_arguments :: "(name positioned \<times> const_value positioned) list"

record type_condition =
  tc_on :: "name positioned"

record variable_definition =
  vd_name :: "name positioned"
  vd_var_type :: "gtype positioned"
  vd_directives :: "directive positioned list"
  vd_default_value :: "const_value positioned option"

record fragment_spread =
  fs_fragment_name :: "name positioned"
  fs_directives :: "directive positioned list"

datatype selection_set = SelectionSet (ss_items: "selection positioned list")
  and selection =
    Field "field positioned"
  | FragmentSpread "fragment_spread positioned"
  | InlineFragment "inline_fragment positioned"
  and field = MkField
    (f_alias: "name positioned option")
    (f_name: "name positioned")
    (f_arguments: arguments)
    (f_directives: "directive positioned list")
    (f_selection_set: "selection_set positioned")
  and inline_fragment = MkInlineFragment
    (if_type_condition: "type_condition positioned option")
    (if_directives: "directive positioned list")
    (if_selection_set: "selection_set positioned")

record operation_definition =
  od_ty :: operation_type
  od_variable_definitions :: "variable_definition positioned list"
  od_directives :: "directive positioned list"
  od_selection_set :: "selection_set positioned"

record fragment_definition =
  fd_type_condition :: "type_condition positioned"
  fd_directives :: "directive positioned list"
  fd_selection_set :: "selection_set positioned"

type_synonym fragments = "(name, fragment_definition positioned) index_map"

datatype document_operations =
    Single "operation_definition positioned"
  | Multiple "(name, operation_definition positioned) index_map"

record executable_document =
  doc_operations :: document_operations
  doc_fragments :: fragments

fun operations_iter ::
  "document_operations \<Rightarrow> (name option \<times> operation_definition positioned) list" where
  "operations_iter (Single op) = [(None, op)]"
| "operations_iter (Multiple ops) = map (\<lambda>(n, op). (Some n, op)) ops"

definition vd_default :: "variable_definition \<Rightarrow> const_value option" where
  "vd_default def =
     (case vd_default_value def of
        Some value \<Rightarrow> Some (node value)
      | None \<Rightarrow> if nullable (node (vd_var_type def)) then Some CNull else None)"

fun selection_directives :: "selection \<Rightarrow> directive positioned list" where
  "selection_directives (Field field) = f_directives (node field)"
| "selection_directives (FragmentSpread spread) = fs_directives (node spread)"
| "selection_directives (InlineFragment fragment) = if_directives (node fragment)"

definition response_key :: "field \<Rightarrow> name positioned" where
  "response_key field = (case f_alias field of Some alias \<Rightarrow> alias | None \<Rightarrow> f_name field)"

text \<open>\<open>Field::get_argument\<close> and \<open>Directive::get_argument\<close>: the first argument of the name.\<close>

definition get_argument :: "(name positioned \<times> 'v) list \<Rightarrow> name \<Rightarrow> 'v option" where
  "get_argument args n = map_option snd (find (\<lambda>item. node (fst item) = n) args)"

definition into_directive :: "const_directive \<Rightarrow> directive" where
  "into_directive d =
     \<lparr>d_name = cd_name d,
      d_arguments = map (\<lambda>(n, value). (n, map_positioned into_value value)) (cd_arguments d)\<rparr>"

definition directive_into_const :: "directive \<Rightarrow> const_directive option" where
  "directive_into_const d =
     map_option (\<lambda>args. \<lparr>cd_name = d_name d, cd_arguments = args\<rparr>)
       (ok (map_result (\<lambda>(n, value).
          case into_const (node value) of
            None \<Rightarrow> Inl ()
          | Some c \<Rightarrow> Inr (n, Positioned (pos value) c)) (d_arguments d)))"

lemma get_argument_map_of: "get_argument args n = map_of (map (\<lambda>(k, v). (node k, v)) args) n"
  by (induction args) (auto simp: get_argument_def)

subsection \<open>Type references\<close>

function type_new :: "string \<Rightarrow> gtype option" where
  "type_new ty =
    (let (nullable, ty) =
       (case strip_suffix (CHR ''!'') ty of Some rest \<Rightarrow> (False, rest) | None \<Rightarrow> (True, ty))
     in case strip_prefix (CHR ''['') ty of
          Some ty \<Rightarrow>
            (case strip_suffix (CHR '']'') ty of
               None \<Rightarrow> None
             | Some ty \<Rightarrow>
                 (case type_new ty of
                    None \<Rightarrow> None
                  | Some t \<Rightarrow> Some (GType (BList t) nullable)))
        | None \<Rightarrow> Some (GType (BNamed ty) nullable))"
  by pat_completeness auto
termination
  by (relation "measure length")
     (auto dest!: strip_suffix_len strip_prefix_len split: option.splits)

declare type_new.simps [simp del]

fun type_str :: "gtype \<Rightarrow> string" and base_type_str :: "base_type \<Rightarrow> string" where
  "type_str (GType b n) = base_type_str b @ (if n then [] else ''!'')"
| "base_type_str (BNamed name) = name"
| "base_type_str (BList ty) = ''['' @ type_str ty @ '']''"

text \<open>A name as the grammar's \<open>name\<close> rule produces it neither starts with a bracket nor ends
  with an exclamation mark.\<close>

definition plain_name :: "name \<Rightarrow> bool" where
  "plain_name n \<longleftrightarrow> (n = [] \<or> hd n \<noteq> CHR ''['' \<and> last n \<noteq> CHR ''!'')"

fun wf_type :: "gtype \<Rightarrow> bool" and wf_base_type :: "base_type \<Rightarrow> bool" where
  "wf_type (GType b n) \<longleftrightarrow> wf_base_type b"
| "wf_base_type (BNamed name) \<longleftrightarrow> plain_name name"
| "wf_base_type (BList ty) \<longleftrightarrow> wf_type ty"

fun type_base_name :: "gtype \<Rightarrow> name" and base_type_base_name :: "base_type \<Rightarrow> name" where
  "type_base_name (GType b n) = base_type_base_name b"
| "base_type_base_name (BNamed name) = name"
| "base_type_base_name (BList ty) = type_base_name ty"

lemma strip_prefix_plain: "plain_name n \<Longrightarrow> strip_prefix (CHR ''['') n = None"
  by (cases n) (auto simp: plain_name_def)

lemma strip_suffix_plain: "plain_name n \<Longrightarrow> strip_suffix (CHR ''!'') n = None"
  by (auto simp: plain_name_def strip_suffix_def)

lemma strip_suffix_bang_list:
  "strip_suffix (CHR ''!'') (CHR ''['' # s @ '']'') = None"
  using strip_suffix_snoc [of "CHR ''!''" "CHR ''['' # s" "CHR '']''"] by simp

lemma strip_suffix_bang_append:
  "strip_suffix (CHR ''!'') (s @ ''!'') = Some s"
  by simp

lemma strip_suffix_bang_Cons:
  "strip_suffix (CHR ''!'') (x # s @ [CHR ''!'']) = Some (x # s)"
  using strip_suffix_snoc [of "CHR ''!''" "x # s" "CHR ''!''"] by simp

lemma base_type_str_no_bang:
  "wf_base_type b \<Longrightarrow> strip_suffix (CHR ''!'') (base_type_str b) = None"
  by (cases b) (simp_all add: strip_suffix_plain strip_suffix_bang_list)

lemma type_new_type_str: "wf_type t \<Longrightarrow> type_new (type_str t) = Some t"
proof (induction t rule: type_str_base_type_str.induct(1)
    [where ?Q = "\<lambda>b. wf_base_type b \<longrightarrow> (\<forall>n. type_new (type_str (GType b n)) = Some (GType b n))"])
  case (2 name)
  then show ?case
    by (auto simp: type_new.simps strip_prefix_plain strip_suffix_plain)
next
  case (3 ty)
  then show ?case
    by (auto simp: type_new.simps [of "CHR ''['' # _"] strip_suffix_bang_list
        strip_suffix_bang_Cons [of _ "_ @ '']''", simplified])
qed auto

lemma strip_suffix_Some_iff: "strip_suffix c s = Some r \<longleftrightarrow> s = r @ [c]"
  by (cases s rule: rev_cases) auto

lemma strip_prefix_Some_iff: "strip_prefix c s = Some r \<longleftrightarrow> s = c # r"
  by (cases s) auto

lemma type_str_type_new: "type_new s = Some t \<Longrightarrow> type_str t = s"
proof (induction s arbitrary: t rule: type_new.induct)
  case (1 s)
  define nt where "nt = (case strip_suffix (CHR ''!'') s of Some r \<Rightarrow> (False, r) | None \<Rightarrow> (True, s))"
  obtain n r where nt: "nt = (n, r)" by fastforce
  have s: "s = r @ (if n then [] else ''!'')"
    using nt by (auto simp: nt_def strip_suffix_Some_iff split: option.splits)
  have new: "type_new s = (case strip_prefix (CHR ''['') r of
      Some u \<Rightarrow> (case strip_suffix (CHR '']'') u of None \<Rightarrow> None
        | Some w \<Rightarrow> (case type_new w of None \<Rightarrow> None | Some t \<Rightarrow> Some (GType (BList t) n)))
    | None \<Rightarrow> Some (GType (BNamed r) n))"
    by (subst type_new.simps) (simp add: nt [unfolded nt_def])
  show ?case
  proof (cases "strip_prefix (CHR ''['') r")
    case None
    then show ?thesis using "1.prems" new s by auto
  next
    case (Some u)
    then obtain w t' where w: "strip_suffix (CHR '']'') u = Some w" "type_new w = Some t'"
      "t = GType (BList t') n"
      using "1.prems" new by (auto split: option.splits)
    have "type_str t' = w"
      using "1.IH" [OF nt [symmetric, unfolded nt_def] refl Some w(1) w(2)] .
    then show ?thesis using Some w s by (simp add: strip_suffix_Some_iff strip_prefix_Some_iff)
  qed
qed

end
