(* ===== verification/Meta_Registry.thy ===== *)
theory Meta_Registry
  imports Ast
begin

text \<open>
  The type registry: \<open>src/registry/mod.rs\<close>, \<open>src/registry/cache_control.rs\<close>, the error type of
  \<open>src/error.rs\<close> and the directive locations of \<open>src/model/directive.rs\<close>.

  \<^item> Every struct is a record with the fields of the source; the struct-like variants of
    \<open>MetaType\<close> are one record each under the constructors of \<open>meta_type\<close>. An \<open>IndexSet\<close> is a
    list of its elements.
  \<^item> \<open>Context\<close> is only handed to the \<open>visible\<close> functions: it is the opaque type
    \<open>request_context\<close>. A \<open>ComputeComplexityFn\<close> receives a \<open>VisitorContext\<close> of which it can read
    the variables (\<open>param_value\<close>); it is a function of these.
  \<^item> Lemmas: \<open>MetaTypeName::create\<close> on a printed type reads off its outermost constructor and
    does not panic; \<open>is_subtype\<close> on printed types is a relation on type references;
    \<open>CacheControl::merge\<close> is a commutative idempotent monoid; \<open>create_type\<close> keeps the names of
    the registry.
\<close>

subsection \<open>Errors\<close>

datatype path_segment = PField name | PIndex nat

record server_error =
  se_message :: string
  se_locations :: "pos list"
  se_path :: "path_segment list"
  se_extensions :: "(name, const_value) index_map option"

definition server_error_new :: "string \<Rightarrow> pos option \<Rightarrow> server_error" where
  "server_error_new message p =
     \<lparr>se_message = message,
      se_locations = (case p of Some p \<Rightarrow> [p] | None \<Rightarrow> []),
      se_path = [],
      se_extensions = None\<rparr>"

subsection \<open>Names of types\<close>

text \<open>
  \<open>strip_brackets\<close> drops the first and the last byte; \<open>&rest[..rest.len() - 1]\<close> panics when
  nothing follows the bracket, or when the last byte is inside a multi-byte character.
\<close>

definition strip_brackets :: "string \<Rightarrow> string option" where
  "strip_brackets type_name = map_option butlast (strip_prefix (CHR ''['') type_name)"

definition strip_brackets_panics :: "string \<Rightarrow> bool" where
  "strip_brackets_panics type_name =
     (case strip_prefix (CHR ''['') type_name of
        None \<Rightarrow> False
      | Some rest \<Rightarrow> rest = [] \<or> (let b = of_char (last rest) :: nat in 128 \<le> b \<and> b < 192))"

datatype meta_type_name = TList string | TNonNull string | TNamed string

fun meta_type_name_str :: "meta_type_name \<Rightarrow> string" where
  "meta_type_name_str (TNamed n) = n"
| "meta_type_name_str (TNonNull n) = n @ ''!''"
| "meta_type_name_str (TList n) = ''['' @ n @ '']''"

definition create :: "string \<Rightarrow> meta_type_name" where
  "create type_name =
     (case strip_suffix (CHR ''!'') type_name of
        Some type_name \<Rightarrow> TNonNull type_name
      | None \<Rightarrow>
          (case strip_brackets type_name of
             Some type_name \<Rightarrow> TList type_name
           | None \<Rightarrow> TNamed type_name))"

text \<open>The length of the string in a \<open>meta_type_name\<close>, and one more for a wrapper: it decreases
  in every recursion through \<open>create\<close>.\<close>

fun mtn_size :: "meta_type_name \<Rightarrow> nat" where
  "mtn_size (TNamed n) = length n"
| "mtn_size (TNonNull n) = Suc (length n)"
| "mtn_size (TList n) = Suc (length n)"

lemma strip_brackets_len: "strip_brackets s = Some r \<Longrightarrow> length r < length s"
  by (cases s) (auto simp: strip_brackets_def split: if_splits)

lemma mtn_size_create [termination_simp]: "mtn_size (create s) \<le> length s"
  by (auto simp: create_def Suc_le_eq dest: strip_suffix_len strip_brackets_len
      split: option.splits)

lemma create_len [termination_simp]:
  "create s = TList r \<Longrightarrow> length r < length s"
  "create s = TNonNull r \<Longrightarrow> length r < length s"
  using mtn_size_create [of s] by auto

function concrete_typename :: "string \<Rightarrow> string" where
  "concrete_typename type_name =
     (case create type_name of
        TList type_name \<Rightarrow> concrete_typename type_name
      | TNonNull type_name \<Rightarrow> concrete_typename type_name
      | TNamed type_name \<Rightarrow> type_name)"
  by pat_completeness auto
termination
  by (relation "measure length") (auto simp: termination_simp)

declare concrete_typename.simps [simp del]

fun is_non_null :: "meta_type_name \<Rightarrow> bool" where
  "is_non_null (TNonNull _) = True"
| "is_non_null _ = False"

fun unwrap_non_null :: "meta_type_name \<Rightarrow> meta_type_name" where
  "unwrap_non_null (TNonNull ty) = create ty"
| "unwrap_non_null ty = ty"

function is_subtype :: "meta_type_name \<Rightarrow> meta_type_name \<Rightarrow> bool" where
  "is_subtype self sub =
     (case (self, sub) of
        (TNonNull super_type, TNonNull sub_type) \<Rightarrow> is_subtype (create super_type) (create sub_type)
      | (TNamed super_type, TNonNull sub_type) \<Rightarrow> is_subtype (create super_type) (create sub_type)
      | (TNamed super_type, TNamed sub_type) \<Rightarrow> super_type = sub_type
      | (TList super_type, TList sub_type) \<Rightarrow> is_subtype (create super_type) (create sub_type)
      | _ \<Rightarrow> False)"
  by pat_completeness auto
termination
  by (relation "measure (\<lambda>(a, b). mtn_size a + mtn_size b)")
     (auto intro!: le_less_trans [OF add_mono [OF mtn_size_create mtn_size_create]])

declare is_subtype.simps [simp del]

lemma is_subtype_simps [simp]:
  "is_subtype (TNonNull a) (TNonNull b) = is_subtype (create a) (create b)"
  "is_subtype (TNamed a) (TNonNull b) = is_subtype (create a) (create b)"
  "is_subtype (TNamed a) (TNamed b) = (a = b)"
  "is_subtype (TList a) (TList b) = is_subtype (create a) (create b)"
  "is_subtype (TNonNull a) (TNamed b) = False"
  "is_subtype (TNonNull a) (TList b) = False"
  "is_subtype (TNamed a) (TList b) = False"
  "is_subtype (TList a) (TNamed b) = False"
  "is_subtype (TList a) (TNonNull b) = False"
  by (subst is_subtype.simps; simp)+

function is_list :: "meta_type_name \<Rightarrow> bool" where
  "is_list (TList _) = True"
| "is_list (TNonNull ty) = is_list (create ty)"
| "is_list (TNamed n) = (n \<noteq> [] \<and> last n = CHR '']'')"
  by pat_completeness auto
termination
  by (relation "measure mtn_size") (auto simp: le_imp_less_Suc mtn_size_create)

subsection \<open>Cache control\<close>

record cache_control =
  cc_public :: bool
  cc_max_age :: int

definition cache_control_default :: cache_control where
  "cache_control_default = \<lparr>cc_public = True, cc_max_age = 0\<rparr>"

definition merge_max_age :: "int \<Rightarrow> int \<Rightarrow> int" where
  "merge_max_age a b =
     (if a = -1 then -1 else if b = -1 then -1 else if b = 0 then a else if a = 0 then b
      else min a b)"

definition cc_merge :: "cache_control \<Rightarrow> cache_control \<Rightarrow> cache_control" where
  "cc_merge self other =
     \<lparr>cc_public = (cc_public self \<and> cc_public other),
      cc_max_age = merge_max_age (cc_max_age self) (cc_max_age other)\<rparr>"

subsection \<open>Metadata of types\<close>

typedecl request_context

type_synonym visible_fn = "request_context \<Rightarrow> bool"

type_synonym compute_complexity_fn =
  "variables option \<Rightarrow> variable_definition positioned list \<Rightarrow> field \<Rightarrow> 64 word \<Rightarrow>
   server_error + 64 word"

type_synonym scalar_validator_fn = "const_value \<Rightarrow> bool"

record meta_directive_invocation =
  mdi_name :: string
  mdi_args :: "(string, const_value) index_map"

datatype deprecation = NoDeprecated | Deprecated "string option"

record meta_input_value =
  miv_name :: string
  miv_description :: "string option"
  miv_ty :: string
  miv_deprecation :: deprecation
  miv_default_value :: "string option"
  miv_visible :: "visible_fn option"
  miv_inaccessible :: bool
  miv_tags :: "string list"
  miv_is_secret :: bool
  miv_directive_invocations :: "meta_directive_invocation list"

record meta_field =
  mf_name :: string
  mf_description :: "string option"
  mf_args :: "(string, meta_input_value) index_map"
  mf_ty :: string
  mf_deprecation :: deprecation
  mf_cache_control :: cache_control
  mf_external :: bool
  mf_requires :: "string option"
  mf_provides :: "string option"
  mf_visible :: "visible_fn option"
  mf_shareable :: bool
  mf_inaccessible :: bool
  mf_tags :: "string list"
  mf_override_from :: "string option"
  mf_compute_complexity :: "compute_complexity_fn option"
  mf_directive_invocations :: "meta_directive_invocation list"
  mf_requires_scopes :: "string list"

record meta_enum_value =
  mev_name :: string
  mev_description :: "string option"
  mev_deprecation :: deprecation
  mev_visible :: "visible_fn option"
  mev_inaccessible :: bool
  mev_tags :: "string list"
  mev_directive_invocations :: "meta_directive_invocation list"

record scalar_type =
  sc_name :: string
  sc_description :: "string option"
  sc_is_valid :: "scalar_validator_fn option"
  sc_visible :: "visible_fn option"
  sc_inaccessible :: bool
  sc_tags :: "string list"
  sc_specified_by_url :: "string option"
  sc_directive_invocations :: "meta_directive_invocation list"
  sc_requires_scopes :: "string list"

record object_type =
  ob_name :: string
  ob_description :: "string option"
  ob_fields :: "(string, meta_field) index_map"
  ob_cache_control :: cache_control
  ob_extends :: bool
  ob_shareable :: bool
  ob_resolvable :: bool
  ob_keys :: "string list option"
  ob_visible :: "visible_fn option"
  ob_inaccessible :: bool
  ob_interface_object :: bool
  ob_tags :: "string list"
  ob_is_subscription :: bool
  ob_rust_typename :: "string option"
  ob_directive_invocations :: "meta_directive_invocation list"
  ob_requires_scopes :: "string list"

record interface_type =
  it_name :: string
  it_description :: "string option"
  it_fields :: "(string, meta_field) index_map"
  it_possible_types :: "string list"
  it_extends :: bool
  it_keys :: "string list option"
  it_visible :: "visible_fn option"
  it_inaccessible :: bool
  it_tags :: "string list"
  it_rust_typename :: "string option"
  it_directive_invocations :: "meta_directive_invocation list"
  it_requires_scopes :: "string list"

record union_type =
  un_name :: string
  un_description :: "string option"
  un_possible_types :: "string list"
  un_visible :: "visible_fn option"
  un_inaccessible :: bool
  un_tags :: "string list"
  un_rust_typename :: "string option"
  un_directive_invocations :: "meta_directive_invocation list"

record enum_type =
  en_name :: string
  en_description :: "string option"
  en_enum_values :: "(string, meta_enum_value) index_map"
  en_visible :: "visible_fn option"
  en_inaccessible :: bool
  en_tags :: "string list"
  en_rust_typename :: "string option"
  en_directive_invocations :: "meta_directive_invocation list"
  en_requires_scopes :: "string list"

record input_object_type =
  io_name :: string
  io_description :: "string option"
  io_input_fields :: "(string, meta_input_value) index_map"
  io_visible :: "visible_fn option"
  io_inaccessible :: bool
  io_tags :: "string list"
  io_rust_typename :: "string option"
  io_oneof :: bool
  io_directive_invocations :: "meta_directive_invocation list"

datatype meta_type =
    MScalar scalar_type
  | MObject object_type
  | MInterface interface_type
  | MUnion union_type
  | MEnum enum_type
  | MInputObject input_object_type


datatype meta_type_id = TIScalar | TIObject | TIInterface | TIUnion | TIEnum | TIInputObject

fun meta_type_id_str :: "meta_type_id \<Rightarrow> string" where
  "meta_type_id_str TIScalar = ''Scalar''"
| "meta_type_id_str TIObject = ''Object''"
| "meta_type_id_str TIInterface = ''Interface''"
| "meta_type_id_str TIUnion = ''Union''"
| "meta_type_id_str TIEnum = ''Enum''"
| "meta_type_id_str TIInputObject = ''InputObject''"

fun create_fake_type :: "meta_type_id \<Rightarrow> string \<Rightarrow> meta_type" where
  "create_fake_type TIScalar rust_typename = MScalar
     \<lparr>sc_name = [], sc_description = None, sc_is_valid = None, sc_visible = None,
      sc_inaccessible = False, sc_tags = [], sc_specified_by_url = None,
      sc_directive_invocations = [], sc_requires_scopes = []\<rparr>"
| "create_fake_type TIObject rust_typename = MObject
     \<lparr>ob_name = [], ob_description = None, ob_fields = [],
      ob_cache_control = cache_control_default, ob_extends = False, ob_shareable = False,
      ob_resolvable = True, ob_keys = None, ob_visible = None, ob_inaccessible = False,
      ob_interface_object = False, ob_tags = [], ob_is_subscription = False,
      ob_rust_typename = Some rust_typename, ob_directive_invocations = [],
      ob_requires_scopes = []\<rparr>"
| "create_fake_type TIInterface rust_typename = MInterface
     \<lparr>it_name = [], it_description = None, it_fields = [], it_possible_types = [],
      it_extends = False, it_keys = None, it_visible = None, it_inaccessible = False,
      it_tags = [], it_rust_typename = Some rust_typename, it_directive_invocations = [],
      it_requires_scopes = []\<rparr>"
| "create_fake_type TIUnion rust_typename = MUnion
     \<lparr>un_name = [], un_description = None, un_possible_types = [], un_visible = None,
      un_inaccessible = False, un_tags = [], un_rust_typename = Some rust_typename,
      un_directive_invocations = []\<rparr>"
| "create_fake_type TIEnum rust_typename = MEnum
     \<lparr>en_name = [], en_description = None, en_enum_values = [], en_visible = None,
      en_inaccessible = False, en_tags = [], en_rust_typename = Some rust_typename,
      en_directive_invocations = [], en_requires_scopes = []\<rparr>"
| "create_fake_type TIInputObject rust_typename = MInputObject
     \<lparr>io_name = [], io_description = None, io_input_fields = [], io_visible = None,
      io_inaccessible = False, io_tags = [], io_rust_typename = Some rust_typename,
      io_oneof = False, io_directive_invocations = []\<rparr>"

fun type_id :: "meta_type \<Rightarrow> meta_type_id" where
  "type_id (MScalar _) = TIScalar"
| "type_id (MObject _) = TIObject"
| "type_id (MInterface _) = TIInterface"
| "type_id (MUnion _) = TIUnion"
| "type_id (MEnum _) = TIEnum"
| "type_id (MInputObject _) = TIInputObject"

fun mt_fields :: "meta_type \<Rightarrow> (string, meta_field) index_map option" where
  "mt_fields (MObject ty) = Some (ob_fields ty)"
| "mt_fields (MInterface ty) = Some (it_fields ty)"
| "mt_fields _ = None"

definition field_by_name :: "meta_type \<Rightarrow> string \<Rightarrow> meta_field option" where
  "field_by_name ty n = Option.bind (mt_fields ty) (\<lambda>fields. im_get fields n)"

definition is_visible :: "request_context \<Rightarrow> visible_fn option \<Rightarrow> bool" where
  "is_visible ctx visible = (case visible of Some f \<Rightarrow> f ctx | None \<Rightarrow> True)"

fun mt_visible :: "meta_type \<Rightarrow> visible_fn option" where
  "mt_visible (MScalar ty) = sc_visible ty"
| "mt_visible (MObject ty) = ob_visible ty"
| "mt_visible (MInterface ty) = it_visible ty"
| "mt_visible (MUnion ty) = un_visible ty"
| "mt_visible (MEnum ty) = en_visible ty"
| "mt_visible (MInputObject ty) = io_visible ty"

definition mt_is_visible :: "meta_type \<Rightarrow> request_context \<Rightarrow> bool" where
  "mt_is_visible ty ctx = is_visible ctx (mt_visible ty)"

fun mt_name :: "meta_type \<Rightarrow> string" where
  "mt_name (MScalar ty) = sc_name ty"
| "mt_name (MObject ty) = ob_name ty"
| "mt_name (MInterface ty) = it_name ty"
| "mt_name (MUnion ty) = un_name ty"
| "mt_name (MEnum ty) = en_name ty"
| "mt_name (MInputObject ty) = io_name ty"

fun is_composite :: "meta_type \<Rightarrow> bool" where
  "is_composite (MObject _) = True"
| "is_composite (MInterface _) = True"
| "is_composite (MUnion _) = True"
| "is_composite _ = False"

fun is_abstract :: "meta_type \<Rightarrow> bool" where
  "is_abstract (MInterface _) = True"
| "is_abstract (MUnion _) = True"
| "is_abstract _ = False"

fun is_leaf :: "meta_type \<Rightarrow> bool" where
  "is_leaf (MEnum _) = True"
| "is_leaf (MScalar _) = True"
| "is_leaf _ = False"

fun is_input :: "meta_type \<Rightarrow> bool" where
  "is_input (MEnum _) = True"
| "is_input (MScalar _) = True"
| "is_input (MInputObject _) = True"
| "is_input _ = False"

fun is_possible_type :: "meta_type \<Rightarrow> string \<Rightarrow> bool" where
  "is_possible_type (MInterface ty) type_name = (type_name \<in> set (it_possible_types ty))"
| "is_possible_type (MUnion ty) type_name = (type_name \<in> set (un_possible_types ty))"
| "is_possible_type (MObject ty) type_name = (ob_name ty = type_name)"
| "is_possible_type _ type_name = False"

fun possible_types :: "meta_type \<Rightarrow> string list option" where
  "possible_types (MInterface ty) = Some (it_possible_types ty)"
| "possible_types (MUnion ty) = Some (un_possible_types ty)"
| "possible_types _ = None"

text \<open>
  \<open>type_overlap\<close> first asks whether its arguments are the same object of the registry
  (\<open>std::ptr::eq\<close>); the types it is called on come out of the registry's map, in which a
  name has one type, so that the same object means the same name.
\<close>

definition type_overlap :: "meta_type \<Rightarrow> meta_type \<Rightarrow> bool" where
  "type_overlap self ty =
     (if mt_name self = mt_name ty then True
      else case (is_abstract self, is_abstract ty) of
        (True, True) \<Rightarrow>
          (case possible_types self of
             Some types \<Rightarrow> list_ex (\<lambda>type_name. is_possible_type ty type_name) types
           | None \<Rightarrow> False)
      | (True, False) \<Rightarrow> is_possible_type self (mt_name ty)
      | (False, True) \<Rightarrow> is_possible_type ty (mt_name self)
      | (False, False) \<Rightarrow> False)"

fun mt_rust_typename :: "meta_type \<Rightarrow> string option" where
  "mt_rust_typename (MScalar _) = None"
| "mt_rust_typename (MObject ty) = ob_rust_typename ty"
| "mt_rust_typename (MInterface ty) = it_rust_typename ty"
| "mt_rust_typename (MUnion ty) = un_rust_typename ty"
| "mt_rust_typename (MEnum ty) = en_rust_typename ty"
| "mt_rust_typename (MInputObject ty) = io_rust_typename ty"

subsection \<open>The registry\<close>

datatype directive_location =
    LQUERY | LMUTATION | LSUBSCRIPTION | LFIELD | LFRAGMENT_DEFINITION | LFRAGMENT_SPREAD
  | LINLINE_FRAGMENT | LVARIABLE_DEFINITION | LSCHEMA | LSCALAR | LOBJECT | LFIELD_DEFINITION
  | LARGUMENT_DEFINITION | LINTERFACE | LUNION | LENUM | LENUM_VALUE | LINPUT_OBJECT
  | LINPUT_FIELD_DEFINITION

fun directive_location_str :: "directive_location \<Rightarrow> string" where
  "directive_location_str LQUERY = ''QUERY''"
| "directive_location_str LMUTATION = ''MUTATION''"
| "directive_location_str LSUBSCRIPTION = ''SUBSCRIPTION''"
| "directive_location_str LFIELD = ''FIELD''"
| "directive_location_str LFRAGMENT_DEFINITION = ''FRAGMENT_DEFINITION''"
| "directive_location_str LFRAGMENT_SPREAD = ''FRAGMENT_SPREAD''"
| "directive_location_str LINLINE_FRAGMENT = ''INLINE_FRAGMENT''"
| "directive_location_str LVARIABLE_DEFINITION = ''VARIABLE_DEFINITION''"
| "directive_location_str LSCHEMA = ''SCHEMA''"
| "directive_location_str LSCALAR = ''SCALAR''"
| "directive_location_str LOBJECT = ''OBJECT''"
| "directive_location_str LFIELD_DEFINITION = ''FIELD_DEFINITION''"
| "directive_location_str LARGUMENT_DEFINITION = ''ARGUMENT_DEFINITION''"
| "directive_location_str LINTERFACE = ''INTERFACE''"
| "directive_location_str LUNION = ''UNION''"
| "directive_location_str LENUM = ''ENUM''"
| "directive_location_str LENUM_VALUE = ''ENUM_VALUE''"
| "directive_location_str LINPUT_OBJECT = ''INPUT_OBJECT''"
| "directive_location_str LINPUT_FIELD_DEFINITION = ''INPUT_FIELD_DEFINITION''"

record meta_directive =
  md_name :: string
  md_description :: "string option"
  md_locations :: "directive_location list"
  md_args :: "(string, meta_input_value) index_map"
  md_is_repeatable :: bool
  md_visible :: "visible_fn option"
  md_composable :: "string option"

datatype introspection_mode = IntrospectionOnly | IntrospectionEnabled | IntrospectionDisabled

record registry =
  types :: "(string, meta_type) index_map"
  directives :: "(string, meta_directive) index_map"
  implements :: "(string, string list) index_map"
  query_type :: string
  mutation_type :: "string option"
  subscription_type :: "string option"
  introspection_mode :: introspection_mode
  enable_federation :: bool
  federation_subscription :: bool
  ignore_name_conflicts :: "string list"
  enable_suggestions :: bool

text \<open>
  \<open>create_type\<close>: \<open>Inl\<close> is a panic with its message. The closure \<open>f\<close> receives the registry in
  which the name already has a fake type.
\<close>

definition create_type ::
  "(registry \<Rightarrow> meta_type \<times> registry) \<Rightarrow> string \<Rightarrow> string \<Rightarrow> meta_type_id \<Rightarrow> registry \<Rightarrow>
   string + registry" where
  "create_type f n rust_typename tid reg =
     (case im_get (types reg) n of
        Some ty \<Rightarrow>
          (case mt_rust_typename ty of
             Some prev_typename \<Rightarrow>
               if prev_typename = ''__fake_type__'' then Inr reg
               else if rust_typename \<noteq> prev_typename \<and> n \<notin> set (ignore_name_conflicts reg) then
                 Inl (''`'' @ prev_typename @ ''` and `'' @ rust_typename @
                      ''` have the same GraphQL name `'' @ n @ ''`'')
               else if type_id ty \<noteq> tid then
                 Inl (''Register `'' @ n @ ''` as `'' @ meta_type_id_str tid @
                      ''`, but it is already registered as `'' @ meta_type_id_str (type_id ty) @
                      ''`'')
               else Inr reg
           | None \<Rightarrow> Inr reg)
      | None \<Rightarrow>
          let reg = reg\<lparr>types := im_insert n (create_fake_type tid rust_typename) (types reg)\<rparr>;
              (ty, reg) = f reg
          in case im_get (types reg) n of
               None \<Rightarrow> Inl ''called `Option::unwrap()` on a `None` value''
             | Some _ \<Rightarrow> Inr (reg\<lparr>types := im_insert n ty (types reg)\<rparr>))"

definition add_directive :: "meta_directive \<Rightarrow> registry \<Rightarrow> registry" where
  "add_directive directive reg =
     reg\<lparr>directives := im_insert (md_name directive) directive (directives reg)\<rparr>"

definition add_implements :: "string \<Rightarrow> string \<Rightarrow> registry \<Rightarrow> registry" where
  "add_implements ty interface reg =
     reg\<lparr>implements :=
       im_insert ty
         (case im_get (implements reg) ty of
            Some interfaces \<Rightarrow> (if interface \<in> set interfaces then interfaces
                                 else interfaces @ [interface])
          | None \<Rightarrow> [interface])
         (implements reg)\<rparr>"

definition push_key :: "string \<Rightarrow> string list option \<Rightarrow> string list option" where
  "push_key key all_keys = (case all_keys of Some ks \<Rightarrow> Some (ks @ [key]) | None \<Rightarrow> Some [key])"

definition add_keys :: "string \<Rightarrow> string \<Rightarrow> registry \<Rightarrow> registry" where
  "add_keys ty key reg =
     (case im_get (types reg) ty of
        Some (MObject t) \<Rightarrow>
          reg\<lparr>types := im_insert ty (MObject (t\<lparr>ob_keys := push_key key (ob_keys t)\<rparr>)) (types reg)\<rparr>
      | Some (MInterface t) \<Rightarrow>
          reg\<lparr>types := im_insert ty (MInterface (t\<lparr>it_keys := push_key key (it_keys t)\<rparr>)) (types reg)\<rparr>
      | _ \<Rightarrow> reg)"

definition concrete_type_by_name :: "registry \<Rightarrow> string \<Rightarrow> meta_type option" where
  "concrete_type_by_name reg type_name = im_get (types reg) (concrete_typename type_name)"

fun concrete_type_by_parsed_type :: "registry \<Rightarrow> gtype \<Rightarrow> meta_type option" and
    concrete_type_by_base_type :: "registry \<Rightarrow> base_type \<Rightarrow> meta_type option" where
  "concrete_type_by_parsed_type reg (GType b n) = concrete_type_by_base_type reg b"
| "concrete_type_by_base_type reg (BNamed n) = im_get (types reg) n"
| "concrete_type_by_base_type reg (BList ty) = concrete_type_by_parsed_type reg ty"

definition has_entities :: "registry \<Rightarrow> bool" where
  "has_entities reg =
     list_ex (\<lambda>(_, ty). case ty of
         MObject t \<Rightarrow> (case ob_keys t of Some keys \<Rightarrow> ob_resolvable t \<and> keys \<noteq> [] | None \<Rightarrow> False)
       | MInterface t \<Rightarrow> (case it_keys t of Some keys \<Rightarrow> keys \<noteq> [] | None \<Rightarrow> False)
       | _ \<Rightarrow> False) (types reg)"

definition starts_with :: "string \<Rightarrow> string \<Rightarrow> bool" where
  "starts_with s pre = (take (length pre) s = pre)"

definition is_system_type :: "string \<Rightarrow> bool" where
  "is_system_type n =
     (if starts_with n ''__'' then True
      else n = ''Boolean'' \<or> n = ''Int'' \<or> n = ''Float'' \<or> n = ''String'' \<or> n = ''ID'')"

subsection \<open>Lemmas on type names\<close>

lemma create_bang: "create (s @ ''!'') = TNonNull s"
  by (simp add: create_def)

lemma create_base_type_str:
  "wf_base_type b \<Longrightarrow>
   create (base_type_str b) = (case b of BNamed n \<Rightarrow> TNamed n | BList ty \<Rightarrow> TList (type_str ty))"
  by (cases b) (simp_all add: create_def strip_brackets_def base_type_str_no_bang
      strip_prefix_plain strip_suffix_plain strip_suffix_bang_list)

lemma create_type_str:
  "wf_type (GType b n) \<Longrightarrow>
   create (type_str (GType b n)) =
     (if \<not> n then TNonNull (base_type_str b)
      else case b of BNamed n \<Rightarrow> TNamed n | BList ty \<Rightarrow> TList (type_str ty))"
  by (simp add: create_base_type_str create_bang)

lemma not_strip_brackets_panics:
  "wf_base_type b \<Longrightarrow> \<not> strip_brackets_panics (base_type_str b)"
  by (cases b) (simp_all add: strip_brackets_panics_def strip_prefix_plain)

lemma concrete_typename_base_type_str:
  "wf_base_type b \<Longrightarrow> concrete_typename (base_type_str b) = base_type_base_name b"
  and concrete_typename_type_str:
  "wf_type t \<Longrightarrow> concrete_typename (type_str t) = type_base_name t"
proof (induction b and t)
  case (GType b n)
  then show ?case
    by (cases n)
       (simp_all add: concrete_typename.simps [of "base_type_str b @ _"] create_bang)
next
  case (BNamed n)
  then show ?case
    using create_base_type_str [of "BNamed n"] by (simp add: concrete_typename.simps)
next
  case (BList t)
  then show ?case
    using create_base_type_str [of "BList t"]
    by (simp add: concrete_typename.simps [of "CHR ''['' # _"])
qed


text \<open>
  What the GraphQL specification asks of a variable of type \<open>v\<close> in a position of type \<open>l\<close>
  (AreTypesCompatible), and where \<open>is_subtype\<close> is stricter: at every list level the two types
  must agree on nullability.
\<close>

fun types_compatible :: "gtype \<Rightarrow> gtype \<Rightarrow> bool" and
    base_types_compatible :: "base_type \<Rightarrow> base_type \<Rightarrow> bool" where
  "types_compatible (GType v vn) (GType l ln) \<longleftrightarrow> (vn \<longrightarrow> ln) \<and> base_types_compatible v l"
| "base_types_compatible (BNamed a) (BNamed b) \<longleftrightarrow> a = b"
| "base_types_compatible (BList a) (BList b) \<longleftrightarrow> types_compatible a b"
| "base_types_compatible _ _ \<longleftrightarrow> False"

fun list_levels_agree :: "gtype \<Rightarrow> gtype \<Rightarrow> bool" where
  "list_levels_agree (GType (BList a) n) (GType (BList b) m) \<longleftrightarrow> n = m \<and> list_levels_agree a b"
| "list_levels_agree _ _ \<longleftrightarrow> True"

lemma is_subtype_type_str:
  "wf_type v \<Longrightarrow> wf_type l \<Longrightarrow>
   is_subtype (create (type_str l)) (create (type_str v)) \<longleftrightarrow>
   types_compatible v l \<and> list_levels_agree v l"
proof (induction v l rule: list_levels_agree.induct, goal_cases)
  case (1 a n b m)
  then show ?case
    using create_base_type_str [of "BList a"] create_base_type_str [of "BList b"]
    by (cases n; cases m) (simp_all add: create_type_str del: type_str.simps)
next
  case (2 a n l)
  obtain lb m where l: "l = GType lb m" by (cases l)
  then show ?case
    using 2 create_base_type_str [of "BNamed a"] create_base_type_str [of lb]
    by (cases n; cases m; cases lb) (auto simp add: create_type_str simp del: type_str.simps)
next
  case (3 v a m)
  obtain vb n where v: "v = GType vb n" by (cases v)
  then show ?case
    using 3 create_base_type_str [of "BNamed a"] create_base_type_str [of vb]
    by (cases n; cases m; cases vb) (auto simp add: create_type_str simp del: type_str.simps)
qed

lemma is_list_base_type_str:
  "wf_base_type b \<Longrightarrow> (\<And>n. b = BNamed n \<Longrightarrow> n = [] \<or> last n \<noteq> CHR '']'') \<Longrightarrow>
   is_list (create (base_type_str b)) \<longleftrightarrow> (\<exists>t. b = BList t)"
  by (cases b) (auto simp: create_base_type_str simp del: base_type_str.simps)

subsection \<open>Lemmas on cache control\<close>

lemma merge_max_age_comm: "merge_max_age a b = merge_max_age b a"
  by (simp add: merge_max_age_def min_def)

lemma merge_max_age_assoc:
  "merge_max_age (merge_max_age a b) c = merge_max_age a (merge_max_age b c)"
  by (simp add: merge_max_age_def min_def)

lemma merge_max_age_idem [simp]: "merge_max_age a a = a"
  by (simp add: merge_max_age_def)

lemma merge_max_age_neutral [simp]: "merge_max_age a 0 = a" "merge_max_age 0 a = a"
  by (simp_all add: merge_max_age_def)

interpretation cc: semilattice_neutr cc_merge cache_control_default
proof
  fix a b c :: cache_control
  show "cc_merge (cc_merge a b) c = cc_merge a (cc_merge b c)"
    by (simp add: cc_merge_def merge_max_age_assoc conj_assoc)
  show "cc_merge a b = cc_merge b a"
    by (simp add: cc_merge_def merge_max_age_comm conj_commute)
  show "cc_merge a a = a" by (simp add: cc_merge_def)
  show "cc_merge a cache_control_default = a"
    by (simp add: cc_merge_def cache_control_default_def)
qed

subsection \<open>Well-formed registries\<close>

text \<open>A registry maps each name to one type, and to a type of that name: what \<open>BTreeMap\<close> and
  the registration of types provide.\<close>

definition wf_registry :: "registry \<Rightarrow> bool" where
  "wf_registry reg \<longleftrightarrow> im_ok (types reg) \<and> list_all (\<lambda>(n, ty). mt_name ty = n) (types reg)"

lemma wf_registry_mt_name:
  "wf_registry reg \<Longrightarrow> map_of (types reg) n = Some ty \<Longrightarrow> mt_name ty = n"
  by (auto simp: wf_registry_def list_all_iff dest!: map_of_SomeD)

lemma add_keys_names: "map fst (types (add_keys ty key reg)) = map fst (types reg)"
  by (auto simp: add_keys_def update_keys split: option.splits meta_type.splits
      dest!: map_of_SomeD intro!: image_eqI [where x = "(ty, _)"])

end
