(* ===== verification/Visitor.thy ===== *)
theory Visitor
  imports Meta_Registry
begin

text \<open>
  The traversal of a document: \<open>src/validation/visitor.rs\<close>.

  \<^item> The trait \<open>Visitor\<close> is a record of a mode and one function \<open>v_call\<close>; which method is
    called, and with which arguments, is a \<open>visitor_call\<close>. A method that a visitor does not
    override leaves the context and the state unchanged.
  \<^item> \<open>VisitorContext\<close> is a record. Its two stacks are kept with the top first.
  \<^item> Each \<open>visit_\<close> function of the source is the function of the same name here. In inline mode
    a fragment spread continues in the fragment's selection set, which need not be smaller, and
    a document with a spread cycle makes the source recurse until the stack overflows: the
    functions take the number of nested spreads they may enter, and exceeding it is the failure
    \<open>OutOfFuel\<close>. Indexing the registry with the name of a missing root type panics.
\<close>

subsection \<open>Context\<close>

text \<open>
  A \<open>RuleError\<close>. \<open>RulePanic\<close> is not a value of the source: it stands for a rule that panics, which
  unwinds the traversal. It is kept among the errors, and \<open>check_rules\<close> fails with it.
\<close>

datatype rule_error = RuleError "pos list" string | RulePanic string

record visitor_ctx =
  vc_registry :: registry
  vc_variables :: "variables option"
  vc_errors :: "rule_error list"
  vc_type_stack :: "meta_type option list"
  vc_input_type :: "meta_type_name option list"
  vc_fragments :: fragments

definition visitor_ctx_new ::
  "registry \<Rightarrow> executable_document \<Rightarrow> variables option \<Rightarrow> visitor_ctx" where
  "visitor_ctx_new reg doc vars =
     \<lparr>vc_registry = reg, vc_variables = vars, vc_errors = [], vc_type_stack = [],
      vc_input_type = [], vc_fragments = doc_fragments doc\<rparr>"

definition report_error :: "pos list \<Rightarrow> string \<Rightarrow> visitor_ctx \<Rightarrow> visitor_ctx" where
  "report_error locations msg ctx =
     ctx\<lparr>vc_errors := vc_errors ctx @ [RuleError locations msg]\<rparr>"

definition append_errors :: "rule_error list \<Rightarrow> visitor_ctx \<Rightarrow> visitor_ctx" where
  "append_errors errors ctx = ctx\<lparr>vc_errors := vc_errors ctx @ errors\<rparr>"

definition parent_type :: "visitor_ctx \<Rightarrow> meta_type option" where
  "parent_type ctx = (case vc_type_stack ctx of _ # ty # _ \<Rightarrow> ty | _ \<Rightarrow> None)"

definition current_type :: "visitor_ctx \<Rightarrow> meta_type option" where
  "current_type ctx = (case vc_type_stack ctx of ty # _ \<Rightarrow> ty | [] \<Rightarrow> None)"

definition is_known_fragment :: "visitor_ctx \<Rightarrow> name \<Rightarrow> bool" where
  "is_known_fragment ctx n = im_contains (vc_fragments ctx) n"

definition ctx_fragment :: "visitor_ctx \<Rightarrow> name \<Rightarrow> fragment_definition positioned option" where
  "ctx_fragment ctx n = im_get (vc_fragments ctx) n"

text \<open>
  \<open>param_value\<close>: an argument of a field as a value of the Rust type \<open>T\<close>. \<open>T::parse\<close> with the
  conversion of its error is the parameter \<open>parse\<close>, \<open>Pos::default()\<close> is line 0, column 0.
\<close>

definition param_value ::
  "(const_value option \<Rightarrow> pos \<Rightarrow> server_error + 't) \<Rightarrow> variables option \<Rightarrow>
   variable_definition positioned list \<Rightarrow> field \<Rightarrow> name \<Rightarrow> 't option \<Rightarrow> server_error + 't" where
  "param_value parse vars variable_definitions field n dflt =
     (let value = get_argument (f_arguments field) n
      in case (value, dflt) of
           (None, Some d) \<Rightarrow> Inr d
         | (None, None) \<Rightarrow> parse None (Pos 0 0)
         | (Some value, _) \<Rightarrow>
             let p = pos value
             in bind_result
                  (into_const_with (node value) (\<lambda>n.
                     let found =
                       Option.bind (find (\<lambda>def. node (vd_name (node def)) = n) variable_definitions)
                         (\<lambda>def. case vars of
                            Some vars \<Rightarrow>
                              (case im_get vars (node (vd_name (node def))) of
                                 Some v \<Rightarrow> Some v
                               | None \<Rightarrow> vd_default (node def))
                          | None \<Rightarrow> None)
                     in case found of
                          Some v \<Rightarrow> Inr v
                        | None \<Rightarrow> Inl (server_error_new
                            (''Variable '' @ n @ '' is not defined.'') (Some p))))
                  (\<lambda>c. parse (Some c) p))"

subsection \<open>Visitors\<close>

datatype visit_mode = ModeNormal | ModeInline

datatype visitor_call =
    EnterDocument executable_document
  | ExitDocument executable_document
  | EnterOperationDefinition "name option" "operation_definition positioned"
  | ExitOperationDefinition "name option" "operation_definition positioned"
  | EnterFragmentDefinition name "fragment_definition positioned"
  | ExitFragmentDefinition name "fragment_definition positioned"
  | EnterVariableDefinition "variable_definition positioned"
  | ExitVariableDefinition "variable_definition positioned"
  | EnterDirective "directive positioned"
  | ExitDirective "directive positioned"
  | EnterArgument "name positioned" "gvalue positioned"
  | ExitArgument "name positioned" "gvalue positioned"
  | EnterSelectionSet "selection_set positioned"
  | ExitSelectionSet "selection_set positioned"
  | EnterSelection "selection positioned"
  | ExitSelection "selection positioned"
  | EnterField "field positioned"
  | ExitField "field positioned"
  | EnterFragmentSpread "fragment_spread positioned"
  | ExitFragmentSpread "fragment_spread positioned"
  | EnterInlineFragment "inline_fragment positioned"
  | ExitInlineFragment "inline_fragment positioned"
  | EnterInputValue pos "meta_type_name option" gvalue
  | ExitInputValue pos "meta_type_name option" gvalue

record 's visitor =
  v_mode :: visit_mode
  v_call :: "visitor_call \<Rightarrow> visitor_ctx \<Rightarrow> 's \<Rightarrow> visitor_ctx \<times> 's"

definition visitor_nil :: "unit visitor" where
  "visitor_nil = \<lparr>v_mode = ModeNormal, v_call = (\<lambda>c ctx s. (ctx, s))\<rparr>"

text \<open>
  \<open>VisitorCons\<close> overrides every method of the trait but \<open>enter_input_value\<close> and
  \<open>exit_input_value\<close>, which keep the default: do nothing.
\<close>

fun is_input_value_call :: "visitor_call \<Rightarrow> bool" where
  "is_input_value_call (EnterInputValue _ _ _) = True"
| "is_input_value_call (ExitInputValue _ _ _) = True"
| "is_input_value_call _ = False"

definition visitor_cons :: "'a visitor \<Rightarrow> 'b visitor \<Rightarrow> ('a \<times> 'b) visitor" where
  "visitor_cons A B =
     \<lparr>v_mode = v_mode A,
      v_call = (\<lambda>c ctx (a, b).
        if is_input_value_call c then (ctx, (a, b))
        else let (ctx, a) = v_call A c ctx a; (ctx, b) = v_call B c ctx b in (ctx, (a, b)))\<rparr>"

subsection \<open>Traversal\<close>

datatype visit_failure = OutOfFuel | Panic string

type_synonym 's vstate = "visitor_ctx \<times> 's"
type_synonym 's vres = "visit_failure + 's vstate"

definition call :: "'s visitor \<Rightarrow> visitor_call \<Rightarrow> 's vstate \<Rightarrow> 's vstate" where
  "call v c st = v_call v c (fst st) (snd st)"

definition map_ctx :: "(visitor_ctx \<Rightarrow> visitor_ctx) \<Rightarrow> 's vstate \<Rightarrow> 's vstate" where
  "map_ctx f st = (f (fst st), snd st)"

definition push_type :: "meta_type option \<Rightarrow> visitor_ctx \<Rightarrow> visitor_ctx" where
  "push_type ty ctx = ctx\<lparr>vc_type_stack := ty # vc_type_stack ctx\<rparr>"

definition pop_type :: "visitor_ctx \<Rightarrow> visitor_ctx" where
  "pop_type ctx = ctx\<lparr>vc_type_stack := tl (vc_type_stack ctx)\<rparr>"

definition with_type :: "meta_type option \<Rightarrow> ('s vstate \<Rightarrow> 's vres) \<Rightarrow> 's vstate \<Rightarrow> 's vres" where
  "with_type ty f st = map_ok (map_ctx pop_type) (f (map_ctx (push_type ty) st))"

definition with_input_type ::
  "meta_type_name option \<Rightarrow> ('s vstate \<Rightarrow> 's vstate) \<Rightarrow> 's vstate \<Rightarrow> 's vstate" where
  "with_input_type ty f st =
     map_ctx (\<lambda>ctx. ctx\<lparr>vc_input_type := tl (vc_input_type ctx)\<rparr>)
       (f (map_ctx (\<lambda>ctx. ctx\<lparr>vc_input_type := ty # vc_input_type ctx\<rparr>) st))"

lemma with_type_cong [fundef_cong]:
  "ty = ty' \<Longrightarrow> st = st' \<Longrightarrow> (\<And>st. f st = f' st) \<Longrightarrow> with_type ty f st = with_type ty' f' st'"
  by (simp add: with_type_def)

primrec fold_result :: "('a \<Rightarrow> 's \<Rightarrow> 'e + 's) \<Rightarrow> 'a list \<Rightarrow> 's \<Rightarrow> 'e + 's" where
  "fold_result f [] s = Inr s"
| "fold_result f (x # xs) s = bind_result (f x s) (fold_result f xs)"

lemma fold_result_cong [fundef_cong]:
  "xs = ys \<Longrightarrow> s = t \<Longrightarrow> (\<And>x s. x \<in> set ys \<Longrightarrow> f x s = g x s) \<Longrightarrow>
   fold_result f xs s = fold_result g ys t"
  by (induction ys arbitrary: xs s t) (auto simp: bind_result_def split: sum.splits)

fun visit_input_value ::
  "'s visitor \<Rightarrow> pos \<Rightarrow> meta_type_name option \<Rightarrow> gvalue \<Rightarrow> 's vstate \<Rightarrow> 's vstate" where
  "visit_input_value v p expected_ty (VList values) st =
     (let value = VList values;
          st = call v (EnterInputValue p expected_ty value) st;
          st = (case expected_ty of
                  Some ty \<Rightarrow>
                    (case unwrap_non_null ty of
                       TList ty \<Rightarrow>
                         fold (\<lambda>value. visit_input_value v p (Some (create ty)) value) values st
                     | _ \<Rightarrow> st)
                | None \<Rightarrow> st)
      in call v (ExitInputValue p expected_ty value) st)"
| "visit_input_value v p expected_ty (VObject values) st =
     (let value = VObject values;
          st = call v (EnterInputValue p expected_ty value) st;
          st = (case expected_ty of
                  Some ty \<Rightarrow>
                    (case unwrap_non_null ty of
                       TNamed ty \<Rightarrow>
                         (case im_get (types (vc_registry (fst st))) (concrete_typename ty) of
                            Some (MInputObject io) \<Rightarrow>
                              fold (\<lambda>(item_key, item_value) st.
                                case im_get (io_input_fields io) item_key of
                                  Some input_value \<Rightarrow>
                                    visit_input_value v p (Some (create (miv_ty input_value)))
                                      item_value st
                                | None \<Rightarrow> st) values st
                          | _ \<Rightarrow> st)
                     | _ \<Rightarrow> st)
                | None \<Rightarrow> st)
      in call v (ExitInputValue p expected_ty value) st)"
| "visit_input_value v p expected_ty value st =
     call v (ExitInputValue p expected_ty value) (call v (EnterInputValue p expected_ty value) st)"

definition visit_variable_definitions ::
  "'s visitor \<Rightarrow> variable_definition positioned list \<Rightarrow> 's vstate \<Rightarrow> 's vstate" where
  "visit_variable_definitions v variable_definitions =
     fold (\<lambda>d st. call v (ExitVariableDefinition d) (call v (EnterVariableDefinition d) st))
       variable_definitions"

text \<open>The body of the loops over arguments in \<open>visit_field\<close> and \<open>visit_directives\<close>.\<close>

definition visit_argument ::
  "'s visitor \<Rightarrow> pos \<Rightarrow> (visitor_ctx \<Rightarrow> name \<Rightarrow> meta_input_value option) \<Rightarrow>
   name positioned \<times> gvalue positioned \<Rightarrow> 's vstate \<Rightarrow> 's vstate" where
  "visit_argument v p schema_arg arg st =
     (let (n, value) = arg;
          st = call v (EnterArgument n value) st;
          expected_ty = map_option (\<lambda>input_ty. create (miv_ty input_ty)) (schema_arg (fst st) (node n));
          st = with_input_type expected_ty (visit_input_value v p expected_ty (node value)) st
      in call v (ExitArgument n value) st)"

definition directive_arg :: "directive \<Rightarrow> visitor_ctx \<Rightarrow> name \<Rightarrow> meta_input_value option" where
  "directive_arg d ctx n =
     Option.bind (im_get (directives (vc_registry ctx)) (node (d_name d)))
       (\<lambda>schema_directive. im_get (md_args schema_directive) n)"

definition field_arg :: "field \<Rightarrow> visitor_ctx \<Rightarrow> name \<Rightarrow> meta_input_value option" where
  "field_arg field ctx n =
     Option.bind (parent_type ctx) (\<lambda>ty.
       Option.bind (field_by_name ty (node (f_name field))) (\<lambda>schema_field.
         im_get (mf_args schema_field) n))"

definition visit_directives ::
  "'s visitor \<Rightarrow> directive positioned list \<Rightarrow> 's vstate \<Rightarrow> 's vstate" where
  "visit_directives v ds =
     fold (\<lambda>d st.
       let st = call v (EnterDirective d) st;
           st = fold (visit_argument v (pos d) (directive_arg (node d))) (d_arguments (node d)) st
       in call v (ExitDirective d) st) ds"


definition is_subscription_type :: "meta_type \<Rightarrow> bool" where
  "is_subscription_type ty = (case ty of MObject t \<Rightarrow> ob_is_subscription t | _ \<Rightarrow> False)"

definition field_type :: "visitor_ctx \<Rightarrow> field \<Rightarrow> meta_type option" where
  "field_type ctx field =
     Option.bind (current_type ctx) (\<lambda>ty.
       Option.bind (field_by_name ty (node (f_name field))) (\<lambda>schema_field.
         concrete_type_by_name (vc_registry ctx) (mf_ty schema_field)))"

lemma size_selection [termination_simp]:
  "sel \<in> set (ss_items ss) \<Longrightarrow> size (node sel) < size ss"
  by (cases ss; cases sel) (fastforce dest: size_list_estimation' [where f = "size_positioned size"])

lemma size_positioned_node: "size_positioned f x = Suc (f (node x))"
  by (cases x) simp

lemma size_nested [termination_simp]:
  "size (node (f_selection_set field)) < size field"
  "size (node (if_selection_set frag)) < size frag"
  by (cases field; simp add: size_positioned_node; fail) (cases frag; simp add: size_positioned_node)

function (sequential)
  visit_selection_set ::
    "nat \<Rightarrow> 's visitor \<Rightarrow> selection_set positioned \<Rightarrow> 's vstate \<Rightarrow> 's vres" and
  visit_selection ::
    "nat \<Rightarrow> 's visitor \<Rightarrow> selection positioned \<Rightarrow> 's vstate \<Rightarrow> 's vres" and
  visit_field ::
    "nat \<Rightarrow> 's visitor \<Rightarrow> field positioned \<Rightarrow> 's vstate \<Rightarrow> 's vres" and
  visit_fragment_spread ::
    "nat \<Rightarrow> 's visitor \<Rightarrow> fragment_spread positioned \<Rightarrow> 's vstate \<Rightarrow> 's vres" and
  visit_inline_fragment ::
    "nat \<Rightarrow> 's visitor \<Rightarrow> inline_fragment positioned \<Rightarrow> 's vstate \<Rightarrow> 's vres" where
  "visit_selection_set n v ss st =
     (if ss_items (node ss) = [] then Inr st
      else map_ok (call v (ExitSelectionSet ss))
             (fold_result (visit_selection n v) (ss_items (node ss))
               (call v (EnterSelectionSet ss) st)))"
| "visit_selection n v (Positioned p sel) st =
     map_ok (call v (ExitSelection (Positioned p sel)))
       (let st = call v (EnterSelection (Positioned p sel)) st
        in case sel of
             Field field \<Rightarrow>
               if node (f_name (node field)) \<noteq> ''__typename'' then
                 with_type (field_type (fst st) (node field)) (visit_field n v field) st
               else if map_option is_subscription_type (current_type (fst st)) = Some True then
                 Inr (map_ctx (report_error [pos field]
                   ''Unknown field \"__typename\" on type \"Subscription\".'') st)
               else Inr st
           | FragmentSpread fragment_spread \<Rightarrow> visit_fragment_spread n v fragment_spread st
           | InlineFragment inline_fragment \<Rightarrow>
               (case if_type_condition (node inline_fragment) of
                  Some cond \<Rightarrow>
                    with_type (im_get (types (vc_registry (fst st))) (node (tc_on (node cond))))
                      (visit_inline_fragment n v inline_fragment) st
                | None \<Rightarrow> visit_inline_fragment n v inline_fragment st))"
| "visit_field n v field st =
     map_ok (call v (ExitField field))
       (let st = call v (EnterField field) st;
            st = fold (visit_argument v (pos field) (field_arg (node field)))
                   (f_arguments (node field)) st;
            st = visit_directives v (f_directives (node field)) st
        in visit_selection_set n v (f_selection_set (node field)) st)"
| "visit_fragment_spread n v fragment_spread st =
     map_ok (call v (ExitFragmentSpread fragment_spread))
       (let st = call v (EnterFragmentSpread fragment_spread) st;
            st = visit_directives v (fs_directives (node fragment_spread)) st
        in if v_mode v = ModeInline then
             (case im_get (vc_fragments (fst st))
                     (node (fs_fragment_name (node fragment_spread))) of
                Some fragment \<Rightarrow>
                  (case n of
                     0 \<Rightarrow> Inl OutOfFuel
                   | Suc n \<Rightarrow> visit_selection_set n v (fd_selection_set (node fragment)) st)
              | None \<Rightarrow> Inr st)
           else Inr st)"
| "visit_inline_fragment n v inline_fragment st =
     map_ok (call v (ExitInlineFragment inline_fragment))
       (let st = call v (EnterInlineFragment inline_fragment) st;
            st = visit_directives v (if_directives (node inline_fragment)) st
        in visit_selection_set n v (if_selection_set (node inline_fragment)) st)"
  by pat_completeness auto


termination
  by (relation "measures
       [case_sum (case_sum fst fst) (case_sum fst (case_sum fst fst)),
        case_sum
          (case_sum (\<lambda>(_, _, x, _). size (node x)) (\<lambda>(_, _, x, _). size (node x)))
          (case_sum (\<lambda>(_, _, x, _). size (node x))
            (case_sum (\<lambda>_. 0) (\<lambda>(_, _, x, _). size (node x)))),
        case_sum (\<lambda>_. 1) (case_sum (\<lambda>_. 1) (case_sum (\<lambda>_. 0) (\<lambda>_. 1)))]")
     (auto simp: termination_simp size_positioned_node)

declare visit_selection_set.simps [simp del] visit_selection.simps [simp del]
  visit_field.simps [simp del] visit_fragment_spread.simps [simp del]
  visit_inline_fragment.simps [simp del]

lemmas visit_simps = visit_selection_set.simps visit_selection.simps visit_field.simps
  visit_fragment_spread.simps visit_inline_fragment.simps

definition visit_fragment_definition ::
  "nat \<Rightarrow> 's visitor \<Rightarrow> name \<Rightarrow> fragment_definition positioned \<Rightarrow> 's vstate \<Rightarrow> 's vres" where
  "visit_fragment_definition n v fragment_name fragment st =
     (if v_mode v = ModeNormal then
        map_ok (call v (ExitFragmentDefinition fragment_name fragment))
          (let st = call v (EnterFragmentDefinition fragment_name fragment) st;
               st = visit_directives v (fd_directives (node fragment)) st
           in visit_selection_set n v (fd_selection_set (node fragment)) st)
      else Inr st)"

fun operation_type_str :: "operation_type \<Rightarrow> string" where
  "operation_type_str Query = ''query''"
| "operation_type_str Mutation = ''mutation''"
| "operation_type_str Subscription = ''subscription''"

fun root_name :: "registry \<Rightarrow> operation_type \<Rightarrow> string option" where
  "root_name reg Query = Some (query_type reg)"
| "root_name reg Mutation = mutation_type reg"
| "root_name reg Subscription = subscription_type reg"

definition visit_operation_definition ::
  "nat \<Rightarrow> 's visitor \<Rightarrow> name option \<Rightarrow> operation_definition positioned \<Rightarrow> 's vstate \<Rightarrow> 's vres" where
  "visit_operation_definition n v op_name operation st =
     map_ok (call v (ExitOperationDefinition op_name operation))
       (let st = call v (EnterOperationDefinition op_name operation) st
        in case root_name (vc_registry (fst st)) (od_ty (node operation)) of
             Some root \<Rightarrow>
               (case im_get (types (vc_registry (fst st))) root of
                  Some ty \<Rightarrow>
                    with_type (Some ty) (\<lambda>st.
                      let st = visit_variable_definitions v
                                 (od_variable_definitions (node operation)) st;
                          st = visit_directives v (od_directives (node operation)) st
                      in visit_selection_set n v (od_selection_set (node operation)) st) st
                | None \<Rightarrow> Inl (Panic ''no entry found for key''))
           | None \<Rightarrow>
               Inr (map_ctx (report_error [pos operation]
                 (''Schema is not configured for '' @ operation_type_str (od_ty (node operation)) @
                  ''s.'')) st))"

definition visit :: "nat \<Rightarrow> 's visitor \<Rightarrow> executable_document \<Rightarrow> 's vstate \<Rightarrow> 's vres" where
  "visit n v doc st =
     map_ok (call v (ExitDocument doc))
       (bind_result
         (fold_result (\<lambda>(fragment_name, fragment) st.
            with_type (im_get (types (vc_registry (fst st)))
                (node (tc_on (node (fd_type_condition (node fragment))))))
              (visit_fragment_definition n v fragment_name fragment) st)
            (doc_fragments doc) (call v (EnterDocument doc) st))
         (fold_result (\<lambda>(op_name, operation). visit_operation_definition n v op_name operation)
            (operations_iter (doc_operations doc))))"

fun rule_error_into_server_error :: "rule_error \<Rightarrow> server_error" where
  "rule_error_into_server_error (RuleError locations message) =
     \<lparr>se_message = message, se_locations = locations, se_path = [], se_extensions = None\<rparr>"
| "rule_error_into_server_error (RulePanic message) = server_error_new message None"

end
