(* ===== verification/Visitor_Trace.thy ===== *)
theory Visitor_Trace
  imports Visitor "HOL-Library.Multiset"
begin

text \<open>
  What a traversal amounts to.

  The rules rely on the traversal only through the calls they receive, and the traversal relies
  on the rules only in that they report errors and keep the rest of the context. The second is
  the locale \<open>rule_visitor\<close>. Under it, \<open>visit\<close> is a replay of the \<^emph>\<open>trace\<close> of the document: the
  sequence of calls, each with the context its receiver sees, which depends on the document and
  the registry alone (\<open>visit_replay\<close>). \<open>VisitorCons\<close> of two such visitors is one, and its errors
  and state on a trace are those of its parts on the same trace without the calls it drops
  (\<open>outcome_cons\<close>).
\<close>

subsection \<open>Traces\<close>

definition clear :: "visitor_ctx \<Rightarrow> visitor_ctx" where
  "clear ctx = ctx\<lparr>vc_errors := []\<rparr>"

datatype event = Call visitor_call visitor_ctx | Report rule_error

fun trace_input_value ::
  "visitor_ctx \<Rightarrow> pos \<Rightarrow> meta_type_name option \<Rightarrow> gvalue \<Rightarrow> event list" where
  "trace_input_value env p expected_ty (VList values) =
     Call (EnterInputValue p expected_ty (VList values)) env #
     (case expected_ty of
        Some ty \<Rightarrow>
          (case unwrap_non_null ty of
             TList ty \<Rightarrow> concat (map (trace_input_value env p (Some (create ty))) values)
           | _ \<Rightarrow> [])
      | None \<Rightarrow> []) @
     [Call (ExitInputValue p expected_ty (VList values)) env]"
| "trace_input_value env p expected_ty (VObject values) =
     Call (EnterInputValue p expected_ty (VObject values)) env #
     (case expected_ty of
        Some ty \<Rightarrow>
          (case unwrap_non_null ty of
             TNamed ty \<Rightarrow>
               (case im_get (types (vc_registry env)) (concrete_typename ty) of
                  Some (MInputObject io) \<Rightarrow>
                    concat (map (\<lambda>(k, value).
                      case im_get (io_input_fields io) k of
                        Some input_value \<Rightarrow>
                          trace_input_value env p (Some (create (miv_ty input_value))) value
                      | None \<Rightarrow> []) values)
                | _ \<Rightarrow> [])
           | _ \<Rightarrow> [])
      | None \<Rightarrow> []) @
     [Call (ExitInputValue p expected_ty (VObject values)) env]"
| "trace_input_value env p expected_ty value =
     [Call (EnterInputValue p expected_ty value) env, Call (ExitInputValue p expected_ty value) env]"

definition trace_argument ::
  "pos \<Rightarrow> (visitor_ctx \<Rightarrow> name \<Rightarrow> meta_input_value option) \<Rightarrow> visitor_ctx \<Rightarrow>
   name positioned \<times> gvalue positioned \<Rightarrow> event list" where
  "trace_argument p schema_arg env arg =
     (let (n, value) = arg;
          ty = map_option (\<lambda>input_ty. create (miv_ty input_ty)) (schema_arg env (node n))
      in [Call (EnterArgument n value) env] @
         trace_input_value (env\<lparr>vc_input_type := ty # vc_input_type env\<rparr>) p ty (node value) @
         [Call (ExitArgument n value) env])"

definition trace_directive :: "visitor_ctx \<Rightarrow> directive positioned \<Rightarrow> event list" where
  "trace_directive env d =
     [Call (EnterDirective d) env] @
     concat (map (trace_argument (pos d) (directive_arg (node d)) env) (d_arguments (node d))) @
     [Call (ExitDirective d) env]"

definition trace_directives :: "visitor_ctx \<Rightarrow> directive positioned list \<Rightarrow> event list" where
  "trace_directives env ds = concat (map (trace_directive env) ds)"

function (sequential)
  trace_selection_set ::
    "nat \<Rightarrow> visit_mode \<Rightarrow> visitor_ctx \<Rightarrow> selection_set positioned \<Rightarrow> visit_failure + event list" and
  trace_selection ::
    "nat \<Rightarrow> visit_mode \<Rightarrow> visitor_ctx \<Rightarrow> selection positioned \<Rightarrow> visit_failure + event list" and
  trace_field ::
    "nat \<Rightarrow> visit_mode \<Rightarrow> visitor_ctx \<Rightarrow> field positioned \<Rightarrow> visit_failure + event list" and
  trace_fragment_spread ::
    "nat \<Rightarrow> visit_mode \<Rightarrow> visitor_ctx \<Rightarrow> fragment_spread positioned \<Rightarrow> visit_failure + event list" and
  trace_inline_fragment ::
    "nat \<Rightarrow> visit_mode \<Rightarrow> visitor_ctx \<Rightarrow> inline_fragment positioned \<Rightarrow> visit_failure + event list" where
  "trace_selection_set n m env ss =
     (if ss_items (node ss) = [] then Inr []
      else map_ok (\<lambda>evs. Call (EnterSelectionSet ss) env # concat evs @ [Call (ExitSelectionSet ss) env])
             (map_result (trace_selection n m env) (ss_items (node ss))))"
| "trace_selection n m env (Positioned p sel) =
     map_ok (\<lambda>evs. Call (EnterSelection (Positioned p sel)) env # evs @
                    [Call (ExitSelection (Positioned p sel)) env])
       (case sel of
          Field field \<Rightarrow>
            if node (f_name (node field)) \<noteq> ''__typename'' then
              trace_field n m (push_type (field_type env (node field)) env) field
            else if map_option is_subscription_type (current_type env) = Some True then
              Inr [Report (RuleError [pos field]
                ''Unknown field \"__typename\" on type \"Subscription\".'')]
            else Inr []
        | FragmentSpread fragment_spread \<Rightarrow> trace_fragment_spread n m env fragment_spread
        | InlineFragment inline_fragment \<Rightarrow>
            (case if_type_condition (node inline_fragment) of
               Some cond \<Rightarrow>
                 trace_inline_fragment n m
                   (push_type (im_get (types (vc_registry env)) (node (tc_on (node cond)))) env)
                   inline_fragment
             | None \<Rightarrow> trace_inline_fragment n m env inline_fragment))"
| "trace_field n m env field =
     map_ok (\<lambda>evs. Call (EnterField field) env #
        concat (map (trace_argument (pos field) (field_arg (node field)) env) (f_arguments (node field))) @
        trace_directives env (f_directives (node field)) @ evs @ [Call (ExitField field) env])
       (trace_selection_set n m env (f_selection_set (node field)))"
| "trace_fragment_spread n m env fragment_spread =
     map_ok (\<lambda>evs. Call (EnterFragmentSpread fragment_spread) env #
        trace_directives env (fs_directives (node fragment_spread)) @ evs @
        [Call (ExitFragmentSpread fragment_spread) env])
       (if m = ModeInline then
          (case im_get (vc_fragments env) (node (fs_fragment_name (node fragment_spread))) of
             Some fragment \<Rightarrow>
               (case n of
                  0 \<Rightarrow> Inl OutOfFuel
                | Suc n \<Rightarrow> trace_selection_set n m env (fd_selection_set (node fragment)))
           | None \<Rightarrow> Inr [])
        else Inr [])"
| "trace_inline_fragment n m env inline_fragment =
     map_ok (\<lambda>evs. Call (EnterInlineFragment inline_fragment) env #
        trace_directives env (if_directives (node inline_fragment)) @ evs @
        [Call (ExitInlineFragment inline_fragment) env])
       (trace_selection_set n m env (if_selection_set (node inline_fragment)))"
  by pat_completeness auto
termination
  by (relation "measures
       [case_sum (case_sum fst fst) (case_sum fst (case_sum fst fst)),
        case_sum
          (case_sum (\<lambda>(_, _, _, x). size (node x)) (\<lambda>(_, _, _, x). size (node x)))
          (case_sum (\<lambda>(_, _, _, x). size (node x))
            (case_sum (\<lambda>_. 0) (\<lambda>(_, _, _, x). size (node x)))),
        case_sum (\<lambda>_. 1) (case_sum (\<lambda>_. 1) (case_sum (\<lambda>_. 0) (\<lambda>_. 1)))]")
     (auto simp: termination_simp size_positioned_node)

declare trace_selection_set.simps [simp del] trace_selection.simps [simp del]
  trace_field.simps [simp del] trace_fragment_spread.simps [simp del]
  trace_inline_fragment.simps [simp del]

lemmas trace_simps = trace_selection_set.simps trace_selection.simps trace_field.simps
  trace_fragment_spread.simps trace_inline_fragment.simps

definition trace_variable_definitions ::
  "visitor_ctx \<Rightarrow> variable_definition positioned list \<Rightarrow> event list" where
  "trace_variable_definitions env defs =
     concat (map (\<lambda>d. [Call (EnterVariableDefinition d) env, Call (ExitVariableDefinition d) env]) defs)"

definition trace_fragment_definition ::
  "nat \<Rightarrow> visit_mode \<Rightarrow> visitor_ctx \<Rightarrow> name \<times> fragment_definition positioned \<Rightarrow>
   visit_failure + event list" where
  "trace_fragment_definition n m env frag =
     (let (k, fragment) = frag;
          env = push_type (im_get (types (vc_registry env))
                  (node (tc_on (node (fd_type_condition (node fragment)))))) env
      in if m = ModeNormal then
           map_ok (\<lambda>evs. Call (EnterFragmentDefinition k fragment) env #
               trace_directives env (fd_directives (node fragment)) @ evs @
               [Call (ExitFragmentDefinition k fragment) env])
             (trace_selection_set n m env (fd_selection_set (node fragment)))
         else Inr [])"

definition trace_operation_definition ::
  "nat \<Rightarrow> visit_mode \<Rightarrow> visitor_ctx \<Rightarrow> name option \<times> operation_definition positioned \<Rightarrow>
   visit_failure + event list" where
  "trace_operation_definition n m env oper =
     (let (k, operation) = oper
      in map_ok (\<lambda>evs. Call (EnterOperationDefinition k operation) env # evs @
             [Call (ExitOperationDefinition k operation) env])
           (case root_name (vc_registry env) (od_ty (node operation)) of
              Some root \<Rightarrow>
                (case im_get (types (vc_registry env)) root of
                   Some ty \<Rightarrow>
                     let env = push_type (Some ty) env
                     in map_ok (\<lambda>evs.
                          trace_variable_definitions env (od_variable_definitions (node operation)) @
                          trace_directives env (od_directives (node operation)) @ evs)
                        (trace_selection_set n m env (od_selection_set (node operation)))
                 | None \<Rightarrow> Inl (Panic ''no entry found for key''))
            | None \<Rightarrow>
                Inr [Report (RuleError [pos operation]
                  (''Schema is not configured for '' @ operation_type_str (od_ty (node operation)) @
                   ''s.''))]))"

definition trace ::
  "nat \<Rightarrow> visit_mode \<Rightarrow> visitor_ctx \<Rightarrow> executable_document \<Rightarrow> visit_failure + event list" where
  "trace n m env doc =
     bind_result (map_result (trace_fragment_definition n m env) (doc_fragments doc)) (\<lambda>frags.
     bind_result (map_result (trace_operation_definition n m env)
       (operations_iter (doc_operations doc))) (\<lambda>ops.
     Inr (Call (EnterDocument doc) env # concat frags @ concat ops @ [Call (ExitDocument doc) env])))"


subsection \<open>The contract of a visitor\<close>

definition emits :: "'s visitor \<Rightarrow> visitor_call \<Rightarrow> visitor_ctx \<Rightarrow> 's \<Rightarrow> rule_error list" where
  "emits v c env s = vc_errors (fst (v_call v c (clear env) s))"

definition nextst :: "'s visitor \<Rightarrow> visitor_call \<Rightarrow> visitor_ctx \<Rightarrow> 's \<Rightarrow> 's" where
  "nextst v c env s = snd (v_call v c (clear env) s)"

fun step :: "'s visitor \<Rightarrow> event \<Rightarrow> 's vstate \<Rightarrow> 's vstate" where
  "step v (Call c env) st =
     (append_errors (emits v c env (snd st)) (fst st), nextst v c env (snd st))"
| "step v (Report e) st = map_ctx (append_errors [e]) st"

definition replay :: "'s visitor \<Rightarrow> event list \<Rightarrow> 's vstate \<Rightarrow> 's vstate" where
  "replay v evs st = fold (step v) evs st"

text \<open>A call reports errors, independently of those already reported, and changes nothing else
  of the context.\<close>

locale rule_visitor =
  fixes v :: "'s visitor"
  assumes frame:
    "v_call v c ctx s = (append_errors (emits v c ctx s) ctx, nextst v c ctx s)"

lemma clear_simps [simp]:
  "clear (clear ctx) = clear ctx"
  "clear (append_errors errs ctx) = clear ctx"
  "clear (push_type ty ctx) = push_type ty (clear ctx)"
  "clear (pop_type ctx) = pop_type (clear ctx)"
  "clear (ctx\<lparr>vc_input_type := is\<rparr>) = (clear ctx)\<lparr>vc_input_type := is\<rparr>"
  "vc_registry (clear ctx) = vc_registry ctx"
  "vc_fragments (clear ctx) = vc_fragments ctx"
  "vc_variables (clear ctx) = vc_variables ctx"
  "vc_type_stack (clear ctx) = vc_type_stack ctx"
  "vc_input_type (clear ctx) = vc_input_type ctx"
  "vc_errors (clear ctx) = []"
  "current_type (clear ctx) = current_type ctx"
  "parent_type (clear ctx) = parent_type ctx"
  "field_type (clear ctx) fld = field_type ctx fld"
  "directive_arg d (clear ctx) = directive_arg d ctx"
  "field_arg fld (clear ctx) = field_arg fld ctx"
  by (simp_all add: clear_def append_errors_def push_type_def pop_type_def current_type_def
      parent_type_def field_type_def directive_arg_def [abs_def] field_arg_def [abs_def])

lemma emits_clear [simp]: "emits v c (clear env) s = emits v c env s"
  by (simp add: emits_def)

lemma emits_append_errors [simp]: "emits v c (append_errors errs env) s = emits v c env s"
  by (simp add: emits_def)

lemma nextst_append_errors [simp]: "nextst v c (append_errors errs env) s = nextst v c env s"
  by (simp add: nextst_def)

lemma nextst_clear [simp]: "nextst v c (clear env) s = nextst v c env s"
  by (simp add: nextst_def)

lemma append_errors_simps [simp]:
  "append_errors [] ctx = ctx"
  "append_errors ys (append_errors xs ctx) = append_errors (xs @ ys) ctx"
  "vc_errors (append_errors xs ctx) = vc_errors ctx @ xs"
  "pop_type (append_errors xs (push_type ty ctx)) = append_errors xs ctx"
  by (simp_all add: append_errors_def pop_type_def push_type_def)

lemma pop_push [simp]: "pop_type (push_type ty ctx) = ctx"
  by (simp add: pop_type_def push_type_def)

lemma replay_simps [simp]:
  "replay v [] st = st"
  "replay v (e # evs) st = replay v evs (step v e st)"
  "replay v (evs @ evs') st = replay v evs' (replay v evs st)"
  by (simp_all add: replay_def)

lemma step_frame:
  "\<exists>errs s'. step v e (ctx, s) = (append_errors errs ctx, s') \<and>
     (\<forall>ctx. step v e (ctx, s) = (append_errors errs ctx, s'))"
  by (cases e) (auto simp: map_ctx_def)

text \<open>What a replay does to the state and which errors it adds does not depend on the context it
  starts in.\<close>

lemma replay_frame:
  "\<exists>errs s'. \<forall>ctx. replay v evs (ctx, s) = (append_errors errs ctx, s')"
proof (induction evs arbitrary: s)
  case Nil
  show ?case by (rule exI [of _ "[]"]) simp
next
  case (Cons e evs)
  obtain errs s' where e: "\<And>ctx. step v e (ctx, s) = (append_errors errs ctx, s')"
    using step_frame [of v e _ s] by blast
  obtain errs' s'' where "\<And>ctx. replay v evs (ctx, s') = (append_errors errs' ctx, s'')"
    using Cons [of s'] by blast
  then show ?case using e by (intro exI [of _ "errs @ errs'"] exI [of _ s'']) simp
qed

lemma clear_step [simp]: "clear (fst (step v e st)) = clear (fst st)"
  using step_frame [of v e "fst st" "snd st"] by auto

lemma clear_replay [simp]: "clear (fst (replay v evs st)) = clear (fst st)"
  by (induction evs arbitrary: st) simp_all

lemma replay_map_ctx:
  assumes "\<And>errs ctx. g (append_errors errs (f ctx)) = append_errors errs ctx"
  shows "map_ctx g (replay v evs (map_ctx f st)) = replay v evs st"
  using replay_frame [of v evs "snd st"] assms by (cases st) (force simp: map_ctx_def)

lemma replay_pushed: "map_ctx pop_type (replay v evs (map_ctx (push_type ty) st)) = replay v evs st"
  by (rule replay_map_ctx) simp

lemma replay_fold:
  assumes "\<And>x st. x \<in> set xs \<Longrightarrow> clear (fst st) = env \<Longrightarrow> f x st = replay v (T x) st"
  shows "clear (fst st) = env \<Longrightarrow> fold f xs st = replay v (concat (map T xs)) st"
  using assms by (induction xs arbitrary: st) simp_all

lemma replay_fold_result:
  assumes "\<And>x st. x \<in> set xs \<Longrightarrow> clear (fst st) = env \<Longrightarrow>
    f x st = map_ok (\<lambda>evs. replay v evs st) (T x)"
  shows "clear (fst st) = env \<Longrightarrow>
    fold_result f xs st = map_ok (\<lambda>evs. replay v (concat evs) st) (map_result T xs)"
  using assms
proof (induction xs arbitrary: st)
  case (Cons x xs)
  show ?case
  proof (cases "T x")
    case (Inr evs)
    have "fold_result f xs (replay v evs st) =
        map_ok (\<lambda>evs'. replay v (concat evs') (replay v evs st)) (map_result T xs)"
      by (rule Cons.IH) (use Cons.prems in auto)
    then show ?thesis using Cons.prems Inr by (cases "map_result T xs") simp_all
  qed (use Cons.prems in simp)
qed simp


declare step.simps [simp del]

lemma report_step:
  "map_ctx (report_error locs msg) st = step v (Report (RuleError locs msg)) st"
  by (simp add: step.simps map_ctx_def report_error_def append_errors_def)

lemma step_env [simp]:
  "vc_registry (fst (step v e st)) = vc_registry (fst st)"
  "vc_fragments (fst (step v e st)) = vc_fragments (fst st)"
  "current_type (fst (step v e st)) = current_type (fst st)"
  "field_type (fst (step v e st)) = field_type (fst st)"
  by (metis clear_step clear_simps ext)+

lemma replay_env [simp]:
  "vc_registry (fst (replay v evs st)) = vc_registry (fst st)"
  "vc_fragments (fst (replay v evs st)) = vc_fragments (fst st)"
  by (metis clear_replay clear_simps)+

context rule_visitor
begin

lemma call_step [simp]: "call v c st = step v (Call c (clear (fst st))) st"
  by (cases st) (simp add: call_def frame step.simps)

lemma visit_input_value_replay:
  "clear (fst st) = env \<Longrightarrow>
   visit_input_value v p ty val st = replay v (trace_input_value env p ty val) st"
proof (induction val arbitrary: ty st)
  case (VList vals)
  have "fold (\<lambda>val. visit_input_value v p (Some (create e)) val) vals st =
      replay v (concat (map (trace_input_value env p (Some (create e))) vals)) st"
    if "clear (fst st) = env" for e st
    using that by (rule replay_fold [where env = env, rotated]) (use VList.IH in blast)
  then show ?case
    using VList.prems by (simp add: Let_def split: option.splits meta_type_name.splits)
next
  case (VObject vals)
  have "fold (\<lambda>(k, val) st. case map_of (io_input_fields io) k of
        Some i \<Rightarrow> visit_input_value v p (Some (create (miv_ty i))) val st | None \<Rightarrow> st) vals st =
      replay v (concat (map (\<lambda>(k, val). case map_of (io_input_fields io) k of
        Some i \<Rightarrow> trace_input_value env p (Some (create (miv_ty i))) val | None \<Rightarrow> []) vals)) st"
    if "clear (fst st) = env" for io :: input_object_type and st
    using that
    by (rule replay_fold [where env = env, rotated])
       (use VObject.IH in \<open>auto split: option.splits prod.splits\<close>)
  moreover have "vc_registry (fst (step v e st)) = vc_registry env" for e
    using VObject.prems clear_step [of v e st] by (metis clear_simps(6))
  ultimately show ?case
    using VObject.prems
    by (simp add: Let_def split: option.splits meta_type_name.splits meta_type.splits)
qed simp_all

lemma visit_argument_replay:
  assumes "clear (fst st) = env" and "\<And>ctx. schema_arg (clear ctx) = schema_arg ctx"
  shows "visit_argument v p schema_arg arg st = replay v (trace_argument p schema_arg env arg) st"
proof -
  have sa: "schema_arg (fst (step v e st)) = schema_arg env" for e
    using assms clear_step [of v e st] by metis
  have "map_ctx (\<lambda>ctx. ctx\<lparr>vc_input_type := tl (vc_input_type ctx)\<rparr>)
     (replay v evs (map_ctx (\<lambda>ctx. ctx\<lparr>vc_input_type := ty # vc_input_type ctx\<rparr>) st)) =
     replay v evs st" for evs ty st
    by (rule replay_map_ctx) (simp add: append_errors_def)
  moreover have "visit_input_value v p ty val (map_ctx (\<lambda>ctx. ctx\<lparr>vc_input_type := ty # vc_input_type ctx\<rparr>) st) =
     replay v (trace_input_value (env\<lparr>vc_input_type := ty # vc_input_type env\<rparr>) p ty val)
       (map_ctx (\<lambda>ctx. ctx\<lparr>vc_input_type := ty # vc_input_type ctx\<rparr>) st)"
    if "clear (fst st) = env" for ty val st
    using that by (intro visit_input_value_replay) (auto simp: map_ctx_def)
  ultimately show ?thesis
    using assms(1)
    by (simp add: visit_argument_def trace_argument_def Let_def with_input_type_def sa
        split: prod.splits)
qed

lemma visit_directives_replay:
  assumes "clear (fst st) = env"
  shows "visit_directives v ds st = replay v (trace_directives env ds) st"
proof -
  have arg: "fold (visit_argument v (pos d) (directive_arg (node d))) (d_arguments (node d)) st =
    replay v (concat (map (trace_argument (pos d) (directive_arg (node d)) env) (d_arguments (node d)))) st"
    if "clear (fst st) = env" for d st
    using that by (rule replay_fold [where env = env, rotated]) (rule visit_argument_replay; simp)
  show ?thesis
    unfolding visit_directives_def trace_directives_def
    using assms
    by (rule replay_fold [where env = env, rotated]) (simp add: trace_directive_def arg Let_def)
qed

lemma map_ok_map_ok: "map_ok f (map_ok g r) = map_ok (\<lambda>x. f (g x)) r"
  by (cases r) simp_all

lemma with_type_replay:
  assumes "f (map_ctx (push_type ty) st) = map_ok (\<lambda>evs. replay v evs (map_ctx (push_type ty) st)) r"
  shows "with_type ty f st = map_ok (\<lambda>evs. replay v evs st) r"
  using assms by (simp add: with_type_def map_ok_map_ok replay_pushed)

lemma enclosed:
  assumes "clear (fst st) = env" and "st1 = replay v pre st"
    and "B = map_ok (\<lambda>evs. replay v evs st1) r"
  shows "map_ok (call v c) B =
    map_ok (\<lambda>evs. replay v evs st) (map_ok (\<lambda>evs. pre @ evs @ [Call c env]) r)"
  using assms by (simp add: map_ok_map_ok)

lemma visit_selection_set_replay:
  "\<forall>st. clear (fst st) = env \<and> m = v_mode v \<longrightarrow>
    visit_selection_set n v ss st = map_ok (\<lambda>evs. replay v evs st) (trace_selection_set n m env ss)"
  and visit_selection_replay:
  "\<forall>st. clear (fst st) = env \<and> m = v_mode v \<longrightarrow>
    visit_selection n v sel st = map_ok (\<lambda>evs. replay v evs st) (trace_selection n m env sel)"
  and visit_field_replay:
  "\<forall>st. clear (fst st) = env \<and> m = v_mode v \<longrightarrow>
    visit_field n v fld st = map_ok (\<lambda>evs. replay v evs st) (trace_field n m env fld)"
  and visit_fragment_spread_replay:
  "\<forall>st. clear (fst st) = env \<and> m = v_mode v \<longrightarrow>
    visit_fragment_spread n v spr st =
      map_ok (\<lambda>evs. replay v evs st) (trace_fragment_spread n m env spr)"
  and visit_inline_fragment_replay:
  "\<forall>st. clear (fst st) = env \<and> m = v_mode v \<longrightarrow>
    visit_inline_fragment n v ifr st =
      map_ok (\<lambda>evs. replay v evs st) (trace_inline_fragment n m env ifr)"
proof (induction n m env ss and n m env sel and n m env fld and n m env spr and n m env ifr
    rule: trace_selection_set_trace_selection_trace_field_trace_fragment_spread_trace_inline_fragment.induct)
  case (1 n m env ss)
  have "fold_result (visit_selection n v) (ss_items (node ss)) st' =
      map_ok (\<lambda>evs. replay v (concat evs) st') (map_result (trace_selection n m env) (ss_items (node ss)))"
    if "clear (fst st') = env" "m = v_mode v" "ss_items (node ss) \<noteq> []" for st'
    using that(1) by (rule replay_fold_result [where env = env, rotated]) (use 1 that in blast)
  then show ?case
    by (auto simp add: visit_selection_set.simps trace_selection_set.simps map_ok_map_ok)
next
  case (2 n m env p sel)
  show ?case
  proof (intro allI impI, elim conjE)
    fix st :: "'s vstate"
    assume st: "clear (fst st) = env" and m: "m = v_mode v"
    define st1 where "st1 = call v (EnterSelection (Positioned p sel)) st"
    have step: "st1 = replay v [Call (EnterSelection (Positioned p sel)) env] st"
      using st by (simp add: st1_def)
    have st1: "clear (fst st1) = env" using st by (simp add: st1_def)
    have push: "clear (fst (map_ctx (push_type ty) st1)) = push_type ty env" for ty
      using st1 by (auto simp: map_ctx_def)
    have env: "vc_registry (fst st1) = vc_registry env" "current_type (fst st1) = current_type env"
      "field_type (fst st1) = field_type env"
      using st1 by (auto simp: fun_eq_iff)
    have body: "(case sel of
        Field field \<Rightarrow>
          if node (f_name (node field)) \<noteq> ''__typename'' then
            with_type (field_type (fst st1) (node field)) (visit_field n v field) st1
          else if map_option is_subscription_type (current_type (fst st1)) = Some True then
            Inr (map_ctx (report_error [pos field]
              ''Unknown field \"__typename\" on type \"Subscription\".'') st1)
          else Inr st1
      | FragmentSpread fragment_spread \<Rightarrow> visit_fragment_spread n v fragment_spread st1
      | InlineFragment inline_fragment \<Rightarrow>
          (case if_type_condition (node inline_fragment) of
             Some cond \<Rightarrow>
               with_type (im_get (types (vc_registry (fst st1))) (node (tc_on (node cond))))
                 (visit_inline_fragment n v inline_fragment) st1
           | None \<Rightarrow> visit_inline_fragment n v inline_fragment st1)) =
      map_ok (\<lambda>evs. replay v evs st1) (case sel of
          Field field \<Rightarrow>
            if node (f_name (node field)) \<noteq> ''__typename'' then
              trace_field n m (push_type (field_type env (node field)) env) field
            else if map_option is_subscription_type (current_type env) = Some True then
              Inr [Report (RuleError [pos field]
                ''Unknown field \"__typename\" on type \"Subscription\".'')]
            else Inr []
        | FragmentSpread fragment_spread \<Rightarrow> trace_fragment_spread n m env fragment_spread
        | InlineFragment inline_fragment \<Rightarrow>
            (case if_type_condition (node inline_fragment) of
               Some cond \<Rightarrow>
                 trace_inline_fragment n m
                   (push_type (im_get (types (vc_registry env)) (node (tc_on (node cond)))) env)
                   inline_fragment
             | None \<Rightarrow> trace_inline_fragment n m env inline_fragment))"
    proof (cases sel)
      case (Field field)
      have "with_type (field_type env (node field)) (visit_field n v field) st1 =
        map_ok (\<lambda>evs. replay v evs st1)
          (trace_field n m (push_type (field_type env (node field)) env) field)"
        if "node (f_name (node field)) \<noteq> ''__typename''"
        by (rule with_type_replay) (use 2(1) [OF Field that] push m in blast)
      then show ?thesis by (auto simp: Field env report_step [where v = v])
    next
      case (FragmentSpread spr)
      then show ?thesis using 2(2) st1 m by (cases st1) simp
    next
      case (InlineFragment ifr)
      show ?thesis
      proof (cases "if_type_condition (node ifr)")
        case None
        then show ?thesis using 2(3) InlineFragment st1 m by (cases st1) simp
      next
        case (Some cond)
        let ?ty = "im_get (types (vc_registry env)) (node (tc_on (node cond)))"
        have "with_type ?ty (visit_inline_fragment n v ifr) st1 =
          map_ok (\<lambda>evs. replay v evs st1) (trace_inline_fragment n m (push_type ?ty env) ifr)"
          by (rule with_type_replay) (use 2(4) [OF InlineFragment Some] push m in blast)
        then show ?thesis by (simp add: InlineFragment Some env)
      qed
    qed
    show "visit_selection n v (Positioned p sel) st =
      map_ok (\<lambda>evs. replay v evs st) (trace_selection n m env (Positioned p sel))"
      unfolding visit_selection.simps trace_selection.simps Let_def st1_def [symmetric]
      using enclosed [OF st step body] by (simp only: append_Cons append_Nil)
  qed
next
  case (3 n m env field)
  have "fold (visit_argument v (pos field) (field_arg (node field))) (f_arguments (node field)) st =
    replay v (concat (map (trace_argument (pos field) (field_arg (node field)) env)
      (f_arguments (node field)))) st" if "clear (fst st) = env" for st
    using that by (rule replay_fold [where env = env, rotated]) (rule visit_argument_replay; simp)
  then show ?case
    using 3 by (simp add: visit_field.simps trace_field.simps Let_def map_ok_map_ok
        visit_directives_replay del: split_paired_All)
next
  case (4 n m env fragment_spread)
  then show ?case
    by (auto simp add: visit_fragment_spread.simps trace_fragment_spread.simps Let_def map_ok_map_ok
        visit_directives_replay simp del: split_paired_All split: option.splits nat.splits)
next
  case (5 n m env inline_fragment)
  then show ?case
    by (simp add: visit_inline_fragment.simps trace_inline_fragment.simps Let_def map_ok_map_ok
        visit_directives_replay del: split_paired_All)
qed

lemma visit_fragment_definition_replay:
  assumes "clear (fst st) = env"
  shows "with_type (im_get (types (vc_registry (fst st)))
      (node (tc_on (node (fd_type_condition (node fragment))))))
      (visit_fragment_definition n v k fragment) st =
    map_ok (\<lambda>evs. replay v evs st) (trace_fragment_definition n (v_mode v) env (k, fragment))"
proof -
  let ?ty = "im_get (types (vc_registry env)) (node (tc_on (node (fd_type_condition (node fragment)))))"
  have "with_type ?ty (visit_fragment_definition n v k fragment) st =
    map_ok (\<lambda>evs. replay v evs st) (trace_fragment_definition n (v_mode v) env (k, fragment))"
  proof (rule with_type_replay)
    have "clear (fst (map_ctx (push_type ?ty) st)) = push_type ?ty env"
      using assms by (auto simp: map_ctx_def)
    then show "visit_fragment_definition n v k fragment (map_ctx (push_type ?ty) st) =
      map_ok (\<lambda>evs. replay v evs (map_ctx (push_type ?ty) st))
        (trace_fragment_definition n (v_mode v) env (k, fragment))"
      by (simp add: visit_fragment_definition_def trace_fragment_definition_def Let_def
          map_ok_map_ok visit_directives_replay visit_selection_set_replay)
  qed
  then show ?thesis using assms by auto
qed

lemma visit_variable_definitions_replay:
  "clear (fst st) = env \<Longrightarrow>
   visit_variable_definitions v defs st = replay v (trace_variable_definitions env defs) st"
  unfolding visit_variable_definitions_def trace_variable_definitions_def
  by (rule replay_fold [where env = env, rotated]) simp_all

lemma visit_operation_definition_replay:
  assumes "clear (fst st) = env"
  shows "visit_operation_definition n v k operation st =
    map_ok (\<lambda>evs. replay v evs st) (trace_operation_definition n (v_mode v) env (k, operation))"
proof -
  define st1 where "st1 = step v (Call (EnterOperationDefinition k operation) env) st"
  have st1: "clear (fst st1) = env" "vc_registry (fst st1) = vc_registry env"
    using assms by (auto simp: st1_def)
  have body: "with_type (Some ty) (\<lambda>st.
      visit_selection_set n v (od_selection_set (node operation))
        (visit_directives v (od_directives (node operation))
          (visit_variable_definitions v (od_variable_definitions (node operation)) st))) st1 =
    map_ok (\<lambda>evs. replay v evs st1)
      (map_ok (\<lambda>evs. trace_variable_definitions (push_type (Some ty) env)
          (od_variable_definitions (node operation)) @
        trace_directives (push_type (Some ty) env) (od_directives (node operation)) @ evs)
      (trace_selection_set n (v_mode v) (push_type (Some ty) env) (od_selection_set (node operation))))"
    for ty
  proof (rule with_type_replay)
    have "clear (fst (map_ctx (push_type (Some ty)) st1)) = push_type (Some ty) env"
      using st1 by (auto simp: map_ctx_def)
    then show "visit_selection_set n v (od_selection_set (node operation))
        (visit_directives v (od_directives (node operation))
          (visit_variable_definitions v (od_variable_definitions (node operation))
            (map_ctx (push_type (Some ty)) st1))) =
      map_ok (\<lambda>evs. replay v evs (map_ctx (push_type (Some ty)) st1))
        (map_ok (\<lambda>evs. trace_variable_definitions (push_type (Some ty) env)
          (od_variable_definitions (node operation)) @
        trace_directives (push_type (Some ty) env) (od_directives (node operation)) @ evs)
      (trace_selection_set n (v_mode v) (push_type (Some ty) env) (od_selection_set (node operation))))"
      by (simp add: map_ok_map_ok visit_directives_replay visit_variable_definitions_replay
          visit_selection_set_replay)
  qed
  show ?thesis
    unfolding visit_operation_definition_def trace_operation_definition_def Let_def
    using st1 assms
    by (auto simp: map_ok_map_ok body report_step [where v = v] simp flip: st1_def
        split: option.splits)
qed

theorem visit_replay:
  assumes "clear (fst st) = env"
  shows "visit n v doc st = map_ok (\<lambda>evs. replay v evs st) (trace n (v_mode v) env doc)"
proof -
  have frags: "fold_result (\<lambda>(k, fragment) st. with_type (im_get (types (vc_registry (fst st)))
      (node (tc_on (node (fd_type_condition (node fragment))))))
      (visit_fragment_definition n v k fragment) st) (doc_fragments doc) st' =
    map_ok (\<lambda>evs. replay v (concat evs) st')
      (map_result (trace_fragment_definition n (v_mode v) env) (doc_fragments doc))"
    if "clear (fst st') = env" for st'
    using that
    by (rule replay_fold_result [where env = env, rotated])
       (auto simp: visit_fragment_definition_replay simp del: im_get_def)
  have ops: "fold_result (\<lambda>(k, operation). visit_operation_definition n v k operation)
      (operations_iter (doc_operations doc)) st' =
    map_ok (\<lambda>evs. replay v (concat evs) st')
      (map_result (trace_operation_definition n (v_mode v) env) (operations_iter (doc_operations doc)))"
    if "clear (fst st') = env" for st'
    using that
    by (rule replay_fold_result [where env = env, rotated])
       (auto simp: visit_operation_definition_replay)
  show ?thesis
    using assms unfolding visit_def trace_def
    by (cases "map_result (trace_fragment_definition n (v_mode v) env) (doc_fragments doc)";
        cases "map_result (trace_operation_definition n (v_mode v) env)
          (operations_iter (doc_operations doc))")
       (simp_all add: frags ops del: im_get_def)
qed

end

subsection \<open>Errors and state after a trace\<close>

fun outcome :: "'s visitor \<Rightarrow> event list \<Rightarrow> 's \<Rightarrow> rule_error list \<times> 's" where
  "outcome v [] s = ([], s)"
| "outcome v (Call c env # evs) s =
     (let (errs, s') = outcome v evs (nextst v c env s) in (emits v c env s @ errs, s'))"
| "outcome v (Report e # evs) s = outcome v evs s"

fun reports :: "event list \<Rightarrow> rule_error list" where
  "reports [] = []"
| "reports (Call c env # evs) = reports evs"
| "reports (Report e # evs) = e # reports evs"

lemma outcome_append:
  "outcome v (evs @ evs') s =
     (fst (outcome v evs s) @ fst (outcome v evs' (snd (outcome v evs s))),
      snd (outcome v evs' (snd (outcome v evs s))))"
  by (induction v evs s rule: outcome.induct) (simp_all add: case_prod_beta)

lemma reports_append [simp]: "reports (evs @ evs') = reports evs @ reports evs'"
  by (induction evs rule: reports.induct) simp_all

lemma replay_outcome_state: "snd (replay v evs st) = snd (outcome v evs (snd st))"
  by (induction evs arbitrary: st rule: reports.induct)
     (simp_all add: step.simps map_ctx_def case_prod_beta)

lemma replay_outcome_errors:
  "mset (vc_errors (fst (replay v evs st))) =
     mset (vc_errors (fst st)) + mset (reports evs) + mset (fst (outcome v evs (snd st)))"
  by (induction evs arbitrary: st rule: reports.induct)
     (simp_all add: step.simps map_ctx_def case_prod_beta)

subsection \<open>Composition\<close>

fun is_input_value_event :: "event \<Rightarrow> bool" where
  "is_input_value_event (Call c env) = is_input_value_call c"
| "is_input_value_event (Report e) = False"

definition seen :: "event list \<Rightarrow> event list" where
  "seen evs = filter (\<lambda>e. \<not> is_input_value_event e) evs"

lemma seen_simps [simp]:
  "seen [] = []"
  "seen (e # evs) = (if is_input_value_event e then seen evs else e # seen evs)"
  "seen (seen evs) = seen evs"
  "seen (evs @ evs') = seen evs @ seen evs'"
  by (simp_all add: seen_def)

lemma reports_seen [simp]: "reports (seen evs) = reports evs"
  by (induction evs rule: reports.induct) simp_all

locale two_visitors = a: rule_visitor A + b: rule_visitor B
  for A :: "'a visitor" and B :: "'b visitor"
begin

lemma call_cons:
  "v_call (visitor_cons A B) c ctx (x, y) =
     (if is_input_value_call c then (ctx, (x, y))
      else (append_errors (emits A c ctx x @ emits B c ctx y) ctx, (nextst A c ctx x, nextst B c ctx y)))"
  by (simp add: visitor_cons_def a.frame b.frame)

lemma emits_cons:
  "emits (visitor_cons A B) c env s =
     (if is_input_value_call c then [] else emits A c env (fst s) @ emits B c env (snd s))"
  by (cases s) (simp add: emits_def [of "visitor_cons A B"] call_cons)

lemma nextst_cons:
  "nextst (visitor_cons A B) c env s =
     (if is_input_value_call c then s else (nextst A c env (fst s), nextst B c env (snd s)))"
  by (cases s) (simp add: nextst_def [of "visitor_cons A B"] call_cons)

lemma outcome_cons_state:
  "snd (outcome (visitor_cons A B) evs s) =
     (snd (outcome A (seen evs) (fst s)), snd (outcome B (seen evs) (snd s)))"
  by (induction evs arbitrary: s rule: reports.induct)
     (auto simp: case_prod_beta nextst_cons)

lemma outcome_cons_errors:
  "mset (fst (outcome (visitor_cons A B) evs s)) =
     mset (fst (outcome A (seen evs) (fst s))) + mset (fst (outcome B (seen evs) (snd s)))"
  by (induction evs arbitrary: s rule: reports.induct)
     (auto simp: case_prod_beta nextst_cons emits_cons)

end

sublocale two_visitors \<subseteq> cons: rule_visitor "visitor_cons A B"
proof
  fix c ctx s
  show "v_call (visitor_cons A B) c ctx s =
    (append_errors (emits (visitor_cons A B) c ctx s) ctx, nextst (visitor_cons A B) c ctx s)"
    by (cases s) (simp add: emits_cons nextst_cons call_cons)
qed

context two_visitors
begin

lemma axioms_cons: "rule_visitor (visitor_cons A B)"
  by unfold_locales

end

interpretation nil: rule_visitor visitor_nil
  by unfold_locales (simp add: visitor_nil_def emits_def nextst_def)

lemma outcome_nil [simp]: "outcome visitor_nil evs s = ([], s)"
  by (induction evs rule: reports.induct) (simp_all add: emits_def nextst_def visitor_nil_def)

lemma rule_visitor_cons [intro!]:
  assumes "rule_visitor A" "rule_visitor B"
  shows "rule_visitor (visitor_cons A B)"
proof -
  have "two_visitors A B" using assms by (simp add: two_visitors_def)
  then show ?thesis by (rule two_visitors.axioms_cons)
qed

subsection \<open>What occurs in a trace\<close>

text \<open>The calls made inside an operation or a fragment, and the contexts they are made with.\<close>

fun inner_call :: "visitor_call \<Rightarrow> bool" where
  "inner_call (EnterDocument _) = False"
| "inner_call (ExitDocument _) = False"
| "inner_call (EnterOperationDefinition _ _) = False"
| "inner_call (ExitOperationDefinition _ _) = False"
| "inner_call (EnterFragmentDefinition _ _) = False"
| "inner_call (ExitFragmentDefinition _ _) = False"
| "inner_call (EnterVariableDefinition _) = False"
| "inner_call (ExitVariableDefinition _) = False"
| "inner_call _ = True"

fun ok_event :: "(visitor_ctx \<Rightarrow> bool) \<Rightarrow> event \<Rightarrow> bool" where
  "ok_event Q (Call c env) \<longleftrightarrow> inner_call c \<and> Q env"
| "ok_event Q (Report e) \<longleftrightarrow> True"

definition registered :: "registry \<Rightarrow> meta_type option \<Rightarrow> bool" where
  "registered reg ty \<longleftrightarrow> (\<forall>t. ty = Some t \<longrightarrow> t \<in> snd ` set (types reg))"

definition env_closed :: "(visitor_ctx \<Rightarrow> bool) \<Rightarrow> bool" where
  "env_closed Q \<longleftrightarrow>
     (\<forall>env ty. Q env \<longrightarrow> registered (vc_registry env) ty \<longrightarrow> Q (push_type ty env)) \<and>
     (\<forall>env is. Q env \<longrightarrow> Q (env\<lparr>vc_input_type := is\<rparr>))"

lemma env_closedD:
  "env_closed Q \<Longrightarrow> Q env \<Longrightarrow> registered (vc_registry env) ty \<Longrightarrow> Q (push_type ty env)"
  "env_closed Q \<Longrightarrow> Q env \<Longrightarrow> Q (env\<lparr>vc_input_type := is\<rparr>)"
  by (auto simp: env_closed_def)

lemma registered_lookup [simp]: "registered reg (map_of (types reg) n)"
  by (auto simp: registered_def dest: map_of_in_set_snd)

lemma registered_field_type [simp]: "registered (vc_registry env) (field_type env fld)"
  by (auto simp: field_type_def registered_def concrete_type_by_name_def bind_eq_Some_conv
      dest: map_of_in_set_snd)

lemma trace_input_value_ok: "Q env \<Longrightarrow> list_all (ok_event Q) (trace_input_value env p ty val)"
proof (induction val arbitrary: ty)
  case (VList xs)
  then show ?case
    by (auto simp: list_all_iff split: option.splits meta_type_name.splits)
next
  case (VObject kvs)
  then show ?case
    by (auto simp: list_all_iff split: option.splits meta_type_name.splits meta_type.splits)
qed (simp_all)

lemma trace_argument_ok:
  "env_closed Q \<Longrightarrow> Q env \<Longrightarrow> list_all (ok_event Q) (trace_argument p sa env arg)"
  by (simp add: trace_argument_def Let_def trace_input_value_ok env_closedD split: prod.splits)

lemma list_all_concat: "list_all P (concat xss) \<longleftrightarrow> list_all (list_all P) xss"
  by (induction xss) simp_all

lemma trace_directives_ok:
  "env_closed Q \<Longrightarrow> Q env \<Longrightarrow> list_all (ok_event Q) (trace_directives env ds)"
  by (simp add: trace_directives_def trace_directive_def list_all_concat list.pred_map o_def
      trace_argument_ok list.pred_True)

lemma map_result_list_all:
  "map_result f xs = Inr evss \<Longrightarrow> \<forall>x\<in>set xs. \<forall>evs. f x = Inr evs \<longrightarrow> list_all P evs \<Longrightarrow>
   list_all P (concat evss)"
  by (induction xs arbitrary: evss) (auto simp: res_simps)

lemma trace_selection_set_ok:
  "env_closed Q \<Longrightarrow> Q env \<Longrightarrow> trace_selection_set n m env ss = Inr evs \<Longrightarrow> list_all (ok_event Q) evs"
  and trace_selection_ok:
  "env_closed Q \<Longrightarrow> Q env \<Longrightarrow> trace_selection n m env sel = Inr evs1 \<Longrightarrow> list_all (ok_event Q) evs1"
  and trace_field_ok:
  "env_closed Q \<Longrightarrow> Q env \<Longrightarrow> trace_field n m env fld = Inr evs2 \<Longrightarrow> list_all (ok_event Q) evs2"
  and trace_fragment_spread_ok:
  "env_closed Q \<Longrightarrow> Q env \<Longrightarrow> trace_fragment_spread n m env spr = Inr evs3 \<Longrightarrow>
     list_all (ok_event Q) evs3"
  and trace_inline_fragment_ok:
  "env_closed Q \<Longrightarrow> Q env \<Longrightarrow> trace_inline_fragment n m env ifr = Inr evs4 \<Longrightarrow>
     list_all (ok_event Q) evs4"
proof (induction n m env ss and n m env sel and n m env fld and n m env spr and n m env ifr
    arbitrary: evs and evs1 and evs2 and evs3 and evs4
    rule: trace_selection_set_trace_selection_trace_field_trace_fragment_spread_trace_inline_fragment.induct)
  case (1 n m env ss)
  then show ?case
    by (auto simp: trace_selection_set.simps res_simps split: if_splits intro!: map_result_list_all)
next
  case (2 n m env p sel)
  then show ?case
    by (cases sel)
       (auto simp: trace_selection.simps res_simps env_closedD split: if_splits option.splits)
next
  case (3 n m env field)
  then show ?case
    by (auto simp: trace_field.simps res_simps list_all_concat list.pred_map o_def trace_argument_ok
        trace_directives_ok list.pred_True)
next
  case (4 n m env fragment_spread)
  then show ?case
    by (auto simp: trace_fragment_spread.simps res_simps trace_directives_ok
        split: if_splits option.splits nat.splits)
next
  case (5 n m env inline_fragment)
  then show ?case by (auto simp: trace_inline_fragment.simps res_simps trace_directives_ok)
qed

fun body_ok :: "(visitor_ctx \<Rightarrow> bool) \<Rightarrow> event \<Rightarrow> bool" where
  "body_ok Q (Call c env) \<longleftrightarrow> (\<forall>d. c \<noteq> EnterDocument d \<and> c \<noteq> ExitDocument d) \<and> Q env"
| "body_ok Q (Report e) \<longleftrightarrow> True"

lemma ok_event_body: "list_all (ok_event Q) evs \<Longrightarrow> list_all (body_ok Q) evs"
proof (rule list.pred_mono_strong)
  show "body_ok Q e" if "ok_event Q e" for e using that by (cases "(Q, e)" rule: ok_event.cases) auto
qed

lemma body_ok_parts:
  assumes "env_closed Q" "Q env"
  shows "list_all (body_ok Q) (trace_directives env ds)"
    and "list_all (body_ok Q) (trace_variable_definitions env defs)"
    and "trace_selection_set n m env ss = Inr evs \<Longrightarrow> list_all (body_ok Q) evs"
  using assms
  by (simp_all add: ok_event_body trace_directives_ok trace_selection_set_ok [of Q env n m ss evs]
      trace_variable_definitions_def list_all_concat list.pred_map o_def list.pred_True)

lemma trace_fragment_definition_ok:
  assumes "env_closed Q" "Q env" "trace_fragment_definition n m env frag = Inr evs"
  shows "list_all (body_ok Q) evs"
proof (cases frag)
  case (Pair k fragment)
  define env' where "env' = push_type (map_of (types (vc_registry env))
    (node (tc_on (node (fd_type_condition (node fragment)))))) env"
  have "Q env'" using assms(1,2) by (simp add: env'_def env_closedD)
  then show ?thesis
    using assms(3) Pair body_ok_parts [OF assms(1) \<open>Q env'\<close>]
    by (auto simp: trace_fragment_definition_def Let_def res_simps simp flip: env'_def
        split: if_splits)
qed

lemma trace_operation_definition_ok:
  assumes "env_closed Q" "Q env" "trace_operation_definition n m env op = Inr evs"
  shows "list_all (body_ok Q) evs"
proof -
  have push: "Q (push_type (Some ty) env)" if "map_of (types (vc_registry env)) root = Some ty" for ty root
    using env_closedD(1) [OF assms(1,2), of "Some ty"] registered_lookup [of "vc_registry env" root] that
    by simp
  have parts: "list_all (body_ok Q) (trace_directives (push_type (Some ty) env) ds)"
    "list_all (body_ok Q) (trace_variable_definitions (push_type (Some ty) env) defs)"
    "trace_selection_set n m (push_type (Some ty) env) ss = Inr es \<Longrightarrow> list_all (body_ok Q) es"
    if "map_of (types (vc_registry env)) root = Some ty" for ty root ds defs ss es
    using body_ok_parts [OF assms(1) push [OF that]] by blast+
  show ?thesis
    using assms(2,3) parts
    by (cases op) (auto simp: trace_operation_definition_def Let_def res_simps split: option.splits)
qed

lemma trace_body:
  assumes "env_closed Q" "Q env" "trace n m env doc = Inr evs"
  obtains mid where
    "evs = Call (EnterDocument doc) env # mid @ [Call (ExitDocument doc) env]"
    "list_all (body_ok Q) mid"
proof -
  from assms(3) obtain frags ops where
    frags: "map_result (trace_fragment_definition n m env) (doc_fragments doc) = Inr frags"
    and ops: "map_result (trace_operation_definition n m env)
      (operations_iter (doc_operations doc)) = Inr ops"
    and evs: "evs = Call (EnterDocument doc) env # concat frags @ concat ops @ [Call (ExitDocument doc) env]"
    by (auto simp: trace_def res_simps)
  have "list_all (body_ok Q) (concat frags)" "list_all (body_ok Q) (concat ops)"
    using trace_fragment_definition_ok [OF assms(1,2)] trace_operation_definition_ok [OF assms(1,2)]
    by (blast intro: map_result_list_all [OF frags] map_result_list_all [OF ops])+
  then show thesis using that [of "concat frags @ concat ops"] evs by simp
qed

end
