(* ===== verification/Suggestion.thy ===== *)
theory Suggestion
  imports Prelude
begin

text \<open>
  Suggestions for misspelt names: \<open>src/validation/suggestion.rs\<close>.

  \<open>levenshtein_distance\<close> keeps one column of the dynamic-programming table and updates it in
  place; the lemmas show that the entry it returns is the least number of insertions, deletions
  and replacements of bytes that turn one string into the other. Slices are indexed in range
  throughout, because the column always has one entry more than \<open>s1\<close>.
\<close>

definition lev_cell :: "char \<Rightarrow> nat \<times> char \<Rightarrow> nat list \<times> nat \<Rightarrow> nat list \<times> nat" where
  "lev_cell rx yr st =
     (let (y, ry) = yr; (column, lastdiag) = st;
          olddiag = column ! (y + 1);
          lastdiag = (if rx \<noteq> ry then lastdiag + 1 else lastdiag);
          column = column[y + 1 := min (column ! (y + 1) + 1) (min (column ! y + 1) lastdiag)]
      in (column, olddiag))"

definition lev_column :: "string \<Rightarrow> nat \<times> char \<Rightarrow> nat list \<Rightarrow> nat list" where
  "lev_column s1 xr column =
     (let (x, rx) = xr
      in fst (fold (lev_cell rx) (enumerate 0 s1) (column[0 := x + 1], x)))"

definition levenshtein_distance :: "string \<Rightarrow> string \<Rightarrow> nat" where
  "levenshtein_distance s1 s2 =
     fold (lev_column s1) (enumerate 0 s2) [0..<length s1 + 1] ! length s1"

text \<open>\<open>make_suggestion\<close>: \<open>sort_by\<close> is stable, and \<open>distances\<close> maps an option to its distance.\<close>

definition suggestion_selected :: "string list \<Rightarrow> string \<Rightarrow> string list" where
  "suggestion_selected options inp =
     filter (\<lambda>opt. levenshtein_distance inp opt < max (length inp div 2) (max (length opt div 2) 1))
       options"

fun join :: "string \<Rightarrow> string list \<Rightarrow> string" where
  "join sep [] = []"
| "join sep [x] = x"
| "join sep (x # xs) = x @ sep @ join sep xs"

definition quote :: "string \<Rightarrow> string" where
  "quote s = ''\"'' @ s @ ''\"''"

definition make_suggestion :: "string \<Rightarrow> string list \<Rightarrow> string \<Rightarrow> string option" where
  "make_suggestion pre options inp =
     (let selected = suggestion_selected options inp
      in if selected = [] then None
         else Some (pre @ '' '' @
           join '', '' (map quote (sort_key (levenshtein_distance inp) selected)) @ ''?''))"

subsection \<open>Edit distance\<close>

inductive edit :: "'a list \<Rightarrow> 'a list \<Rightarrow> nat \<Rightarrow> bool" where
  edit_nil: "edit [] [] 0"
| edit_keep: "edit xs ys n \<Longrightarrow> edit (a # xs) (a # ys) n"
| edit_delete: "edit xs ys n \<Longrightarrow> edit (a # xs) ys (Suc n)"
| edit_insert: "edit xs ys n \<Longrightarrow> edit xs (b # ys) (Suc n)"
| edit_replace: "edit xs ys n \<Longrightarrow> edit (a # xs) (b # ys) (Suc n)"

fun dist :: "'a list \<Rightarrow> 'a list \<Rightarrow> nat" where
  "dist [] ys = length ys"
| "dist xs [] = length xs"
| "dist (x # xs) (y # ys) =
     min (dist xs (y # ys) + 1)
       (min (dist (x # xs) ys + 1) (dist xs ys + (if y \<noteq> x then 1 else 0)))"

lemma dist_Nil2 [simp]: "dist xs [] = length xs"
  by (cases xs) simp_all

lemma edit_nil_left: "edit [] ys (length ys)"
  by (induction ys) (auto intro: edit.intros)

lemma edit_nil_right: "edit xs [] (length xs)"
  by (induction xs) (auto intro: edit.intros)

lemma edit_dist: "edit xs ys (dist xs ys)"
proof (induction xs ys rule: dist.induct)
  case (3 x xs y ys)
  then show ?case
    by (auto simp: min_def intro: edit.intros)
next
  case (2 x xs)
  then show ?case using edit_nil_right [of "x # xs"] by simp
qed (simp add: edit_nil_left)

lemma dist_delete: "dist (x # xs) ys \<le> Suc (dist xs ys)"
  by (cases ys) simp_all

lemma dist_insert: "dist xs (y # ys) \<le> Suc (dist xs ys)"
  by (cases xs) simp_all

lemma dist_least: "edit xs ys n \<Longrightarrow> dist xs ys \<le> n"
proof (induction rule: edit.induct)
  case (edit_delete xs ys n a)
  then show ?case using dist_delete [of a xs ys] by simp
next
  case (edit_insert xs ys n b)
  then show ?case using dist_insert [of xs b ys] by simp
qed auto

lemma edit_append: "edit xs ys n \<Longrightarrow> edit xs' ys' m \<Longrightarrow> edit (xs @ xs') (ys @ ys') (n + m)"
  by (induction rule: edit.induct) (auto intro: edit.intros)

lemma edit_rev: "edit xs ys n \<Longrightarrow> edit (rev xs) (rev ys) n"
proof (induction rule: edit.induct)
  case (edit_keep xs ys n a)
  then show ?case using edit_append [of _ _ n "[a]" "[a]" 0] by (auto intro: edit.intros)
next
  case (edit_delete xs ys n a)
  then show ?case using edit_append [of _ _ n "[a]" "[]" 1] by (auto intro: edit.intros)
next
  case (edit_insert xs ys n b)
  then show ?case using edit_append [of _ _ n "[]" "[b]" 1] by (auto intro: edit.intros)
next
  case (edit_replace xs ys n a b)
  then show ?case using edit_append [of _ _ n "[a]" "[b]" 1] by (auto intro: edit.intros)
qed (auto intro: edit.intros)

lemma dist_rev: "dist (rev xs) (rev ys) = dist xs ys"
  by (metis antisym dist_least edit_dist edit_rev rev_rev_ident)

subsection \<open>The columns of the table\<close>

definition table :: "'a list \<Rightarrow> 'a list \<Rightarrow> nat \<Rightarrow> nat \<Rightarrow> nat" where
  "table s1 s2 i j = dist (rev (take i s1)) (rev (take j s2))"

lemma table_0 [simp]: "i \<le> length s1 \<Longrightarrow> table s1 s2 i 0 = i" "j \<le> length s2 \<Longrightarrow> table s1 s2 0 j = j"
  by (simp_all add: table_def)

lemma table_Suc:
  "i < length s1 \<Longrightarrow> j < length s2 \<Longrightarrow>
   table s1 s2 (Suc i) (Suc j) =
     min (table s1 s2 (Suc i) j + 1)
       (min (table s1 s2 i (Suc j) + 1) (table s1 s2 i j + (if s2 ! j \<noteq> s1 ! i then 1 else 0)))"
  by (simp add: table_def take_Suc_conv_app_nth min.left_commute)

definition cell_inv :: "string \<Rightarrow> string \<Rightarrow> nat \<Rightarrow> nat \<Rightarrow> nat list \<times> nat \<Rightarrow> bool" where
  "cell_inv s1 s2 x y st \<longleftrightarrow>
     length (fst st) = Suc (length s1) \<and> snd st = table s1 s2 y x \<and>
     (\<forall>i\<le>length s1. fst st ! i = table s1 s2 i (if i \<le> y then Suc x else x))"

lemma lev_cell_inv:
  assumes "cell_inv s1 s2 x y st" "y < length s1" "x < length s2"
  shows "cell_inv s1 s2 x (Suc y) (lev_cell (s2 ! x) (y, s1 ! y) st)"
  using assms
  by (auto simp: cell_inv_def lev_cell_def Let_def table_Suc nth_list_update le_Suc_eq
      split: prod.splits)

lemma lev_cells_inv:
  assumes "x < length s2" "cell_inv s1 s2 x 0 st" "y \<le> length s1"
  shows "cell_inv s1 s2 x y (fold (lev_cell (s2 ! x)) (enumerate 0 (take y s1)) st)"
  using assms(3)
proof (induction y)
  case (Suc y)
  then show ?case
    using lev_cell_inv [OF _ _ assms(1)] by (simp add: take_Suc_conv_app_nth enumerate_append_eq)
qed (use assms in simp)

lemma lev_column_inv:
  assumes "x < length s2" "length col = Suc (length s1)"
    and "\<forall>i\<le>length s1. col ! i = table s1 s2 i x"
  shows "length (lev_column s1 (x, s2 ! x) col) = Suc (length s1) \<and>
    (\<forall>i\<le>length s1. lev_column s1 (x, s2 ! x) col ! i = table s1 s2 i (Suc x))"
proof -
  have "cell_inv s1 s2 x 0 (col[0 := x + 1], x)"
    using assms by (auto simp: cell_inv_def nth_list_update)
  from lev_cells_inv [OF assms(1) this, of "length s1"] show ?thesis
    by (auto simp: cell_inv_def lev_column_def Let_def)
qed

lemma lev_columns_inv:
  assumes "x \<le> length s2"
  shows "length (fold (lev_column s1) (enumerate 0 (take x s2)) [0..<length s1 + 1]) = Suc (length s1) \<and>
    (\<forall>i\<le>length s1. fold (lev_column s1) (enumerate 0 (take x s2)) [0..<length s1 + 1] ! i =
      table s1 s2 i x)"
  using assms
proof (induction x)
  case 0
  then show ?case by (simp add: nth_append)
next
  case (Suc x)
  then show ?case
    using lev_column_inv [of x s2 _ s1]
    by (simp add: take_Suc_conv_app_nth enumerate_append_eq)
qed

lemma levenshtein_distance_dist: "levenshtein_distance s1 s2 = dist s1 s2"
  using lev_columns_inv [of "length s2" s2 s1]
  by (simp add: levenshtein_distance_def table_def dist_rev)

lemma suggestion_selected_distance:
  "opt \<in> set (suggestion_selected options inp) \<longleftrightarrow>
     opt \<in> set options \<and> dist inp opt < max (length inp div 2) (max (length opt div 2) 1)"
  by (simp add: suggestion_selected_def levenshtein_distance_dist)

end
