(* ===== verification/Input_Value.thy ===== *)
theory Input_Value
  imports Meta_Registry
begin

text \<open>
  Validation of constant input values: \<open>is_valid_input_value\<close> of \<open>src/validation/utils.rs\<close>, with
  the paths of \<open>src/context.rs\<close> it prints.

  The function returns the reason why a value is not valid, and panics on a type that the
  registry does not know: the model returns \<open>Inl\<close> for the panic. Which of several unknown
  fields is named depends on the iteration order of a \<open>HashSet\<close>; the model names the first in
  the order of the object. \<open>conforms\<close> says what a valid value is, on parsed types; on a registry
  that defines the types it mentions, \<open>is_valid_input_value\<close> does not panic and decides it.
\<close>

subsection \<open>Paths\<close>

datatype query_path_segment = SegIndex nat | SegName string

datatype query_path_node =
  QueryPathNode (parent: "query_path_node option") (segment: query_path_segment)

fun show_nat :: "nat \<Rightarrow> string" where
  "show_nat n =
     (if n < 10 then [char_of (48 + n)] else show_nat (n div 10) @ [char_of (48 + n mod 10)])"

declare show_nat.simps [simp del]

definition show_int :: "int \<Rightarrow> string" where
  "show_int n = (if n < 0 then ''-'' @ show_nat (nat (- n)) else show_nat (nat n))"

fun segment_str :: "query_path_segment \<Rightarrow> string" where
  "segment_str (SegIndex idx) = show_nat idx"
| "segment_str (SegName n) = n"

fun path_segments :: "query_path_node \<Rightarrow> query_path_segment list" where
  "path_segments (QueryPathNode (Some p) seg) = path_segments p @ [seg]"
| "path_segments (QueryPathNode None seg) = [seg]"

fun dotted :: "string list \<Rightarrow> string" where
  "dotted [] = []"
| "dotted [s] = s"
| "dotted (s # ss) = s @ ''.'' @ dotted ss"

definition query_path_str :: "query_path_node \<Rightarrow> string" where
  "query_path_str p = dotted (map segment_str (path_segments p))"

definition valid_error :: "query_path_node \<Rightarrow> string \<Rightarrow> string" where
  "valid_error path_node msg = ''\"'' @ query_path_str path_node @ ''\", '' @ msg"

subsection \<open>Validation\<close>

primrec find_map_result :: "('a \<Rightarrow> 'e + 'b option) \<Rightarrow> 'a list \<Rightarrow> 'e + 'b option" where
  "find_map_result f [] = Inr None"
| "find_map_result f (x # xs) =
     bind_result (f x) (\<lambda>r. case r of Some y \<Rightarrow> Inr (Some y) | None \<Rightarrow> find_map_result f xs)"

lemma find_map_result_cong [fundef_cong]:
  "xs = ys \<Longrightarrow> (\<And>x. x \<in> set ys \<Longrightarrow> f x = g x) \<Longrightarrow> find_map_result f xs = find_map_result g ys"
proof (induction ys arbitrary: xs)
  case (Cons y ys)
  then show ?case by (cases "g y") (auto split: option.splits)
qed simp

lemma size_enumerate [termination_simp]:
  "(i, x) \<in> set (enumerate n xs) \<Longrightarrow> size x < Suc (size_list size xs)"
proof (induction xs arbitrary: n)
  case (Cons y ys)
  from Cons.prems have "x = y \<or> (i, x) \<in> set (enumerate (Suc n) ys)" by auto
  then show ?case using Cons.IH [of "Suc n"] by fastforce
qed simp

definition enum_error :: "query_path_node \<Rightarrow> enum_type \<Rightarrow> string \<Rightarrow> string option" where
  "enum_error path_node en n =
     (if \<not> im_contains (en_enum_values en) n then
        Some (valid_error path_node
          (''enumeration type \"'' @ en_name en @ ''\" does not contain the value \"'' @ n @ ''\"''))
      else None)"

definition oneof_error ::
  "query_path_node \<Rightarrow> input_object_type \<Rightarrow> (name \<times> const_value) list \<Rightarrow> string option" where
  "oneof_error path_node io values =
     (if io_oneof io then
        if length values \<noteq> 1 then
          Some (valid_error path_node ''Oneof input objects requires have exactly one field'')
        else if snd (values ! 0) = CNull then
          Some (valid_error path_node
            ''Oneof Input Objects require that exactly one field must be supplied and that field must not be null'')
        else None
      else None)"

definition unknown_field_error ::
  "query_path_node \<Rightarrow> input_object_type \<Rightarrow> (name \<times> const_value) list \<Rightarrow> string option" where
  "unknown_field_error path_node io values =
     (case filter (\<lambda>n. n \<notin> (\<lambda>(_, field). miv_name field) ` set (io_input_fields io)) (map fst values) of
        n # _ \<Rightarrow> Some (valid_error path_node
                 (''unknown field \"'' @ n @ ''\" of type \"'' @ io_name io @ ''\"''))
      | [] \<Rightarrow> None)"

definition missing_field_error :: "query_path_node \<Rightarrow> meta_input_value \<Rightarrow> string option" where
  "missing_field_error path_node field =
     (if is_non_null (create (miv_ty field)) \<and> miv_default_value field = None then
        Some (valid_error path_node
          (''field \"'' @ miv_name field @ ''\" of type \"'' @ miv_ty field @
           ''\" is required but not provided''))
      else None)"

function is_valid_input_value ::
  "registry \<Rightarrow> string \<Rightarrow> const_value \<Rightarrow> query_path_node \<Rightarrow> string + string option" where
  "is_valid_input_value reg type_name value path_node =
     (case create type_name of
        TNonNull type_name \<Rightarrow>
          (case value of
             CNull \<Rightarrow> Inr (Some (valid_error path_node (''expected type \"'' @ type_name @ ''\"'')))
           | _ \<Rightarrow> is_valid_input_value reg type_name value path_node)
      | TList type_name \<Rightarrow>
          (case value of
             CList elems \<Rightarrow>
               find_map_result (\<lambda>(idx, elem).
                 is_valid_input_value reg type_name elem
                   (QueryPathNode (Some path_node) (SegIndex idx))) (enumerate 0 elems)
           | CNull \<Rightarrow> Inr None
           | _ \<Rightarrow> is_valid_input_value reg type_name value path_node)
      | TNamed type_name \<Rightarrow>
          if value = CNull then Inr None
          else
            (case im_get (types reg) type_name of
               None \<Rightarrow> Inl (''Type `'' @ type_name @ ''` not defined'')
             | Some (MScalar sc) \<Rightarrow>
                 (case sc_is_valid sc of
                    Some is_valid_fn \<Rightarrow>
                      Inr (if is_valid_fn value then None
                           else Some (valid_error path_node (''expected type \"'' @ type_name @ ''\"'')))
                  | None \<Rightarrow> Inr None)
             | Some (MEnum en) \<Rightarrow>
                 (case value of
                    CEnum n \<Rightarrow> Inr (enum_error path_node en n)
                  | CString n \<Rightarrow> Inr (enum_error path_node en n)
                  | _ \<Rightarrow> Inr (Some (valid_error path_node (''expected type \"'' @ type_name @ ''\"''))))
             | Some (MInputObject io) \<Rightarrow>
                 (case value of
                    CObject values \<Rightarrow>
                      (case oneof_error path_node io values of
                         Some reason \<Rightarrow> Inr (Some reason)
                       | None \<Rightarrow>
                           bind_result
                             (find_map_result (\<lambda>(_, field).
                                case im_get values (miv_name field) of
                                  Some value \<Rightarrow>
                                    is_valid_input_value reg (miv_ty field) value
                                      (QueryPathNode (Some path_node) (SegName (miv_name field)))
                                | None \<Rightarrow> Inr (missing_field_error path_node field))
                                (io_input_fields io))
                             (\<lambda>r. case r of
                                Some reason \<Rightarrow> Inr (Some reason)
                              | None \<Rightarrow> Inr (unknown_field_error path_node io values)))
                  | _ \<Rightarrow> Inr None)
             | Some _ \<Rightarrow> Inr None))"
  by pat_completeness auto
termination
  by (relation "measures [\<lambda>(_, _, value, _). size value, \<lambda>(_, type_name, _, _). length type_name]")
     (auto simp: termination_simp size_prod_snd)

declare is_valid_input_value.simps [simp del]


subsection \<open>Conformance\<close>

text \<open>
  The values of a type. As in the code, a value that is not a list is taken for a list of one,
  an enum may be given as a string, and an input object accepts every value that is not an
  object (such a value is refused when it is parsed).
\<close>

function conforms :: "registry \<Rightarrow> gtype \<Rightarrow> const_value \<Rightarrow> bool" where
  "conforms reg (GType b n) val \<longleftrightarrow>
     (if val = CNull then n
      else case b of
        BList t \<Rightarrow>
          (case val of CList elems \<Rightarrow> (\<forall>e\<in>set elems. conforms reg t e) | _ \<Rightarrow> conforms reg t val)
      | BNamed name \<Rightarrow>
          (case im_get (types reg) name of
             Some (MScalar sc) \<Rightarrow> (case sc_is_valid sc of Some f \<Rightarrow> f val | None \<Rightarrow> True)
           | Some (MEnum en) \<Rightarrow>
               (case val of
                  CEnum x \<Rightarrow> x \<in> fst ` set (en_enum_values en)
                | CString x \<Rightarrow> x \<in> fst ` set (en_enum_values en)
                | _ \<Rightarrow> False)
           | Some (MInputObject io) \<Rightarrow>
               (case val of
                  CObject vs \<Rightarrow>
                    (io_oneof io \<longrightarrow> (case vs of [(_, x)] \<Rightarrow> x \<noteq> CNull | _ \<Rightarrow> False)) \<and>
                    (\<forall>(_, fld)\<in>set (io_input_fields io).
                       case im_get vs (miv_name fld) of
                         Some x \<Rightarrow>
                           (case type_new (miv_ty fld) of Some t \<Rightarrow> conforms reg t x | None \<Rightarrow> False)
                       | None \<Rightarrow> is_non_null (create (miv_ty fld)) \<longrightarrow> miv_default_value fld \<noteq> None) \<and>
                    fst ` set vs \<subseteq> (\<lambda>(_, fld). miv_name fld) ` set (io_input_fields io)
                | _ \<Rightarrow> True)
           | _ \<Rightarrow> True))"
  by pat_completeness auto
termination
  by (relation "measures [\<lambda>(_, _, val). size val, \<lambda>(_, t, _). size t]")
     (auto simp: termination_simp size_prod_snd less_Suc_eq_le intro: size_list_estimation')

declare conforms.simps [simp del]

definition closed_type :: "registry \<Rightarrow> gtype \<Rightarrow> bool" where
  "closed_type reg t \<longleftrightarrow> wf_type t \<and> im_contains (types reg) (type_base_name t)"

definition closed_registry :: "registry \<Rightarrow> bool" where
  "closed_registry reg \<longleftrightarrow>
     list_all (\<lambda>(_, ty). case ty of
         MInputObject io \<Rightarrow>
           list_all (\<lambda>(_, fld). case type_new (miv_ty fld) of
               Some t \<Rightarrow> closed_type reg t
             | None \<Rightarrow> False) (io_input_fields io)
       | _ \<Rightarrow> True) (types reg)"


definition decides :: "'e + 'b option \<Rightarrow> bool \<Rightarrow> bool" where
  "decides R P \<longleftrightarrow> (\<exists>r. R = Inr r \<and> (r = None \<longleftrightarrow> P))"

lemma decides_Inr [simp]: "decides (Inr r) P \<longleftrightarrow> (r = None \<longleftrightarrow> P)"
  by (simp add: decides_def)

lemma decides_find_map_result:
  "(\<And>x. x \<in> set xs \<Longrightarrow> decides (f x) (P x)) \<Longrightarrow> decides (find_map_result f xs) (\<forall>x\<in>set xs. P x)"
proof (induction xs)
  case (Cons x xs)
  then have "decides (f x) (P x)" "decides (find_map_result f xs) (\<forall>x\<in>set xs. P x)" by simp_all
  then show ?case by (auto simp: decides_def split: option.splits)
qed simp

lemma decides_bind:
  "decides R P \<Longrightarrow> (P \<Longrightarrow> decides (Inr q :: 'e + 'b option) Q) \<Longrightarrow>
   decides (bind_result R (\<lambda>r. case r of Some y \<Rightarrow> Inr (Some y) | None \<Rightarrow> Inr q)) (P \<and> Q)"
  by (auto simp: decides_def split: option.splits)

lemma closed_type_GType [simp]: "closed_type reg (GType b False) = closed_type reg (GType b True)"
  by (simp add: closed_type_def)

lemma closed_type_BList: "closed_type reg (GType (BList t) n) = closed_type reg t"
  by (simp add: closed_type_def)

lemma closed_registry_field:
  assumes "closed_registry reg" "map_of (types reg) n = Some (MInputObject io)"
    and "(k, fld) \<in> set (io_input_fields io)"
  obtains t where "type_new (miv_ty fld) = Some t" "closed_type reg t" "type_str t = miv_ty fld"
  using assms
  by (auto simp: closed_registry_def list_all_iff type_str_type_new dest!: map_of_SomeD
      split: option.splits) force

lemma oneof_error_None:
  "oneof_error p io vs = None \<longleftrightarrow> (io_oneof io \<longrightarrow> (case vs of [(_, x)] \<Rightarrow> x \<noteq> CNull | _ \<Rightarrow> False))"
  by (cases vs; cases "tl vs") (auto simp: oneof_error_def)

lemma unknown_field_error_None:
  "unknown_field_error p io vs = None \<longleftrightarrow>
     fst ` set vs \<subseteq> (\<lambda>(_, fld). miv_name fld) ` set (io_input_fields io)"
proof -
  have "unknown_field_error p io vs = None \<longleftrightarrow>
    filter (\<lambda>n. n \<notin> (\<lambda>(_, field). miv_name field) ` set (io_input_fields io)) (map fst vs) = []"
    by (simp add: unknown_field_error_def split: list.splits)
  then show ?thesis by (simp add: filter_empty_conv image_subset_iff)
qed

lemma missing_field_error_None:
  "missing_field_error p fld = None \<longleftrightarrow>
     (is_non_null (create (miv_ty fld)) \<longrightarrow> miv_default_value fld \<noteq> None)"
  by (simp add: missing_field_error_def)

lemma enum_error_None: "enum_error p en n = None \<longleftrightarrow> n \<in> fst ` set (en_enum_values en)"
  by (auto simp: enum_error_def map_of_eq_None_iff)

lemma is_valid_non_null:
  "is_valid_input_value reg (s @ ''!'') val p =
     (if val = CNull then Inr (Some (valid_error p (''expected type \"'' @ s @ ''\"'')))
      else is_valid_input_value reg s val p)"
  by (subst is_valid_input_value.simps) (simp add: create_bang split: const_value.splits)

lemma is_valid_null:
  "wf_base_type b \<Longrightarrow> is_valid_input_value reg (base_type_str b) CNull p = Inr None"
  by (subst is_valid_input_value.simps) (simp add: create_base_type_str split: base_type.splits)

lemma is_valid_object:
  assumes "closed_registry reg" "map_of (types reg) n = Some (MInputObject io)" "plain_name n"
    and "\<And>k fld t x p. (k, fld) \<in> set (io_input_fields io) \<Longrightarrow> map_of vs (miv_name fld) = Some x \<Longrightarrow>
      type_new (miv_ty fld) = Some t \<Longrightarrow> closed_type reg t \<Longrightarrow>
      decides (is_valid_input_value reg (type_str t) x p) (conforms reg t x)"
  shows "decides (is_valid_input_value reg n (CObject vs) p) (conforms reg (GType (BNamed n) b) (CObject vs))"
proof -
  have "decides (find_map_result (\<lambda>(_, field).
      case im_get vs (miv_name field) of
        Some value \<Rightarrow> is_valid_input_value reg (miv_ty field) value
            (QueryPathNode (Some p) (SegName (miv_name field)))
      | None \<Rightarrow> Inr (missing_field_error p field)) (io_input_fields io))
    (\<forall>x\<in>set (io_input_fields io).
      case x of (_, fld) \<Rightarrow> case im_get vs (miv_name fld) of
         Some x \<Rightarrow> (case type_new (miv_ty fld) of Some t \<Rightarrow> conforms reg t x | None \<Rightarrow> False)
       | None \<Rightarrow> is_non_null (create (miv_ty fld)) \<longrightarrow> miv_default_value fld \<noteq> None)"
  proof (rule decides_find_map_result)
    fix kf
    assume kf: "kf \<in> set (io_input_fields io)"
    obtain k fld where [simp]: "kf = (k, fld)" by fastforce
    from closed_registry_field [OF assms(1,2) kf [simplified]] obtain t where
      t: "type_new (miv_ty fld) = Some t" "closed_type reg t" "type_str t = miv_ty fld" .
    show "decides (case kf of (_, field) \<Rightarrow>
      case im_get vs (miv_name field) of
        Some value \<Rightarrow> is_valid_input_value reg (miv_ty field) value
            (QueryPathNode (Some p) (SegName (miv_name field)))
      | None \<Rightarrow> Inr (missing_field_error p field))
     (case kf of (_, fld) \<Rightarrow> case im_get vs (miv_name fld) of
         Some x \<Rightarrow> (case type_new (miv_ty fld) of Some t \<Rightarrow> conforms reg t x | None \<Rightarrow> False)
       | None \<Rightarrow> is_non_null (create (miv_ty fld)) \<longrightarrow> miv_default_value fld \<noteq> None)"
      using assms(4) [OF kf [simplified] _ t(1,2)] t
      by (cases "map_of vs (miv_name fld)") (simp_all add: missing_field_error_None)
  qed
  from decides_bind [OF this, of "unknown_field_error p io vs" "fst ` set vs \<subseteq> (\<lambda>(_, fld). miv_name fld) ` set (io_input_fields io)"]
  show ?thesis
    using create_base_type_str [of "BNamed n"] assms(2,3) oneof_error_None [of p io vs]
    by (subst is_valid_input_value.simps)
       (auto simp: conforms.simps unknown_field_error_None split: option.splits)
qed

lemma is_valid_input_value_decides:
  "closed_registry reg \<Longrightarrow> closed_type reg t \<Longrightarrow>
   decides (is_valid_input_value reg (type_str t) val p) (conforms reg t val)"
proof (induction reg t val arbitrary: p rule: conforms.induct)
  case (1 reg b n val)
  have wf: "wf_base_type b" using "1.prems" by (simp add: closed_type_def)
  have "decides (is_valid_input_value reg (base_type_str b) val p) (conforms reg (GType b n) val)"
    if "val \<noteq> CNull"
  proof (cases b)
    case (BNamed name)
    then obtain ty where ty: "map_of (types reg) name = Some ty"
      using "1.prems" by (auto simp: closed_type_def)
    show ?thesis
    proof (cases "\<exists>io vs. ty = MInputObject io \<and> val = CObject vs")
      case True
      then obtain io vs where io: "ty = MInputObject io" "val = CObject vs" by blast
      show ?thesis
        unfolding BNamed base_type_str.simps io(2)
        by (rule is_valid_object [OF "1.prems"(1) ty [unfolded io(1)]])
           (use wf BNamed "1.IH"(1) [OF that BNamed ty [folded im_get_def] io] "1.prems" in auto)
    next
      case False
      then show ?thesis
        using that ty wf BNamed create_base_type_str [of b]
        by (subst is_valid_input_value.simps)
           (auto simp: conforms.simps enum_error_None
             split: meta_type.splits option.splits const_value.splits)
    qed
  next
    case (BList t)
    then have closed: "closed_type reg t" using "1.prems" by (simp add: closed_type_BList)
    have list: "decides (find_map_result (\<lambda>(idx, elem). is_valid_input_value reg (type_str t) elem
        (QueryPathNode (Some p) (SegIndex idx))) (enumerate 0 elems))
        (\<forall>e\<in>set elems. conforms reg t e)" if "val = CList elems" for elems
    proof -
      have "decides (find_map_result (\<lambda>(idx, elem). is_valid_input_value reg (type_str t) elem
        (QueryPathNode (Some p) (SegIndex idx))) (enumerate 0 elems))
        (\<forall>x\<in>set (enumerate 0 elems). conforms reg t (snd x))"
        by (rule decides_find_map_result)
           (use that "1.IH" BList closed "1.prems" in \<open>auto simp: in_set_enumerate_eq\<close>)
      moreover have "(\<forall>x\<in>set (enumerate 0 elems). conforms reg t (snd x)) \<longleftrightarrow>
          (\<forall>e\<in>set (map snd (enumerate 0 elems)). conforms reg t e)"
        unfolding set_map by blast
      ultimately show ?thesis by simp
    qed
    show ?thesis
      using that BList wf create_base_type_str [of b] list closed "1.prems" "1.IH"
      by (subst is_valid_input_value.simps)
         (cases val; simp add: conforms.simps [of reg "BList t"])
  qed
  then show ?case
    using wf by (cases n) (auto simp: is_valid_non_null is_valid_null conforms.simps)
qed

end
