(* ===== verification/Rules_Local.thy ===== *)
theory Rules_Local
  imports Visitor_Trace Suggestion Input_Value
begin

text \<open>
  The rules of \<open>src/validation/rules/\<close> that judge each node of a document where it stands:
  one visitor per rule, with the state of its struct. \<open>format!\<close> is concatenation; \<open>quote\<close> puts
  double quotes around its argument. Each rule keeps the contract \<open>rule_visitor\<close>.
\<close>

subsection \<open>Arguments\<close>

text \<open>\<open>arguments_of_correct_type.rs\<close>; the state is \<open>current_args\<close>.\<close>

type_synonym args_state = "(string, meta_input_value) index_map option"

definition check_argument_value ::
  "args_state \<Rightarrow> name positioned \<Rightarrow> gvalue positioned \<Rightarrow> visitor_ctx \<Rightarrow> visitor_ctx" where
  "check_argument_value current_args n value ctx =
     (case Option.bind current_args (\<lambda>args. im_get args (node n)) of
        None \<Rightarrow> ctx
      | Some arg \<Rightarrow>
          (case ok (into_const_with (node value) (\<lambda>var_name.
                  case Option.bind (vc_variables ctx) (\<lambda>vars. im_get vars var_name) of
                    Some v \<Rightarrow> Inr v
                  | None \<Rightarrow> Inl ())) of
             None \<Rightarrow> ctx
           | Some value \<Rightarrow>
               (case is_valid_input_value (vc_registry ctx) (miv_ty arg) value
                       (QueryPathNode None (SegName (miv_name arg))) of
                  Inl msg \<Rightarrow> append_errors [RulePanic msg] ctx
                | Inr (Some reason) \<Rightarrow>
                    report_error [pos n] (''Invalid value for argument '' @ reason) ctx
                | Inr None \<Rightarrow> ctx)))"

definition arguments_of_correct_type :: "args_state visitor" where
  "arguments_of_correct_type =
     \<lparr>v_mode = ModeNormal,
      v_call = (\<lambda>c ctx s. case c of
          EnterDirective directive \<Rightarrow>
            (ctx, map_option md_args
                    (im_get (directives (vc_registry ctx)) (node (d_name (node directive)))))
        | ExitDirective _ \<Rightarrow> (ctx, None)
        | EnterArgument n value \<Rightarrow> (check_argument_value s n value ctx, s)
        | EnterField field \<Rightarrow>
            (ctx, map_option mf_args
                    (Option.bind (parent_type ctx) (\<lambda>p. field_by_name p (node (f_name (node field))))))
        | ExitField _ \<Rightarrow> (ctx, None)
        | _ \<Rightarrow> (ctx, s))\<rparr>"

text \<open>\<open>default_values_of_correct_type.rs\<close>.\<close>

definition check_default_value ::
  "variable_definition positioned \<Rightarrow> visitor_ctx \<Rightarrow> visitor_ctx" where
  "check_default_value variable_definition ctx =
     (let def = node variable_definition;
          unknown = (case base (node (vd_var_type def)) of
                       BNamed vtype_name \<Rightarrow>
                         (if im_contains (types (vc_registry ctx)) vtype_name then None
                          else Some vtype_name)
                     | BList _ \<Rightarrow> None)
      in case unknown of
           Some vtype_name \<Rightarrow>
             report_error [pos variable_definition] (''Unknown type '' @ quote vtype_name) ctx
         | None \<Rightarrow>
             (case vd_default_value def of
                None \<Rightarrow> ctx
              | Some value \<Rightarrow>
                  (case is_valid_input_value (vc_registry ctx) (type_str (node (vd_var_type def)))
                          (node value) (QueryPathNode None (SegName (node (vd_name def)))) of
                     Inl msg \<Rightarrow> append_errors [RulePanic msg] ctx
                   | Inr (Some reason) \<Rightarrow>
                       report_error [pos variable_definition]
                         (''Invalid default value for argument: '' @ reason) ctx
                   | Inr None \<Rightarrow> ctx)))"

definition default_values_of_correct_type :: "unit visitor" where
  "default_values_of_correct_type =
     \<lparr>v_mode = ModeNormal,
      v_call = (\<lambda>c ctx s. case c of
          EnterVariableDefinition variable_definition \<Rightarrow>
            (check_default_value variable_definition ctx, s)
        | _ \<Rightarrow> (ctx, s))\<rparr>"

text \<open>\<open>known_argument_names.rs\<close>.\<close>

datatype args_type = ArgsDirective string | ArgsField string string

type_synonym known_args_state = "((string, meta_input_value) index_map \<times> args_type) option"

definition get_suggestion :: "known_args_state \<Rightarrow> string \<Rightarrow> string" where
  "get_suggestion current_args n =
     (case make_suggestion '' Did you mean''
             (case current_args of Some (args, _) \<Rightarrow> map fst args | None \<Rightarrow> []) n of
        Some s \<Rightarrow> s
      | None \<Rightarrow> [])"

definition check_argument_name ::
  "known_args_state \<Rightarrow> name positioned \<Rightarrow> visitor_ctx \<Rightarrow> visitor_ctx" where
  "check_argument_name current_args n ctx =
     (case current_args of
        None \<Rightarrow> ctx
      | Some (args, arg_type) \<Rightarrow>
          if im_contains args (node n) then ctx
          else case arg_type of
            ArgsField fld type_name \<Rightarrow>
              report_error [pos n]
                (''Unknown argument '' @ quote (node n) @ '' on field '' @ quote fld @
                 '' of type '' @ quote type_name @ ''.'' @
                 (if enable_suggestions (vc_registry ctx) then get_suggestion current_args (node n)
                  else [])) ctx
          | ArgsDirective directive_name \<Rightarrow>
              report_error [pos n]
                (''Unknown argument '' @ quote (node n) @ '' on directive '' @ quote directive_name @
                 ''.'' @ get_suggestion current_args (node n)) ctx)"

definition known_argument_names :: "known_args_state visitor" where
  "known_argument_names =
     \<lparr>v_mode = ModeNormal,
      v_call = (\<lambda>c ctx s. case c of
          EnterDirective directive \<Rightarrow>
            (ctx, map_option (\<lambda>d. (md_args d, ArgsDirective (node (d_name (node directive)))))
                    (im_get (directives (vc_registry ctx)) (node (d_name (node directive)))))
        | ExitDirective _ \<Rightarrow> (ctx, None)
        | EnterArgument n _ \<Rightarrow> (check_argument_name s n ctx, s)
        | EnterField field \<Rightarrow>
            (ctx,
             case parent_type ctx of
               Some parent_ty \<Rightarrow>
                 (case field_by_name parent_ty (node (f_name (node field))) of
                    Some schema_field \<Rightarrow>
                      Some (mf_args schema_field,
                            ArgsField (node (f_name (node field))) (mt_name parent_ty))
                  | None \<Rightarrow> s)
             | None \<Rightarrow> s)
        | ExitField _ \<Rightarrow> (ctx, None)
        | _ \<Rightarrow> (ctx, s))\<rparr>"

text \<open>\<open>provided_non_null_arguments.rs\<close>.\<close>

definition argument_missing :: "arguments \<Rightarrow> meta_input_value \<Rightarrow> bool" where
  "argument_missing args arg \<longleftrightarrow>
     is_non_null (create (miv_ty arg)) \<and> miv_default_value arg = None \<and>
     \<not> list_ex (\<lambda>(n, _). node n = miv_name arg) args"

definition provided_non_null_arguments :: "unit visitor" where
  "provided_non_null_arguments =
     \<lparr>v_mode = ModeNormal,
      v_call = (\<lambda>c ctx s. case c of
          EnterDirective directive \<Rightarrow>
            (case im_get (directives (vc_registry ctx)) (node (d_name (node directive))) of
               Some schema_directive \<Rightarrow>
                 (fold (\<lambda>(_, arg) ctx.
                    if argument_missing (d_arguments (node directive)) arg then
                      report_error [pos directive]
                        (''Directive \"@'' @ node (d_name (node directive)) @ ''\" argument '' @
                         quote (miv_name arg) @ '' of type '' @ quote (miv_ty arg) @
                         '' is required but not provided'') ctx
                    else ctx) (md_args schema_directive) ctx, s)
             | None \<Rightarrow> (ctx, s))
        | EnterField field \<Rightarrow>
            (case parent_type ctx of
               Some parent_ty \<Rightarrow>
                 (case field_by_name parent_ty (node (f_name (node field))) of
                    Some schema_field \<Rightarrow>
                      (fold (\<lambda>(_, arg) ctx.
                         if argument_missing (f_arguments (node field)) arg then
                           report_error [pos field]
                             (''Field '' @ quote (node (f_name (node field))) @ '' argument '' @
                              quote (miv_name arg) @ '' of type '' @ quote (mt_name parent_ty) @
                              '' is required but not provided'') ctx
                         else ctx) (mf_args schema_field) ctx, s)
                  | None \<Rightarrow> (ctx, s))
             | None \<Rightarrow> (ctx, s))
        | _ \<Rightarrow> (ctx, s))\<rparr>"

text \<open>\<open>unique_argument_names.rs\<close>; the state is the \<open>HashSet\<close> of names.\<close>

definition unique_argument_names :: "string set visitor" where
  "unique_argument_names =
     \<lparr>v_mode = ModeNormal,
      v_call = (\<lambda>c ctx names. case c of
          EnterDirective _ \<Rightarrow> (ctx, {})
        | EnterArgument n _ \<Rightarrow>
            (if node n \<in> names then
               report_error [pos n] (''There can only be one argument named '' @ quote (node n)) ctx
             else ctx, insert (node n) names)
        | EnterField _ \<Rightarrow> (ctx, {})
        | _ \<Rightarrow> (ctx, names))\<rparr>"


subsection \<open>Fields and fragments\<close>

text \<open>\<open>fields_on_correct_type.rs\<close>.\<close>

definition check_field_exists :: "field positioned \<Rightarrow> visitor_ctx \<Rightarrow> visitor_ctx" where
  "check_field_exists field ctx =
     (case parent_type ctx of
        None \<Rightarrow> ctx
      | Some parent_ty \<Rightarrow>
          if is_abstract parent_ty \<and> node (f_name (node field)) = ''__typename'' then ctx
          else if field_by_name parent_ty (node (f_name (node field))) = None \<and>
                  \<not> list_ex (\<lambda>directive. node (d_name (node directive)) = ''ifdef'')
                      (f_directives (node field)) then
            report_error [pos field]
              (''Unknown field '' @ quote (node (f_name (node field))) @ '' on type '' @
               quote (mt_name parent_ty) @ ''.'' @
               (if enable_suggestions (vc_registry ctx) then
                  (case make_suggestion '' Did you mean''
                          (case mt_fields parent_ty of Some fs \<Rightarrow> map fst fs | None \<Rightarrow> [])
                          (node (f_name (node field))) of
                     Some s \<Rightarrow> s
                   | None \<Rightarrow> [])
                else [])) ctx
          else ctx)"

definition fields_on_correct_type :: "unit visitor" where
  "fields_on_correct_type =
     \<lparr>v_mode = ModeNormal,
      v_call = (\<lambda>c ctx s. case c of
          EnterField field \<Rightarrow> (check_field_exists field ctx, s)
        | _ \<Rightarrow> (ctx, s))\<rparr>"

text \<open>\<open>fragments_on_composite_types.rs\<close>.\<close>

definition fragments_on_composite_types :: "unit visitor" where
  "fragments_on_composite_types =
     \<lparr>v_mode = ModeNormal,
      v_call = (\<lambda>c ctx s. case c of
          EnterFragmentDefinition n fragment_definition \<Rightarrow>
            (case current_type ctx of
               Some ty \<Rightarrow>
                 if \<not> is_composite ty then
                   report_error [pos fragment_definition]
                     (''Fragment '' @ quote n @ '' cannot condition non composite type '' @
                      quote (node (tc_on (node (fd_type_condition (node fragment_definition)))))) ctx
                 else ctx
             | None \<Rightarrow> ctx, s)
        | EnterInlineFragment inline_fragment \<Rightarrow>
            (case current_type ctx of
               Some ty \<Rightarrow>
                 if \<not> is_composite ty then
                   report_error [pos inline_fragment]
                     (''Fragment cannot condition non composite type '' @ quote (mt_name ty)) ctx
                 else ctx
             | None \<Rightarrow> ctx, s)
        | _ \<Rightarrow> (ctx, s))\<rparr>"

text \<open>\<open>known_fragment_names.rs\<close>.\<close>

definition known_fragment_names :: "unit visitor" where
  "known_fragment_names =
     \<lparr>v_mode = ModeNormal,
      v_call = (\<lambda>c ctx s. case c of
          EnterFragmentSpread fragment_spread \<Rightarrow>
            (if \<not> is_known_fragment ctx (node (fs_fragment_name (node fragment_spread))) then
               report_error [pos fragment_spread]
                 (''Unknown fragment: '' @ quote (node (fs_fragment_name (node fragment_spread)))) ctx
             else ctx, s)
        | _ \<Rightarrow> (ctx, s))\<rparr>"

text \<open>\<open>known_type_names.rs\<close>.\<close>

definition validate_type :: "string \<Rightarrow> pos \<Rightarrow> visitor_ctx \<Rightarrow> visitor_ctx" where
  "validate_type type_name p ctx =
     (if \<not> im_contains (types (vc_registry ctx)) type_name then
        report_error [p] (''Unknown type '' @ quote type_name) ctx
      else ctx)"

definition known_type_names :: "unit visitor" where
  "known_type_names =
     \<lparr>v_mode = ModeNormal,
      v_call = (\<lambda>c ctx s. case c of
          EnterFragmentDefinition _ fragment_definition \<Rightarrow>
            (validate_type (node (tc_on (node (fd_type_condition (node fragment_definition)))))
               (pos fragment_definition) ctx, s)
        | EnterVariableDefinition variable_definition \<Rightarrow>
            (validate_type (concrete_typename (type_str (node (vd_var_type (node variable_definition)))))
               (pos variable_definition) ctx, s)
        | EnterInlineFragment inline_fragment \<Rightarrow>
            (case if_type_condition (node inline_fragment) of
               Some cond \<Rightarrow> validate_type (node (tc_on (node cond))) (pos inline_fragment) ctx
             | None \<Rightarrow> ctx, s)
        | _ \<Rightarrow> (ctx, s))\<rparr>"

text \<open>\<open>possible_fragment_spreads.rs\<close>; the state is \<open>fragment_types\<close>.\<close>

definition possible_fragment_spreads :: "(string, string) index_map visitor" where
  "possible_fragment_spreads =
     \<lparr>v_mode = ModeNormal,
      v_call = (\<lambda>c ctx s. case c of
          EnterDocument doc \<Rightarrow>
            (ctx, fold (\<lambda>(n, fragment). im_insert n
                     (node (tc_on (node (fd_type_condition (node fragment)))))) (doc_fragments doc) s)
        | EnterFragmentSpread fragment_spread \<Rightarrow>
            (case im_get s (node (fs_fragment_name (node fragment_spread))) of
               None \<Rightarrow> ctx
             | Some fragment_type \<Rightarrow>
                 (case current_type ctx of
                    None \<Rightarrow> ctx
                  | Some cur \<Rightarrow>
                      (case im_get (types (vc_registry ctx)) fragment_type of
                         None \<Rightarrow> ctx
                       | Some on_type \<Rightarrow>
                           if \<not> type_overlap cur on_type then
                             report_error [pos fragment_spread]
                               (''Fragment '' @ quote (node (fs_fragment_name (node fragment_spread))) @
                                '' cannot be spread here as objects of type '' @ quote (mt_name cur) @
                                '' can never be of type '' @ quote fragment_type) ctx
                           else ctx)), s)
        | EnterInlineFragment inline_fragment \<Rightarrow>
            (case parent_type ctx of
               None \<Rightarrow> ctx
             | Some parent_ty \<Rightarrow>
                 (case if_type_condition (node inline_fragment) of
                    None \<Rightarrow> ctx
                  | Some cond \<Rightarrow>
                      (case im_get (types (vc_registry ctx)) (node (tc_on (node cond))) of
                         None \<Rightarrow> ctx
                       | Some on_type \<Rightarrow>
                           if \<not> type_overlap parent_ty on_type then
                             report_error [pos inline_fragment]
                               (''Fragment cannot be spread here as objects of type '' @
                                quote (mt_name parent_ty) @ '' can never be of type '' @
                                quote (node (tc_on (node cond)))) ctx
                           else ctx)), s)
        | _ \<Rightarrow> (ctx, s))\<rparr>"

text \<open>\<open>scalar_leafs.rs\<close>.\<close>

definition check_leaf :: "field positioned \<Rightarrow> visitor_ctx \<Rightarrow> visitor_ctx" where
  "check_leaf field ctx =
     (case Option.bind (parent_type ctx) (\<lambda>ty.
             Option.bind (field_by_name ty (node (f_name (node field)))) (\<lambda>schema_field.
               concrete_type_by_name (vc_registry ctx) (mf_ty schema_field))) of
        None \<Rightarrow> ctx
      | Some ty \<Rightarrow>
          if is_leaf ty \<and> ss_items (node (f_selection_set (node field))) \<noteq> [] then
            report_error [pos field]
              (''Field '' @ quote (node (f_name (node field))) @
               '' must not have a selection since type '' @ quote (mt_name ty) @ '' has no subfields'') ctx
          else if \<not> is_leaf ty \<and> ss_items (node (f_selection_set (node field))) = [] then
            report_error [pos field]
              (''Field '' @ quote (node (f_name (node field))) @ '' of type '' @ quote (mt_name ty) @
               '' must have a selection of subfields'') ctx
          else ctx)"

definition scalar_leafs :: "unit visitor" where
  "scalar_leafs =
     \<lparr>v_mode = ModeNormal,
      v_call = (\<lambda>c ctx s. case c of
          EnterField field \<Rightarrow> (check_leaf field ctx, s)
        | _ \<Rightarrow> (ctx, s))\<rparr>"

subsection \<open>Variables\<close>

text \<open>\<open>unique_variable_names.rs\<close>, \<open>upload_file.rs\<close> and \<open>variables_are_input_types.rs\<close>.\<close>

definition unique_variable_names :: "string set visitor" where
  "unique_variable_names =
     \<lparr>v_mode = ModeNormal,
      v_call = (\<lambda>c ctx names. case c of
          EnterOperationDefinition _ _ \<Rightarrow> (ctx, {})
        | EnterVariableDefinition variable_definition \<Rightarrow>
            (if node (vd_name (node variable_definition)) \<in> names then
               report_error [pos variable_definition]
                 (''There can only be one variable named \"$'' @
                  node (vd_name (node variable_definition)) @ ''\"'') ctx
             else ctx, insert (node (vd_name (node variable_definition))) names)
        | _ \<Rightarrow> (ctx, names))\<rparr>"

definition upload_file :: "unit visitor" where
  "upload_file =
     \<lparr>v_mode = ModeNormal,
      v_call = (\<lambda>c ctx s. case c of
          EnterOperationDefinition _ operation_definition \<Rightarrow>
            (fold (\<lambda>var ctx.
               case concrete_type_by_parsed_type (vc_registry ctx) (node (vd_var_type (node var))) of
                 Some ty \<Rightarrow>
                   if od_ty (node operation_definition) \<noteq> Mutation \<and> mt_name ty = ''Upload'' then
                     report_error [pos var]
                       ''The Upload type is only allowed to be defined on a mutation'' ctx
                   else ctx
               | None \<Rightarrow> ctx) (od_variable_definitions (node operation_definition)) ctx, s)
        | _ \<Rightarrow> (ctx, s))\<rparr>"

definition variables_are_input_types :: "unit visitor" where
  "variables_are_input_types =
     \<lparr>v_mode = ModeNormal,
      v_call = (\<lambda>c ctx s. case c of
          EnterVariableDefinition variable_definition \<Rightarrow>
            (case concrete_type_by_parsed_type (vc_registry ctx)
                    (node (vd_var_type (node variable_definition))) of
               Some ty \<Rightarrow>
                 if \<not> is_input ty then
                   report_error [pos variable_definition]
                     (''Variable '' @ quote (node (vd_name (node variable_definition))) @
                      '' cannot be of non-input type '' @ quote (mt_name ty)) ctx
                 else ctx
             | None \<Rightarrow> ctx, s)
        | _ \<Rightarrow> (ctx, s))\<rparr>"

subsection \<open>Directives\<close>

text \<open>\<open>directives_unique.rs\<close>.\<close>

definition check_duplicate_directive ::
  "directive positioned list \<Rightarrow> visitor_ctx \<Rightarrow> visitor_ctx" where
  "check_duplicate_directive ds ctx =
     fst (fold (\<lambda>directive (ctx, exists).
        let n = node (d_name (node directive))
        in case im_get (directives (vc_registry ctx)) n of
             Some meta_directive \<Rightarrow>
               if \<not> md_is_repeatable meta_directive then
                 if n \<in> exists then
                   (report_error [pos directive] (''Duplicate directive '' @ quote n) ctx, exists)
                 else (ctx, insert n exists)
               else (ctx, exists)
           | None \<Rightarrow> (ctx, exists)) ds (ctx, {}))"

definition directives_unique :: "unit visitor" where
  "directives_unique =
     \<lparr>v_mode = ModeNormal,
      v_call = (\<lambda>c ctx s. case c of
          EnterOperationDefinition _ d \<Rightarrow> (check_duplicate_directive (od_directives (node d)) ctx, s)
        | EnterFragmentDefinition _ d \<Rightarrow> (check_duplicate_directive (fd_directives (node d)) ctx, s)
        | EnterVariableDefinition d \<Rightarrow> (check_duplicate_directive (vd_directives (node d)) ctx, s)
        | EnterField d \<Rightarrow> (check_duplicate_directive (f_directives (node d)) ctx, s)
        | EnterFragmentSpread d \<Rightarrow> (check_duplicate_directive (fs_directives (node d)) ctx, s)
        | EnterInlineFragment d \<Rightarrow> (check_duplicate_directive (if_directives (node d)) ctx, s)
        | _ \<Rightarrow> (ctx, s))\<rparr>"

text \<open>\<open>known_directives.rs\<close>; the state is \<open>location_stack\<close>, top first.\<close>

fun operation_location :: "operation_type \<Rightarrow> directive_location" where
  "operation_location Query = LQUERY"
| "operation_location Mutation = LMUTATION"
| "operation_location Subscription = LSUBSCRIPTION"

definition check_directive_location ::
  "directive_location list \<Rightarrow> directive positioned \<Rightarrow> visitor_ctx \<Rightarrow> visitor_ctx" where
  "check_directive_location location_stack directive ctx =
     (case im_get (directives (vc_registry ctx)) (node (d_name (node directive))) of
        Some schema_directive \<Rightarrow>
          (case location_stack of
             current_location # _ \<Rightarrow>
               if current_location \<notin> set (md_locations schema_directive) then
                 report_error [pos directive]
                   (''Directive '' @ quote (node (d_name (node directive))) @ '' may not be used on '' @
                    quote (directive_location_str current_location)) ctx
               else ctx
           | [] \<Rightarrow> ctx)
      | None \<Rightarrow>
          report_error [pos directive]
            (''Unknown directive '' @ quote (node (d_name (node directive)))) ctx)"

definition known_directives :: "directive_location list visitor" where
  "known_directives =
     \<lparr>v_mode = ModeNormal,
      v_call = (\<lambda>c ctx s. case c of
          EnterOperationDefinition _ d \<Rightarrow> (ctx, operation_location (od_ty (node d)) # s)
        | ExitOperationDefinition _ _ \<Rightarrow> (ctx, tl s)
        | EnterFragmentDefinition _ _ \<Rightarrow> (ctx, LFRAGMENT_DEFINITION # s)
        | ExitFragmentDefinition _ _ \<Rightarrow> (ctx, tl s)
        | EnterDirective directive \<Rightarrow> (check_directive_location s directive ctx, s)
        | EnterField _ \<Rightarrow> (ctx, LFIELD # s)
        | ExitField _ \<Rightarrow> (ctx, tl s)
        | EnterFragmentSpread _ \<Rightarrow> (ctx, LFRAGMENT_SPREAD # s)
        | ExitFragmentSpread _ \<Rightarrow> (ctx, tl s)
        | EnterInlineFragment _ \<Rightarrow> (ctx, LINLINE_FRAGMENT # s)
        | ExitInlineFragment _ \<Rightarrow> (ctx, tl s)
        | _ \<Rightarrow> (ctx, s))\<rparr>"


subsection \<open>The contract\<close>

lemma report_error_append: "report_error ls msg ctx = append_errors [RuleError ls msg] ctx"
  by (simp add: report_error_def append_errors_def)

lemma append_errors_env [simp]:
  "vc_registry (append_errors errs ctx) = vc_registry ctx"
  "vc_fragments (append_errors errs ctx) = vc_fragments ctx"
  "vc_variables (append_errors errs ctx) = vc_variables ctx"
  "parent_type (append_errors errs ctx) = parent_type ctx"
  "current_type (append_errors errs ctx) = current_type ctx"
  by (simp_all add: append_errors_def parent_type_def current_type_def)

lemma is_known_fragment_clear [simp]: "is_known_fragment (clear ctx) n = is_known_fragment ctx n"
  by (simp add: is_known_fragment_def)

lemma fold_append_errors:
  assumes "\<And>x errs. f x (append_errors errs ctx) = append_errors (errs @ g x) ctx"
  shows "fold f xs (append_errors errs ctx) = append_errors (errs @ concat (map g xs)) ctx"
  using assms by (induction xs arbitrary: errs) simp_all

lemma fold_append_errors': 
  assumes "\<And>x errs. f x (append_errors errs ctx) = append_errors (errs @ g x) ctx"
  shows "fold f xs ctx = append_errors (concat (map g xs)) ctx"
  using fold_append_errors [of f ctx g xs "[]", OF assms] by simp

lemmas frame_simps = emits_def nextst_def report_error_append

interpretation arguments_of_correct_type: rule_visitor arguments_of_correct_type
  by unfold_locales
     (auto simp: arguments_of_correct_type_def check_argument_value_def frame_simps
       split: visitor_call.splits option.splits sum.splits)

interpretation default_values_of_correct_type: rule_visitor default_values_of_correct_type
  by unfold_locales
     (auto simp: default_values_of_correct_type_def check_default_value_def frame_simps Let_def
       split: visitor_call.splits option.splits sum.splits base_type.splits)

interpretation known_argument_names: rule_visitor known_argument_names
  by unfold_locales
     (auto simp: known_argument_names_def check_argument_name_def frame_simps
       split: visitor_call.splits option.splits args_type.splits)

interpretation unique_argument_names: rule_visitor unique_argument_names
  by unfold_locales
     (auto simp: unique_argument_names_def frame_simps split: visitor_call.splits)

interpretation fields_on_correct_type: rule_visitor fields_on_correct_type
  by unfold_locales
     (auto simp: fields_on_correct_type_def check_field_exists_def frame_simps
       split: visitor_call.splits option.splits)

interpretation fragments_on_composite_types: rule_visitor fragments_on_composite_types
  by unfold_locales
     (auto simp: fragments_on_composite_types_def frame_simps
       split: visitor_call.splits option.splits)

interpretation known_fragment_names: rule_visitor known_fragment_names
  by unfold_locales
     (auto simp: known_fragment_names_def frame_simps split: visitor_call.splits)

interpretation known_type_names: rule_visitor known_type_names
  by unfold_locales
     (auto simp: known_type_names_def validate_type_def frame_simps
       split: visitor_call.splits option.splits)

interpretation possible_fragment_spreads: rule_visitor possible_fragment_spreads
  by unfold_locales
     (auto simp: possible_fragment_spreads_def frame_simps
       split: visitor_call.splits option.splits)

interpretation scalar_leafs: rule_visitor scalar_leafs
  by unfold_locales
     (auto simp: scalar_leafs_def check_leaf_def frame_simps
       split: visitor_call.splits option.splits)

interpretation unique_variable_names: rule_visitor unique_variable_names
  by unfold_locales
     (auto simp: unique_variable_names_def frame_simps split: visitor_call.splits)

interpretation variables_are_input_types: rule_visitor variables_are_input_types
  by unfold_locales
     (auto simp: variables_are_input_types_def frame_simps
       split: visitor_call.splits option.splits)

interpretation known_directives: rule_visitor known_directives
  by unfold_locales
     (auto simp: known_directives_def check_directive_location_def frame_simps
       split: visitor_call.splits option.splits list.splits)


definition missing_errors ::
  "(meta_input_value \<Rightarrow> rule_error) \<Rightarrow> arguments \<Rightarrow> (string, meta_input_value) index_map \<Rightarrow>
   rule_error list" where
  "missing_errors err args schema_args =
     concat (map (\<lambda>(_, arg). if argument_missing args arg then [err arg] else []) schema_args)"

lemma missing_errors_fold:
  "fold (\<lambda>(_, arg) ctx. if argument_missing args arg then report_error (ls arg) (msg arg) ctx else ctx)
     schema_args ctx =
   append_errors (missing_errors (\<lambda>arg. RuleError (ls arg) (msg arg)) args schema_args) ctx"
  unfolding missing_errors_def
  by (rule fold_append_errors') (auto simp: report_error_append)

interpretation provided_non_null_arguments: rule_visitor provided_non_null_arguments
  by unfold_locales
     (auto simp: provided_non_null_arguments_def missing_errors_fold frame_simps
       split: visitor_call.splits option.splits)

definition upload_errors :: "registry \<Rightarrow> operation_definition \<Rightarrow> rule_error list" where
  "upload_errors reg op =
     concat (map (\<lambda>var.
       case concrete_type_by_parsed_type reg (node (vd_var_type (node var))) of
         Some ty \<Rightarrow>
           if od_ty op \<noteq> Mutation \<and> mt_name ty = ''Upload'' then
             [RuleError [pos var] ''The Upload type is only allowed to be defined on a mutation'']
           else []
       | None \<Rightarrow> []) (od_variable_definitions op))"

lemma upload_errors_fold:
  "fold (\<lambda>var ctx.
       case concrete_type_by_parsed_type (vc_registry ctx) (node (vd_var_type (node var))) of
         Some ty \<Rightarrow>
           if od_ty op \<noteq> Mutation \<and> mt_name ty = ''Upload'' then
             report_error [pos var]
               ''The Upload type is only allowed to be defined on a mutation'' ctx
           else ctx
       | None \<Rightarrow> ctx) (od_variable_definitions op) ctx =
   append_errors (upload_errors (vc_registry ctx) op) ctx"
  unfolding upload_errors_def
  by (rule fold_append_errors') (auto simp: report_error_append split: option.splits)

interpretation upload_file: rule_visitor upload_file
  by unfold_locales
     (auto simp: upload_file_def upload_errors_fold frame_simps split: visitor_call.splits)

fun duplicate_errors :: "registry \<Rightarrow> directive positioned list \<Rightarrow> string set \<Rightarrow> rule_error list" where
  "duplicate_errors reg [] ex = []"
| "duplicate_errors reg (d # ds) ex =
     (let n = node (d_name (node d))
      in case im_get (directives reg) n of
           Some md \<Rightarrow>
             if md_is_repeatable md then duplicate_errors reg ds ex
             else if n \<in> ex then
               RuleError [pos d] (''Duplicate directive '' @ quote n) # duplicate_errors reg ds ex
             else duplicate_errors reg ds (insert n ex)
         | None \<Rightarrow> duplicate_errors reg ds ex)"

lemma check_duplicate_directive_append:
  "check_duplicate_directive ds ctx = append_errors (duplicate_errors (vc_registry ctx) ds {}) ctx"
proof -
  have "fst (fold (\<lambda>directive (ctx, exists).
        let n = node (d_name (node directive))
        in case im_get (directives (vc_registry ctx)) n of
             Some meta_directive \<Rightarrow>
               if \<not> md_is_repeatable meta_directive then
                 if n \<in> exists then
                   (report_error [pos directive] (''Duplicate directive '' @ quote n) ctx, exists)
                 else (ctx, insert n exists)
               else (ctx, exists)
           | None \<Rightarrow> (ctx, exists)) ds (append_errors errs ctx, ex)) =
      append_errors (errs @ duplicate_errors (vc_registry ctx) ds ex) ctx" for errs ex
    by (induction ds arbitrary: errs ex)
       (auto simp: Let_def report_error_append split: option.splits)
  from this [of "[]" "{}"] show ?thesis
    unfolding check_duplicate_directive_def by (simp del: im_get_def)
qed

interpretation directives_unique: rule_visitor directives_unique
  by unfold_locales
     (auto simp: directives_unique_def check_duplicate_directive_append frame_simps
       split: visitor_call.splits)

end
