(* ===== verification/Rules_Overlap.thy ===== *)
theory Rules_Overlap
  imports Rules_Local
begin

text \<open>
  \<open>overlapping_fields_can_be_merged.rs\<close>.

  \<open>FindConflicts::find\<close> walks a selection set in order and descends into inline fragments and,
  once each, into spread fragments. Its recursion is written with the stack of pending selections
  as an argument: descending pushes the selections of the fragment in front of the rest. It ends
  because a descent into a spread adds a name to \<open>visited\<close> (\<open>find_measure\<close>).
\<close>

type_synonym outputs = "((string option \<times> string), field positioned) index_map"

text \<open>The arguments of two fields of one key: the loop over \<open>prev_field.node.arguments\<close>.\<close>

definition differing_arguments_message :: "string \<Rightarrow> string" where
  "differing_arguments_message n =
     ''Fields '' @ quote n @ '' conflict because they have differing arguments. Use different aliases on the fields to fetch both if this was intentional.''"

definition add_output ::
  "string option \<Rightarrow> string \<Rightarrow> field positioned \<Rightarrow> outputs \<times> visitor_ctx \<Rightarrow> outputs \<times> visitor_ctx" where
  "add_output on_type n field st =
     (let (outputs, ctx) = st
      in case im_get outputs (on_type, n) of
           Some prev_field \<Rightarrow>
             let ctx = (if node (f_name (node prev_field)) \<noteq> node (f_name (node field)) then
                          report_error [pos prev_field, pos field]
                            (''Fields '' @ quote n @ '' conflict because '' @
                             quote (node (f_name (node prev_field))) @ '' and '' @
                             quote (node (f_name (node field))) @ '' are different fields. Use different aliases on the fields to fetch both if this was intentional.'') ctx
                        else ctx);
                 ctx = (if length (f_arguments (node prev_field)) \<noteq> length (f_arguments (node field)) then
                          report_error [pos prev_field, pos field] (differing_arguments_message n) ctx
                        else ctx);
                 ctx = fold (\<lambda>(n, value) ctx.
                          case get_argument (f_arguments (node field)) (node n) of
                            Some other_value \<Rightarrow>
                              if value_eq (node value) (node other_value) then ctx
                              else report_error [pos prev_field, pos field]
                                     (differing_arguments_message (node n)) ctx
                          | None \<Rightarrow>
                              report_error [pos prev_field, pos field]
                                (differing_arguments_message (node n)) ctx)
                          (f_arguments (node prev_field)) ctx
             in (outputs, ctx)
         | None \<Rightarrow> (im_insert (on_type, n) field outputs, ctx))"

definition pending_size :: "(string option \<times> selection positioned) list \<Rightarrow> nat" where
  "pending_size todo = size_list (\<lambda>(_, sel). size_positioned size sel) todo"

lemma pending_size_append [simp]: "pending_size (xs @ ys) = pending_size xs + pending_size ys"
  by (simp add: pending_size_def)

lemma pending_size_Cons [simp]: "pending_size ((on, sel) # todo) = Suc (Suc (size (node sel)) + pending_size todo)"
  by (simp add: pending_size_def size_positioned_node)

lemma pending_size_map: "pending_size (map (Pair on) (ss_items ss)) < size ss"
  by (cases ss) (simp add: pending_size_def size_list_map o_def)

lemma pending_size_inline:
  "pending_size (map (Pair on) (ss_items (node (if_selection_set (node frag))))) <
   3 + size_positioned size frag"
  using pending_size_map [of on "node (if_selection_set (node frag))"] size_nested(2) [of "node frag"]
  by (simp add: size_positioned_node)

lemma unvisited_less:
  assumes "map_of frags n = Some fragment" "n \<notin> visited"
  shows "card (fst ` set frags - insert n visited) < card (fst ` set frags - visited)"
proof (rule psubset_card_mono)
  have "n \<in> fst ` set frags - visited"
    using assms by (auto dest!: map_of_SomeD intro: rev_image_eqI)
  then show "fst ` set frags - insert n visited \<subset> fst ` set frags - visited" by auto
qed simp

function find_conflicts ::
  "fragments \<Rightarrow> (string option \<times> selection positioned) list \<Rightarrow>
   (outputs \<times> string set) \<times> visitor_ctx \<Rightarrow> (outputs \<times> string set) \<times> visitor_ctx" where
  "find_conflicts frags [] st = st"
| "find_conflicts frags ((on_type, sel) # todo) ((outputs, visited), ctx) =
     (case node sel of
        Field field \<Rightarrow>
          let (outputs, ctx) = add_output on_type (node (response_key (node field))) field (outputs, ctx)
          in find_conflicts frags todo ((outputs, visited), ctx)
      | InlineFragment inline_fragment \<Rightarrow>
          let on_type = map_option (\<lambda>cond. node (tc_on (node cond)))
                          (if_type_condition (node inline_fragment))
          in find_conflicts frags
               (map (Pair on_type) (ss_items (node (if_selection_set (node inline_fragment)))) @ todo)
               ((outputs, visited), ctx)
      | FragmentSpread fragment_spread \<Rightarrow>
          (case im_get frags (node (fs_fragment_name (node fragment_spread))) of
             Some fragment \<Rightarrow>
               let n = node (fs_fragment_name (node fragment_spread));
                   on_type = Some (node (tc_on (node (fd_type_condition (node fragment)))))
               in if n \<in> visited then find_conflicts frags todo ((outputs, visited), ctx)
                  else find_conflicts frags
                         (map (Pair on_type) (ss_items (node (fd_selection_set (node fragment)))) @ todo)
                         ((outputs, insert n visited), ctx)
           | None \<Rightarrow> find_conflicts frags todo ((outputs, visited), ctx)))"
  by pat_completeness auto
termination
  by (relation "measures [\<lambda>(frags, todo, ((outputs, visited), ctx)). card (fst ` set frags - visited),
       \<lambda>(frags, todo, ((outputs, visited), ctx)). pending_size todo]")
     (auto simp: unvisited_less pending_size_inline)

definition overlapping_fields_can_be_merged :: "unit visitor" where
  "overlapping_fields_can_be_merged =
     \<lparr>v_mode = ModeNormal,
      v_call = (\<lambda>c ctx s. case c of
          EnterSelectionSet selection_set \<Rightarrow>
            (snd (find_conflicts (vc_fragments ctx)
               (map (Pair None) (ss_items (node selection_set))) (([], {}), ctx)), s)
        | _ \<Rightarrow> (ctx, s))\<rparr>"


subsection \<open>Conflicts\<close>

text \<open>The fields that \<open>find_conflicts\<close> compares, in order, each with the type it is selected on.\<close>

function collect_fields ::
  "fragments \<Rightarrow> (string option \<times> selection positioned) list \<Rightarrow> string set \<Rightarrow>
   (string option \<times> field positioned) list" where
  "collect_fields frags [] visited = []"
| "collect_fields frags ((on_type, sel) # todo) visited =
     (case node sel of
        Field field \<Rightarrow> (on_type, field) # collect_fields frags todo visited
      | InlineFragment frag \<Rightarrow>
          collect_fields frags
            (map (Pair (map_option (\<lambda>cond. node (tc_on (node cond))) (if_type_condition (node frag))))
               (ss_items (node (if_selection_set (node frag)))) @ todo) visited
      | FragmentSpread spread \<Rightarrow>
          (case map_of frags (node (fs_fragment_name (node spread))) of
             Some fragment \<Rightarrow>
               if node (fs_fragment_name (node spread)) \<in> visited then collect_fields frags todo visited
               else collect_fields frags
                      (map (Pair (Some (node (tc_on (node (fd_type_condition (node fragment)))))))
                         (ss_items (node (fd_selection_set (node fragment)))) @ todo)
                      (insert (node (fs_fragment_name (node spread))) visited)
           | None \<Rightarrow> collect_fields frags todo visited))"
  by pat_completeness auto
termination
  by (relation "measures [\<lambda>(frags, todo, visited). card (fst ` set frags - visited),
       \<lambda>(frags, todo, visited). pending_size todo]")
     (auto simp: unvisited_less pending_size_inline)

abbreviation field_key :: "string option \<times> field positioned \<Rightarrow> string option \<times> string" where
  "field_key x \<equiv> (fst x, node (response_key (node (snd x))))"

lemma find_conflicts_collect:
  "snd (find_conflicts frags todo ((os, visited), ctx)) =
   snd (fold (\<lambda>(on_type, field). add_output on_type (node (response_key (node field))) field)
     (collect_fields frags todo visited) (os, ctx))"
proof (induction frags todo "((os, visited), ctx)" arbitrary: os visited ctx
    rule: find_conflicts.induct)
  case (2 frags on_type sel todo os visited ctx)
  show ?case
  proof (cases "node sel")
    case (Field field)
    obtain os' ctx' where out:
      "add_output on_type (node (response_key (node field))) field (os, ctx) = (os', ctx')"
      by fastforce
    then show ?thesis using Field 2(1) [OF Field out [symmetric] refl] by simp
  next
    case (FragmentSpread spread)
    then show ?thesis using 2(2,3,4) [OF FragmentSpread]
      by (auto simp: Let_def split: option.splits)
  next
    case (InlineFragment frag)
    then show ?thesis using 2(5) [OF InlineFragment refl] by (simp add: Let_def)
  qed
qed simp

text \<open>Two fields of one response key can be merged when they have the same name and arguments.\<close>

definition mergeable :: "field \<Rightarrow> field \<Rightarrow> bool" where
  "mergeable prev fld \<longleftrightarrow>
     node (f_name prev) = node (f_name fld) \<and>
     length (f_arguments prev) = length (f_arguments fld) \<and>
     (\<forall>(n, val)\<in>set (f_arguments prev). \<exists>other. get_argument (f_arguments fld) (node n) = Some other \<and>
        value_eq (node val) (node other))"


definition conflict_errors :: "string \<Rightarrow> field positioned \<Rightarrow> field positioned \<Rightarrow> rule_error list" where
  "conflict_errors n prev fld =
     (if node (f_name (node prev)) \<noteq> node (f_name (node fld)) then
        [RuleError [pos prev, pos fld]
          (''Fields '' @ quote n @ '' conflict because '' @ quote (node (f_name (node prev))) @ '' and '' @
           quote (node (f_name (node fld))) @ '' are different fields. Use different aliases on the fields to fetch both if this was intentional.'')]
      else []) @
     (if length (f_arguments (node prev)) \<noteq> length (f_arguments (node fld)) then
        [RuleError [pos prev, pos fld] (differing_arguments_message n)] else []) @
     concat (map (\<lambda>(n, val).
       case get_argument (f_arguments (node fld)) (node n) of
         Some other \<Rightarrow>
           if value_eq (node val) (node other) then []
           else [RuleError [pos prev, pos fld] (differing_arguments_message (node n))]
       | None \<Rightarrow> [RuleError [pos prev, pos fld] (differing_arguments_message (node n))])
       (f_arguments (node prev)))"

lemma conflict_errors_Nil: "conflict_errors n prev fld = [] \<longleftrightarrow> mergeable (node prev) (node fld)"
  by (fastforce simp: conflict_errors_def mergeable_def split: option.splits if_splits)

lemma add_output_eq:
  "add_output on_type n fld (os, ctx) =
     (case map_of os (on_type, n) of
        Some prev \<Rightarrow> (os, append_errors (conflict_errors n prev fld) ctx)
      | None \<Rightarrow> (im_insert (on_type, n) fld os, ctx))"
proof -
  have "fold (\<lambda>(n, val) ctx.
      case get_argument (f_arguments (node fld)) (node n) of
        Some other \<Rightarrow>
          if value_eq (node val) (node other) then ctx
          else report_error [pos prev, pos fld] (differing_arguments_message (node n)) ctx
      | None \<Rightarrow> report_error [pos prev, pos fld] (differing_arguments_message (node n)) ctx)
      (f_arguments (node prev)) ctx =
    append_errors (concat (map (\<lambda>(n, val).
       case get_argument (f_arguments (node fld)) (node n) of
         Some other \<Rightarrow>
           if value_eq (node val) (node other) then []
           else [RuleError [pos prev, pos fld] (differing_arguments_message (node n))]
       | None \<Rightarrow> [RuleError [pos prev, pos fld] (differing_arguments_message (node n))])
       (f_arguments (node prev)))) ctx" for prev ctx
    by (rule fold_append_errors') (auto simp: report_error_append split: option.splits)
  then show ?thesis
    by (simp add: add_output_def conflict_errors_def Let_def report_error_append split: option.splits)
qed

fun conflicts :: "outputs \<Rightarrow> (string option \<times> field positioned) list \<Rightarrow> rule_error list" where
  "conflicts os [] = []"
| "conflicts os (x # xs) =
     (case map_of os (field_key x) of
        Some prev \<Rightarrow> conflict_errors (snd (field_key x)) prev (snd x) @ conflicts os xs
      | None \<Rightarrow> conflicts (im_insert (field_key x) (snd x) os) xs)"

lemma fold_add_output:
  "snd (fold (\<lambda>(on_type, fld). add_output on_type (node (response_key (node fld))) fld) xs (os, ctx)) =
   append_errors (conflicts os xs) ctx"
  by (induction os xs arbitrary: ctx rule: conflicts.induct)
     (auto simp: add_output_eq split: option.splits)

lemma find_conflicts_errors:
  "snd (find_conflicts frags todo ((os, visited), ctx)) =
   append_errors (conflicts os (collect_fields frags todo visited)) ctx"
  by (simp add: find_conflicts_collect fold_add_output)

interpretation overlapping_fields_can_be_merged: rule_visitor overlapping_fields_can_be_merged
  by unfold_locales
     (auto simp: overlapping_fields_can_be_merged_def find_conflicts_errors frame_simps
       split: visitor_call.splits)

definition merge_ok ::
  "outputs \<Rightarrow> (string option \<times> field positioned) list \<Rightarrow> string option \<times> field positioned \<Rightarrow> bool" where
  "merge_ok os pre x \<longleftrightarrow>
     (case map_of os (field_key x) of
        Some prev \<Rightarrow> mergeable (node prev) (node (snd x))
      | None \<Rightarrow> (\<forall>prev. find (\<lambda>y. field_key y = field_key x) pre = Some prev \<longrightarrow>
                  mergeable (node (snd prev)) (node (snd x))))"

lemma merge_ok_Cons:
  "map_of os (field_key x) = None \<Longrightarrow>
   merge_ok (im_insert (field_key x) (snd x) os) pre y \<longleftrightarrow> merge_ok os (x # pre) y"
  by (cases "field_key y = field_key x")
     (auto simp: merge_ok_def update_conv' split: option.splits)

lemma conflicts_Nil_aux:
  "conflicts os xs = [] \<longleftrightarrow> (\<forall>pre x post. xs = pre @ x # post \<longrightarrow> merge_ok os pre x)"
proof (induction os xs rule: conflicts.induct)
  case (2 os x xs)
  have split: "(\<forall>pre y post. x # xs = pre @ y # post \<longrightarrow> P pre y) \<longleftrightarrow>
    P [] x \<and> (\<forall>pre y post. xs = pre @ y # post \<longrightarrow> P (x # pre) y)" for P
    by (cases x) (auto simp: Cons_eq_append_conv)
  show ?case
  proof (cases "map_of os (field_key x)")
    case None
    then have "conflicts os (x # xs) = conflicts (im_insert (field_key x) (snd x) os) xs"
      by simp
    moreover have "merge_ok os [] x" using None by (simp add: merge_ok_def)
    ultimately show ?thesis
      unfolding split using 2(1) [OF None] merge_ok_Cons [OF None] by presburger
  next
    case (Some prev)
    have "merge_ok os (x # pre) y \<longleftrightarrow> merge_ok os pre y" for pre y
      using Some by (auto simp: merge_ok_def split: option.splits)
    moreover have "merge_ok os [] x \<longleftrightarrow> conflict_errors (snd (field_key x)) prev (snd x) = []"
      using Some by (simp add: merge_ok_def conflict_errors_Nil)
    ultimately show ?thesis
      unfolding split using 2(2) [OF Some] Some by simp
  qed
qed simp

lemma conflicts_Nil:
  "conflicts [] xs = [] \<longleftrightarrow>
     (\<forall>pre x post prev. xs = pre @ x # post \<and>
        find (\<lambda>y. field_key y = field_key x) pre = Some prev \<longrightarrow>
        mergeable (node (snd prev)) (node (snd x)))"
  unfolding conflicts_Nil_aux [of "[]" xs] merge_ok_def
  by (simp del: split_paired_All split_paired_Ex) blast


text \<open>Every field can be merged with the first field before it that has the same key.\<close>

definition fields_agree :: "(string option \<times> field positioned) list \<Rightarrow> bool" where
  "fields_agree xs \<longleftrightarrow>
     (\<forall>pre x post prev. xs = pre @ x # post \<and>
        find (\<lambda>y. field_key y = field_key x) pre = Some prev \<longrightarrow>
        mergeable (node (snd prev)) (node (snd x)))"

lemma find_conflicts_agree:
  "snd (find_conflicts frags todo (([], {}), ctx)) = ctx \<longleftrightarrow> fields_agree (collect_fields frags todo {})"
proof -
  have "append_errors es ctx = ctx \<longleftrightarrow> es = []" for es
    by (auto simp: append_errors_def dest: arg_cong [where f = vc_errors])
  then show ?thesis by (simp add: find_conflicts_errors conflicts_Nil fields_agree_def)
qed

end
