(* ===== verification/Graph_Search.thy ===== *)
theory Graph_Search
  imports Prelude
begin

text \<open>
  Depth-first search with a visited list.

  The validation rules \<open>NoUnusedFragments\<close>, \<open>NoUndefinedVariables\<close>, \<open>NoUnusedVariables\<close> and
  \<open>VariableInAllowedPosition\<close> each contain the same recursion: return when the scope is in
  \<open>visited\<close>, otherwise insert it, do something for the scope, and recurse into its spreads in
  order. \<open>dfs\<close> is that recursion, with the work at a scope as a parameter; the graph is the
  rule's \<open>spreads\<close> map. Its termination needs no acyclicity: every scope is entered once.

  The lemmas say that the search enters exactly the nodes reachable from the start, each once,
  and that its effect is the work done at these nodes in the order they are entered.
\<close>

definition succs :: "('a, 'a list) index_map \<Rightarrow> 'a \<Rightarrow> 'a list" where
  "succs g x = (case map_of g x of Some ys \<Rightarrow> ys | None \<Rightarrow> [])"

definition edges :: "('a, 'a list) index_map \<Rightarrow> ('a \<times> 'a) set" where
  "edges g = {(x, y). y \<in> set (succs g x)}"

definition unvisited :: "('a, 'a list) index_map \<Rightarrow> 'a list \<Rightarrow> 'a set" where
  "unvisited g visited = fst ` set g - set visited"

function (sequential) dfs ::
  "('a, 'a list) index_map \<Rightarrow> ('a \<Rightarrow> 's \<Rightarrow> 's) \<Rightarrow> 'a list \<Rightarrow> 'a list \<times> 's \<Rightarrow> 'a list \<times> 's" where
  "dfs g act [] st = st"
| "dfs g act (x # xs) (visited, s) =
     (if x \<in> set visited then dfs g act xs (visited, s)
      else dfs g act xs (dfs g act (succs g x) (visited @ [x], act x s)))"
  by pat_completeness auto

lemma dfs_visited_mono:
  "dfs_dom (g, act, xs, st) \<Longrightarrow> set (fst st) \<subseteq> set (fst (dfs g act xs st))"
  by (induction rule: dfs.pinduct) (auto simp: dfs.psimps)

lemma set_mono_app: "set xs \<subseteq> set (xs @ ys)"
  by simp

lemma unvisited_mono: "set v \<subseteq> set w \<Longrightarrow> card (unvisited g w) \<le> card (unvisited g v)"
  unfolding unvisited_def by (rule card_mono) auto

lemma succs_empty: "x \<notin> fst ` set g \<Longrightarrow> succs g x = []"
  by (auto simp: succs_def split: option.splits dest!: map_of_SomeD) force

lemma unvisited_insert:
  "x \<notin> set v \<Longrightarrow> succs g x \<noteq> [] \<Longrightarrow> card (unvisited g (v @ [x])) < card (unvisited g v)"
  unfolding unvisited_def using succs_empty [of x g] by (intro psubset_card_mono) auto

termination dfs
proof (relation "measures [\<lambda>(g, act, xs, st). card (unvisited g (fst st)), \<lambda>(g, act, xs, st). length xs]")
  fix g :: "('a, 'a list) index_map" and act :: "'a \<Rightarrow> 's \<Rightarrow> 's" and x :: 'a and xs visited :: "'a list" and s
  assume new: "x \<notin> set visited"
  then show "((g, act, succs g x, visited @ [x], act x s), g, act, x # xs, visited, s)
      \<in> measures [\<lambda>(g, act, xs, st). card (unvisited g (fst st)), \<lambda>(g, act, xs, st). length xs]"
    using unvisited_insert [OF new, of g] unvisited_mono [of visited "visited @ [x]" g, OF set_mono_app]
    by (cases "succs g x = []") auto
  assume dom: "dfs_dom (g, act, succs g x, visited @ [x], act x s)"
  have "set visited \<subseteq> set (fst (dfs g act (succs g x) (visited @ [x], act x s)))"
    using dfs_visited_mono [OF dom] by auto
  from unvisited_mono [OF this, of g]
  show "((g, act, xs, dfs g act (succs g x) (visited @ [x], act x s)), g, act, x # xs, visited, s)
      \<in> measures [\<lambda>(g, act, xs, st). card (unvisited g (fst st)), \<lambda>(g, act, xs, st). length xs]"
    by auto
qed auto

lemma dfs_mono: "set (fst st) \<subseteq> set (fst (dfs g act xs st))"
  by (induction g act xs st rule: dfs.induct) auto

lemma dfs_extends: "\<exists>new. fst (dfs g act xs st) = fst st @ new \<and> snd (dfs g act xs st) = fold act new (snd st)"
proof (induction g act xs st rule: dfs.induct)
  case (2 g act x xs visited s)
  show ?case
  proof (cases "x \<in> set visited")
    case True
    then show ?thesis using 2 by simp
  next
    case False
    let ?st = "dfs g act (succs g x) (visited @ [x], act x s)"
    from 2(2) [OF False] obtain new where
      "fst ?st = visited @ x # new" "snd ?st = fold act new (act x s)" by auto
    moreover from 2(3) [OF False] obtain new' where
      "fst (dfs g act xs ?st) = fst ?st @ new'" "snd (dfs g act xs ?st) = fold act new' (snd ?st)"
      by auto
    ultimately show ?thesis using False by (intro exI [of _ "x # new @ new'"]) simp
  qed
qed simp

lemma dfs_distinct: "distinct (fst st) \<Longrightarrow> distinct (fst (dfs g act xs st))"
  by (induction g act xs st rule: dfs.induct) auto

lemma dfs_roots: "set xs \<subseteq> set (fst (dfs g act xs st))"
proof (induction g act xs st rule: dfs.induct)
  case (2 g act x xs visited s)
  then show ?case
    using dfs_mono [of "(visited, s)" g act xs]
      dfs_mono [of "(visited @ [x], act x s)" g act "succs g x"]
      dfs_mono [of "dfs g act (succs g x) (visited @ [x], act x s)" g act xs]
    by auto
qed simp

lemma dfs_sound:
  "y \<in> set (fst (dfs g act xs st)) \<Longrightarrow> y \<in> set (fst st) \<or> (\<exists>x\<in>set xs. (x, y) \<in> (edges g)\<^sup>*)"
proof (induction g act xs st rule: dfs.induct)
  case (2 g act x xs visited s)
  have step: "(x, y) \<in> (edges g)\<^sup>*" if "z \<in> set (succs g x)" "(z, y) \<in> (edges g)\<^sup>*" for z
    using that by (auto simp: edges_def intro: converse_rtrancl_into_rtrancl)
  show ?case
    using 2 by (auto split: if_splits dest: step)
qed simp

text \<open>Every visited node that is not on the way (\<open>A\<close>) has its successors visited.\<close>

definition closed_except :: "('a, 'a list) index_map \<Rightarrow> 'a set \<Rightarrow> 'a set \<Rightarrow> bool" where
  "closed_except g A V \<longleftrightarrow> (\<forall>x\<in>V - A. set (succs g x) \<subseteq> V)"

lemma dfs_closed:
  "closed_except g A (set (fst st)) \<Longrightarrow> closed_except g A (set (fst (dfs g act xs st)))"
proof (induction g act xs st arbitrary: A rule: dfs.induct)
  case (2 g act x xs visited s)
  show ?case
  proof (cases "x \<in> set visited")
    case True
    then show ?thesis using 2 by simp
  next
    case False
    let ?st = "dfs g act (succs g x) (visited @ [x], act x s)"
    have "closed_except g (insert x A) (set (visited @ [x]))"
      using "2.prems" by (auto simp: closed_except_def)
    then have "closed_except g (insert x A) (set (fst ?st))"
      using "2.IH"(2) [OF False] by simp
    moreover have "set (succs g x) \<subseteq> set (fst ?st)" by (rule dfs_roots)
    ultimately have "closed_except g A (set (fst ?st))"
      by (auto simp: closed_except_def)
    then show ?thesis using "2.IH"(3) [OF False] False by simp
  qed
qed simp

lemma closed_reach:
  assumes "closed_except g {} V" "x \<in> V" "(x, y) \<in> (edges g)\<^sup>*"
  shows "y \<in> V"
  using assms(3,1,2) by (induction rule: rtrancl_induct) (auto simp: edges_def closed_except_def)

theorem dfs_reachable:
  assumes closed: "closed_except g {} (set visited)"
  shows "set (fst (dfs g act xs (visited, s))) =
    set visited \<union> {y. \<exists>x\<in>set xs. (x, y) \<in> (edges g)\<^sup>*}"
proof
  show "set (fst (dfs g act xs (visited, s))) \<subseteq>
    set visited \<union> {y. \<exists>x\<in>set xs. (x, y) \<in> (edges g)\<^sup>*}"
    using dfs_sound [of _ g act xs "(visited, s)"] unfolding fst_conv by blast
next
  let ?V = "set (fst (dfs g act xs (visited, s)))"
  have "closed_except g {} ?V"
    using dfs_closed [of g "{}" "(visited, s)"] closed by simp
  then have "y \<in> ?V" if "x \<in> set xs" "(x, y) \<in> (edges g)\<^sup>*" for x y
    by (rule closed_reach [OF _ subsetD [OF dfs_roots that(1)] that(2)])
  then show "set visited \<union> {y. \<exists>x\<in>set xs. (x, y) \<in> (edges g)\<^sup>*} \<subseteq> ?V"
    using dfs_mono [of "(visited, s)" g act xs] by auto
qed

lemma closed_except_empty [simp]: "closed_except g A {}"
  by (simp add: closed_except_def)

text \<open>A search from one node, started with nothing visited: its effect is the work at the
  reachable nodes, each once.\<close>

lemma dfs_from:
  obtains order where
    "fst (dfs g act [x] ([], s)) = order" "snd (dfs g act [x] ([], s)) = fold act order s"
    "set order = {y. (x, y) \<in> (edges g)\<^sup>*}" "distinct order"
proof -
  from dfs_extends [of g act "[x]" "([], s)"] obtain new where
    new: "fst (dfs g act [x] ([], s)) = new" "snd (dfs g act [x] ([], s)) = fold act new s"
    by auto
  moreover have "set new = {y. (x, y) \<in> (edges g)\<^sup>*}"
    using dfs_reachable [where g = g and act = act and visited = "[]" and xs = "[x]" and s = s] new
    by simp
  moreover have "distinct new"
    using dfs_distinct [of "([], s)" g act "[x]"] new by simp
  ultimately show thesis by (rule that)
qed


text \<open>The order in which nodes are entered does not depend on the work done there.\<close>

definition visits :: "('a, 'a list) index_map \<Rightarrow> 'a list \<Rightarrow> 'a list \<Rightarrow> 'a list" where
  "visits g xs visited = fst (dfs g (\<lambda>_ u. u) xs (visited, ()))"

lemma visits_dfs_aux:
  "fst (dfs g act xs st) = fst (dfs g act' xs (fst st, s'))"
proof (induction g act xs st arbitrary: s' rule: dfs.induct)
  case (2 g act x xs visited s)
  show ?case
  proof (cases "x \<in> set visited")
    case True
    then show ?thesis using 2(1) by simp
  next
    case False
    obtain w t where w: "dfs g act (succs g x) (visited @ [x], act x s) = (w, t)" by fastforce
    obtain w' t' where w': "dfs g act' (succs g x) (visited @ [x], act' x s') = (w', t')" by fastforce
    have "w = w'" using 2(2) [OF False, of "act' x s'"] w w' by simp
    then show ?thesis using 2(3) [OF False, of t'] False w w' by simp
  qed
qed simp

lemma fst_dfs: "fst (dfs g act xs (visited, s)) = visits g xs visited"
  unfolding visits_def using visits_dfs_aux [of g act xs "(visited, s)" "\<lambda>_ u. u" "()"] by simp

lemma snd_dfs:
  "snd (dfs g act xs (visited, s)) = fold act (drop (length visited) (visits g xs visited)) s"
  using dfs_extends [of g act xs "(visited, s)"] fst_dfs [of g act xs visited s] by auto

lemma set_visits_from: "set (visits g [x] []) = {y. (x, y) \<in> (edges g)\<^sup>*}"
  using dfs_reachable [where g = g and act = "\<lambda>_ u. u" and visited = "[]" and xs = "[x]" and s = "()"]
  by (simp add: visits_def)

lemma visits_closed:
  "closed_except g {} (set visited) \<Longrightarrow> closed_except g {} (set (visits g xs visited))"
  unfolding visits_def using dfs_closed [of g "{}" "(visited, ())" "\<lambda>_ u. u" xs] by simp

lemma set_visits:
  "closed_except g {} (set visited) \<Longrightarrow>
   set (visits g xs visited) = set visited \<union> {y. \<exists>x\<in>set xs. (x, y) \<in> (edges g)\<^sup>*}"
  unfolding visits_def by (rule dfs_reachable)

end
