(* ===== verification/Rules_Scope.thy ===== *)
theory Rules_Scope
  imports Rules_Overlap Graph_Search
begin

text \<open>
  The rules that collect what each operation and fragment contains and judge the document as a
  whole when it is left: \<open>no_undefined_variables.rs\<close>, \<open>no_unused_fragments.rs\<close>,
  \<open>no_unused_variables.rs\<close> and \<open>variables_in_allowed_position.rs\<close>. Each searches the graph of
  fragment spreads from an operation; the searches are instances of \<open>dfs\<close>.

  A \<open>HashSet\<close> that is iterated is a list without repetitions, one that is only asked for
  membership is a set.
\<close>

datatype scope = ScopeOperation "string option" | ScopeFragment string

definition entry_extend :: "'k \<Rightarrow> 'v list \<Rightarrow> ('k, 'v list) index_map \<Rightarrow> ('k, 'v list) index_map" where
  "entry_extend k vs m = im_insert k ((case im_get m k of Some xs \<Rightarrow> xs | None \<Rightarrow> []) @ vs) m"

definition scope_graph :: "(scope, string list) index_map \<Rightarrow> (scope, scope list) index_map" where
  "scope_graph spreads = map (\<lambda>(scope, ns). (scope, map ScopeFragment ns)) spreads"

subsection \<open>Undefined variables\<close>

record no_undefined_variables_state =
  nd_defined_variables :: "(string option, pos \<times> string set) index_map"
  nd_used_variables :: "(scope, (string, pos) index_map) index_map"
  nd_current_scope :: "scope option"
  nd_spreads :: "(scope, string list) index_map"

definition nd_init :: no_undefined_variables_state where
  "nd_init = \<lparr>nd_defined_variables = [], nd_used_variables = [], nd_current_scope = None, nd_spreads = []\<rparr>"

definition find_undef_vars ::
  "no_undefined_variables_state \<Rightarrow> scope \<Rightarrow> string set \<Rightarrow> scope list \<times> (string \<times> pos) list \<Rightarrow>
   scope list \<times> (string \<times> pos) list" where
  "find_undef_vars self scope defined st =
     dfs (scope_graph (nd_spreads self))
       (\<lambda>scope undef.
          case im_get (nd_used_variables self) scope of
            Some used_vars \<Rightarrow> undef @ filter (\<lambda>(var, p). var \<notin> defined) used_vars
          | None \<Rightarrow> undef)
       [scope] st"

definition undefined_variable_error :: "string option \<Rightarrow> pos \<Rightarrow> string \<times> pos \<Rightarrow> visitor_ctx \<Rightarrow> visitor_ctx" where
  "undefined_variable_error op_name def_pos vp ctx =
     (let (var, p) = vp
      in case op_name of
           Some op_name \<Rightarrow>
             report_error [def_pos, p]
               (''Variable \"$'' @ var @ ''\" is not defined by operation '' @ quote op_name) ctx
         | None \<Rightarrow> report_error [p] (''Variable \"$'' @ var @ ''\" is not defined'') ctx)"

definition no_undefined_variables :: "no_undefined_variables_state visitor" where
  "no_undefined_variables =
     \<lparr>v_mode = ModeNormal,
      v_call = (\<lambda>c ctx s. case c of
          ExitDocument _ \<Rightarrow>
            (fold (\<lambda>(op_name, (def_pos, def_vars)) ctx.
               let undef = snd (find_undef_vars s (ScopeOperation op_name) def_vars ([], []))
               in fold (undefined_variable_error op_name def_pos) undef ctx)
               (nd_defined_variables s) ctx, s)
        | EnterOperationDefinition n operation_definition \<Rightarrow>
            (ctx, s\<lparr>nd_current_scope := Some (ScopeOperation n),
                    nd_defined_variables :=
                      im_insert n (pos operation_definition, {}) (nd_defined_variables s)\<rparr>)
        | EnterFragmentDefinition n _ \<Rightarrow> (ctx, s\<lparr>nd_current_scope := Some (ScopeFragment n)\<rparr>)
        | EnterVariableDefinition variable_definition \<Rightarrow>
            (ctx,
             case nd_current_scope s of
               Some (ScopeOperation n) \<Rightarrow>
                 (case im_get (nd_defined_variables s) n of
                    Some (p, vars) \<Rightarrow>
                      s\<lparr>nd_defined_variables :=
                          im_insert n (p, insert (node (vd_name (node variable_definition))) vars)
                            (nd_defined_variables s)\<rparr>
                  | None \<Rightarrow> s)
             | _ \<Rightarrow> s)
        | EnterArgument n value \<Rightarrow>
            (ctx,
             case nd_current_scope s of
               Some scope \<Rightarrow>
                 s\<lparr>nd_used_variables :=
                     im_insert scope
                       (fold (\<lambda>var. im_insert var (pos n)) (referenced_variables (node value))
                         (case im_get (nd_used_variables s) scope of Some m \<Rightarrow> m | None \<Rightarrow> []))
                       (nd_used_variables s)\<rparr>
             | None \<Rightarrow> s)
        | EnterFragmentSpread fragment_spread \<Rightarrow>
            (ctx,
             case nd_current_scope s of
               Some scope \<Rightarrow>
                 s\<lparr>nd_spreads :=
                     entry_extend scope [node (fs_fragment_name (node fragment_spread))] (nd_spreads s)\<rparr>
             | None \<Rightarrow> s)
        | _ \<Rightarrow> (ctx, s))\<rparr>"

subsection \<open>Unused fragments\<close>

record no_unused_fragments_state =
  nf_spreads :: "(scope, string list) index_map"
  nf_defined_fragments :: "(string \<times> pos) list"
  nf_current_scope :: "scope option"

definition nf_init :: no_unused_fragments_state where
  "nf_init = \<lparr>nf_spreads = [], nf_defined_fragments = [], nf_current_scope = None\<rparr>"

text \<open>
  \<open>find_reachable_fragments\<close> keeps the names of the fragments only: an operation is not
  recorded in \<open>result\<close>, and no spread leads to one.
\<close>

definition fragment_graph :: "(scope, string list) index_map \<Rightarrow> (string, string list) index_map" where
  "fragment_graph spreads =
     concat (map (\<lambda>(scope, ns). case scope of ScopeFragment n \<Rightarrow> [(n, ns)] | _ \<Rightarrow> []) spreads)"

definition find_reachable_fragments ::
  "no_unused_fragments_state \<Rightarrow> scope \<Rightarrow> string list \<Rightarrow> string list" where
  "find_reachable_fragments self from result =
     fst (dfs (fragment_graph (nf_spreads self)) (\<lambda>_ u. u)
       (case from of
          ScopeFragment n \<Rightarrow> [n]
        | ScopeOperation _ \<Rightarrow> (case im_get (nf_spreads self) from of Some ns \<Rightarrow> ns | None \<Rightarrow> []))
       (result, ()))"

definition no_unused_fragments :: "no_unused_fragments_state visitor" where
  "no_unused_fragments =
     \<lparr>v_mode = ModeNormal,
      v_call = (\<lambda>c ctx s. case c of
          ExitDocument doc \<Rightarrow>
            (let reachable =
               fold (\<lambda>(n, _). find_reachable_fragments s (ScopeOperation n))
                 (operations_iter (doc_operations doc)) []
             in fold (\<lambda>(fragment_name, p) ctx.
                  if fragment_name \<notin> set reachable then
                    report_error [p] (''Fragment '' @ quote fragment_name @ '' is never used'') ctx
                  else ctx) (nf_defined_fragments s) ctx, s)
        | EnterOperationDefinition n _ \<Rightarrow> (ctx, s\<lparr>nf_current_scope := Some (ScopeOperation n)\<rparr>)
        | EnterFragmentDefinition n fragment_definition \<Rightarrow>
            (ctx, s\<lparr>nf_current_scope := Some (ScopeFragment n),
                    nf_defined_fragments :=
                      List.insert (n, pos fragment_definition) (nf_defined_fragments s)\<rparr>)
        | EnterFragmentSpread fragment_spread \<Rightarrow>
            (ctx,
             case nf_current_scope s of
               Some scope \<Rightarrow>
                 s\<lparr>nf_spreads :=
                     entry_extend scope [node (fs_fragment_name (node fragment_spread))] (nf_spreads s)\<rparr>
             | None \<Rightarrow> s)
        | _ \<Rightarrow> (ctx, s))\<rparr>"

subsection \<open>Unused variables\<close>

record no_unused_variables_state =
  nv_defined_variables :: "(string option, (string \<times> pos) list) index_map"
  nv_used_variables :: "(scope, string list) index_map"
  nv_current_scope :: "scope option"
  nv_spreads :: "(scope, string list) index_map"

definition nv_init :: no_unused_variables_state where
  "nv_init = \<lparr>nv_defined_variables = [], nv_used_variables = [], nv_current_scope = None, nv_spreads = []\<rparr>"

definition find_used_vars ::
  "no_unused_variables_state \<Rightarrow> scope \<Rightarrow> string set \<Rightarrow> scope list \<times> string set \<Rightarrow>
   scope list \<times> string set" where
  "find_used_vars self from defined st =
     dfs (scope_graph (nv_spreads self))
       (\<lambda>scope used.
          case im_get (nv_used_variables self) scope of
            Some used_vars \<Rightarrow> fold (\<lambda>var used. if var \<in> defined then insert var used else used) used_vars used
          | None \<Rightarrow> used)
       [from] st"

definition unused_variable_error :: "string option \<Rightarrow> string \<times> pos \<Rightarrow> visitor_ctx \<Rightarrow> visitor_ctx" where
  "unused_variable_error op_name vp ctx =
     (let (var, p) = vp
      in case op_name of
           Some op_name \<Rightarrow>
             report_error [p]
               (''Variable \"$'' @ var @ ''\" is not used by operation '' @ quote op_name) ctx
         | None \<Rightarrow> report_error [p] (''Variable \"$'' @ var @ ''\" is not used'') ctx)"

definition no_unused_variables :: "no_unused_variables_state visitor" where
  "no_unused_variables =
     \<lparr>v_mode = ModeNormal,
      v_call = (\<lambda>c ctx s. case c of
          ExitDocument _ \<Rightarrow>
            (fold (\<lambda>(op_name, def_vars) ctx.
               let used = snd (find_used_vars s (ScopeOperation op_name) (fst ` set def_vars) ([], {}))
               in fold (unused_variable_error op_name) (filter (\<lambda>(var, _). var \<notin> used) def_vars) ctx)
               (nv_defined_variables s) ctx, s)
        | EnterOperationDefinition n _ \<Rightarrow>
            (ctx, s\<lparr>nv_current_scope := Some (ScopeOperation n),
                    nv_defined_variables := im_insert n [] (nv_defined_variables s)\<rparr>)
        | EnterFragmentDefinition n _ \<Rightarrow> (ctx, s\<lparr>nv_current_scope := Some (ScopeFragment n)\<rparr>)
        | EnterVariableDefinition variable_definition \<Rightarrow>
            (ctx,
             case nv_current_scope s of
               Some (ScopeOperation n) \<Rightarrow>
                 (case im_get (nv_defined_variables s) n of
                    Some vars \<Rightarrow>
                      s\<lparr>nv_defined_variables :=
                          im_insert n
                            (List.insert (node (vd_name (node variable_definition)), pos variable_definition) vars)
                            (nv_defined_variables s)\<rparr>
                  | None \<Rightarrow> s)
             | _ \<Rightarrow> s)
        | EnterArgument _ value \<Rightarrow>
            (ctx,
             case nv_current_scope s of
               Some scope \<Rightarrow>
                 s\<lparr>nv_used_variables :=
                     entry_extend scope (referenced_variables (node value)) (nv_used_variables s)\<rparr>
             | None \<Rightarrow> s)
        | EnterFragmentSpread fragment_spread \<Rightarrow>
            (ctx,
             case nv_current_scope s of
               Some scope \<Rightarrow>
                 s\<lparr>nv_spreads :=
                     entry_extend scope [node (fs_fragment_name (node fragment_spread))] (nv_spreads s)\<rparr>
             | None \<Rightarrow> s)
        | _ \<Rightarrow> (ctx, s))\<rparr>"

subsection \<open>Variables in allowed positions\<close>

record variable_in_allowed_position_state =
  va_spreads :: "(scope, string list) index_map"
  va_variable_usages :: "(scope, (string \<times> pos \<times> meta_type_name) list) index_map"
  va_variable_defs :: "(scope, variable_definition positioned list) index_map"
  va_current_scope :: "scope option"

definition va_init :: variable_in_allowed_position_state where
  "va_init = \<lparr>va_spreads = [], va_variable_usages = [], va_variable_defs = [], va_current_scope = None\<rparr>"

definition expected_variable_type :: "variable_definition \<Rightarrow> string" where
  "expected_variable_type def =
     (if nullable (node (vd_var_type def)) \<and> vd_default_value def \<noteq> None then
        type_str (node (vd_var_type def)) @ ''!''
      else type_str (node (vd_var_type def)))"

definition check_usage ::
  "variable_definition positioned list \<Rightarrow> string \<times> pos \<times> meta_type_name \<Rightarrow> visitor_ctx \<Rightarrow> visitor_ctx" where
  "check_usage var_defs usage ctx =
     (let (var_name, usage_pos, var_type) = usage
      in case find (\<lambda>def. node (vd_name (node def)) = var_name) var_defs of
           Some def \<Rightarrow>
             let expected_type = expected_variable_type (node def)
             in if \<not> is_subtype var_type (create expected_type) then
                  report_error [pos def, usage_pos]
                    (''Variable '' @ quote var_name @ '' of type '' @
                     quote (meta_type_name_str var_type) @ '' used in position expecting type '' @
                     quote expected_type) ctx
                else ctx
         | None \<Rightarrow> ctx)"

definition collect_incorrect_usages ::
  "variable_in_allowed_position_state \<Rightarrow> scope \<Rightarrow> variable_definition positioned list \<Rightarrow>
   scope list \<times> visitor_ctx \<Rightarrow> scope list \<times> visitor_ctx" where
  "collect_incorrect_usages self from var_defs st =
     dfs (scope_graph (va_spreads self))
       (\<lambda>scope ctx.
          case im_get (va_variable_usages self) scope of
            Some usages \<Rightarrow> fold (check_usage var_defs) usages ctx
          | None \<Rightarrow> ctx)
       [from] st"

definition variable_in_allowed_position :: "variable_in_allowed_position_state visitor" where
  "variable_in_allowed_position =
     \<lparr>v_mode = ModeNormal,
      v_call = (\<lambda>c ctx s. case c of
          ExitDocument _ \<Rightarrow>
            (fold (\<lambda>(op_scope, var_defs) ctx. snd (collect_incorrect_usages s op_scope var_defs ([], ctx)))
               (va_variable_defs s) ctx, s)
        | EnterOperationDefinition n _ \<Rightarrow> (ctx, s\<lparr>va_current_scope := Some (ScopeOperation n)\<rparr>)
        | EnterFragmentDefinition n _ \<Rightarrow> (ctx, s\<lparr>va_current_scope := Some (ScopeFragment n)\<rparr>)
        | EnterVariableDefinition variable_definition \<Rightarrow>
            (ctx,
             case va_current_scope s of
               Some scope \<Rightarrow>
                 s\<lparr>va_variable_defs := entry_extend scope [variable_definition] (va_variable_defs s)\<rparr>
             | None \<Rightarrow> s)
        | EnterFragmentSpread fragment_spread \<Rightarrow>
            (ctx,
             case va_current_scope s of
               Some scope \<Rightarrow>
                 s\<lparr>va_spreads :=
                     im_insert scope
                       (List.insert (node (fs_fragment_name (node fragment_spread)))
                         (case im_get (va_spreads s) scope of Some ns \<Rightarrow> ns | None \<Rightarrow> []))
                       (va_spreads s)\<rparr>
             | None \<Rightarrow> s)
        | EnterInputValue p expected_type value \<Rightarrow>
            (ctx,
             case (value, expected_type, va_current_scope s) of
               (VVariable n, Some expected_type, Some scope) \<Rightarrow>
                 s\<lparr>va_variable_usages :=
                     entry_extend scope [(n, p, expected_type)] (va_variable_usages s)\<rparr>
             | _ \<Rightarrow> s)
        | _ \<Rightarrow> (ctx, s))\<rparr>"


subsection \<open>The contract\<close>

definition undef_vars :: "no_undefined_variables_state \<Rightarrow> string option \<Rightarrow> string set \<Rightarrow> (string \<times> pos) list" where
  "undef_vars s op_name defined = snd (find_undef_vars s (ScopeOperation op_name) defined ([], []))"

fun undefined_variable_rule_error :: "string option \<Rightarrow> pos \<Rightarrow> string \<times> pos \<Rightarrow> rule_error" where
  "undefined_variable_rule_error (Some op_name) def_pos (var, p) =
     RuleError [def_pos, p] (''Variable \"$'' @ var @ ''\" is not defined by operation '' @ quote op_name)"
| "undefined_variable_rule_error None def_pos (var, p) =
     RuleError [p] (''Variable \"$'' @ var @ ''\" is not defined'')"

lemma undefined_variable_error_append:
  "undefined_variable_error op_name def_pos vp ctx =
   append_errors [undefined_variable_rule_error op_name def_pos vp] ctx"
  by (cases op_name; cases vp) (simp_all add: undefined_variable_error_def report_error_append)

definition undefined_errors :: "no_undefined_variables_state \<Rightarrow> rule_error list" where
  "undefined_errors s =
     concat (map (\<lambda>(op_name, (def_pos, def_vars)).
       map (undefined_variable_rule_error op_name def_pos) (undef_vars s op_name def_vars))
       (nd_defined_variables s))"

lemma fold_append_error:
  "fold (\<lambda>x ctx. append_errors [f x] ctx) xs ctx = append_errors (map f xs) ctx"
  by (induction xs arbitrary: ctx) simp_all

lemma undefined_errors_fold:
  "fold (\<lambda>(op_name, (def_pos, def_vars)) ctx.
      let undef = snd (find_undef_vars s (ScopeOperation op_name) def_vars ([], []))
      in fold (undefined_variable_error op_name def_pos) undef ctx) (nd_defined_variables s) ctx =
   append_errors (undefined_errors s) ctx"
  unfolding undefined_errors_def
  by (rule fold_append_errors')
     (auto simp: undefined_variable_error_append [abs_def] fold_append_error undef_vars_def)

interpretation no_undefined_variables: rule_visitor no_undefined_variables
  by unfold_locales
     (auto simp: no_undefined_variables_def undefined_errors_fold [unfolded Let_def] Let_def frame_simps
       split: visitor_call.splits)

definition reachable_fragments :: "no_unused_fragments_state \<Rightarrow> executable_document \<Rightarrow> string list" where
  "reachable_fragments s doc =
     fold (\<lambda>(n, _). find_reachable_fragments s (ScopeOperation n)) (operations_iter (doc_operations doc)) []"

definition unused_fragment_errors :: "no_unused_fragments_state \<Rightarrow> executable_document \<Rightarrow> rule_error list" where
  "unused_fragment_errors s doc =
     map (\<lambda>(n, p). RuleError [p] (''Fragment '' @ quote n @ '' is never used''))
       (filter (\<lambda>(n, _). n \<notin> set (reachable_fragments s doc)) (nf_defined_fragments s))"

lemma unused_fragment_errors_fold:
  "fold (\<lambda>(fragment_name, p) ctx.
      if fragment_name \<notin> set (reachable_fragments s doc) then
        report_error [p] (''Fragment '' @ quote fragment_name @ '' is never used'') ctx
      else ctx) xs ctx =
   append_errors (map (\<lambda>(n, p). RuleError [p] (''Fragment '' @ quote n @ '' is never used''))
       (filter (\<lambda>(n, _). n \<notin> set (reachable_fragments s doc)) xs)) ctx"
  by (induction xs arbitrary: ctx) (auto simp: report_error_append)

interpretation no_unused_fragments: rule_visitor no_unused_fragments
  by unfold_locales
     (auto simp: no_unused_fragments_def unused_fragment_errors_fold frame_simps Let_def
       simp flip: reachable_fragments_def split: visitor_call.splits)

definition used_vars :: "no_unused_variables_state \<Rightarrow> string option \<Rightarrow> (string \<times> pos) list \<Rightarrow> string set" where
  "used_vars s op_name def_vars =
     snd (find_used_vars s (ScopeOperation op_name) (fst ` set def_vars) ([], {}))"

fun unused_variable_rule_error :: "string option \<Rightarrow> string \<times> pos \<Rightarrow> rule_error" where
  "unused_variable_rule_error (Some op_name) (var, p) =
     RuleError [p] (''Variable \"$'' @ var @ ''\" is not used by operation '' @ quote op_name)"
| "unused_variable_rule_error None (var, p) =
     RuleError [p] (''Variable \"$'' @ var @ ''\" is not used'')"

lemma unused_variable_error_append:
  "unused_variable_error op_name vp ctx = append_errors [unused_variable_rule_error op_name vp] ctx"
  by (cases op_name; cases vp) (simp_all add: unused_variable_error_def report_error_append)

definition unused_variable_errors :: "no_unused_variables_state \<Rightarrow> rule_error list" where
  "unused_variable_errors s =
     concat (map (\<lambda>(op_name, def_vars).
       map (unused_variable_rule_error op_name)
         (filter (\<lambda>(var, _). var \<notin> used_vars s op_name def_vars) def_vars))
       (nv_defined_variables s))"

lemma unused_variable_errors_fold:
  "fold (\<lambda>(op_name, def_vars) ctx.
      let used = snd (find_used_vars s (ScopeOperation op_name) (fst ` set def_vars) ([], {}))
      in fold (unused_variable_error op_name) (filter (\<lambda>(var, _). var \<notin> used) def_vars) ctx)
      (nv_defined_variables s) ctx =
   append_errors (unused_variable_errors s) ctx"
  unfolding unused_variable_errors_def
  by (rule fold_append_errors')
     (auto simp: unused_variable_error_append [abs_def] fold_append_error used_vars_def)

interpretation no_unused_variables: rule_visitor no_unused_variables
  by unfold_locales
     (auto simp: no_unused_variables_def unused_variable_errors_fold [unfolded Let_def] Let_def frame_simps
       split: visitor_call.splits)

definition usage_errors ::
  "variable_definition positioned list \<Rightarrow> string \<times> pos \<times> meta_type_name \<Rightarrow> rule_error list" where
  "usage_errors var_defs usage =
     (let (var_name, usage_pos, var_type) = usage
      in case find (\<lambda>def. node (vd_name (node def)) = var_name) var_defs of
           Some def \<Rightarrow>
             let expected_type = expected_variable_type (node def)
             in if \<not> is_subtype var_type (create expected_type) then
                  [RuleError [pos def, usage_pos]
                    (''Variable '' @ quote var_name @ '' of type '' @
                     quote (meta_type_name_str var_type) @ '' used in position expecting type '' @
                     quote expected_type)]
                else []
         | None \<Rightarrow> [])"

lemma check_usage_append: "check_usage var_defs usage ctx = append_errors (usage_errors var_defs usage) ctx"
  by (auto simp: check_usage_def usage_errors_def Let_def report_error_append
      split: prod.splits option.splits)

definition scope_usage_errors ::
  "variable_in_allowed_position_state \<Rightarrow> variable_definition positioned list \<Rightarrow> scope \<Rightarrow> rule_error list" where
  "scope_usage_errors s var_defs scope =
     (case im_get (va_variable_usages s) scope of
        Some usages \<Rightarrow> concat (map (usage_errors var_defs) usages)
      | None \<Rightarrow> [])"

definition incorrect_usage_errors :: "variable_in_allowed_position_state \<Rightarrow> rule_error list" where
  "incorrect_usage_errors s =
     concat (map (\<lambda>(op_scope, var_defs).
       concat (map (scope_usage_errors s var_defs) (visits (scope_graph (va_spreads s)) [op_scope] [])))
       (va_variable_defs s))"

lemma collect_incorrect_usages_append:
  "snd (collect_incorrect_usages s from var_defs ([], ctx)) =
   append_errors (concat (map (scope_usage_errors s var_defs)
     (visits (scope_graph (va_spreads s)) [from] []))) ctx"
proof -
  have usages: "fold (check_usage var_defs) usages ctx =
    append_errors (concat (map (usage_errors var_defs) usages)) ctx" for usages ctx
    by (rule fold_append_errors') (simp add: check_usage_append)
  show ?thesis
    unfolding collect_incorrect_usages_def snd_dfs list.size drop0
    by (rule fold_append_errors') (auto simp: usages scope_usage_errors_def split: option.splits)
qed

lemma incorrect_usage_errors_fold:
  "fold (\<lambda>(op_scope, var_defs) ctx. snd (collect_incorrect_usages s op_scope var_defs ([], ctx)))
     (va_variable_defs s) ctx =
   append_errors (incorrect_usage_errors s) ctx"
  unfolding incorrect_usage_errors_def
  by (rule fold_append_errors') (auto simp: collect_incorrect_usages_append)

interpretation variable_in_allowed_position: rule_visitor variable_in_allowed_position
  by unfold_locales
     (auto simp: variable_in_allowed_position_def incorrect_usage_errors_fold frame_simps
       split: visitor_call.splits)

end
