(* ===== verification/Rules_Cycles.thy ===== *)
theory Rules_Cycles
  imports Rules_Scope
begin

text \<open>
  \<open>no_fragment_cycles.rs\<close>.

  The detector's fields are \<open>visited\<close>, \<open>path_indices\<close> (the fragments on the way from the start,
  with their place in \<open>path\<close>) and \<open>errors\<close>. \<open>detect_spreads\<close> is the loop over the spreads of a
  fragment in \<open>detect_from\<close>, which calls \<open>detect_from\<close> on a fragment not visited before. The lemmas
  show that it terminates on every graph and that it reports an error if and only if the graph of
  spreads has a cycle.
\<close>

type_synonym spread_map = "(string, (string \<times> pos) list) index_map"
type_synonym detector = "string set \<times> (string \<rightharpoonup> nat) \<times> rule_error list"

definition cycle_error :: "string \<times> pos \<Rightarrow> (string \<times> pos) list \<Rightarrow> nat \<Rightarrow> rule_error" where
  "cycle_error sp path index =
     (let (n, p) = sp;
          err_pos = (if index < length path then snd (path ! index) else p)
      in RuleError [err_pos] (''Cannot spread fragment '' @ quote n))"

function (sequential) detect_spreads ::
  "spread_map \<Rightarrow> (string \<times> pos) list \<Rightarrow> (string \<times> pos) list \<Rightarrow> detector \<Rightarrow> detector" where
  "detect_spreads g path [] det = det"
| "detect_spreads g path ((n, p) # rest) (visited, path_indices, errors) =
     (case path_indices n of
        Some index \<Rightarrow>
          detect_spreads g path rest (visited, path_indices, errors @ [cycle_error (n, p) path index])
      | None \<Rightarrow>
          if n \<in> visited then detect_spreads g path rest (visited, path_indices, errors)
          else
            (let path' = path @ [(n, p)]
             in case map_of g n of
                  None \<Rightarrow> detect_spreads g path rest (insert n visited, path_indices, errors)
                | Some sps \<Rightarrow>
                    (case detect_spreads g path' sps
                            (insert n visited, path_indices(n \<mapsto> length path'), errors) of
                       (visited', path_indices', errors') \<Rightarrow>
                         detect_spreads g path rest (visited', path_indices'(n := None), errors'))))"
  by pat_completeness auto

abbreviation det_visited :: "detector \<Rightarrow> string set" where
  "det_visited det \<equiv> fst det"

lemma detect_spreads_mono_dom:
  "detect_spreads_dom (g, path, sps, det) \<Longrightarrow> fst det \<subseteq> fst (detect_spreads g path sps det)"
proof (induction rule: detect_spreads.pinduct)
  case (2 g path n p rest visited path_indices errors)
  note simps = detect_spreads.psimps(2) [OF 2(1)]
  show ?case
  proof (cases "path_indices n")
    case None
    show ?thesis
    proof (cases "n \<in> visited")
      case True
      then show ?thesis using 2(2) [OF None] None by (simp add: simps)
    next
      case False
      show ?thesis
      proof (cases "map_of g n")
        case None': None
        then show ?thesis using 2(3) [OF None False refl] None False by (auto simp: simps Let_def)
      next
        case (Some sps)
        obtain v' pi' e' where d: "detect_spreads g (path @ [(n, p)]) sps
          (insert n visited, path_indices(n \<mapsto> length (path @ [(n, p)])), errors) = (v', pi', e')"
          by (cases "detect_spreads g (path @ [(n, p)]) sps
            (insert n visited, path_indices(n \<mapsto> length (path @ [(n, p)])), errors)")
        show ?thesis
          using 2(4) [OF None False refl Some] 2(5) [OF None False refl Some] None False Some d
          by (auto simp: simps Let_def)
      qed
    qed
  qed (use 2(6) in \<open>simp add: simps\<close>)
qed (simp add: detect_spreads.psimps)

termination detect_spreads
proof (relation "measures [\<lambda>(g, path, sps, (v, _)). card (fst ` set g - v), \<lambda>(g, path, sps, det). length sps]",
    goal_cases)
  case (4 g path n p rest visited path_indices errors)
  then show ?case using unvisited_less [of g n _ visited] by simp
next
  case (5 g path n p rest visited path_indices errors path' sps visited' y path_indices' errors')
  from 5(7) have "insert n visited \<subseteq> visited'"
    using detect_spreads_mono_dom [OF 5(7)] 5(5) [symmetric] by simp
  then have "card (fst ` set g - visited') \<le> card (fst ` set g - visited)"
    by (intro card_mono) auto
  then show ?case by auto
qed (auto simp: le_less [symmetric] intro!: card_mono)


definition detect_from ::
  "spread_map \<Rightarrow> string \<Rightarrow> (string \<times> pos) list \<Rightarrow> detector \<Rightarrow> detector" where
  "detect_from g from path det =
     (let (visited, path_indices, errors) = det;
          visited = insert from visited
      in case map_of g from of
           None \<Rightarrow> (visited, path_indices, errors)
         | Some sps \<Rightarrow>
             (case detect_spreads g path sps (visited, path_indices(from \<mapsto> length path), errors) of
                (visited, path_indices, errors) \<Rightarrow> (visited, path_indices(from := None), errors)))"

lemma detect_spreads_Cons:
  "detect_spreads g path ((n, p) # rest) (visited, path_indices, errors) =
     (case path_indices n of
        Some index \<Rightarrow>
          detect_spreads g path rest (visited, path_indices, errors @ [cycle_error (n, p) path index])
      | None \<Rightarrow>
          detect_spreads g path rest
            (if n \<in> visited then (visited, path_indices, errors)
             else detect_from g n (path @ [(n, p)]) (visited, path_indices, errors)))"
  by (auto simp: detect_from_def Let_def split: option.splits prod.splits)

declare detect_spreads.simps(2) [simp del]

record no_fragment_cycles_state =
  fc_current_fragment :: "string option"
  fc_spreads :: spread_map
  fc_fragment_order :: "string list"

definition fc_init :: no_fragment_cycles_state where
  "fc_init = \<lparr>fc_current_fragment = None, fc_spreads = [], fc_fragment_order = []\<rparr>"

definition detect_cycles :: "spread_map \<Rightarrow> string list \<Rightarrow> detector \<Rightarrow> detector" where
  "detect_cycles g order =
     fold (\<lambda>frag det. if frag \<in> fst det then det else detect_from g frag [] det) order"

definition no_fragment_cycles :: "no_fragment_cycles_state visitor" where
  "no_fragment_cycles =
     \<lparr>v_mode = ModeNormal,
      v_call = (\<lambda>c ctx s. case c of
          ExitDocument _ \<Rightarrow>
            (append_errors
               (snd (snd (detect_cycles (fc_spreads s) (fc_fragment_order s) ({}, Map.empty, [])))) ctx, s)
        | EnterFragmentDefinition n _ \<Rightarrow>
            (ctx, s\<lparr>fc_current_fragment := Some n, fc_fragment_order := fc_fragment_order s @ [n]\<rparr>)
        | ExitFragmentDefinition _ _ \<Rightarrow> (ctx, s\<lparr>fc_current_fragment := None\<rparr>)
        | EnterFragmentSpread fragment_spread \<Rightarrow>
            (ctx,
             case fc_current_fragment s of
               Some current_fragment \<Rightarrow>
                 s\<lparr>fc_spreads := entry_extend current_fragment
                     [(node (fs_fragment_name (node fragment_spread)), pos fragment_spread)]
                     (fc_spreads s)\<rparr>
             | None \<Rightarrow> s)
        | _ \<Rightarrow> (ctx, s))\<rparr>"

interpretation no_fragment_cycles: rule_visitor no_fragment_cycles
  by unfold_locales
     (auto simp: no_fragment_cycles_def frame_simps split: visitor_call.splits)

subsection \<open>Correctness of the detector\<close>

definition spread_edges :: "spread_map \<Rightarrow> (string \<times> string) set" where
  "spread_edges g = {(x, y). \<exists>sps p. map_of g x = Some sps \<and> (y, p) \<in> set sps}"

text \<open>The detector restores \<open>path_indices\<close>, visits more and more, and never drops an error.\<close>

lemma detect_spreads_indices [simp]: "fst (snd (detect_spreads g path sps det)) = fst (snd det)"
proof (induction g path sps det rule: detect_spreads.induct)
  case (2 g path n p rest visited path_indices errors)
  show ?case
  proof (cases "path_indices n")
    case None
    show ?thesis
    proof (cases "n \<in> visited \<or> map_of g n = None")
      case True
      then show ?thesis using None 2(1,2)
        by (auto simp: detect_spreads.simps Let_def split: option.splits)
    next
      case False
      then obtain sps where sps: "n \<notin> visited" "map_of g n = Some sps" by auto
      obtain v' pi' e' where d: "detect_spreads g (path @ [(n, p)]) sps
          (insert n visited, path_indices(n \<mapsto> length (path @ [(n, p)])), errors) = (v', pi', e')"
        using prod_cases3 by blast
      have "pi' = path_indices(n \<mapsto> length (path @ [(n, p)]))"
        using 2(3) [OF None sps(1) refl sps(2)] d by (auto simp: fun_eq_iff)
      then have "pi'(n := None) = path_indices" using None by auto
      then show ?thesis
        using 2(4) [OF None sps(1) refl sps(2) d [symmetric] refl] None sps d
        by (simp add: detect_spreads.simps Let_def)
    qed
  qed (use 2(5) in \<open>simp add: detect_spreads.simps\<close>)
qed simp

lemma detect_from_indices:
  assumes "path_indices n = None"
  shows "fst (snd (detect_from g n path (visited, path_indices, errors))) = path_indices"
proof (cases "map_of g n")
  case (Some sps)
  obtain v' pi' e' where d: "detect_spreads g path sps
      (insert n visited, path_indices(n \<mapsto> length path), errors) = (v', pi', e')"
    using prod_cases3 by blast
  then have "pi' = path_indices(n \<mapsto> length path)"
    using detect_spreads_indices [of g path sps "(insert n visited, path_indices(n \<mapsto> length path), errors)"]
    by simp
  then show ?thesis using Some d assms by (auto simp: detect_from_def)
qed (simp add: detect_from_def)

lemma inner_call:
  assumes "path_indices n = None"
  obtains v' e' where
    "detect_spreads g path sps (visited, path_indices(n \<mapsto> k), errors) = (v', path_indices(n \<mapsto> k), e')"
    "(path_indices(n \<mapsto> k))(n := None) = path_indices"
proof -
  obtain v' pi' e' where d:
    "detect_spreads g path sps (visited, path_indices(n \<mapsto> k), errors) = (v', pi', e')"
    using prod_cases3 by blast
  moreover have "pi' = path_indices(n \<mapsto> k)"
    using detect_spreads_indices [of g path sps "(visited, path_indices(n \<mapsto> k), errors)"] d by simp
  moreover have "(path_indices(n \<mapsto> k))(n := None) = path_indices" using assms by auto
  ultimately show thesis using that by blast
qed

lemma detect_spreads_grows:
  "fst det \<subseteq> fst (detect_spreads g path sps det) \<and>
   (\<exists>es. snd (snd (detect_spreads g path sps det)) = snd (snd det) @ es)"
proof (induction g path sps det rule: detect_spreads.induct)
  case (2 g path n p rest visited path_indices errors)
  show ?case
  proof (cases "path_indices n")
    case None
    show ?thesis
    proof (cases "n \<in> visited \<or> map_of g n = None")
      case True
      then show ?thesis using None 2(1) [OF None] 2(2) [OF None _ refl]
        by (auto simp: detect_spreads.simps Let_def split: option.splits)
    next
      case False
      then obtain sps where sps: "n \<notin> visited" "map_of g n = Some sps" by auto
      obtain v' e' where d: "detect_spreads g (path @ [(n, p)]) sps
          (insert n visited, path_indices(n \<mapsto> length (path @ [(n, p)])), errors) =
          (v', path_indices(n \<mapsto> length (path @ [(n, p)])), e')"
        "(path_indices(n \<mapsto> length (path @ [(n, p)])))(n := None) = path_indices"
        using inner_call [of path_indices n, OF None] by blast
      have "detect_spreads g path ((n, p) # rest) (visited, path_indices, errors) =
        detect_spreads g path rest (v', path_indices, e')"
        using None sps d by (simp add: detect_spreads.simps Let_def)
      then show ?thesis
        using 2(3) [OF None sps(1) refl sps(2)] 2(4) [OF None sps(1) refl sps(2) d(1) [symmetric] refl]
        unfolding d by auto
    qed
  qed (use 2(5) in \<open>fastforce simp add: detect_spreads.simps\<close>)
qed simp

text \<open>An error closes a cycle: every fragment on the way leads to the current one (\<open>cur\<close>), whose
  spreads are being followed.\<close>

lemma detect_spreads_error:
  assumes "\<And>y p. (y, p) \<in> set sps \<Longrightarrow> (cur, y) \<in> spread_edges g"
    and "\<And>x. fst (snd det) x \<noteq> None \<Longrightarrow> (x, cur) \<in> (spread_edges g)\<^sup>*"
    and "snd (snd (detect_spreads g path sps det)) \<noteq> snd (snd det)"
  shows "\<exists>x. (x, x) \<in> (spread_edges g)\<^sup>+"
  using assms
proof (induction g path sps det arbitrary: cur rule: detect_spreads.induct)
  case (2 g path n p rest visited path_indices errors)
  have edge: "(cur, n) \<in> spread_edges g" using "2.prems"(1) by auto
  show ?case
  proof (cases "path_indices n")
    case (Some i)
    then have "(n, cur) \<in> (spread_edges g)\<^sup>*" using "2.prems"(2) by auto
    then show ?thesis using edge by (meson rtrancl_into_trancl1)
  next
    case None
    show ?thesis
    proof (cases "n \<in> visited \<or> map_of g n = None")
      case True
      then show ?thesis
        using None 2(1) [OF None, of cur] 2(2) [OF None _ refl, of cur] "2.prems"
        by (auto simp: detect_spreads.simps Let_def split: option.splits if_splits)
    next
      case False
      then obtain sps where sps: "n \<notin> visited" "map_of g n = Some sps" by auto
      obtain v' e' where d: "detect_spreads g (path @ [(n, p)]) sps
          (insert n visited, path_indices(n \<mapsto> length (path @ [(n, p)])), errors) =
          (v', path_indices(n \<mapsto> length (path @ [(n, p)])), e')"
        "(path_indices(n \<mapsto> length (path @ [(n, p)])))(n := None) = path_indices"
        using inner_call [of path_indices n, OF None] by blast
      have eq: "detect_spreads g path ((n, p) # rest) (visited, path_indices, errors) =
        detect_spreads g path rest (v', path_indices, e')"
        using None sps d by (simp add: detect_spreads.simps Let_def)
      show ?thesis
      proof (cases "e' = errors")
        case True
        then show ?thesis
          using 2(4) [OF None sps(1) refl sps(2) d(1) [symmetric] refl, of cur] "2.prems" eq
          unfolding d by auto
      next
        case False
        have "(n, y) \<in> spread_edges g" if "(y, q) \<in> set sps" for y q
          using that sps(2) by (auto simp: spread_edges_def)
        moreover have "(x, n) \<in> (spread_edges g)\<^sup>*"
          if "(path_indices(n \<mapsto> length (path @ [(n, p)]))) x \<noteq> None" for x
          using that "2.prems"(2) [of x] edge by (cases "x = n") (auto intro: rtrancl_into_rtrancl)
        ultimately show ?thesis
          using 2(3) [OF None sps(1) refl sps(2), of n] False d by auto
      qed
    qed
  qed
qed simp

text \<open>
  Without an error, the fragments that are finished (visited and not on the way) are closed under
  spreads and on no cycle.
\<close>

definition finished :: "spread_map \<Rightarrow> string set \<Rightarrow> bool" where
  "finished g B \<longleftrightarrow>
     (\<forall>x\<in>B. \<forall>y. (x, y) \<in> spread_edges g \<longrightarrow> y \<in> B) \<and> (\<forall>x\<in>B. (x, x) \<notin> (spread_edges g)\<^sup>+)"

lemma finished_reach: "(x, y) \<in> (spread_edges g)\<^sup>* \<Longrightarrow> finished g B \<Longrightarrow> x \<in> B \<Longrightarrow> y \<in> B"
  by (induction rule: rtrancl_induct) (auto simp: finished_def)

lemma finished_insert:
  assumes "finished g B" "n \<notin> B" "\<And>y. (n, y) \<in> spread_edges g \<Longrightarrow> y \<in> B"
  shows "finished g (insert n B)"
proof -
  have "(n, n) \<notin> (spread_edges g)\<^sup>+"
  proof
    assume "(n, n) \<in> (spread_edges g)\<^sup>+"
    then obtain y where "(n, y) \<in> spread_edges g" "(y, n) \<in> (spread_edges g)\<^sup>*"
      by (meson tranclD)
    then show False using finished_reach [OF _ assms(1)] assms(2,3) by blast
  qed
  then show ?thesis using assms by (auto simp: finished_def)
qed

lemma detect_spreads_finished:
  assumes "finished g (visited - dom path_indices)" "dom path_indices \<subseteq> visited"
    and "detect_spreads g path sps (visited, path_indices, errors) = (visited', pi', errors)"
  shows "finished g (visited' - dom path_indices) \<and> fst ` set sps \<subseteq> visited' - dom path_indices"
  using assms
proof (induction g path sps "(visited, path_indices, errors)"
    arbitrary: visited path_indices errors visited' pi' rule: detect_spreads.induct)
  case (2 g path n p rest visited path_indices errors)
  have rest_grows: "v \<subseteq> visited' \<and> e = errors"
    if "detect_spreads g path rest (v, path_indices, e) = (visited', pi', errors)"
      and "\<exists>es. e = errors @ es" for v e
    using detect_spreads_grows [of "(v, path_indices, e)" g path rest] that by auto
  show ?case
  proof (cases "path_indices n")
    case (Some i)
    then show ?thesis using "2.prems"(3) rest_grows by (simp add: detect_spreads.simps) blast
  next
    case None
    then have ndom: "n \<notin> dom path_indices" by auto
    show ?thesis
    proof (cases "n \<in> visited")
      case True
      then have "detect_spreads g path rest (visited, path_indices, errors) = (visited', pi', errors)"
        using "2.prems"(3) None by (simp add: detect_spreads.simps)
      then show ?thesis
        using 2(1) [OF None True "2.prems"(1,2)] rest_grows [of visited errors] True ndom by auto
    next
      case new: False
      show ?thesis
      proof (cases "map_of g n")
        case none: None
        have rest: "detect_spreads g path rest (insert n visited, path_indices, errors) = (visited', pi', errors)"
          using "2.prems"(3) None new none by (simp add: detect_spreads.simps)
        have "finished g (insert n (visited - dom path_indices))"
          using new none by (intro finished_insert [OF "2.prems"(1)]) (auto simp: spread_edges_def)
        moreover have "insert n visited - dom path_indices = insert n (visited - dom path_indices)"
          using ndom by auto
        moreover have "dom path_indices \<subseteq> insert n visited" using "2.prems"(2) by auto
        ultimately show ?thesis
          using 2(2) [OF None new refl none _ _ rest] rest_grows [OF rest] ndom by auto
      next
        case (Some sps)
        let ?pi = "path_indices(n \<mapsto> length (path @ [(n, p)]))"
        obtain v1 e1 where d: "detect_spreads g (path @ [(n, p)]) sps (insert n visited, ?pi, errors) =
            (v1, ?pi, e1)" "?pi(n := None) = path_indices"
          using inner_call [of path_indices n, OF None] by blast
        have rest: "detect_spreads g path rest (v1, path_indices, e1) = (visited', pi', errors)"
          using "2.prems"(3) None new Some d by (simp add: detect_spreads.simps Let_def)
        have grows: "insert n visited \<subseteq> v1" "\<exists>es. e1 = errors @ es"
          using detect_spreads_grows [of "(insert n visited, ?pi, errors)" g "path @ [(n, p)]" sps] d(1)
          by auto
        then have e1: "e1 = errors" and v1: "v1 \<subseteq> visited'" using rest_grows [OF rest] by auto
        have "insert n visited - dom ?pi = visited - dom path_indices"
          using new by auto
        then have inner: "finished g (v1 - dom ?pi)" "fst ` set sps \<subseteq> v1 - dom ?pi"
          using 2(3) [OF None new refl Some, of v1 ?pi] d(1) e1 "2.prems"(1,2) by auto
        have "finished g (insert n (v1 - dom ?pi))"
          using inner(2) Some
          by (intro finished_insert [OF inner(1)]) (auto simp: spread_edges_def)
        moreover have "v1 - dom path_indices = insert n (v1 - dom ?pi)"
          using grows(1) ndom by auto
        moreover have "dom path_indices \<subseteq> v1" using "2.prems"(2) grows(1) by auto
        ultimately have "finished g (visited' - dom path_indices) \<and> fst ` set rest \<subseteq> visited' - dom path_indices"
          using 2(4) [OF None new refl Some d(1) [symmetric] refl, of visited' pi'] rest e1
          unfolding d(2) by auto
        then show ?thesis using v1 grows(1) ndom by auto
      qed
    qed
  qed
qed auto


text \<open>Starting a search at a fragment not visited before.\<close>

lemma detect_from_start:
  assumes "n \<notin> visited"
  obtains visited' es where
    "detect_from g n [] (visited, Map.empty, errors) = (visited', Map.empty, errors @ es)"
    "insert n visited \<subseteq> visited'"
    "es \<noteq> [] \<Longrightarrow> \<exists>x. (x, x) \<in> (spread_edges g)\<^sup>+"
    "es = [] \<Longrightarrow> finished g visited \<Longrightarrow> finished g visited'"
proof (cases "map_of g n")
  case None
  have "finished g (insert n visited)" if "finished g visited"
    using that assms None by (intro finished_insert) (auto simp: spread_edges_def)
  then show thesis using None that [of "insert n visited" "[]"] by (simp add: detect_from_def)
next
  case (Some sps)
  let ?pi = "[n \<mapsto> 0 :: nat]"
  obtain v' e' where d: "detect_spreads g [] sps (insert n visited, ?pi, errors) = (v', ?pi, e')"
    using inner_call [of Map.empty n] by blast
  have grows: "insert n visited \<subseteq> v'" "\<exists>es. e' = errors @ es"
    using detect_spreads_grows [of "(insert n visited, ?pi, errors)" g "[]" sps] d by auto
  then obtain es where es: "e' = errors @ es" by blast
  have start: "detect_from g n [] (visited, Map.empty, errors) = (v', Map.empty, errors @ es)"
    using Some d es by (simp add: detect_from_def)
  have err: "\<exists>x. (x, x) \<in> (spread_edges g)\<^sup>+" if "es \<noteq> []"
  proof (rule detect_spreads_error)
    show "(n, y) \<in> spread_edges g" if "(y, p) \<in> set sps" for y p
      using that Some by (auto simp: spread_edges_def)
    show "snd (snd (detect_spreads g [] sps (insert n visited, ?pi, errors))) \<noteq>
      snd (snd (insert n visited, ?pi, errors))"
      using d es \<open>es \<noteq> []\<close> by simp
  qed (auto split: if_splits)
  have "finished g v'" if "es = []" "finished g visited"
  proof -
    have eq: "insert n visited - dom ?pi = visited" using assms by auto
    have fin: "finished g (v' - dom ?pi) \<and> fst ` set sps \<subseteq> v' - dom ?pi"
    proof (rule detect_spreads_finished)
      show "finished g (insert n visited - dom ?pi)" unfolding eq by (rule that(2))
      show "detect_spreads g [] sps (insert n visited, ?pi, errors) = (v', ?pi, errors)"
        using d es that(1) by simp
    qed auto
    have "finished g (insert n (v' - dom ?pi))"
      by (rule finished_insert) (use fin Some in \<open>auto simp: spread_edges_def\<close>)
    moreover have "insert n (v' - dom ?pi) = v'" using grows(1) by auto
    ultimately show ?thesis by simp
  qed
  then show thesis using that start grows(1) err by blast
qed

lemma detect_cycles_start:
  obtains visited' es where
    "detect_cycles g order (visited, Map.empty, errors) = (visited', Map.empty, errors @ es)"
    "set order \<union> visited \<subseteq> visited'"
    "es \<noteq> [] \<Longrightarrow> \<exists>x. (x, x) \<in> (spread_edges g)\<^sup>+"
    "es = [] \<Longrightarrow> finished g visited \<Longrightarrow> finished g visited'"
proof (induction order arbitrary: visited errors thesis)
  case Nil
  then show ?case by (simp add: detect_cycles_def)
next
  case (Cons n order)
  show ?case
  proof (cases "n \<in> visited")
    case True
    obtain v2 e2 where "detect_cycles g order (visited, Map.empty, errors) = (v2, Map.empty, errors @ e2)"
      "set order \<union> visited \<subseteq> v2" "e2 \<noteq> [] \<Longrightarrow> \<exists>x. (x, x) \<in> (spread_edges g)\<^sup>+"
      "e2 = [] \<Longrightarrow> finished g visited \<Longrightarrow> finished g v2"
      using Cons.IH [of visited errors] by blast
    then show ?thesis
      by (intro Cons.prems [of v2 e2]) (use True in \<open>auto simp: detect_cycles_def\<close>)
  next
    case False
    obtain v1 e1 where f: "detect_from g n [] (visited, Map.empty, errors) = (v1, Map.empty, errors @ e1)"
      "insert n visited \<subseteq> v1" "e1 \<noteq> [] \<Longrightarrow> \<exists>x. (x, x) \<in> (spread_edges g)\<^sup>+"
      "e1 = [] \<Longrightarrow> finished g visited \<Longrightarrow> finished g v1"
      using detect_from_start [OF False] by blast
    obtain v2 e2 where r: "detect_cycles g order (v1, Map.empty, errors @ e1) = (v2, Map.empty, (errors @ e1) @ e2)"
      "set order \<union> v1 \<subseteq> v2" "e2 \<noteq> [] \<Longrightarrow> \<exists>x. (x, x) \<in> (spread_edges g)\<^sup>+"
      "e2 = [] \<Longrightarrow> finished g v1 \<Longrightarrow> finished g v2"
      using Cons.IH [of v1 "errors @ e1"] by blast
    show ?thesis
      by (rule Cons.prems [of v2 "e1 @ e2"]) (use f r False in \<open>auto simp: detect_cycles_def\<close>)
  qed
qed

lemma detect_cycles_acyclic:
  assumes "fst ` set g \<subseteq> set order"
  shows "snd (snd (detect_cycles g order ({}, Map.empty, []))) = [] \<longleftrightarrow> acyclic (spread_edges g)"
proof -
  obtain v es where d: "detect_cycles g order ({}, Map.empty, []) = (v, Map.empty, [] @ es)"
    "set order \<union> {} \<subseteq> v" "es \<noteq> [] \<Longrightarrow> \<exists>x. (x, x) \<in> (spread_edges g)\<^sup>+"
    "es = [] \<Longrightarrow> finished g {} \<Longrightarrow> finished g v"
    using detect_cycles_start [of g order "{}" "[]"] by metis
  have "acyclic (spread_edges g)" if "es = []"
  proof (rule ccontr)
    assume "\<not> acyclic (spread_edges g)"
    then obtain x where x: "(x, x) \<in> (spread_edges g)\<^sup>+" by (auto simp: acyclic_def)
    then obtain y where "(x, y) \<in> spread_edges g" by (meson tranclD)
    then have "x \<in> fst ` set g"
      by (auto simp: spread_edges_def dest!: map_of_SomeD intro: rev_image_eqI)
    then have "x \<in> v" using assms d(2) by auto
    moreover have "finished g v" using d(4) that by (simp add: finished_def)
    ultimately show False using x by (auto simp: finished_def)
  qed
  then show ?thesis using d(1,3) by (auto simp: acyclic_def)
qed

end
