(* ===== verification/Calculators.thy ===== *)
theory Calculators
  imports Rules_Local
begin

text \<open>
  The visitors that compute the depth, the complexity and the cache policy of a document:
  \<open>src/validation/visitors/\<close>. They run in inline mode: fragments are visited where they are spread.

  \<open>usize\<close> complexities are 64-bit words and wrap around, as they do in a release build. Popping the
  empty \<open>complexity_stack\<close> would panic; the lemmas show that it never is empty.

  The lemmas give each result as a function of the document: the depth is the nesting of the fields
  (\<open>doc_depth\<close>), the complexity of a document whose fields have no custom complexity is the number
  of its fields, and the cache policy is the combination of the policies of what is visited.
\<close>

subsection \<open>Depth\<close>

record depth_state =
  dc_max_depth :: nat
  dc_current_depth :: nat

definition depth_init :: depth_state where
  "depth_init = \<lparr>dc_max_depth = 0, dc_current_depth = 0\<rparr>"

definition depth_calculate :: "depth_state visitor" where
  "depth_calculate =
     \<lparr>v_mode = ModeInline,
      v_call = (\<lambda>c ctx s. case c of
          EnterField _ \<Rightarrow>
            (ctx, s\<lparr>dc_current_depth := dc_current_depth s + 1,
                    dc_max_depth := max (dc_max_depth s) (dc_current_depth s + 1)\<rparr>)
        | ExitField _ \<Rightarrow> (ctx, s\<lparr>dc_current_depth := dc_current_depth s - 1\<rparr>)
        | _ \<Rightarrow> (ctx, s))\<rparr>"

interpretation depth_calculate: rule_visitor depth_calculate
  by unfold_locales (auto simp: depth_calculate_def frame_simps split: visitor_call.splits)

subsection \<open>Cache control\<close>

definition cache_control_calculate :: "cache_control visitor" where
  "cache_control_calculate =
     \<lparr>v_mode = ModeInline,
      v_call = (\<lambda>c ctx s. case c of
          EnterSelectionSet _ \<Rightarrow>
            (ctx, case current_type ctx of
                    Some (MObject t) \<Rightarrow> cc_merge s (ob_cache_control t)
                  | _ \<Rightarrow> s)
        | EnterField field \<Rightarrow>
            (ctx, case Option.bind (parent_type ctx) (\<lambda>p. field_by_name p (node (f_name (node field)))) of
                    Some registry_field \<Rightarrow> cc_merge s (mf_cache_control registry_field)
                  | None \<Rightarrow> s)
        | _ \<Rightarrow> (ctx, s))\<rparr>"

interpretation cache_control_calculate: rule_visitor cache_control_calculate
  by unfold_locales (auto simp: cache_control_calculate_def frame_simps split: visitor_call.splits)

subsection \<open>Complexity\<close>

record complexity_state =
  cx_complexity :: "64 word"
  cx_stack :: "64 word list"
  cx_variable_definition :: "variable_definition positioned list option"

definition complexity_init :: complexity_state where
  "complexity_init = \<lparr>cx_complexity = 0, cx_stack = [], cx_variable_definition = None\<rparr>"

definition unwrap_none :: "visitor_ctx \<Rightarrow> visitor_ctx" where
  "unwrap_none ctx = append_errors [RulePanic ''called `Option::unwrap()` on a `None` value''] ctx"

text \<open>\<open>*self.complexity_stack.last_mut().unwrap() += n\<close>\<close>

definition add_to_top :: "64 word \<Rightarrow> visitor_ctx \<Rightarrow> complexity_state \<Rightarrow> visitor_ctx \<times> complexity_state" where
  "add_to_top n ctx s =
     (case cx_stack s of
        x # rest \<Rightarrow> (ctx, s\<lparr>cx_stack := (x + n) # rest\<rparr>)
      | [] \<Rightarrow> (unwrap_none ctx, s))"

definition custom_complexity :: "visitor_ctx \<Rightarrow> field \<Rightarrow> compute_complexity_fn option" where
  "custom_complexity ctx field =
     (case parent_type ctx of
        Some (MObject t) \<Rightarrow>
          Option.bind (im_get (ob_fields t) (concrete_typename (node (f_name field))))
            mf_compute_complexity
      | _ \<Rightarrow> None)"

definition exit_field_complexity ::
  "field positioned \<Rightarrow> visitor_ctx \<Rightarrow> complexity_state \<Rightarrow> visitor_ctx \<times> complexity_state" where
  "exit_field_complexity field ctx s =
     (case cx_stack s of
        [] \<Rightarrow> (unwrap_none ctx, s)
      | children_complex # rest \<Rightarrow>
          let s = s\<lparr>cx_stack := rest\<rparr>
          in case custom_complexity ctx (node field) of
               Some f \<Rightarrow>
                 (case f (vc_variables ctx)
                         (case cx_variable_definition s of Some ds \<Rightarrow> ds | None \<Rightarrow> [])
                         (node field) children_complex of
                    Inr n \<Rightarrow> add_to_top n ctx s
                  | Inl err \<Rightarrow> (report_error [pos field] (se_message err) ctx, s))
             | None \<Rightarrow> add_to_top (1 + children_complex) ctx s)"

definition complexity_calculate :: "complexity_state visitor" where
  "complexity_calculate =
     \<lparr>v_mode = ModeInline,
      v_call = (\<lambda>c ctx s. case c of
          EnterDocument _ \<Rightarrow> (ctx, s\<lparr>cx_stack := 0 # cx_stack s\<rparr>)
        | ExitDocument _ \<Rightarrow>
            (case cx_stack s of
               x # rest \<Rightarrow> (ctx, s\<lparr>cx_complexity := x, cx_stack := rest\<rparr>)
             | [] \<Rightarrow> (unwrap_none ctx, s))
        | EnterOperationDefinition _ operation_definition \<Rightarrow>
            (ctx, s\<lparr>cx_variable_definition :=
                      Some (od_variable_definitions (node operation_definition))\<rparr>)
        | EnterField _ \<Rightarrow> (ctx, s\<lparr>cx_stack := 0 # cx_stack s\<rparr>)
        | ExitField field \<Rightarrow> exit_field_complexity field ctx s
        | _ \<Rightarrow> (ctx, s))\<rparr>"

lemma custom_complexity_env [simp]:
  "custom_complexity (clear ctx) fld = custom_complexity ctx fld"
  by (simp add: custom_complexity_def)

interpretation complexity_calculate: rule_visitor complexity_calculate
  by unfold_locales
     (auto simp: complexity_calculate_def exit_field_complexity_def add_to_top_def unwrap_none_def
       frame_simps Let_def split: visitor_call.splits list.splits option.splits sum.splits)


subsection \<open>The fields of a document\<close>

text \<open>
  The tree of the fields that inline mode visits: fragments are replaced by their fields, up to a
  nesting of \<open>n\<close> spreads, and \<open>__typename\<close> is not visited.
\<close>

datatype field_tree = FieldNode "field positioned" "field_tree list"

function expand :: "nat \<Rightarrow> fragments \<Rightarrow> selection_set \<Rightarrow> field_tree list" where
  "expand n frags ss =
     concat (map (\<lambda>sel. case node sel of
         Field field \<Rightarrow>
           if node (f_name (node field)) = ''__typename'' then []
           else [FieldNode field (expand n frags (node (f_selection_set (node field))))]
       | FragmentSpread spread \<Rightarrow>
           (case (map_of frags (node (fs_fragment_name (node spread))), n) of
              (Some fragment, Suc n) \<Rightarrow> expand n frags (node (fd_selection_set (node fragment)))
            | _ \<Rightarrow> [])
       | InlineFragment frag \<Rightarrow> expand n frags (node (if_selection_set (node frag)))) (ss_items ss))"
  by pat_completeness auto

lemma size_sub_selection [termination_simp]:
  "sel \<in> set (ss_items ss) \<Longrightarrow> node sel = Field fld \<Longrightarrow>
     size (node (f_selection_set (node fld))) < size ss"
  "sel \<in> set (ss_items ss) \<Longrightarrow> node sel = InlineFragment frag \<Longrightarrow>
     size (node (if_selection_set (node frag))) < size ss"
  using size_selection [of sel ss] size_nested(1) [of "node fld"]
    size_nested(2) [of "node frag"]
  by (auto simp: size_positioned_node)

termination expand
  by (relation "measures [fst, \<lambda>(_, _, ss). size ss]") (auto simp: termination_simp)

declare expand.simps [simp del]

fun tree_depth :: "field_tree \<Rightarrow> nat" where
  "tree_depth (FieldNode f ts) = Suc (foldr (\<lambda>t. max (tree_depth t)) ts 0)"

fun tree_size :: "field_tree \<Rightarrow> nat" where
  "tree_size (FieldNode f ts) = Suc (sum_list (map tree_size ts))"

definition trees_depth :: "field_tree list \<Rightarrow> nat" where
  "trees_depth ts = foldr (\<lambda>t. max (tree_depth t)) ts 0"

definition doc_trees :: "nat \<Rightarrow> registry \<Rightarrow> executable_document \<Rightarrow> field_tree list" where
  "doc_trees n reg doc =
     concat (map (\<lambda>(_, op).
         if root_name reg (od_ty (node op)) = None then []
         else expand n (doc_fragments doc) (node (od_selection_set (node op))))
       (operations_iter (doc_operations doc)))"

fun tree_calls :: "field_tree \<Rightarrow> visitor_call list" where
  "tree_calls (FieldNode f ts) = EnterField f # concat (map tree_calls ts) @ [ExitField f]"

fun is_field_call :: "visitor_call \<Rightarrow> bool" where
  "is_field_call (EnterField _) = True"
| "is_field_call (ExitField _) = True"
| "is_field_call _ = False"

fun event_calls :: "event list \<Rightarrow> visitor_call list" where
  "event_calls [] = []"
| "event_calls (Call c env # evs) = c # event_calls evs"
| "event_calls (Report e # evs) = event_calls evs"

definition field_calls :: "event list \<Rightarrow> visitor_call list" where
  "field_calls evs = filter is_field_call (event_calls evs)"

lemma event_calls_append [simp]: "event_calls (evs @ evs') = event_calls evs @ event_calls evs'"
  by (induction evs rule: event_calls.induct) simp_all

lemma field_calls_simps [simp]:
  "field_calls [] = []"
  "field_calls (Call c env # evs) = (if is_field_call c then c # field_calls evs else field_calls evs)"
  "field_calls (Report e # evs) = field_calls evs"
  "field_calls (evs @ evs') = field_calls evs @ field_calls evs'"
  by (simp_all add: field_calls_def)

lemma field_calls_concat: "field_calls (concat evss) = concat (map field_calls evss)"
  by (induction evss) simp_all

lemma field_calls_input_value [simp]: "field_calls (trace_input_value env p ty val) = []"
  by (induction val arbitrary: ty)
     (auto simp: field_calls_concat split: option.splits meta_type_name.splits meta_type.splits)

lemma field_calls_argument [simp]: "field_calls (trace_argument p sa env arg) = []"
  by (simp add: trace_argument_def Let_def split: prod.splits)

lemma field_calls_directives [simp]: "field_calls (trace_directives env ds) = []"
  by (simp add: trace_directives_def trace_directive_def field_calls_concat)

lemma field_calls_variable_definitions [simp]: "field_calls (trace_variable_definitions env ds) = []"
  by (simp add: trace_variable_definitions_def field_calls_concat)

lemma concat_map_concat: "concat (map f (concat xss)) = concat (map (\<lambda>xs. concat (map f xs)) xss)"
  by (induction xss) simp_all

lemma map_result_field_calls:
  assumes "map_result f xs = Inr evss"
    and "\<And>x evs. x \<in> set xs \<Longrightarrow> f x = Inr evs \<Longrightarrow> field_calls evs = g x"
  shows "field_calls (concat evss) = concat (map g xs)"
  using assms by (induction xs arbitrary: evss) (auto simp: res_simps)

lemma trace_field_calls:
  "trace_selection_set n m env ss = Inr evs \<Longrightarrow> m = ModeInline \<Longrightarrow>
     field_calls evs = concat (map tree_calls (expand n (vc_fragments env) (node ss)))"
  and trace_field_calls_selection:
  "trace_selection n m env sel = Inr evs1 \<Longrightarrow> m = ModeInline \<Longrightarrow>
     field_calls evs1 = concat (map tree_calls (expand n (vc_fragments env) (SelectionSet [sel])))"
  and trace_field_calls_field:
  "trace_field n m env fld = Inr evs2 \<Longrightarrow> m = ModeInline \<Longrightarrow>
     field_calls evs2 =
       tree_calls (FieldNode fld (expand n (vc_fragments env) (node (f_selection_set (node fld)))))"
  and trace_field_calls_spread:
  "trace_fragment_spread n m env spr = Inr evs3 \<Longrightarrow> m = ModeInline \<Longrightarrow>
     field_calls evs3 = concat (map tree_calls
       (case (map_of (vc_fragments env) (node (fs_fragment_name (node spr))), n) of
          (Some fragment, Suc n) \<Rightarrow> expand n (vc_fragments env) (node (fd_selection_set (node fragment)))
        | _ \<Rightarrow> []))"
  and trace_field_calls_inline:
  "trace_inline_fragment n m env ifr = Inr evs4 \<Longrightarrow> m = ModeInline \<Longrightarrow>
     field_calls evs4 =
       concat (map tree_calls (expand n (vc_fragments env) (node (if_selection_set (node ifr)))))"
proof (induction n m env ss and n m env sel and n m env fld and n m env spr and n m env ifr
    arbitrary: evs and evs1 and evs2 and evs3 and evs4
    rule: trace_selection_set_trace_selection_trace_field_trace_fragment_spread_trace_inline_fragment.induct)
  case (1 n m env ss)
  show ?case
  proof (cases "ss_items (node ss) = []")
    case False
    then obtain evss where evss: "map_result (trace_selection n m env) (ss_items (node ss)) = Inr evss"
      "evs = Call (EnterSelectionSet ss) env # concat evss @ [Call (ExitSelectionSet ss) env]"
      using "1.prems" by (auto simp: trace_selection_set.simps res_simps)
    have "field_calls (concat evss) = concat (map (\<lambda>sel. concat (map tree_calls
        (expand n (vc_fragments env) (SelectionSet [sel])))) (ss_items (node ss)))"
      by (rule map_result_field_calls [OF evss(1)]) (use 1 False in auto)
    also have "\<dots> = concat (map tree_calls (expand n (vc_fragments env) (node ss)))"
      by (simp add: expand.simps [of n "vc_fragments env"] concat_map_concat o_def)
    finally show ?thesis using evss(2) by simp
  qed (use 1 in \<open>simp add: trace_selection_set.simps expand.simps\<close>)
next
  case (2 n m env p sel)
  then show ?case
    by (cases sel)
       (auto simp: trace_selection.simps res_simps expand.simps [of n "vc_fragments env" "SelectionSet _"] push_type_def
         split: if_splits option.splits)
next
  case (3 n m env field)
  then show ?case by (auto simp: trace_field.simps res_simps field_calls_concat)
next
  case (4 n m env fragment_spread)
  then show ?case
    by (auto simp: trace_fragment_spread.simps res_simps split: if_splits option.splits nat.splits)
next
  case (5 n m env inline_fragment)
  then show ?case by (auto simp: trace_inline_fragment.simps res_simps)
qed


lemma trace_field_calls_doc:
  assumes "trace n ModeInline env doc = Inr evs" "vc_fragments env = doc_fragments doc"
  shows "field_calls evs = concat (map tree_calls (doc_trees n (vc_registry env) doc))"
proof -
  from assms(1) obtain frags ops where
    frags: "map_result (trace_fragment_definition n ModeInline env) (doc_fragments doc) = Inr frags"
    and ops: "map_result (trace_operation_definition n ModeInline env)
      (operations_iter (doc_operations doc)) = Inr ops"
    and evs: "evs = Call (EnterDocument doc) env # concat frags @ concat ops @ [Call (ExitDocument doc) env]"
    by (auto simp: trace_def res_simps)
  have "field_calls (concat frags) = concat (map (\<lambda>_. []) (doc_fragments doc))"
    by (rule map_result_field_calls [OF frags])
       (auto simp: trace_fragment_definition_def Let_def split: prod.splits)
  then have "field_calls (concat frags) = []" by simp
  moreover have "field_calls (concat ops) = concat (map (\<lambda>(_, op).
      concat (map tree_calls
        (if root_name (vc_registry env) (od_ty (node op)) = None then []
         else expand n (doc_fragments doc) (node (od_selection_set (node op))))))
      (operations_iter (doc_operations doc)))"
    by (rule map_result_field_calls [OF ops])
       (auto simp: trace_operation_definition_def Let_def res_simps assms(2) push_type_def
         dest: trace_field_calls split: prod.splits option.splits)
  ultimately show ?thesis
    by (simp add: evs doc_trees_def concat_map_concat o_def split_def)
qed

subsection \<open>Depth of a document\<close>

fun depth_step :: "visitor_call \<Rightarrow> depth_state \<Rightarrow> depth_state" where
  "depth_step (EnterField _) s =
     s\<lparr>dc_current_depth := dc_current_depth s + 1,
       dc_max_depth := max (dc_max_depth s) (dc_current_depth s + 1)\<rparr>"
| "depth_step (ExitField _) s = s\<lparr>dc_current_depth := dc_current_depth s - 1\<rparr>"
| "depth_step _ s = s"

lemma depth_outcome: "outcome depth_calculate evs s = ([], fold depth_step (field_calls evs) s)"
proof (induction evs arbitrary: s rule: event_calls.induct)
  case (2 c env evs)
  then show ?case
    by (cases c) (simp_all add: emits_def nextst_def depth_calculate_def)
qed simp_all

lemma fold_depth_tree:
  "fold depth_step (tree_calls t) s =
     s\<lparr>dc_max_depth := max (dc_max_depth s) (dc_current_depth s + tree_depth t)\<rparr>"
proof (induction t arbitrary: s)
  case (FieldNode f ts)
  have "fold depth_step (concat (map tree_calls ts)) s =
      s\<lparr>dc_max_depth := max (dc_max_depth s)
         (if ts = [] then 0 else dc_current_depth s + foldr (\<lambda>t. max (tree_depth t)) ts 0)\<rparr>" for s
    using FieldNode.IH
  proof (induction ts arbitrary: s)
    case (Cons t ts)
    then show ?case by (auto simp: max_def)
  qed simp
  then show ?case by (auto simp: max_def)
qed

lemma fold_depth_trees:
  "fold depth_step (concat (map tree_calls ts)) s =
     s\<lparr>dc_max_depth := max (dc_max_depth s)
        (if ts = [] then 0 else dc_current_depth s + trees_depth ts)\<rparr>"
  by (induction ts arbitrary: s) (auto simp: fold_depth_tree trees_depth_def max_def)

lemma depth_calculate_doc:
  assumes "trace n ModeInline env doc = Inr evs" "vc_fragments env = doc_fragments doc"
  shows "outcome depth_calculate evs depth_init =
    ([], \<lparr>dc_max_depth = trees_depth (doc_trees n (vc_registry env) doc), dc_current_depth = 0\<rparr>)"
  using trace_field_calls_doc [OF assms]
  by (simp add: depth_outcome fold_depth_trees depth_init_def trees_depth_def)

subsection \<open>Complexity of a document\<close>

text \<open>
  Without custom complexities, the complexity is the number of fields (modulo \<open>2^64\<close>). The steps on
  the stack are partial: \<open>None\<close> is a pop of the empty stack.
\<close>

definition no_custom_complexity :: "registry \<Rightarrow> bool" where
  "no_custom_complexity reg \<longleftrightarrow>
     (\<forall>(_, ty)\<in>set (types reg). \<forall>t. ty = MObject t \<longrightarrow>
        (\<forall>(_, f)\<in>set (ob_fields t). mf_compute_complexity f = None))"

fun complexity_step :: "visitor_call \<Rightarrow> 64 word list \<Rightarrow> 64 word list option" where
  "complexity_step (EnterField _) st = Some (0 # st)"
| "complexity_step (ExitField _) (c # t # st) = Some ((t + (1 + c)) # st)"
| "complexity_step (ExitField _) _ = None"
| "complexity_step _ st = Some st"

fun complexity_steps :: "visitor_call list \<Rightarrow> 64 word list \<Rightarrow> 64 word list option" where
  "complexity_steps [] st = Some st"
| "complexity_steps (c # cs) st = Option.bind (complexity_step c st) (complexity_steps cs)"

lemma complexity_steps_append:
  "complexity_steps (cs @ cs') st = Option.bind (complexity_steps cs st) (complexity_steps cs')"
proof (induction cs arbitrary: st)
  case (Cons c cs)
  then show ?case by (cases "complexity_step c st") simp_all
qed simp

lemma complexity_steps_tree:
  "complexity_steps (tree_calls t) (c # st) = Some ((c + of_nat (tree_size t)) # st)"
proof (induction t arbitrary: c st)
  case (FieldNode f ts)
  have "complexity_steps (concat (map tree_calls ts)) (c # st) =
      Some ((c + of_nat (sum_list (map tree_size ts))) # st)" for c st
    using FieldNode.IH
    by (induction ts arbitrary: c) (auto simp: add.assoc complexity_steps_append)
  then show ?case by (simp add: complexity_steps_append)
qed

lemma complexity_steps_trees:
  "complexity_steps (concat (map tree_calls ts)) (c # st) =
     Some ((c + of_nat (sum_list (map tree_size ts))) # st)"
  by (induction ts arbitrary: c) (auto simp: complexity_steps_tree complexity_steps_append add.assoc)

definition plain_env :: "visitor_ctx \<Rightarrow> bool" where
  "plain_env env \<longleftrightarrow> no_custom_complexity (vc_registry env) \<and>
     (\<forall>ty\<in>set (vc_type_stack env). registered (vc_registry env) ty)"

lemma env_closed_plain: "env_closed plain_env"
  by (auto simp: env_closed_def plain_env_def push_type_def)

lemma plain_env_custom:
  assumes "plain_env env"
  shows "custom_complexity env fld = None"
proof (cases "\<exists>t. parent_type env = Some (MObject t)")
  case True
  then obtain t where t: "parent_type env = Some (MObject t)" by blast
  then have "Some (MObject t) \<in> set (vc_type_stack env)"
    by (auto simp: parent_type_def split: list.splits)
  then obtain n where "(n, MObject t) \<in> set (types (vc_registry env))"
    using assms by (fastforce simp: plain_env_def registered_def)
  then have "mf_compute_complexity f = None" if "map_of (ob_fields t) k = Some f" for k f
    using assms map_of_SomeD [OF that] by (fastforce simp: plain_env_def no_custom_complexity_def)
  then show ?thesis using t
    by (simp add: custom_complexity_def split: option.splits bind_splits)
next
  case False
  then show ?thesis by (auto simp: custom_complexity_def split: option.splits meta_type.splits)
qed

fun body_event :: "event \<Rightarrow> bool" where
  "body_event (Call c env) \<longleftrightarrow>
     (\<forall>d. c \<noteq> EnterDocument d \<and> c \<noteq> ExitDocument d) \<and> (is_field_call c \<longrightarrow> plain_env env)"
| "body_event (Report e) \<longleftrightarrow> True"

lemma complexity_outcome:
  assumes "list_all body_event evs" "complexity_steps (field_calls evs) (cx_stack s) = Some st'"
  shows "fst (outcome complexity_calculate evs s) = [] \<and>
    cx_stack (snd (outcome complexity_calculate evs s)) = st'"
  using assms
proof (induction evs arbitrary: s rule: event_calls.induct)
  case (2 c env evs)
  show ?case
  proof (cases "is_field_call c")
    case True
    then show ?thesis
      using 2
      by (cases c)
         (auto simp: emits_def nextst_def complexity_calculate_def exit_field_complexity_def
           add_to_top_def plain_env_custom Let_def bind_eq_Some_conv split: list.splits
           elim!: complexity_step.elims)
  next
    case False
    then have "cx_stack (nextst complexity_calculate c env s) = cx_stack s"
      "emits complexity_calculate c env s = []"
      using 2(2) by (cases c; simp add: emits_def nextst_def complexity_calculate_def)+
    then show ?thesis using 2 False by (simp add: case_prod_beta)
  qed
qed simp_all


lemma complexity_calculate_doc:
  assumes "trace n ModeInline env doc = Inr evs" "vc_fragments env = doc_fragments doc"
    and "plain_env env"
  shows "fst (outcome complexity_calculate evs complexity_init) = [] \<and>
    cx_complexity (snd (outcome complexity_calculate evs complexity_init)) =
      of_nat (sum_list (map tree_size (doc_trees n (vc_registry env) doc)))"
proof -
  obtain mid where evs: "evs = Call (EnterDocument doc) env # mid @ [Call (ExitDocument doc) env]"
    and mid: "list_all (body_ok plain_env) mid"
    using trace_body [OF env_closed_plain assms(3,1)] .
  have body: "list_all body_event mid"
  proof (rule list.pred_mono_strong [OF mid])
    show "body_event e" if "body_ok plain_env e" for e
      using that by (cases "(plain_env, e)" rule: body_ok.cases) auto
  qed
  define s1 where "s1 = complexity_init\<lparr>cx_stack := [0]\<rparr>"
  have "field_calls mid = concat (map tree_calls (doc_trees n (vc_registry env) doc))"
    using trace_field_calls_doc [OF assms(1,2)] by (simp add: evs)
  then have mid_out: "fst (outcome complexity_calculate mid s1) = []"
    "cx_stack (snd (outcome complexity_calculate mid s1)) =
      [of_nat (sum_list (map tree_size (doc_trees n (vc_registry env) doc)))]"
    using complexity_outcome [OF body, of s1]
    by (simp_all add: complexity_steps_trees s1_def)
  have "nextst complexity_calculate (EnterDocument doc) env complexity_init = s1"
    "emits complexity_calculate (EnterDocument doc) env complexity_init = []"
    by (simp_all add: nextst_def emits_def complexity_calculate_def s1_def complexity_init_def)
  moreover have "emits complexity_calculate (ExitDocument doc) env s = []"
    "cx_complexity (nextst complexity_calculate (ExitDocument doc) env s) = w"
    if "cx_stack s = [w]" for s w
    using that by (simp_all add: nextst_def emits_def complexity_calculate_def)
  ultimately show ?thesis
    using mid_out by (simp add: evs outcome_append case_prod_beta)
qed

subsection \<open>Cache policy of a document\<close>

fun event_policies :: "event list \<Rightarrow> cache_control list" where
  "event_policies [] = []"
| "event_policies (Call (EnterSelectionSet ss) env # evs) =
     (case current_type env of Some (MObject t) \<Rightarrow> [ob_cache_control t] | _ \<Rightarrow> []) @ event_policies evs"
| "event_policies (Call (EnterField f) env # evs) =
     (case Option.bind (parent_type env) (\<lambda>p. field_by_name p (node (f_name (node f)))) of
        Some fld \<Rightarrow> [mf_cache_control fld] | None \<Rightarrow> []) @ event_policies evs"
| "event_policies (_ # evs) = event_policies evs"

lemma cache_control_outcome:
  "outcome cache_control_calculate evs s = ([], fold (\<lambda>p c. cc_merge c p) (event_policies evs) s)"
proof (induction evs arbitrary: s)
  case (Cons e evs)
  show ?case
  proof (cases e)
    case (Call c env)
    then show ?thesis
      using Cons
      by (cases c) (auto simp: emits_def nextst_def cache_control_calculate_def
          split: option.splits meta_type.splits)
  qed (use Cons in simp)
qed simp

lemma fold_merge_public: "cc_public (fold (\<lambda>p c. cc_merge c p) ps c) \<longleftrightarrow> cc_public c \<and> (\<forall>p\<in>set ps. cc_public p)"
  by (induction ps arbitrary: c) (auto simp: cc_merge_def)

lemma fold_merge_max_age:
  "cc_max_age (fold (\<lambda>p c. cc_merge c p) ps c) = fold (\<lambda>a m. merge_max_age m a) (map cc_max_age ps) (cc_max_age c)"
  by (induction ps arbitrary: c) (auto simp: cc_merge_def)

text \<open>
  The strictest of a set of ages: \<open>-1\<close> (no caching) wins, \<open>0\<close> (no opinion) loses, otherwise the
  smallest age counts.
\<close>

definition strictest_age :: "int set \<Rightarrow> int" where
  "strictest_age A =
     (if -1 \<in> A then -1 else if A - {0} = {} then 0 else Min (A - {0}))"

lemma strictest_age_merge:
  assumes "finite R"
  shows "strictest_age (insert (merge_max_age m a) R) = strictest_age (insert m (insert a R))"
proof -
  consider "m = -1 \<or> a = -1" | "a = 0" | "m = 0" | "m \<noteq> -1" "a \<noteq> -1" "m \<noteq> 0" "a \<noteq> 0" by blast
  then show ?thesis
  proof cases
    case 4
    then have "insert (min m a) R - {0} = insert (min m a) (R - {0})"
      "insert m (insert a R) - {0} = insert m (insert a (R - {0}))"
      by (auto simp: min_def)
    moreover have "Min (insert (min m a) S) = Min (insert m (insert a S))" if "finite S" for S
      using that by (cases "S = {}") (simp_all add: min.assoc)
    ultimately show ?thesis
      using 4 assms by (auto simp: strictest_age_def merge_max_age_def min_def)
  qed (auto simp: strictest_age_def merge_max_age_def insert_Diff_if)
qed

lemma fold_merge_max_age_strictest:
  "fold (\<lambda>a m. merge_max_age m a) ages m = strictest_age (set (m # ages))"
proof (induction ages arbitrary: m)
  case Nil
  then show ?case by (simp add: strictest_age_def insert_Diff_if)
next
  case (Cons a ages)
  then show ?case by (simp add: strictest_age_merge insert_commute)
qed

lemma cache_control_calculate_doc:
  "outcome cache_control_calculate evs cache_control_default =
     ([], \<lparr>cc_public = (\<forall>p\<in>set (event_policies evs). cc_public p),
           cc_max_age = strictest_age (cc_max_age ` set (event_policies evs))\<rparr>)"
proof -
  have "strictest_age (insert 0 A) = strictest_age A" for A
    by (auto simp: strictest_age_def)
  then show ?thesis
    by (auto simp: cache_control_outcome fold_merge_public fold_merge_max_age cache_control_default_def
        fold_merge_max_age_strictest intro!: cache_control.equality)
qed

end
