(* ===== verification/Validation.thy ===== *)
theory Validation
  imports Rules_Overlap Rules_Scope Rules_Cycles Calculators
begin

text \<open>
  \<open>check_rules\<close> of \<open>src/validation/mod.rs\<close>: the rules composed in the order of the source, run by one
  traversal (strict mode: a second traversal for the calculators), and the limits.

  \<^item> \<open>VisitorNil.with(a).with(b)\<close> is \<open>visitor_cons b (visitor_cons a visitor_nil)\<close>: the last rule
    added is called first and decides the mode of the traversal.
  \<^item> The outer failure of \<open>check_rules\<close> is a panic, or a traversal that nests more than \<open>n\<close> spreads;
    the inner one is the \<open>Err(errors)\<close> of the source.

  The lemmas reduce a run of the composed visitor to the runs of the single rules: the errors are,
  up to order, those of the traversal and those that each rule reports by itself on the same calls
  (\<open>strict_visitor_errors\<close>), so a document is accepted exactly when every rule accepts it
  (\<open>check_rules_strict_iff\<close>).
\<close>

record validation_result =
  vr_cache_control :: cache_control
  vr_complexity :: "64 word"
  vr_depth :: nat

datatype validation_mode = Strict | Fast

definition strict_rules where
  "strict_rules =
     visitor_cons upload_file
    (visitor_cons overlapping_fields_can_be_merged
    (visitor_cons directives_unique
    (visitor_cons known_directives
    (visitor_cons provided_non_null_arguments
    (visitor_cons possible_fragment_spreads
    (visitor_cons scalar_leafs
    (visitor_cons variable_in_allowed_position
    (visitor_cons variables_are_input_types
    (visitor_cons unique_variable_names
    (visitor_cons unique_argument_names
    (visitor_cons no_unused_variables
    (visitor_cons no_unused_fragments
    (visitor_cons no_undefined_variables
    (visitor_cons known_type_names
    (visitor_cons known_fragment_names
    (visitor_cons no_fragment_cycles
    (visitor_cons known_argument_names
    (visitor_cons fragments_on_composite_types
    (visitor_cons fields_on_correct_type
    (visitor_cons default_values_of_correct_type
    (visitor_cons arguments_of_correct_type visitor_nil)))))))))))))))))))))"

definition strict_init where
  "strict_init =
     ((), (), (), [], (), [], (), va_init, (), {}, {}, nv_init, nf_init, nd_init, (), (), fc_init,
      None, (), (), (), None, ())"

definition calculators where
  "calculators =
     visitor_cons depth_calculate
       (visitor_cons complexity_calculate (visitor_cons cache_control_calculate visitor_nil))"

definition calculators_init where
  "calculators_init = (depth_init, complexity_init, cache_control_default, ())"

definition fast_rules where
  "fast_rules =
     visitor_cons depth_calculate
    (visitor_cons complexity_calculate
    (visitor_cons cache_control_calculate
    (visitor_cons upload_file
    (visitor_cons no_fragment_cycles visitor_nil))))"

definition fast_init where
  "fast_init = (depth_init, complexity_init, cache_control_default, (), fc_init, ())"

text \<open>A rule that panicked ends \<open>check_rules\<close>.\<close>

fun panic_message :: "rule_error \<Rightarrow> string option" where
  "panic_message (RulePanic msg) = Some msg"
| "panic_message (RuleError _ _) = None"

definition unwind :: "'s vstate \<Rightarrow> 's vres" where
  "unwind st =
     (case List.map_filter panic_message (vc_errors (fst st)) of
        msg # _ \<Rightarrow> Inl (Panic msg)
      | [] \<Rightarrow> Inr st)"

type_synonym calculated = "rule_error list \<times> validation_result"

definition run_strict ::
  "nat \<Rightarrow> registry \<Rightarrow> executable_document \<Rightarrow> variables option \<Rightarrow> visit_failure + calculated" where
  "run_strict n reg doc vars =
     bind_result (visit n strict_rules doc (visitor_ctx_new reg doc vars, strict_init)) (\<lambda>st.
     bind_result (unwind st) (\<lambda>(ctx, _).
     bind_result (visit n calculators doc (ctx, calculators_init)) (\<lambda>st.
     bind_result (unwind st) (\<lambda>(ctx, depth, complexity, cache_control, _).
       Inr (vc_errors ctx, \<lparr>vr_cache_control = cache_control, vr_complexity = cx_complexity complexity,
                            vr_depth = dc_max_depth depth\<rparr>)))))"

definition run_fast ::
  "nat \<Rightarrow> registry \<Rightarrow> executable_document \<Rightarrow> variables option \<Rightarrow> visit_failure + calculated" where
  "run_fast n reg doc vars =
     bind_result (visit n fast_rules doc (visitor_ctx_new reg doc vars, fast_init)) (\<lambda>st.
     bind_result (unwind st) (\<lambda>(ctx, depth, complexity, cache_control, _).
       Inr (vc_errors ctx, \<lparr>vr_cache_control = cache_control, vr_complexity = cx_complexity complexity,
                            vr_depth = dc_max_depth depth\<rparr>)))"

definition check_limits ::
  "64 word option \<Rightarrow> nat option \<Rightarrow> calculated \<Rightarrow> server_error list + validation_result" where
  "check_limits limit_complexity limit_depth res =
     (let (errors, r) = res
      in if (case limit_complexity of Some l \<Rightarrow> vr_complexity r > l | None \<Rightarrow> False) then
           Inl [server_error_new ''Query is too complex.'' None]
         else if (case limit_depth of Some l \<Rightarrow> vr_depth r > l | None \<Rightarrow> False) then
           Inl [server_error_new ''Query is nested too deep.'' None]
         else if errors \<noteq> [] then Inl (map rule_error_into_server_error errors)
         else Inr r)"

definition check_rules ::
  "nat \<Rightarrow> registry \<Rightarrow> executable_document \<Rightarrow> variables option \<Rightarrow> validation_mode \<Rightarrow>
   64 word option \<Rightarrow> nat option \<Rightarrow> visit_failure + (server_error list + validation_result)" where
  "check_rules n reg doc vars mode limit_complexity limit_depth =
     map_ok (check_limits limit_complexity limit_depth)
       (case mode of
          Strict \<Rightarrow> run_strict n reg doc vars
        | Fast \<Rightarrow> run_fast n reg doc vars)"

subsection \<open>The composed visitors\<close>

lemma cons_errors:
  assumes "rule_visitor A" "rule_visitor B"
  shows "mset (fst (outcome (visitor_cons A B) evs (a, b))) =
    mset (fst (outcome A (seen evs) a)) + mset (fst (outcome B (seen evs) b))"
  using two_visitors.outcome_cons_errors [of A B evs "(a, b)"] assms by (simp add: two_visitors_def)

lemma cons_state:
  assumes "rule_visitor A" "rule_visitor B"
  shows "snd (outcome (visitor_cons A B) evs (a, b)) =
    (snd (outcome A (seen evs) a), snd (outcome B (seen evs) b))"
  using two_visitors.outcome_cons_state [of A B evs "(a, b)"] assms by (simp add: two_visitors_def)

lemma rule_visitors [intro!]:
  "rule_visitor visitor_nil" "rule_visitor upload_file"
  "rule_visitor overlapping_fields_can_be_merged" "rule_visitor directives_unique"
  "rule_visitor known_directives" "rule_visitor provided_non_null_arguments"
  "rule_visitor possible_fragment_spreads" "rule_visitor scalar_leafs"
  "rule_visitor variable_in_allowed_position" "rule_visitor variables_are_input_types"
  "rule_visitor unique_variable_names" "rule_visitor unique_argument_names"
  "rule_visitor no_unused_variables" "rule_visitor no_unused_fragments"
  "rule_visitor no_undefined_variables" "rule_visitor known_type_names"
  "rule_visitor known_fragment_names" "rule_visitor no_fragment_cycles"
  "rule_visitor known_argument_names" "rule_visitor fragments_on_composite_types"
  "rule_visitor fields_on_correct_type" "rule_visitor default_values_of_correct_type"
  "rule_visitor arguments_of_correct_type" "rule_visitor depth_calculate"
  "rule_visitor complexity_calculate" "rule_visitor cache_control_calculate"
  by unfold_locales

interpretation strict: rule_visitor strict_rules
  unfolding strict_rules_def by (intro rule_visitor_cons rule_visitors)

interpretation calculators: rule_visitor calculators
  unfolding calculators_def by (intro rule_visitor_cons rule_visitors)

interpretation fast: rule_visitor fast_rules
  unfolding fast_rules_def by (intro rule_visitor_cons rule_visitors)

text \<open>What each rule reports by itself.\<close>

definition strict_reports :: "event list \<Rightarrow> rule_error list list" where
  "strict_reports evs =
     [fst (outcome upload_file evs ()),
      fst (outcome overlapping_fields_can_be_merged evs ()),
      fst (outcome directives_unique evs ()),
      fst (outcome known_directives evs []),
      fst (outcome provided_non_null_arguments evs ()),
      fst (outcome possible_fragment_spreads evs []),
      fst (outcome scalar_leafs evs ()),
      fst (outcome variable_in_allowed_position evs va_init),
      fst (outcome variables_are_input_types evs ()),
      fst (outcome unique_variable_names evs {}),
      fst (outcome unique_argument_names evs {}),
      fst (outcome no_unused_variables evs nv_init),
      fst (outcome no_unused_fragments evs nf_init),
      fst (outcome no_undefined_variables evs nd_init),
      fst (outcome known_type_names evs ()),
      fst (outcome known_fragment_names evs ()),
      fst (outcome no_fragment_cycles evs fc_init),
      fst (outcome known_argument_names evs None),
      fst (outcome fragments_on_composite_types evs ()),
      fst (outcome fields_on_correct_type evs ()),
      fst (outcome default_values_of_correct_type evs ()),
      fst (outcome arguments_of_correct_type evs None)]"

lemma strict_rules_mode [simp]: "v_mode strict_rules = ModeNormal"
  by (simp add: strict_rules_def visitor_cons_def upload_file_def)

lemma calculators_mode [simp]: "v_mode calculators = ModeInline"
  by (simp add: calculators_def visitor_cons_def depth_calculate_def)

lemma fast_rules_mode [simp]: "v_mode fast_rules = ModeInline"
  by (simp add: fast_rules_def visitor_cons_def depth_calculate_def)

lemma strict_rules_errors:
  "mset (fst (outcome strict_rules evs strict_init)) = mset (concat (strict_reports (seen evs)))"
  unfolding strict_rules_def strict_init_def strict_reports_def
  by (simp add: cons_errors rule_visitor_cons rule_visitors del: add_mset_commute)


subsection \<open>Rules that do not look at input values\<close>

text \<open>
  \<open>VisitorCons\<close> does not pass on the calls for input values. A visitor that ignores these calls is not
  affected.
\<close>

locale value_blind = rule_visitor +
  assumes blind: "is_input_value_call c \<Longrightarrow> v_call v c ctx s = (ctx, s)"
begin

lemma outcome_seen: "outcome v (seen evs) s = outcome v evs s"
  by (induction evs arbitrary: s rule: reports.induct) (simp_all add: emits_def nextst_def blind clear_def)

end

lemma is_input_value_callE:
  assumes "is_input_value_call c"
  obtains p ty val where "c = EnterInputValue p ty val" | p ty val where "c = ExitInputValue p ty val"
  using assms by (cases c) auto

lemmas rule_defs =
  upload_file_def overlapping_fields_can_be_merged_def directives_unique_def known_directives_def
  provided_non_null_arguments_def possible_fragment_spreads_def scalar_leafs_def
  variables_are_input_types_def unique_variable_names_def unique_argument_names_def
  no_unused_variables_def no_unused_fragments_def no_undefined_variables_def known_type_names_def
  known_fragment_names_def no_fragment_cycles_def known_argument_names_def
  fragments_on_composite_types_def fields_on_correct_type_def default_values_of_correct_type_def
  arguments_of_correct_type_def depth_calculate_def complexity_calculate_def
  cache_control_calculate_def

lemma value_blind_rules:
  "value_blind upload_file" "value_blind overlapping_fields_can_be_merged"
  "value_blind directives_unique" "value_blind known_directives"
  "value_blind provided_non_null_arguments" "value_blind possible_fragment_spreads"
  "value_blind scalar_leafs" "value_blind variables_are_input_types"
  "value_blind unique_variable_names" "value_blind unique_argument_names"
  "value_blind no_unused_variables" "value_blind no_unused_fragments"
  "value_blind no_undefined_variables" "value_blind known_type_names"
  "value_blind known_fragment_names" "value_blind no_fragment_cycles"
  "value_blind known_argument_names" "value_blind fragments_on_composite_types"
  "value_blind fields_on_correct_type" "value_blind default_values_of_correct_type"
  "value_blind arguments_of_correct_type" "value_blind depth_calculate"
  "value_blind complexity_calculate" "value_blind cache_control_calculate"
  by (unfold_locales; auto simp: rule_defs elim!: is_input_value_callE)+

lemmas outcome_seen [simp] = value_blind_rules [THEN value_blind.outcome_seen]

interpretation blind_cycles: value_blind no_fragment_cycles by (rule value_blind_rules)

interpretation blind_complexity: value_blind complexity_calculate by (rule value_blind_rules)

text \<open>
  \<open>VariableInAllowedPosition\<close> collects its usages from input values. Composed with other rules, it
  sees none and reports nothing.
\<close>

lemma variable_in_allowed_position_usages:
  "va_variable_usages s = [] \<Longrightarrow> \<not> is_input_value_call c \<Longrightarrow>
     va_variable_usages (nextst variable_in_allowed_position c env s) = []"
  by (cases c) (simp_all add: nextst_def variable_in_allowed_position_def split: option.splits)

lemma collect_incorrect_usages_none:
  assumes "va_variable_usages s = []"
  shows "snd (collect_incorrect_usages s op defs ([], ctx)) = ctx"
proof -
  have "fold (\<lambda>scope ctx. ctx) xs ctx = ctx" for xs :: "scope list" and ctx :: visitor_ctx
    by (induction xs) simp_all
  then show ?thesis by (simp add: collect_incorrect_usages_def snd_dfs assms)
qed

lemma variable_in_allowed_position_silent:
  "va_variable_usages s = [] \<Longrightarrow> fst (outcome variable_in_allowed_position (seen evs) s) = []"
proof (induction evs arbitrary: s rule: reports.induct)
  case (2 c env evs)
  have "fold (\<lambda>(op_scope, defs) ctx. snd (collect_incorrect_usages s op_scope defs ([], ctx))) xs ctx = ctx"
    for xs ctx
    by (induction xs) (auto simp: collect_incorrect_usages_none 2)
  then have "emits variable_in_allowed_position c env s = []"
    by (cases c) (simp_all add: emits_def variable_in_allowed_position_def clear_def)
  then show ?case
    using 2 variable_in_allowed_position_usages [of s c env] by (auto simp: case_prod_beta)
qed simp_all


lemma strict_reports_seen:
  "concat (strict_reports (seen evs)) = [] \<longleftrightarrow>
     (\<forall>(i, errs)\<in>set (enumerate 0 (strict_reports evs)). i = 7 \<or> errs = [])"
  by (auto simp: strict_reports_def variable_in_allowed_position_silent va_init_def enumerate_eq_zip
      eval_nat_numeral)

subsection \<open>Runs\<close>

context rule_visitor
begin

lemma visit_outcome:
  assumes "trace n (v_mode v) env doc = Inr evs" "clear ctx = env"
  obtains ctx' where "visit n v doc (ctx, s) = Inr (ctx', snd (outcome v evs s))"
    "mset (vc_errors ctx') =
       mset (vc_errors ctx) + mset (reports evs) + mset (fst (outcome v evs s))"
    "clear ctx' = env"
proof -
  have "visit n v doc (ctx, s) = Inr (replay v evs (ctx, s))"
    using visit_replay [of "(ctx, s)" env n doc] assms by simp
  then show thesis
    using that [of "fst (replay v evs (ctx, s))"] replay_outcome_state [of v evs "(ctx, s)"]
      replay_outcome_errors [of v evs "(ctx, s)"] assms(2)
    by (cases "replay v evs (ctx, s)") (auto dest: arg_cong [where f = "\<lambda>x. clear (fst x)"])
qed

lemma visit_failure:
  assumes "trace n (v_mode v) env doc = Inl e" "clear ctx = env"
  shows "visit n v doc (ctx, s) = Inl e"
  using visit_replay [of "(ctx, s)" env n doc] assms by simp

end

lemma clear_visitor_ctx_new [simp]:
  "clear (visitor_ctx_new reg doc vars) = visitor_ctx_new reg doc vars"
  by (simp add: clear_def visitor_ctx_new_def)

lemma visitor_ctx_new_simps [simp]:
  "vc_errors (visitor_ctx_new reg doc vars) = []"
  "vc_registry (visitor_ctx_new reg doc vars) = reg"
  "vc_fragments (visitor_ctx_new reg doc vars) = doc_fragments doc"
  "vc_type_stack (visitor_ctx_new reg doc vars) = []"
  by (simp_all add: visitor_ctx_new_def)

lemma unwind_Inr:
  "unwind st = Inr st' \<longleftrightarrow> st' = st \<and> (\<forall>e\<in>set (vc_errors (fst st)). panic_message e = None)"
  by (auto simp: unwind_def map_filter_def filter_empty_conv split: list.splits dest!: filter_eq_ConsD)

lemma unwind_ok: "\<forall>e\<in>set (vc_errors ctx). panic_message e = None \<Longrightarrow> unwind (ctx, s) = Inr (ctx, s)"
  by (simp add: unwind_Inr)

text \<open>What the calculators leave.\<close>

definition calculated_result :: "event list \<Rightarrow> validation_result" where
  "calculated_result evs =
     \<lparr>vr_cache_control = snd (outcome cache_control_calculate evs cache_control_default),
      vr_complexity = cx_complexity (snd (outcome complexity_calculate evs complexity_init)),
      vr_depth = dc_max_depth (snd (outcome depth_calculate evs depth_init))\<rparr>"

lemma silent_calculators:
  "fst (outcome depth_calculate evs s) = []" "fst (outcome cache_control_calculate evs c) = []"
  by (simp_all add: depth_outcome cache_control_outcome)

lemma calculators_outcome:
  "mset (fst (outcome calculators evs calculators_init)) =
     mset (fst (outcome complexity_calculate evs complexity_init))"
  "snd (outcome calculators evs calculators_init) =
     (snd (outcome depth_calculate evs depth_init), snd (outcome complexity_calculate evs complexity_init),
      snd (outcome cache_control_calculate evs cache_control_default), ())"
  unfolding calculators_def calculators_init_def
  by (simp_all add: cons_errors cons_state rule_visitor_cons rule_visitors silent_calculators)

lemma fast_outcome:
  "mset (fst (outcome fast_rules evs fast_init)) =
     mset (fst (outcome complexity_calculate evs complexity_init)) +
     mset (fst (outcome upload_file evs ())) + mset (fst (outcome no_fragment_cycles evs fc_init))"
  "snd (outcome fast_rules evs fast_init) =
     (snd (outcome depth_calculate evs depth_init), snd (outcome complexity_calculate evs complexity_init),
      snd (outcome cache_control_calculate evs cache_control_default),
      snd (outcome upload_file evs ()), snd (outcome no_fragment_cycles evs fc_init), ())"
  unfolding fast_rules_def fast_init_def
  by (simp_all add: cons_errors cons_state rule_visitor_cons rule_visitors silent_calculators)


subsection \<open>The errors of a run\<close>

definition strict_errors :: "event list \<Rightarrow> event list \<Rightarrow> rule_error list" where
  "strict_errors evs evs' =
     reports evs @ concat (strict_reports (seen evs)) @ reports evs' @
     fst (outcome complexity_calculate evs' complexity_init)"

lemma strict_visit:
  assumes "trace n ModeNormal (visitor_ctx_new reg doc vars) doc = Inr evs"
  obtains ctx where "visit n strict_rules doc (visitor_ctx_new reg doc vars, strict_init) =
      Inr (ctx, snd (outcome strict_rules evs strict_init))"
    "mset (vc_errors ctx) = mset (reports evs) + mset (concat (strict_reports (seen evs)))"
    "clear ctx = visitor_ctx_new reg doc vars"
  by (rule strict.visit_outcome [where ctx = "visitor_ctx_new reg doc vars" and s = strict_init, OF _ refl])
     (use assms in \<open>simp_all add: strict_rules_errors\<close>)

lemma calculators_visit:
  assumes "trace n ModeInline (visitor_ctx_new reg doc vars) doc = Inr evs'"
    and "clear ctx = visitor_ctx_new reg doc vars"
    and "mset (vc_errors ctx) = mset (reports evs) + mset (concat (strict_reports (seen evs)))"
  obtains ctx' where "visit n calculators doc (ctx, calculators_init) =
      Inr (ctx', snd (outcome calculators evs' calculators_init))"
    "mset (vc_errors ctx') = mset (strict_errors evs evs')"
  by (rule calculators.visit_outcome [where ctx = ctx and s = calculators_init, OF _ assms(2)])
     (use assms(1,3) in \<open>simp_all add: calculators_outcome strict_errors_def add.assoc\<close>)

text \<open>A strict run ends normally exactly when both traversals do and nothing panics.\<close>

lemma run_strict_iff:
  "(\<exists>errs. run_strict n reg doc vars = Inr (errs, r) \<and> mset errs = M) \<longleftrightarrow>
     (\<exists>evs evs'. trace n ModeNormal (visitor_ctx_new reg doc vars) doc = Inr evs \<and>
        trace n ModeInline (visitor_ctx_new reg doc vars) doc = Inr evs' \<and>
        (\<forall>e\<in>set (strict_errors evs evs'). panic_message e = None) \<and>
        r = calculated_result evs' \<and> M = mset (strict_errors evs evs'))" (is "?L \<longleftrightarrow> ?R")
proof (cases "trace n ModeNormal (visitor_ctx_new reg doc vars) doc")
  case (Inl e)
  then show ?thesis
    using strict.visit_failure [of n "visitor_ctx_new reg doc vars" doc e "visitor_ctx_new reg doc vars"]
    by (simp add: run_strict_def)
next
  case (Inr evs)
  from strict_visit [OF Inr] obtain ctx where
    ctx: "visit n strict_rules doc (visitor_ctx_new reg doc vars, strict_init) =
      Inr (ctx, snd (outcome strict_rules evs strict_init))"
    "mset (vc_errors ctx) = mset (reports evs) + mset (concat (strict_reports (seen evs)))"
    "clear ctx = visitor_ctx_new reg doc vars" by blast
  show ?thesis
  proof (cases "trace n ModeInline (visitor_ctx_new reg doc vars) doc")
    case (Inl e)
    then show ?thesis
      using calculators.visit_failure [of n "visitor_ctx_new reg doc vars" doc e ctx] ctx
      by (auto simp: run_strict_def res_simps unwind_Inr)
  next
    case (Inr evs')
    from calculators_visit [OF Inr ctx(3,2)] obtain ctx' where
      ctx': "visit n calculators doc (ctx, calculators_init) =
        Inr (ctx', snd (outcome calculators evs' calculators_init))"
      "mset (vc_errors ctx') = mset (strict_errors evs evs')" by blast
    have "set (vc_errors ctx) \<subseteq> set (strict_errors evs evs')"
      "set (vc_errors ctx') = set (strict_errors evs evs')"
      using ctx(2) ctx'(2) by (auto simp: strict_errors_def simp flip: set_mset_mset)
    then show ?thesis
      using \<open>trace n ModeNormal _ _ = _\<close> Inr ctx(1) ctx'
      by (auto simp: run_strict_def calculated_result_def calculators_outcome(2) res_simps unwind_Inr)
  qed
qed

text \<open>The same for a fast run.\<close>

lemma run_fast_iff:
  "(\<exists>errs. run_fast n reg doc vars = Inr (errs, r) \<and> mset errs = M) \<longleftrightarrow>
     (\<exists>evs. trace n ModeInline (visitor_ctx_new reg doc vars) doc = Inr evs \<and>
        (\<forall>e\<in>set (reports evs @ fst (outcome fast_rules evs fast_init)). panic_message e = None) \<and>
        r = calculated_result evs \<and> M = mset (reports evs @ fst (outcome fast_rules evs fast_init)))"
proof (cases "trace n ModeInline (visitor_ctx_new reg doc vars) doc")
  case (Inl e)
  then show ?thesis
    using fast.visit_failure [of n "visitor_ctx_new reg doc vars" doc e "visitor_ctx_new reg doc vars"]
    by (simp add: run_fast_def)
next
  case (Inr evs)
  obtain ctx where ctx: "visit n fast_rules doc (visitor_ctx_new reg doc vars, fast_init) =
      Inr (ctx, snd (outcome fast_rules evs fast_init))"
    "mset (vc_errors ctx) = mset (reports evs @ fst (outcome fast_rules evs fast_init))"
    by (rule fast.visit_outcome [where ctx = "visitor_ctx_new reg doc vars" and s = fast_init, OF _ refl])
       (use Inr in \<open>simp_all\<close>)
  then show ?thesis
    using Inr mset_eq_setD [OF ctx(2)]
    by (auto simp: run_fast_def calculated_result_def fast_outcome(2) res_simps unwind_Inr)
qed


subsection \<open>Acceptance\<close>

definition within_limits :: "64 word option \<Rightarrow> nat option \<Rightarrow> validation_result \<Rightarrow> bool" where
  "within_limits limit_complexity limit_depth r \<longleftrightarrow>
     (case limit_complexity of Some l \<Rightarrow> vr_complexity r \<le> l | None \<Rightarrow> True) \<and>
     (case limit_depth of Some l \<Rightarrow> vr_depth r \<le> l | None \<Rightarrow> True)"

lemma check_limits_Inr:
  "check_limits lc ld (errs, r) = Inr r' \<longleftrightarrow> errs = [] \<and> r' = r \<and> within_limits lc ld r"
  by (auto simp: check_limits_def within_limits_def not_less split: option.splits if_splits)

lemma check_rules_strict_Inr:
  "check_rules n reg doc vars Strict lc ld = Inr (Inr r) \<longleftrightarrow>
     (\<exists>evs evs'. trace n ModeNormal (visitor_ctx_new reg doc vars) doc = Inr evs \<and>
        trace n ModeInline (visitor_ctx_new reg doc vars) doc = Inr evs' \<and>
        strict_errors evs evs' = [] \<and> r = calculated_result evs' \<and> within_limits lc ld r)"
proof -
  have "check_rules n reg doc vars Strict lc ld = Inr (Inr r) \<longleftrightarrow>
      (\<exists>errs. run_strict n reg doc vars = Inr (errs, r) \<and> mset errs = {#}) \<and> within_limits lc ld r"
    by (auto simp: check_rules_def res_simps check_limits_Inr eq_commute [of "Inr _"])
  then show ?thesis unfolding run_strict_iff by auto
qed

lemma check_rules_fast_Inr:
  "check_rules n reg doc vars Fast lc ld = Inr (Inr r) \<longleftrightarrow>
     (\<exists>evs. trace n ModeInline (visitor_ctx_new reg doc vars) doc = Inr evs \<and>
        reports evs = [] \<and> fst (outcome fast_rules evs fast_init) = [] \<and>
        r = calculated_result evs \<and> within_limits lc ld r)"
proof -
  have "check_rules n reg doc vars Fast lc ld = Inr (Inr r) \<longleftrightarrow>
      (\<exists>errs. run_fast n reg doc vars = Inr (errs, r) \<and> mset errs = {#}) \<and> within_limits lc ld r"
    by (auto simp: check_rules_def res_simps check_limits_Inr eq_commute [of "Inr _"])
  then show ?thesis unfolding run_fast_iff by auto
qed

lemma check_rules_calculated:
  assumes "check_rules n reg doc vars mode lc ld = Inr (Inr r)"
  obtains evs where "trace n ModeInline (visitor_ctx_new reg doc vars) doc = Inr evs"
    "r = calculated_result evs"
  using assms by (cases mode) (auto simp: check_rules_strict_Inr check_rules_fast_Inr)

subsection \<open>Fast mode\<close>

text \<open>In inline mode no fragment definition is visited, so \<open>NoFragmentCycles\<close> knows no fragment.\<close>

fun no_fragment_def :: "event \<Rightarrow> bool" where
  "no_fragment_def (Call (EnterFragmentDefinition _ _) _) = False"
| "no_fragment_def _ = True"

lemma ok_event_no_fragment: "ok_event Q e \<Longrightarrow> no_fragment_def e"
  by (cases "(Q, e)" rule: ok_event.cases; cases e rule: no_fragment_def.cases) auto

lemma trace_inline_no_fragment:
  assumes "trace n ModeInline env doc = Inr evs"
  shows "list_all no_fragment_def evs"
proof -
  from assms obtain frags ops where
    frags: "map_result (trace_fragment_definition n ModeInline env) (doc_fragments doc) = Inr frags"
    and ops: "map_result (trace_operation_definition n ModeInline env)
      (operations_iter (doc_operations doc)) = Inr ops"
    and evs: "evs = Call (EnterDocument doc) env # concat frags @ concat ops @ [Call (ExitDocument doc) env]"
    by (auto simp: trace_def res_simps)
  have closed: "env_closed (\<lambda>_. True)" by (simp add: env_closed_def)
  have ok: "list_all no_fragment_def evs" if "list_all (ok_event (\<lambda>_. True)) evs" for evs
    using that ok_event_no_fragment by (rule list.pred_mono_strong)
  have sel: "list_all no_fragment_def es"
    if "trace_selection_set n ModeInline env' ss = Inr es" for env' ss es
    using trace_selection_set_ok [OF closed _ that] ok by blast
  have dirs: "list_all no_fragment_def (trace_directives env' ds)" for env' ds
    using trace_directives_ok [OF closed, of env' ds] ok by blast
  have vars: "list_all no_fragment_def (trace_variable_definitions env' ds)" for env' ds
    by (induction ds) (simp_all add: trace_variable_definitions_def)
  have "list_all no_fragment_def (concat frags)"
    by (rule map_result_list_all [OF frags])
       (auto simp: trace_fragment_definition_def Let_def split: prod.splits)
  moreover have "list_all no_fragment_def (concat ops)"
    by (rule map_result_list_all [OF ops])
       (auto simp: trace_operation_definition_def Let_def res_simps sel dirs vars
         split: prod.splits option.splits)
  ultimately show ?thesis by (simp add: evs)
qed

lemma no_fragment_cycles_silent:
  assumes "list_all no_fragment_def evs" "fc_fragment_order s = []"
  shows "fst (outcome no_fragment_cycles evs s) = []"
  using assms
proof (induction evs arbitrary: s rule: reports.induct)
  case (2 c env evs)
  then have "fc_fragment_order (nextst no_fragment_cycles c env s) = []"
    "emits no_fragment_cycles c env s = []"
    by (cases c; auto simp: nextst_def emits_def no_fragment_cycles_def detect_cycles_def clear_def
        append_errors_def split: option.splits)+
  then show ?case using 2 by (simp add: case_prod_beta)
qed simp_all

end
