(* ===== verification/Request_Prep.thy ===== *)
theory Request_Prep
  imports Validation
begin

text \<open>
  How a request becomes a validated operation: \<open>prepare_request\<close> of \<open>src/schema.rs\<close> and the checks it
  makes of its document.

  \<^item> \<open>check_recursive_depth\<close> recurses with a growing depth that it compares with its limit, so it
    ends on every document, a cyclic one too.
  \<^item> \<open>check_max_directives\<close> and the traversals of \<open>check_rules\<close> follow fragment spreads without a limit
    of their own: they take a bound \<open>n\<close> on the nesting of spreads, and exceeding it is the failure
    \<open>StackOverflow\<close>. The lemmas show that a document that passed \<open>check_recursive_depth\<close> with limit
    \<open>max_depth\<close> never exceeds \<open>max_depth\<close> nested spreads.
  \<^item> The parser and the hooks of the extensions are arguments of \<open>prepare_request\<close>: \<open>parse_query\<close>, and
    for each hook the function that maps the result of the wrapped step to the result of the hook.
\<close>

datatype request_failure =
    Rejected "server_error list"
  | StackOverflow
  | Panicked string

primrec for_each :: "('a \<Rightarrow> 'e + unit) \<Rightarrow> 'a list \<Rightarrow> 'e + unit" where
  "for_each f [] = Inr ()"
| "for_each f (x # xs) = bind_result (f x) (\<lambda>_. for_each f xs)"

lemma for_each_cong [fundef_cong]:
  "xs = ys \<Longrightarrow> (\<And>x. x \<in> set ys \<Longrightarrow> f x = g x) \<Longrightarrow> for_each f xs = for_each g ys"
  by (induction ys arbitrary: xs) simp_all

lemma for_each_Inr [res_simps]: "for_each f xs = Inr u \<longleftrightarrow> (\<forall>x\<in>set xs. f x = Inr ())"
  by (induction xs) (auto simp: res_simps)

lemma for_each_Inl: "for_each f xs = Inl e \<Longrightarrow> \<exists>x\<in>set xs. f x = Inl e"
  by (induction xs) (auto simp: res_simps)

subsection \<open>Limits on the document\<close>

function recursive_depth_selection_set ::
  "executable_document \<Rightarrow> selection_set positioned \<Rightarrow> nat \<Rightarrow> nat \<Rightarrow> server_error + unit" where
  "recursive_depth_selection_set doc selection_set current_depth max_depth =
     (if current_depth > max_depth then
        Inl (server_error_new
          (''The recursion depth of the query cannot be greater than `'' @ show_nat max_depth @ ''`'')
          (Some (pos selection_set)))
      else
        for_each (\<lambda>selection. case node selection of
            Field field \<Rightarrow>
              (if ss_items (node (f_selection_set (node field))) \<noteq> [] then
                 recursive_depth_selection_set doc (f_selection_set (node field))
                   (current_depth + 1) max_depth
               else Inr ())
          | FragmentSpread fragment_spread \<Rightarrow>
              (case im_get (doc_fragments doc) (node (fs_fragment_name (node fragment_spread))) of
                 Some fragment \<Rightarrow>
                   recursive_depth_selection_set doc (fd_selection_set (node fragment))
                     (current_depth + 1) max_depth
               | None \<Rightarrow> Inr ())
          | InlineFragment inline_fragment \<Rightarrow>
              recursive_depth_selection_set doc (if_selection_set (node inline_fragment))
                (current_depth + 1) max_depth)
          (ss_items (node selection_set)))"
  by pat_completeness auto
termination
  by (relation "measure (\<lambda>(_, _, current_depth, max_depth). Suc max_depth - current_depth)") auto

declare recursive_depth_selection_set.simps [simp del]

definition check_recursive_depth :: "executable_document \<Rightarrow> nat \<Rightarrow> server_error + unit" where
  "check_recursive_depth doc max_depth =
     for_each (\<lambda>(_, operation).
       recursive_depth_selection_set doc (od_selection_set (node operation)) 0 max_depth)
       (operations_iter (doc_operations doc))"

definition too_many_directives :: "field positioned \<Rightarrow> nat \<Rightarrow> server_error" where
  "too_many_directives field limit_directives =
     server_error_new
       (''The number of directives on the field `'' @ node (f_name (node field)) @
        ''` cannot be greater than `'' @ show_nat limit_directives @ ''`'')
       (Some (pos field))"

function max_directives_selection_set ::
  "nat \<Rightarrow> executable_document \<Rightarrow> selection_set \<Rightarrow> nat \<Rightarrow> request_failure + unit" where
  "max_directives_selection_set n doc selection_set limit_directives =
     for_each (\<lambda>selection. case node selection of
         Field field \<Rightarrow>
           (if length (f_directives (node field)) > limit_directives then
              Inl (Rejected [too_many_directives field limit_directives])
            else
              max_directives_selection_set n doc (node (f_selection_set (node field))) limit_directives)
       | FragmentSpread fragment_spread \<Rightarrow>
           (case im_get (doc_fragments doc) (node (fs_fragment_name (node fragment_spread))) of
              Some fragment \<Rightarrow>
                (case n of
                   0 \<Rightarrow> Inl StackOverflow
                 | Suc n \<Rightarrow>
                     max_directives_selection_set n doc (node (fd_selection_set (node fragment)))
                       limit_directives)
            | None \<Rightarrow> Inr ())
       | InlineFragment inline_fragment \<Rightarrow>
           max_directives_selection_set n doc (node (if_selection_set (node inline_fragment)))
             limit_directives)
       (ss_items selection_set)"
  by pat_completeness auto
termination
  by (relation "measures [fst, \<lambda>(_, _, ss, _). size ss]") (auto simp: termination_simp)

declare max_directives_selection_set.simps [simp del]

definition check_max_directives ::
  "nat \<Rightarrow> executable_document \<Rightarrow> nat \<Rightarrow> request_failure + unit" where
  "check_max_directives n doc max_directives =
     for_each (\<lambda>(_, operation).
       max_directives_selection_set n doc (node (od_selection_set (node operation))) max_directives)
       (operations_iter (doc_operations doc))"

subsection \<open>Skipped selections\<close>

text \<open>\<open>InputType::parse(Some(value)).unwrap_or_default()\<close> at type \<open>bool\<close>.\<close>

fun bool_or_default :: "const_value \<Rightarrow> bool" where
  "bool_or_default (CBoolean b) = b"
| "bool_or_default _ = False"

definition condition_value :: "variables \<Rightarrow> gvalue \<Rightarrow> bool" where
  "condition_value vars condition_input =
     (case into_const_with condition_input (\<lambda>n.
             case im_get vars n of Some v \<Rightarrow> Inr v | None \<Rightarrow> Inl ()) of
        Inr value \<Rightarrow> bool_or_default value
      | Inl _ \<Rightarrow> bool_or_default CNull)"

fun is_skipped :: "directive positioned list \<Rightarrow> variables \<Rightarrow> bool" where
  "is_skipped [] vars = False"
| "is_skipped (directive # rest) vars =
     (let dname = node (d_name (node directive))
      in if dname = ''skip'' \<or> dname = ''include'' then
           (case get_argument (d_arguments (node directive)) ''if'' of
              Some condition_input \<Rightarrow>
                (if (dname = ''include'') \<noteq> condition_value vars (node condition_input) then True
                 else is_skipped rest vars)
            | None \<Rightarrow> is_skipped rest vars)
         else is_skipped rest vars)"

definition is_conditional :: "directive positioned \<Rightarrow> bool" where
  "is_conditional directive \<longleftrightarrow>
     node (d_name (node directive)) = ''skip'' \<or> node (d_name (node directive)) = ''include''"

abbreviation retain_directives :: "directive positioned list \<Rightarrow> directive positioned list" where
  "retain_directives \<equiv> filter (\<lambda>d. \<not> is_conditional d)"

lemma in_set_positioned [simp]: "z \<in> set_positioned x \<longleftrightarrow> z = node x"
  by (cases x) auto

function (sequential)
  remove_skipped_selection :: "variables \<Rightarrow> selection_set \<Rightarrow> selection_set" and
  remove_skipped_in :: "variables \<Rightarrow> selection \<Rightarrow> selection" where
  "remove_skipped_selection vars ss =
     SelectionSet
       (map (\<lambda>sel. map_positioned (remove_skipped_in vars) sel)
         (filter (\<lambda>sel. \<not> is_skipped (selection_directives (node sel)) vars) (ss_items ss)))"
| "remove_skipped_in vars (Field field) =
     Field (map_positioned (\<lambda>f. MkField (f_alias f) (f_name f) (f_arguments f)
        (retain_directives (f_directives f))
        (map_positioned (remove_skipped_selection vars) (f_selection_set f))) field)"
| "remove_skipped_in vars (FragmentSpread spread) =
     FragmentSpread (map_positioned (\<lambda>s. s\<lparr>fs_directives := retain_directives (fs_directives s)\<rparr>) spread)"
| "remove_skipped_in vars (InlineFragment frag) =
     InlineFragment (map_positioned (\<lambda>i. MkInlineFragment (if_type_condition i)
        (retain_directives (if_directives i))
        (map_positioned (remove_skipped_selection vars) (if_selection_set i))) frag)"
  by pat_completeness auto

termination remove_skipped_selection
  by (relation "measure (case_sum (\<lambda>(_, ss). size ss) (\<lambda>(_, sel). size sel))")
     (auto simp: termination_simp size_positioned_node less_SucI)

declare remove_skipped_selection.simps [simp del]

subsection \<open>Requests\<close>

record ('upload, 'data) request =
  rq_query :: string
  rq_operation_name :: "string option"
  rq_variables :: variables
  rq_uploads :: "'upload list"
  rq_data :: 'data
  rq_parsed_query :: "executable_document option"
  rq_introspection_mode :: introspection_mode

record ('upload, 'data) query_env =
  qe_variables :: variables
  qe_operation_name :: "string option"
  qe_operation :: "operation_definition positioned"
  qe_fragments :: fragments
  qe_uploads :: "'upload list"
  qe_session_data :: 'data
  qe_query_data :: 'data
  qe_introspection_mode :: introspection_mode
  qe_errors :: "server_error list"

text \<open>
  The choice of the operation. \<open>Single\<close> is an operation without a name; a document with one named
  operation is \<open>Multiple\<close>.
\<close>

definition select_operation ::
  "string option \<Rightarrow> document_operations \<Rightarrow> server_error + (string option \<times> operation_definition positioned)" where
  "select_operation operation_name operations =
     (case operation_name of
        Some operation_name \<Rightarrow>
          (case (case operations of
                   Single _ \<Rightarrow> None
                 | Multiple ops \<Rightarrow>
                     map_option (\<lambda>operation. (Some operation_name, operation)) (im_get ops operation_name)) of
             Some r \<Rightarrow> Inr r
           | None \<Rightarrow> Inl (server_error_new (''Unknown operation named '' @ quote operation_name) None))
      | None \<Rightarrow>
          (case operations of
             Single operation \<Rightarrow> Inr (None, operation)
           | Multiple [(operation_name, operation)] \<Rightarrow> Inr (Some operation_name, operation)
           | Multiple _ \<Rightarrow> Inl (server_error_new ''Operation name required in request.'' None)))"

definition remove_skipped_fragments :: "variables \<Rightarrow> fragments \<Rightarrow> fragments" where
  "remove_skipped_fragments vars =
     map (\<lambda>(n, fragment). (n, map_positioned (\<lambda>fragment. fragment\<lparr>fd_selection_set :=
       map_positioned (remove_skipped_selection vars) (fd_selection_set fragment)\<rparr>) fragment))"

definition remove_skipped_operation ::
  "variables \<Rightarrow> operation_definition positioned \<Rightarrow> operation_definition positioned" where
  "remove_skipped_operation vars = map_positioned (\<lambda>operation. operation\<lparr>od_selection_set :=
     map_positioned (remove_skipped_selection vars) (od_selection_set operation)\<rparr>)"

fun visit_failed :: "visit_failure \<Rightarrow> request_failure" where
  "visit_failed OutOfFuel = StackOverflow"
| "visit_failed (Panic msg) = Panicked msg"

definition rejected :: "server_error + 'a \<Rightarrow> request_failure + 'a" where
  "rejected r = (case r of Inl e \<Rightarrow> Inl (Rejected [e]) | Inr x \<Rightarrow> Inr x)"

text \<open>
  The hooks of the extensions around the steps of \<open>prepare_request\<close>. Each gets the outcome of the step it
  wraps. Without extensions every hook is the identity (\<open>no_hooks\<close>).
\<close>

record ('upload, 'data) hooks =
  h_prepare_request :: "('upload, 'data) request \<Rightarrow> request_failure + ('upload, 'data) request"
  h_parse_query ::
    "string \<Rightarrow> variables \<Rightarrow> request_failure + executable_document \<Rightarrow> request_failure + executable_document"
  h_validation :: "request_failure + validation_result \<Rightarrow> request_failure + validation_result"

definition no_hooks :: "('upload, 'data) hooks" where
  "no_hooks = \<lparr>h_prepare_request = Inr, h_parse_query = (\<lambda>_ _ r. r), h_validation = (\<lambda>r. r)\<rparr>"

record schema_limits =
  recursive_depth :: nat
  max_directives :: "nat option"
  limit_complexity :: "64 word option"
  limit_depth :: "nat option"

definition parse_document ::
  "nat \<Rightarrow> (string \<Rightarrow> server_error + executable_document) \<Rightarrow> schema_limits \<Rightarrow> string \<Rightarrow>
   executable_document option \<Rightarrow> request_failure + executable_document" where
  "parse_document n parse_query limits query parsed_doc =
     bind_result (case parsed_doc of
         Some parsed_doc \<Rightarrow> Inr parsed_doc
       | None \<Rightarrow> rejected (parse_query query)) (\<lambda>doc.
     bind_result (rejected (check_recursive_depth doc (recursive_depth limits))) (\<lambda>_.
     bind_result (case max_directives limits of
         Some limit \<Rightarrow> check_max_directives n doc limit
       | None \<Rightarrow> Inr ()) (\<lambda>_.
     Inr doc)))"

definition validate_document ::
  "nat \<Rightarrow> registry \<Rightarrow> validation_mode \<Rightarrow> schema_limits \<Rightarrow> variables \<Rightarrow> executable_document \<Rightarrow>
   request_failure + validation_result" where
  "validate_document n reg validation_mode limits vars document =
     (case check_rules n reg document (Some vars) validation_mode (limit_complexity limits)
             (limit_depth limits) of
        Inl failure \<Rightarrow> Inl (visit_failed failure)
      | Inr (Inl errors) \<Rightarrow> Inl (Rejected errors)
      | Inr (Inr result) \<Rightarrow> Inr result)"

definition prepare_request ::
  "nat \<Rightarrow> (string \<Rightarrow> server_error + executable_document) \<Rightarrow> ('upload, 'data) hooks \<Rightarrow>
   'data \<Rightarrow> ('upload, 'data) request \<Rightarrow> 'data \<Rightarrow> registry \<Rightarrow> validation_mode \<Rightarrow> schema_limits \<Rightarrow>
   request_failure + (('upload, 'data) query_env \<times> cache_control)" where
  "prepare_request n parse_query extensions default_data request session_data reg validation_mode limits =
     bind_result (h_prepare_request extensions request) (\<lambda>request.
     let query_data = rq_data request;
         request = request\<lparr>rq_data := default_data\<rparr>;
         parsed_doc = rq_parsed_query request;
         request = request\<lparr>rq_parsed_query := None\<rparr>
     in bind_result
          (h_parse_query extensions (rq_query request) (rq_variables request)
            (parse_document n parse_query limits (rq_query request) parsed_doc)) (\<lambda>document.
        bind_result
          (h_validation extensions
            (validate_document n reg validation_mode limits (rq_variables request) document))
          (\<lambda>validation_result.
        bind_result (rejected (select_operation (rq_operation_name request) (doc_operations document)))
          (\<lambda>(operation_name, operation).
        Inr (\<lparr>qe_variables = rq_variables request,
              qe_operation_name = operation_name,
              qe_operation = remove_skipped_operation (rq_variables request) operation,
              qe_fragments = remove_skipped_fragments (rq_variables request) (doc_fragments document),
              qe_uploads = rq_uploads request,
              qe_session_data = session_data,
              qe_query_data = query_data,
              qe_introspection_mode = rq_introspection_mode request,
              qe_errors = []\<rparr>,
             vr_cache_control validation_result)))))"

subsection \<open>The depth check bounds the nesting of spreads\<close>

lemma recursive_depth_bound:
  "recursive_depth_selection_set doc ss cur limit = Inr u \<Longrightarrow> cur \<le> limit"
  by (subst (asm) recursive_depth_selection_set.simps) (auto split: if_splits)

lemma recursive_depth_selections:
  assumes "recursive_depth_selection_set doc ss cur limit = Inr u" "sel \<in> set (ss_items (node ss))"
  shows "node sel = Field field \<Longrightarrow> ss_items (node (f_selection_set (node field))) \<noteq> [] \<Longrightarrow>
      recursive_depth_selection_set doc (f_selection_set (node field)) (Suc cur) limit = Inr ()"
    and "node sel = FragmentSpread spread \<Longrightarrow>
      map_of (doc_fragments doc) (node (fs_fragment_name (node spread))) = Some fragment \<Longrightarrow>
      recursive_depth_selection_set doc (fd_selection_set (node fragment)) (Suc cur) limit = Inr ()"
    and "node sel = InlineFragment inline \<Longrightarrow>
      recursive_depth_selection_set doc (if_selection_set (node inline)) (Suc cur) limit = Inr ()"
  using assms
  by (subst (asm) recursive_depth_selection_set.simps,
      force simp: for_each_Inr split: if_splits option.splits)+

lemma max_directives_depth:
  assumes "recursive_depth_selection_set doc ss cur limit = Inr ()" "limit - cur \<le> n"
  shows "max_directives_selection_set n doc (node ss) l \<noteq> Inl StackOverflow"
  using assms
proof (induction "Suc limit - cur" arbitrary: ss cur n rule: less_induct)
  case less
  note cur = recursive_depth_bound [OF less.prems(1)]
  have IH: "max_directives_selection_set n' doc (node ss') l \<noteq> Inl StackOverflow"
    if "recursive_depth_selection_set doc ss' (Suc cur) limit = Inr ()" "limit - Suc cur \<le> n'" for ss' n'
    using less.hyps [OF _ that] recursive_depth_bound [OF that(1)] by simp
  show ?case
  proof
    assume "max_directives_selection_set n doc (node ss) l = Inl StackOverflow"
    then obtain sel where sel: "sel \<in> set (ss_items (node ss))"
      "(case node sel of
         Field field \<Rightarrow>
           (if length (f_directives (node field)) > l then Inl (Rejected [too_many_directives field l])
            else max_directives_selection_set n doc (node (f_selection_set (node field))) l)
       | FragmentSpread spread \<Rightarrow>
           (case map_of (doc_fragments doc) (node (fs_fragment_name (node spread))) of
              Some fragment \<Rightarrow>
                (case n of
                   0 \<Rightarrow> Inl StackOverflow
                 | Suc n \<Rightarrow> max_directives_selection_set n doc (node (fd_selection_set (node fragment))) l)
            | None \<Rightarrow> Inr ())
       | InlineFragment frag \<Rightarrow>
           max_directives_selection_set n doc (node (if_selection_set (node frag))) l) = Inl StackOverflow"
      unfolding max_directives_selection_set.simps [of n doc "node ss"] im_get_def
      by (auto dest!: for_each_Inl)
    note sub = recursive_depth_selections [OF less.prems(1) sel(1)]
    show False
    proof (cases "node sel")
      case (Field field)
      then show False
        using sel(2) sub(1) [OF Field] IH [of "f_selection_set (node field)" n] less.prems(2)
        by (cases "ss_items (node (f_selection_set (node field))) = []")
           (auto simp: max_directives_selection_set.simps [of n doc "node (f_selection_set (node field))"]
             split: if_splits)
    next
      case (FragmentSpread spread)
      then obtain fragment where "map_of (doc_fragments doc) (node (fs_fragment_name (node spread))) = Some fragment"
        using sel(2) by (auto split: option.splits)
      moreover have "limit - Suc cur \<le> n - 1" using less.prems(2) by simp
      ultimately show False
        using sel(2) FragmentSpread sub(2) [OF FragmentSpread] less.prems(2)
          recursive_depth_bound [of doc "fd_selection_set (node fragment)" "Suc cur" limit]
          IH [of "fd_selection_set (node fragment)" "n - 1"]
        by (auto split: nat.splits)
    next
      case (InlineFragment frag)
      then show False
        using sel(2) sub(3) [OF InlineFragment] IH [of "if_selection_set (node frag)" n] less.prems(2)
        by auto
    qed
  qed
qed


lemma trace_depth:
  assumes "recursive_depth_selection_set doc ss cur limit = Inr ()" "limit - cur \<le> n"
    and "vc_fragments env = doc_fragments doc"
  shows "\<exists>evs. trace_selection_set n m env ss = Inr evs"
  using assms
proof (induction "Suc limit - cur" arbitrary: ss cur n env rule: less_induct)
  case less
  have IH: "\<exists>evs. trace_selection_set n' m env' ss' = Inr evs"
    if "recursive_depth_selection_set doc ss' (Suc cur) limit = Inr ()" "limit - Suc cur \<le> n'"
      "vc_fragments env' = doc_fragments doc" for ss' n' env'
    using less.hyps [OF _ that] recursive_depth_bound [OF that(1)] by simp
  have "\<exists>evs. trace_selection n m env sel = Inr evs" if sel: "sel \<in> set (ss_items (node ss))" for sel
  proof -
    note sub = recursive_depth_selections [OF less.prems(1) sel]
    show ?thesis
    proof (cases "node sel")
      case (Field field)
      then have "\<exists>evs. trace_selection_set n m env' (f_selection_set (node field)) = Inr evs"
        if "vc_fragments env' = doc_fragments doc" for env'
        using sub(1) [OF Field] IH [of "f_selection_set (node field)" n env'] that less.prems(2)
        by (cases "ss_items (node (f_selection_set (node field))) = []")
           (auto simp: trace_selection_set.simps)
      then show ?thesis
        using Field less.prems(3) by (cases sel) (auto simp: trace_simps(2,3) res_simps push_type_def)
    next
      case (FragmentSpread spread)
      show ?thesis
      proof (cases "m = ModeInline \<and> map_of (doc_fragments doc) (node (fs_fragment_name (node spread))) \<noteq> None")
        case True
        then obtain fragment where
          frag: "map_of (doc_fragments doc) (node (fs_fragment_name (node spread))) = Some fragment" by auto
        from sub(2) [OF FragmentSpread frag] have "Suc cur \<le> limit" by (rule recursive_depth_bound)
        then obtain n' where "n = Suc n'" "limit - Suc cur \<le> n'" using less.prems(2) by (cases n) auto
        then show ?thesis
          using FragmentSpread frag IH [OF sub(2) [OF FragmentSpread frag]] less.prems(3) True
          by (cases sel) (auto simp: trace_simps(2,4) res_simps)
      qed (use FragmentSpread less.prems(3) in \<open>cases sel; auto simp: trace_simps(2,4)\<close>)
    next
      case (InlineFragment frag)
      have "\<exists>evs. trace_selection_set n m env' (if_selection_set (node frag)) = Inr evs"
        if "vc_fragments env' = doc_fragments doc" for env'
        by (rule IH [OF sub(3) [OF InlineFragment] _ that]) (use less.prems(2) in simp)
      then show ?thesis
        using InlineFragment less.prems(3)
        by (cases sel) (auto simp: trace_simps(2,5) res_simps push_type_def split: option.splits)
    qed
  qed
  then show ?case
    using map_result_ok_iff [of "trace_selection n m env" "ss_items (node ss)"]
    by (auto simp: trace_selection_set.simps [of n m env ss])
qed

text \<open>In normal mode a traversal does not follow spreads.\<close>

lemma trace_normal_ok:
  "m = ModeNormal \<Longrightarrow> \<exists>evs. trace_selection_set n m env ss = Inr evs"
  and "m = ModeNormal \<Longrightarrow> \<exists>evs. trace_selection n m env sel = Inr evs"
  and "m = ModeNormal \<Longrightarrow> \<exists>evs. trace_field n m env fld = Inr evs"
  and "m = ModeNormal \<Longrightarrow> \<exists>evs. trace_fragment_spread n m env spr = Inr evs"
  and "m = ModeNormal \<Longrightarrow> \<exists>evs. trace_inline_fragment n m env ifr = Inr evs"
proof (induction n m env ss and n m env sel and n m env fld and n m env spr and n m env ifr
    rule: trace_selection_set_trace_selection_trace_field_trace_fragment_spread_trace_inline_fragment.induct)
  case (1 n m env ss)
  then have "\<exists>ys. map_result (trace_selection n m env) (ss_items (node ss)) = Inr ys"
    unfolding map_result_ok_iff by (cases "ss_items (node ss) = []") auto
  then show ?case by (auto simp: trace_selection_set.simps [of n m env ss])
next
  case (2 n m env p sel)
  then show ?case by (cases sel) (fastforce simp: trace_selection.simps res_simps split: option.splits)+
qed (auto simp: trace_simps(3-5))

lemma check_recursive_depth_trace:
  assumes "check_recursive_depth doc limit = Inr ()" "limit \<le> n" "vc_fragments env = doc_fragments doc"
  shows "trace n m env doc \<noteq> Inl OutOfFuel"
proof
  assume "trace n m env doc = Inl OutOfFuel"
  then consider x where "x \<in> set (doc_fragments doc)" "trace_fragment_definition n m env x = Inl OutOfFuel"
    | x where "x \<in> set (operations_iter (doc_operations doc))" "trace_operation_definition n m env x = Inl OutOfFuel"
    by (auto simp: trace_def res_simps dest!: map_result_InlD)
  then show False
  proof cases
    case (1 x)
    show False
    proof (cases m)
      case ModeNormal
      then show False
        using 1(2) trace_normal_ok(1) [of m n]
        by (cases x) (simp add: trace_fragment_definition_def Let_def res_simps, metis sum.distinct(1))
    next
      case ModeInline
      then show False using 1(2) by (cases x) (simp add: trace_fragment_definition_def Let_def)
    qed
  next
    case (2 x)
    then have "recursive_depth_selection_set doc (od_selection_set (node (snd x))) 0 limit = Inr ()"
      using assms(1) by (auto simp: check_recursive_depth_def for_each_Inr case_prod_beta)
    then have "trace_selection_set n m env' (od_selection_set (node (snd x))) \<noteq> Inl OutOfFuel"
      if "vc_fragments env' = doc_fragments doc" for env'
      using assms trace_depth [of doc "od_selection_set (node (snd x))" 0 limit n env' m] that by auto
    then show False
      using 2 assms(3)
      by (cases x) (auto simp: trace_operation_definition_def Let_def res_simps push_type_def split: option.splits)
  qed
qed


lemma check_max_directives_depth:
  assumes "check_recursive_depth doc limit = Inr ()" "limit \<le> n"
  shows "check_max_directives n doc l \<noteq> Inl StackOverflow"
proof
  assume "check_max_directives n doc l = Inl StackOverflow"
  then obtain x where "x \<in> set (operations_iter (doc_operations doc))"
    "max_directives_selection_set n doc (node (od_selection_set (node (snd x)))) l = Inl StackOverflow"
    by (auto simp: check_max_directives_def case_prod_beta dest!: for_each_Inl)
  moreover from this have "recursive_depth_selection_set doc (od_selection_set (node (snd x))) 0 limit = Inr ()"
    using assms(1) by (auto simp: check_recursive_depth_def for_each_Inr case_prod_beta)
  ultimately show False using max_directives_depth [of doc _ 0 limit n l] assms(2) by force
qed

lemma unwind_fuel: "unwind st \<noteq> Inl OutOfFuel"
  by (simp add: unwind_def split: list.splits)

context rule_visitor
begin

lemma visit_fuel:
  assumes "trace n (v_mode v) env doc \<noteq> Inl OutOfFuel" "clear (fst st) = env"
  shows "visit n v doc st \<noteq> Inl OutOfFuel"
  using visit_replay [OF assms(2), of n doc] assms(1) by (auto simp: res_simps)

lemma clear_visit:
  assumes "visit n v doc st = Inr st'"
  shows "clear (fst st') = clear (fst st)"
  using visit_replay [OF refl, of n doc st] assms
  by (cases "trace n (v_mode v) (clear (fst st)) doc") auto

lemma visit_trace_cong:
  assumes "trace n (v_mode v) env doc = trace n' (v_mode v) env doc" "clear (fst st) = env"
  shows "visit n v doc st = visit n' v doc st"
  using visit_replay [OF assms(2), of _ doc] assms(1) by simp

end

lemma check_rules_fuel:
  assumes "\<And>m. trace n m (visitor_ctx_new reg doc vars) doc \<noteq> Inl OutOfFuel"
  shows "check_rules n reg doc vars mode lc ld \<noteq> Inl OutOfFuel"
proof -
  have "visit n strict_rules doc (visitor_ctx_new reg doc vars, strict_init) \<noteq> Inl OutOfFuel"
    "visit n fast_rules doc (visitor_ctx_new reg doc vars, fast_init) \<noteq> Inl OutOfFuel"
    by (rule strict.visit_fuel fast.visit_fuel; use assms in simp)+
  moreover have "visit n calculators doc (ctx, calculators_init) \<noteq> Inl OutOfFuel"
    if "visit n strict_rules doc (visitor_ctx_new reg doc vars, strict_init) = Inr (ctx, s)" for ctx s
    using calculators.visit_fuel [where st = "(ctx, calculators_init)", OF _ refl]
      strict.clear_visit [OF that] assms by simp
  ultimately show ?thesis
    by (cases mode)
       (auto simp: check_rules_def run_strict_def run_fast_def res_simps unwind_fuel unwind_Inr)
qed

lemma prepare_request_fuel:
  assumes "recursive_depth limits \<le> n"
  shows "prepare_request n parse no_hooks dd request sd reg mode limits \<noteq> Inl StackOverflow"
proof -
  have rej: "rejected r \<noteq> Inl StackOverflow" for r :: "server_error + 'z"
    by (simp add: rejected_def split: sum.splits)
  have parsed: "parse_document n parse limits q pd \<noteq> Inl StackOverflow" for q pd
    using check_max_directives_depth [OF _ assms]
    by (auto simp: parse_document_def res_simps rej rejected_def split: option.splits sum.splits)
  have depth: "check_recursive_depth doc (recursive_depth limits) = Inr ()"
    if "parse_document n parse limits q pd = Inr doc" for q pd doc
    using that by (auto simp: parse_document_def res_simps rejected_def split: sum.splits)
  have valid: "validate_document n reg mode limits vars doc \<noteq> Inl StackOverflow"
    if "check_recursive_depth doc (recursive_depth limits) = Inr ()" for vars doc
    using check_rules_fuel [OF check_recursive_depth_trace [OF that assms]]
    by (auto simp: validate_document_def split: sum.splits elim!: visit_failed.elims)
  show ?thesis
    using parsed depth valid
    by (auto simp: prepare_request_def no_hooks_def Let_def res_simps rej)
qed


subsection \<open>A bound that is enough does not matter\<close>

lemma map_result_mono:
  assumes "map_result f xs \<noteq> Inl e" "\<And>x. x \<in> set xs \<Longrightarrow> f x \<noteq> Inl e \<Longrightarrow> g x = f x"
  shows "map_result g xs = map_result f xs"
  using assms
proof (induction xs)
  case (Cons x xs)
  have "f x \<noteq> Inl e" using Cons.prems(1) by (cases "f x") auto
  then have "g x = f x" using Cons.prems(2) by simp
  moreover have "map_result g xs = map_result f xs" if "f x = Inr y" for y
    by (rule Cons.IH) (use Cons.prems that in auto)
  ultimately show ?case by (cases "f x") auto
qed simp

lemma trace_Suc:
  "trace_selection_set n m env ss \<noteq> Inl OutOfFuel \<Longrightarrow>
     trace_selection_set (Suc n) m env ss = trace_selection_set n m env ss"
  and "trace_selection n m env sel \<noteq> Inl OutOfFuel \<Longrightarrow>
     trace_selection (Suc n) m env sel = trace_selection n m env sel"
  and "trace_field n m env fld \<noteq> Inl OutOfFuel \<Longrightarrow>
     trace_field (Suc n) m env fld = trace_field n m env fld"
  and "trace_fragment_spread n m env spr \<noteq> Inl OutOfFuel \<Longrightarrow>
     trace_fragment_spread (Suc n) m env spr = trace_fragment_spread n m env spr"
  and "trace_inline_fragment n m env ifr \<noteq> Inl OutOfFuel \<Longrightarrow>
     trace_inline_fragment (Suc n) m env ifr = trace_inline_fragment n m env ifr"
proof (induction n m env ss and n m env sel and n m env fld and n m env spr and n m env ifr
    rule: trace_selection_set_trace_selection_trace_field_trace_fragment_spread_trace_inline_fragment.induct)
  case (1 n m env ss)
  show ?case
  proof (cases "ss_items (node ss) = []")
    case False
    have "map_result (trace_selection n m env) (ss_items (node ss)) \<noteq> Inl OutOfFuel"
      using "1.prems" False by (auto simp: trace_selection_set.simps [of n m env ss] res_simps)
    then have "map_result (trace_selection (Suc n) m env) (ss_items (node ss)) =
        map_result (trace_selection n m env) (ss_items (node ss))"
      by (rule map_result_mono) (rule "1.IH" [OF False])
    then show ?thesis by (simp add: trace_selection_set.simps)
  qed (simp add: trace_selection_set.simps)
next
  case (2 n m env p sel)
  then show ?case
    by (cases sel) (auto simp: trace_selection.simps res_simps split: option.splits)
next
  case (4 n m env spr)
  then show ?case
    by (cases n) (auto simp: trace_simps(4) res_simps split: option.splits if_splits)
qed (auto simp: trace_simps(3,5) res_simps)

lemma trace_mono:
  assumes "trace_selection_set n m env ss \<noteq> Inl OutOfFuel" "n \<le> n'"
  shows "trace_selection_set n' m env ss = trace_selection_set n m env ss"
  using assms(2,1) by (induction n' rule: dec_induct) (simp_all add: trace_Suc(1))

lemma trace_doc_mono:
  assumes "trace n m env doc \<noteq> Inl OutOfFuel" "n \<le> n'"
  shows "trace n' m env doc = trace n m env doc"
proof -
  have frag: "trace_fragment_definition n' m env x = trace_fragment_definition n m env x"
    if "trace_fragment_definition n m env x \<noteq> Inl OutOfFuel" for x
    using that trace_mono [OF _ assms(2)]
    by (cases x) (auto simp: trace_fragment_definition_def Let_def res_simps)
  have op: "trace_operation_definition n' m env x = trace_operation_definition n m env x"
    if "trace_operation_definition n m env x \<noteq> Inl OutOfFuel" for x
    using that trace_mono [OF _ assms(2)]
    by (cases x) (auto simp: trace_operation_definition_def Let_def res_simps split: option.splits)
  have "map_result (trace_fragment_definition n m env) (doc_fragments doc) \<noteq> Inl OutOfFuel"
    using assms(1) by (auto simp: trace_def)
  then have frags: "map_result (trace_fragment_definition n' m env) (doc_fragments doc) =
      map_result (trace_fragment_definition n m env) (doc_fragments doc)"
    by (rule map_result_mono) (rule frag)
  show ?thesis
  proof (cases "map_result (trace_fragment_definition n m env) (doc_fragments doc)")
    case (Inr fs)
    then have "map_result (trace_operation_definition n m env) (operations_iter (doc_operations doc)) \<noteq>
        Inl OutOfFuel"
      using assms(1) by (auto simp: trace_def)
    then have "map_result (trace_operation_definition n' m env) (operations_iter (doc_operations doc)) =
        map_result (trace_operation_definition n m env) (operations_iter (doc_operations doc))"
      by (rule map_result_mono) (rule op)
    then show ?thesis by (simp add: trace_def frags)
  qed (simp add: trace_def frags)
qed

lemma check_rules_mono:
  assumes "\<And>m. trace n m (visitor_ctx_new reg doc vars) doc \<noteq> Inl OutOfFuel" "n \<le> n'"
  shows "check_rules n' reg doc vars mode lc ld = check_rules n reg doc vars mode lc ld"
proof -
  note eq = trace_doc_mono [OF assms]
  have visits: "visit n' strict_rules doc (visitor_ctx_new reg doc vars, strict_init) =
      visit n strict_rules doc (visitor_ctx_new reg doc vars, strict_init)"
    "visit n' fast_rules doc (visitor_ctx_new reg doc vars, fast_init) =
      visit n fast_rules doc (visitor_ctx_new reg doc vars, fast_init)"
    by (rule strict.visit_trace_cong fast.visit_trace_cong; use eq in simp)+
  have calc: "visit n' calculators doc (ctx, calculators_init) = visit n calculators doc (ctx, calculators_init)"
    if "visit n strict_rules doc (visitor_ctx_new reg doc vars, strict_init) = Inr (ctx, s)" for ctx s
    by (rule calculators.visit_trace_cong [OF _ refl])
       (use strict.clear_visit [OF that] eq [of ModeInline] in simp)
  have "run_strict n' reg doc vars = run_strict n reg doc vars"
  proof (cases "visit n strict_rules doc (visitor_ctx_new reg doc vars, strict_init)")
    case (Inr st)
    then have "visit n' calculators doc (fst st, calculators_init) =
        visit n calculators doc (fst st, calculators_init)"
      by (intro calc [of _ "snd st"]) simp
    moreover have "(\<exists>e. unwind st = Inl e) \<or> unwind st = Inr st"
      by (cases "unwind st") (auto simp: unwind_Inr)
    ultimately show ?thesis
      by (auto simp: run_strict_def visits Inr case_prod_beta)
  qed (simp add: run_strict_def visits)
  then show ?thesis by (cases mode) (simp_all add: check_rules_def run_fast_def visits)
qed


lemma for_each_mono:
  assumes "for_each f xs \<noteq> Inl e" "\<And>x. x \<in> set xs \<Longrightarrow> f x \<noteq> Inl e \<Longrightarrow> g x = f x"
  shows "for_each g xs = for_each f xs"
  using assms
proof (induction xs)
  case (Cons x xs)
  have "f x \<noteq> Inl e" using Cons.prems(1) by (cases "f x") auto
  then have "g x = f x" using Cons.prems(2) by simp
  moreover have "for_each g xs = for_each f xs" if "f x = Inr y" for y
    by (rule Cons.IH) (use Cons.prems that in auto)
  ultimately show ?case by (cases "f x") auto
qed simp

lemma max_directives_Suc:
  "max_directives_selection_set n doc ss l \<noteq> Inl StackOverflow \<Longrightarrow>
   max_directives_selection_set (Suc n) doc ss l = max_directives_selection_set n doc ss l"
proof (induction n doc ss l rule: max_directives_selection_set.induct)
  case (1 n doc ss l)
  show ?case
    unfolding max_directives_selection_set.simps [of _ doc ss]
    by (rule for_each_mono [of _ _ StackOverflow])
       (use 1 in \<open>auto simp: max_directives_selection_set.simps [of n doc ss]
          split: selection.splits option.splits nat.splits\<close>)
qed

lemma check_max_directives_mono:
  assumes "check_max_directives n doc l \<noteq> Inl StackOverflow" "n \<le> n'"
  shows "check_max_directives n' doc l = check_max_directives n doc l"
  using assms(2,1)
proof (induction n' rule: dec_induct)
  case (step k)
  have "check_max_directives (Suc k) doc l = check_max_directives k doc l"
    unfolding check_max_directives_def
    by (rule for_each_mono [of _ _ StackOverflow])
       (use step in \<open>auto simp: max_directives_Suc check_max_directives_def\<close>)
  then show ?case using step by simp
qed simp

lemma prepare_request_mono:
  assumes "recursive_depth limits \<le> n"
  shows "prepare_request n parse no_hooks dd request sd reg mode limits =
    prepare_request (recursive_depth limits) parse no_hooks dd request sd reg mode limits"
proof -
  have dirs: "check_max_directives n doc l = check_max_directives (recursive_depth limits) doc l"
    if "check_recursive_depth doc (recursive_depth limits) = Inr ()" for doc l
    by (rule check_max_directives_mono [OF check_max_directives_depth [OF that order_refl] assms])
  have parsed: "parse_document n parse limits q pd = parse_document (recursive_depth limits) parse limits q pd"
    for q pd
    unfolding parse_document_def
    by (rule bind_result_cong [OF refl], rule bind_result_cong [OF refl], rule bind_result_cong)
       (auto simp: dirs rejected_def split: sum.splits option.splits)
  have depth: "check_recursive_depth doc (recursive_depth limits) = Inr ()"
    if "parse_document (recursive_depth limits) parse limits q pd = Inr doc" for q pd doc
    using that by (auto simp: parse_document_def res_simps rejected_def split: sum.splits)
  have valid: "validate_document n reg mode limits vars doc =
      validate_document (recursive_depth limits) reg mode limits vars doc"
    if "check_recursive_depth doc (recursive_depth limits) = Inr ()" for vars doc
    using check_rules_mono [OF check_recursive_depth_trace [OF that order_refl] assms]
    by (simp add: validate_document_def)
  show ?thesis
    unfolding prepare_request_def Let_def no_hooks_def hooks.simps parsed bind_result_simps
    by (rule bind_result_cong [OF refl]) (simp add: valid [OF depth])
qed


subsection \<open>What remains after skipping\<close>

lemma is_skipped_iff:
  "is_skipped ds vars \<longleftrightarrow>
     (\<exists>d\<in>set ds. is_conditional d \<and>
        (\<exists>v. get_argument (d_arguments (node d)) ''if'' = Some v \<and>
           (node (d_name (node d)) = ''include'') \<noteq> condition_value vars (node v)))"
  by (induction ds) (auto simp: is_conditional_def Let_def split: option.splits)

lemma is_skipped_retain [simp]: "\<not> is_skipped (retain_directives ds) vars"
  by (auto simp: is_skipped_iff)

lemma selection_directives_removed [simp]:
  "selection_directives (remove_skipped_in vars sel) = retain_directives (selection_directives sel)"
  by (cases sel) (simp_all add: positioned.map_sel)

text \<open>Removing a second time, with whatever variables, removes nothing.\<close>

lemma remove_skipped_again:
  "remove_skipped_selection vars' (remove_skipped_selection vars ss) = remove_skipped_selection vars ss"
  "remove_skipped_in vars' (remove_skipped_in vars sel) = remove_skipped_in vars sel"
proof (induction vars ss and vars sel rule: remove_skipped_selection_remove_skipped_in.induct)
  case (1 vars ss)
  show ?case
    unfolding remove_skipped_selection.simps selection_set.sel
    by (auto simp: filter_map o_def positioned.map_sel positioned.map_comp filter_True
        intro!: positioned.map_cong0 1)
next
  case (2 vars field)
  then show ?case
    by (auto simp: positioned.map_comp o_def intro!: positioned.map_cong0)
next
  case (3 vars spread)
  then show ?case by (auto simp: positioned.map_comp o_def intro!: positioned.map_cong0)
next
  case (4 vars frag)
  then show ?case
    by (auto simp: positioned.map_comp o_def intro!: positioned.map_cong0)
qed


text \<open>
  The fields that execution sees, by response key, name and arguments: \<open>shape\<close> of the fields of the
  pruned document. \<open>included\<close> takes them from the original document, leaving out every field, spread
  and inline fragment whose condition fails.
\<close>

datatype key_tree = KeyNode name name "(name positioned \<times> gvalue positioned) list" "key_tree list"

fun shape :: "field_tree \<Rightarrow> key_tree" where
  "shape (FieldNode f ts) =
     KeyNode (node (response_key (node f))) (node (f_name (node f))) (f_arguments (node f)) (map shape ts)"

function included :: "nat \<Rightarrow> variables \<Rightarrow> fragments \<Rightarrow> selection_set \<Rightarrow> key_tree list" where
  "included n vars frags ss =
     concat (map (\<lambda>sel.
         if is_skipped (selection_directives (node sel)) vars then []
         else case node sel of
           Field field \<Rightarrow>
             if node (f_name (node field)) = ''__typename'' then []
             else [KeyNode (node (response_key (node field))) (node (f_name (node field)))
                    (f_arguments (node field))
                    (included n vars frags (node (f_selection_set (node field))))]
         | FragmentSpread spread \<Rightarrow>
             (case (map_of frags (node (fs_fragment_name (node spread))), n) of
                (Some fragment, Suc n) \<Rightarrow> included n vars frags (node (fd_selection_set (node fragment)))
              | _ \<Rightarrow> [])
         | InlineFragment frag \<Rightarrow> included n vars frags (node (if_selection_set (node frag))))
       (ss_items ss))"
  by pat_completeness auto
termination
  by (relation "measures [fst, \<lambda>(_, _, _, ss). size ss]") (auto simp: termination_simp)

declare included.simps [simp del]

lemma map_of_removed:
  "map_of (remove_skipped_fragments vars frags) k =
     map_option (map_positioned (\<lambda>f. f\<lparr>fd_selection_set :=
       map_positioned (remove_skipped_selection vars) (fd_selection_set f)\<rparr>)) (map_of frags k)"
  by (simp add: remove_skipped_fragments_def map_of_map)

lemma concat_map_filter:
  "concat (map f (filter P xs)) = concat (map (\<lambda>x. if P x then f x else []) xs)"
  by (induction xs) auto

lemma expand_removed:
  "map shape (expand n (remove_skipped_fragments vars frags) (remove_skipped_selection vars ss)) =
     included n vars frags ss"
proof (induction n vars frags ss rule: included.induct)
  case (1 n vars frags ss)
  let ?frags = "remove_skipped_fragments vars frags"
  have "map shape (case remove_skipped_in vars (node sel) of
        Field field \<Rightarrow>
          if node (f_name (node field)) = ''__typename'' then []
          else [FieldNode field (expand n ?frags (node (f_selection_set (node field))))]
      | FragmentSpread spread \<Rightarrow>
          (case (map_of ?frags (node (fs_fragment_name (node spread))), n) of
             (Some fragment, Suc n) \<Rightarrow> expand n ?frags (node (fd_selection_set (node fragment)))
           | _ \<Rightarrow> [])
      | InlineFragment frag \<Rightarrow> expand n ?frags (node (if_selection_set (node frag)))) =
      (case node sel of
           Field field \<Rightarrow>
             if node (f_name (node field)) = ''__typename'' then []
             else [KeyNode (node (response_key (node field))) (node (f_name (node field)))
                    (f_arguments (node field))
                    (included n vars frags (node (f_selection_set (node field))))]
         | FragmentSpread spread \<Rightarrow>
             (case (map_of frags (node (fs_fragment_name (node spread))), n) of
                (Some fragment, Suc n) \<Rightarrow> included n vars frags (node (fd_selection_set (node fragment)))
              | _ \<Rightarrow> [])
         | InlineFragment frag \<Rightarrow> included n vars frags (node (if_selection_set (node frag))))"
    if "sel \<in> set (ss_items ss)" "\<not> is_skipped (selection_directives (node sel)) vars" for sel
    using 1 that
    by (cases "node sel")
       (auto simp: positioned.map_sel response_key_def map_of_removed split: option.splits nat.splits)
  then show ?case
    unfolding included.simps [of n vars frags ss] expand.simps [of n ?frags "remove_skipped_selection vars ss"]
    by (auto simp: remove_skipped_selection.simps map_concat o_def positioned.map_sel concat_map_filter
        intro!: arg_cong [where f = concat])
qed


subsection \<open>The chosen operation\<close>

lemma select_operation_Inr:
  assumes "distinct (map fst (operations_iter ops))"
  shows "select_operation op_name ops = Inr (k, op) \<longleftrightarrow>
    (k, op) \<in> set (operations_iter ops) \<and>
    (case op_name of Some m \<Rightarrow> k = Some m | None \<Rightarrow> length (operations_iter ops) = 1)"
proof (cases ops)
  case (Multiple m)
  have "distinct (map fst m)" using assms Multiple by (simp add: distinct_map comp_def case_prod_beta inj_on_def)
  then show ?thesis
  proof (cases op_name)
    case None
    then show ?thesis
      using Multiple by (auto simp: select_operation_def length_Suc_conv split: list.splits prod.splits)
  next
    case (Some a)
    have "select_operation op_name ops = Inr (k, op) \<longleftrightarrow> map_of m a = Some op \<and> k = Some a"
      using Multiple Some by (auto simp: select_operation_def split: option.splits)
    then show ?thesis using Multiple Some \<open>distinct (map fst m)\<close> by auto
  qed
qed (auto simp: select_operation_def split: option.splits)

end
