(* ===== verification/Resolution.thy ===== *)
theory Resolution
  imports Request_Prep "HOL-Library.Multiset"
begin

text \<open>
  Resolving the fields of an object, \<open>src/resolver_utils/container.rs\<close>: which fields of a selection set are
  resolved on which container (\<open>Fields::add_set\<close>), and how their values are merged into the response
  (\<open>insert_value\<close>, \<open>do_resolve_container\<close>).

  The resolvers are the schema author's code. Their results reach \<open>do_resolve_container\<close> as a list in the order
  in which they complete, any order for a query and that of the fields for a mutation.
\<close>

subsection \<open>Collecting fields\<close>

text \<open>A container has the name of its GraphQL type (\<open>T::type_name()\<close>), the name of the object type of its value
  (\<open>introspection_type_name\<close>), and, if it is a union or an interface, the object that it holds.\<close>

datatype container = Container
  (ct_type_name: string) (ct_introspection_type_name: string) (ct_object: "container option")

datatype field_future =
    TypenameFuture name string
  | FieldFuture container "field positioned"

text \<open>The container whose \<open>add_set\<close> the method \<open>collect_all_fields\<close> calls.\<close>

fun collect_all_root :: "container \<Rightarrow> container" where
  "collect_all_root (Container ty intro None) = Container ty intro None"
| "collect_all_root (Container ty intro (Some obj)) = collect_all_root obj"

definition unknown_fragment_error :: "fragment_spread positioned \<Rightarrow> server_error" where
  "unknown_fragment_error spread =
     server_error_new (''Unknown fragment \"'' @ node (fs_fragment_name (node spread)) @ ''\".'') (Some (pos spread))"

definition applies_concrete_object :: "registry \<Rightarrow> container \<Rightarrow> name option \<Rightarrow> bool" where
  "applies_concrete_object reg root type_condition =
     (case type_condition of
        None \<Rightarrow> False
      | Some condition \<Rightarrow>
          ct_introspection_type_name root = condition \<or>
          (case im_get (implements reg) (ct_introspection_type_name root) of
             Some interfaces \<Rightarrow> condition \<in> set interfaces
           | None \<Rightarrow> False))"

text \<open>The container on which the selection set of a fragment is added, if any.\<close>

definition fragment_root :: "registry \<Rightarrow> container \<Rightarrow> name option \<Rightarrow> container option" where
  "fragment_root reg root type_condition =
     (if applies_concrete_object reg root type_condition then Some (collect_all_root root)
      else if (case type_condition of None \<Rightarrow> True | Some condition \<Rightarrow> ct_type_name root = condition) then Some root
      else None)"

function add_set ::
  "nat \<Rightarrow> registry \<Rightarrow> fragments \<Rightarrow> container \<Rightarrow> selection_set \<Rightarrow> request_failure + field_future list" where
  "add_set n reg frags root ss =
     map_ok concat (map_result (\<lambda>sel. case node sel of
         Field field \<Rightarrow>
           Inr [if node (f_name (node field)) = ''__typename''
                then TypenameFuture (node (response_key (node field))) (ct_introspection_type_name root)
                else FieldFuture root field]
       | FragmentSpread spread \<Rightarrow>
           (case im_get frags (node (fs_fragment_name (node spread))) of
              None \<Rightarrow> Inl (Rejected [unknown_fragment_error spread])
            | Some fragment \<Rightarrow>
                (case fragment_root reg root (Some (node (tc_on (node (fd_type_condition (node fragment)))))) of
                   None \<Rightarrow> Inr []
                 | Some root' \<Rightarrow>
                     (case n of
                        0 \<Rightarrow> Inl StackOverflow
                      | Suc n \<Rightarrow> add_set n reg frags root' (node (fd_selection_set (node fragment))))))
       | InlineFragment frag \<Rightarrow>
           (case fragment_root reg root
               (map_option (\<lambda>c. node (tc_on (node c))) (if_type_condition (node frag))) of
              None \<Rightarrow> Inr []
            | Some root' \<Rightarrow> add_set n reg frags root' (node (if_selection_set (node frag))))) (ss_items ss))"
  by pat_completeness auto
termination
  by (relation "measures [fst, \<lambda>(_, _, _, _, ss). size ss]") (auto simp: termination_simp)

declare add_set.simps [simp del]

subsection \<open>Merging values\<close>

definition merge_items :: "('a \<Rightarrow> 'a \<Rightarrow> 'a) \<Rightarrow> 'a list \<Rightarrow> 'a list \<Rightarrow> 'a list" where
  "merge_items f target new = map (\<lambda>(t, v). f t v) (zip target new) @ drop (length new) target"

lemma merge_items_cong [fundef_cong]:
  "target = target' \<Longrightarrow> new = new' \<Longrightarrow> (\<And>t v. v \<in> set new' \<Longrightarrow> f t v = g t v) \<Longrightarrow>
   merge_items f target new = merge_items g target' new'"
  by (auto simp: merge_items_def dest: set_zip_rightD)

lemma size_item_entry [termination_simp]:
  assumes "CObject obj \<in> set items" "(key, v) \<in> set obj"
  shows "size v < Suc (size_list size items)"
proof -
  have "size v < size (CObject obj)" using assms(2) size_list_snd_less [of key v obj size] by (simp add: size_prod_snd)
  also have "\<dots> \<le> size_list size items" using assms(1) by (rule size_list_estimation') simp
  finally show ?thesis by simp
qed

function insert_value ::
  "(name, const_value) index_map \<Rightarrow> name \<Rightarrow> const_value \<Rightarrow> (name, const_value) index_map" where
  "insert_value target n val =
     (case im_get target n of
        Some prev_value \<Rightarrow>
          im_insert n
            (case prev_value of
               CObject target_map \<Rightarrow>
                 (case val of
                    CObject obj \<Rightarrow> CObject (fold (\<lambda>(key, v) t. insert_value t key v) obj target_map)
                  | _ \<Rightarrow> prev_value)
             | CList target_list \<Rightarrow>
                 (case val of
                    CList items \<Rightarrow>
                      CList (merge_items (\<lambda>t v. case t of
                          CObject target_map \<Rightarrow>
                            (case v of
                               CObject obj \<Rightarrow> CObject (fold (\<lambda>(key, v) t. insert_value t key v) obj target_map)
                             | _ \<Rightarrow> t)
                        | _ \<Rightarrow> t) target_list items)
                  | _ \<Rightarrow> prev_value)
             | _ \<Rightarrow> prev_value) target
      | None \<Rightarrow> im_insert n val target)"
  by pat_completeness auto
termination
  by (relation "measure (\<lambda>(_, _, v). size v)") (auto simp: termination_simp size_prod_snd)

declare insert_value.simps [simp del]

definition do_resolve_container ::
  "(server_error + name \<times> const_value) list \<Rightarrow> const_value \<times> server_error list" where
  "do_resolve_container completed =
     (let (results, errors) =
        fold (\<lambda>res (results, errors). case res of
            Inr (n, val) \<Rightarrow> (insert_value results n val, errors)
          | Inl e \<Rightarrow> (results, errors @ [e])) completed ([], [])
      in (if results = [] then CNull else CObject results, errors))"

subsection \<open>What a value has at a path\<close>

datatype view = ViewObject | ViewList nat | ViewScalar const_value

fun view_at :: "const_value \<Rightarrow> path_segment list \<Rightarrow> view option" where
  "view_at (CObject m) [] = Some ViewObject"
| "view_at (CList xs) [] = Some (ViewList (length xs))"
| "view_at v [] = Some (ViewScalar v)"
| "view_at (CObject m) (PField k # p) = (case map_of m k of Some v \<Rightarrow> view_at v p | None \<Rightarrow> None)"
| "view_at (CList xs) (PIndex i # p) = (if i < length xs then view_at (xs ! i) p else None)"
| "view_at _ _ = None"

text \<open>Two values agree if they have the same wherever both have something.\<close>

definition agree :: "const_value \<Rightarrow> const_value \<Rightarrow> bool" where
  "agree v w \<longleftrightarrow> (\<forall>p x y. view_at v p = Some x \<longrightarrow> view_at w p = Some y \<longrightarrow> x = y)"

text \<open>No list is an element of a list.\<close>

fun is_list_value :: "const_value \<Rightarrow> bool" where
  "is_list_value (CList xs) \<longleftrightarrow> True"
| "is_list_value _ \<longleftrightarrow> False"

fun flat :: "const_value \<Rightarrow> bool" where
  "flat (CList xs) \<longleftrightarrow> list_all (\<lambda>x. \<not> is_list_value x \<and> flat x) xs"
| "flat (CObject m) \<longleftrightarrow> list_all (\<lambda>(k, v). flat v) m"
| "flat _ \<longleftrightarrow> True"

abbreviation merge_objects ::
  "(name, const_value) index_map \<Rightarrow> (name, const_value) index_map \<Rightarrow> (name, const_value) index_map" where
  "merge_objects obj target \<equiv> fold (\<lambda>(key, v) t. insert_value t key v) obj target"

definition merged_item :: "const_value \<Rightarrow> const_value \<Rightarrow> const_value" where
  "merged_item t v =
     (case t of
        CObject target_map \<Rightarrow> (case v of CObject obj \<Rightarrow> CObject (merge_objects obj target_map) | _ \<Rightarrow> t)
      | _ \<Rightarrow> t)"

definition merged :: "const_value \<Rightarrow> const_value \<Rightarrow> const_value" where
  "merged prev val =
     (case prev of
        CObject target_map \<Rightarrow> (case val of CObject obj \<Rightarrow> CObject (merge_objects obj target_map) | _ \<Rightarrow> prev)
      | CList target_list \<Rightarrow>
          (case val of CList items \<Rightarrow> CList (merge_items merged_item target_list items) | _ \<Rightarrow> prev)
      | _ \<Rightarrow> prev)"

lemma insert_value_eq:
  "insert_value target n val =
     (case map_of target n of
        Some prev \<Rightarrow> AList.update n (merged prev val) target
      | None \<Rightarrow> AList.update n val target)"
  unfolding insert_value.simps [of target n val] merged_def merged_item_def [abs_def] im_get_def im_insert_def
  by (rule refl)

lemma view_at_fields:
  "view_at (CObject m) p =
     (case p of
        [] \<Rightarrow> Some ViewObject
      | PField k # q \<Rightarrow> Option.bind (map_of m k) (\<lambda>v. view_at v q)
      | PIndex i # q \<Rightarrow> None)"
  by (cases p rule: list.exhaust) (auto split: path_segment.splits option.splits)

lemma agreeI: "(\<And>p x y. view_at v p = Some x \<Longrightarrow> view_at w p = Some y \<Longrightarrow> x = y) \<Longrightarrow> agree v w"
  by (simp add: agree_def)

lemma agreeD: "agree v w \<Longrightarrow> view_at v p = Some x \<Longrightarrow> view_at w p = Some y \<Longrightarrow> x = y"
  by (simp add: agree_def)

lemma agree_sym: "agree v w \<Longrightarrow> agree w v"
  by (rule agreeI) (rule sym, rule agreeD)

lemma agree_field:
  assumes "agree (CObject m) (CObject m')" "map_of m k = Some v" "map_of m' k = Some w"
  shows "agree v w"
  by (rule agreeI, rule agreeD [OF assms(1), of "PField k # p" for p]) (simp_all add: assms(2,3))

lemma agree_length: "agree (CList xs) (CList ys) \<Longrightarrow> length xs = length ys"
  using agreeD [of "CList xs" "CList ys" "[]" "ViewList (length xs)" "ViewList (length ys)"] by simp

lemma agree_list: "agree v w \<Longrightarrow> is_list_value v \<longleftrightarrow> is_list_value w"
proof -
  have "is_list_value u \<longleftrightarrow> (\<exists>n. view_at u [] = Some (ViewList n))" for u by (cases u) auto
  moreover have "\<exists>x. view_at u [] = Some x" for u by (cases u) auto
  ultimately show "agree v w \<Longrightarrow> is_list_value v \<longleftrightarrow> is_list_value w" using agreeD [of v w "[]"] by metis
qed

lemma agree_item:
  assumes "agree (CList xs) (CList ys)" "i < length xs"
  shows "agree (xs ! i) (ys ! i)"
  by (rule agreeI, rule agreeD [OF assms(1), of "PIndex i # p" for p])
     (use assms agree_length [OF assms(1)] in simp_all)

lemma agree_scalar:
  assumes "agree v w" "\<not> is_list_value v" "\<And>m. v \<noteq> CObject m"
  shows "w = v"
proof -
  have "view_at v [] = Some (ViewScalar v)" using assms(2,3) by (cases v) auto
  moreover have "view_at w [] \<noteq> None" by (cases w) auto
  ultimately have "view_at w [] = Some (ViewScalar v)" using agreeD [OF assms(1)] by fastforce
  then show ?thesis by (cases w) auto
qed

text \<open>Merging values that agree adds what the new value has to what the old one has.\<close>

definition joins :: "const_value \<Rightarrow> const_value \<Rightarrow> const_value \<Rightarrow> bool" where
  "joins v w u \<longleftrightarrow> view_at u = view_at w ++ view_at v"

definition inserts_well :: "const_value \<Rightarrow> bool" where
  "inserts_well v \<longleftrightarrow> (\<forall>t n. agree (CObject t) (CObject [(n, v)]) \<longrightarrow>
     joins (CObject t) (CObject [(n, v)]) (CObject (insert_value t n v)))"

lemma inserts_wellD:
  "inserts_well v \<Longrightarrow> agree (CObject t) (CObject [(n, v)]) \<Longrightarrow>
   joins (CObject t) (CObject [(n, v)]) (CObject (insert_value t n v))"
  by (simp only: inserts_well_def)

lemma joins_self: "joins v v v"
  unfolding joins_def by (rule ext) (simp add: map_add_def split: option.splits)

lemma view_at_Cons:
  assumes "k \<notin> fst ` set m"
  shows "view_at (CObject ((k, v) # m)) = view_at (CObject m) ++ view_at (CObject [(k, v)])"
proof -
  have "map_of m k = None" using assms by (simp add: map_of_eq_None_iff)
  then show ?thesis
    by (intro ext)
       (auto simp: view_at_fields map_add_def split: list.splits path_segment.splits option.splits bind_splits)
qed

lemma view_at_update:
  "view_at (CObject (AList.update n v t)) =
     (\<lambda>p. case p of PField k # q \<Rightarrow> if k = n then view_at v q else view_at (CObject t) p | _ \<Rightarrow> view_at (CObject t) p)"
  by (rule ext) (auto simp: view_at_fields update_conv' split: list.splits path_segment.splits)

lemma agree_disjoint: "k \<notin> fst ` set m \<Longrightarrow> agree (CObject m) (CObject [(k, v)])"
  by (rule agreeI)
     (auto simp: view_at_fields map_of_eq_None_iff [symmetric] split: list.splits path_segment.splits bind_splits if_splits)

text \<open>Agreement with a value that joins two others.\<close>

lemma agree_joins:
  assumes "joins v w u" "agree v x" "agree w x"
  shows "agree u x"
proof (rule agreeI)
  fix p a b assume "view_at u p = Some a" "view_at x p = Some b"
  then show "a = b"
    using assms(1) agreeD [OF assms(2)] agreeD [OF assms(3)]
    by (auto simp: joins_def map_add_def split: option.splits)
qed

lemma joins_parts:
  assumes "joins v w u" "agree v w" "agree x u"
  shows "agree x v" "agree x w"
proof -
  show "agree x v"
    by (rule agreeI, rule agreeD [OF assms(3)]) (use assms(1) in \<open>auto simp: joins_def\<close>)
  show "agree x w"
  proof (rule agreeI, rule agreeD [OF assms(3)])
    fix p b assume "view_at w p = Some b"
    then show "view_at u p = Some b"
      using assms(1) agreeD [OF assms(2), of p _ b] by (cases "view_at v p") (auto simp: joins_def map_add_def)
  qed
qed

lemma joins_empty: "joins (CObject t) (CObject []) (CObject t)"
  unfolding joins_def
  by (rule ext) (auto simp: view_at_fields map_add_def split: list.splits path_segment.splits option.splits bind_splits)

lemma merge_objects_joins:
  assumes "list_all (\<lambda>(k, v). inserts_well v) obj" "distinct (map fst obj)" "agree (CObject t) (CObject obj)"
  shows "joins (CObject t) (CObject obj) (CObject (merge_objects obj t))"
  using assms
proof (induction obj arbitrary: t)
  case Nil
  then show ?case by (simp add: joins_empty)
next
  case (Cons e obj)
  obtain k v where e: "e = (k, v)" by fastforce
  let ?t = "insert_value t k v"
  have fresh: "k \<notin> fst ` set obj" using Cons.prems(2) e by simp
  have split: "joins (CObject [(k, v)]) (CObject obj) (CObject ((k, v) # obj))"
    unfolding joins_def by (rule view_at_Cons [OF fresh])
  note parts = joins_parts [OF split agree_sym [OF agree_disjoint [OF fresh]] Cons.prems(3) [unfolded e]]
  have t: "joins (CObject t) (CObject [(k, v)]) (CObject ?t)"
    by (rule inserts_wellD [OF _ parts(1)]) (use Cons.prems(1) e in simp)
  have "agree (CObject ?t) (CObject obj)"
    by (rule agree_joins [OF t parts(2) agree_sym [OF agree_disjoint [OF fresh]]])
  from Cons.IH [OF _ _ this] have "joins (CObject ?t) (CObject obj) (CObject (merge_objects obj ?t))"
    using Cons.prems(1,2) by simp
  then show ?case using t split by (simp add: e joins_def)
qed

lemma merged_item_joins:
  assumes "\<And>obj. v = CObject obj \<Longrightarrow> list_all (\<lambda>(k, v). inserts_well v) obj \<and> distinct (map fst obj)"
    and "agree t v" "\<not> is_list_value v"
  shows "joins t v (merged_item t v)"
proof (cases "\<exists>obj. v = CObject obj")
  case True
  then obtain obj where v: "v = CObject obj" by blast
  then obtain m where t: "t = CObject m"
    using agreeD [OF assms(2), of "[]"] by (cases t) auto
  show ?thesis using merge_objects_joins assms(1) [OF v] assms(2) by (simp add: v t merged_item_def)
next
  case False
  then have "t = v" using agree_scalar [OF agree_sym [OF assms(2)] assms(3)] by blast
  moreover from this have "merged_item t v = v" using False
    by (simp add: merged_item_def split: const_value.splits)
  ultimately show ?thesis by (simp only: joins_self)
qed

lemma merge_items_joins:
  assumes "agree (CList ts) (CList vs)"
    and "\<And>t v. v \<in> set vs \<Longrightarrow> agree t v \<Longrightarrow> joins t v (f t v)"
  shows "joins (CList ts) (CList vs) (CList (merge_items f ts vs))"
proof -
  note len = agree_length [OF assms(1)]
  have "joins (ts ! i) (vs ! i) (f (ts ! i) (vs ! i))" if "i < length ts" for i
    using assms(2) agree_item [OF assms(1) that] that len by simp
  moreover have "view_at (CList xs) p =
      (case p of [] \<Rightarrow> Some (ViewList (length xs)) | PIndex i # q \<Rightarrow> if i < length xs then view_at (xs ! i) q else None
       | PField k # q \<Rightarrow> None)" for xs p
    by (cases p rule: list.exhaust) (auto split: path_segment.splits)
  ultimately show ?thesis
    unfolding joins_def
    by (intro ext) (auto simp: merge_items_def len map_add_def split: list.splits path_segment.splits option.splits)
qed

lemma merged_joins:
  assumes "agree prev v"
    and "\<And>obj. v = CObject obj \<Longrightarrow> list_all (\<lambda>(k, v). inserts_well v) obj \<and> distinct (map fst obj)"
    and "\<And>xs x obj. v = CList xs \<Longrightarrow> x \<in> set xs \<Longrightarrow> \<not> is_list_value x \<and>
      (x = CObject obj \<longrightarrow> list_all (\<lambda>(k, v). inserts_well v) obj \<and> distinct (map fst obj))"
  shows "joins prev v (merged prev v)"
proof (cases "is_list_value v")
  case True
  then obtain vs where v: "v = CList vs" by (cases v) auto
  then obtain ts where prev: "prev = CList ts" using agree_list [OF assms(1)] by (cases prev) auto
  have "joins t x (merged_item t x)" if "x \<in> set vs" "agree t x" for t x
    using merged_item_joins [of x t] assms(3) [OF v that(1)] that(2) by blast
  from merge_items_joins [OF assms(1) [unfolded v prev] this] show ?thesis by (simp add: v prev merged_def)
next
  case False
  have "\<not> is_list_value prev" using agree_list [OF assms(1)] False by simp
  then have "merged prev v = merged_item prev v" by (cases prev) (simp_all add: merged_def merged_item_def)
  then show ?thesis using merged_item_joins [OF assms(2,1) False] by simp
qed

lemma insert_value_joins:
  assumes "agree (CObject t) (CObject [(n, v)])" "\<And>prev. agree prev v \<Longrightarrow> joins prev v (merged prev v)"
  shows "joins (CObject t) (CObject [(n, v)]) (CObject (insert_value t n v))"
proof (cases "map_of t n")
  case None
  then show ?thesis
    unfolding joins_def insert_value_eq
    by (intro ext) (auto simp: view_at_update view_at_fields map_add_def split: list.splits path_segment.splits option.splits)
next
  case (Some prev)
  have "joins prev v (merged prev v)" by (rule assms(2), rule agree_field [OF assms(1) Some]) simp
  then show ?thesis
    using Some unfolding joins_def insert_value_eq
    by (intro ext) (auto simp: view_at_update view_at_fields map_add_def split: list.splits path_segment.splits option.splits)
qed

lemma inserts_well_value: "flat v \<Longrightarrow> wf_const v \<Longrightarrow> inserts_well v"
proof (induction v rule: measure_induct_rule [where f = size])
  case (less v)
  have obj: "list_all (\<lambda>(k, v). inserts_well v) obj \<and> distinct (map fst obj)"
    if "size (CObject obj) \<le> size v" "flat (CObject obj)" "wf_const (CObject obj)" for obj
  proof -
    have "inserts_well w" if "(k, w) \<in> set obj" for k w
    proof (rule less.IH)
      show "size w < size v"
        using size_list_snd_less [OF that, of size] \<open>size (CObject obj) \<le> size v\<close> by (simp add: size_prod_snd)
      show "flat w" "wf_const w" using that \<open>flat (CObject obj)\<close> \<open>wf_const (CObject obj)\<close> by (auto simp: list_all_iff)
    qed
    then show ?thesis using that(3) by (auto simp: list_all_iff im_ok_def)
  qed
  have "joins prev v (merged prev v)" if "agree prev v" for prev
  proof (rule merged_joins [OF that])
    show "list_all (\<lambda>(k, v). inserts_well v) obj \<and> distinct (map fst obj)" if "v = CObject obj" for obj
      using obj [of obj] that less.prems by simp
    show "\<not> is_list_value x \<and> (x = CObject obj \<longrightarrow> list_all (\<lambda>(k, v). inserts_well v) obj \<and> distinct (map fst obj))"
      if v: "v = CList xs" "x \<in> set xs" for xs x obj
    proof -
      have "size x \<le> size v" using v by (auto intro: size_list_estimation' le_SucI)
      moreover have "\<not> is_list_value x" "flat x" "wf_const x" using v less.prems by (auto simp: list_all_iff)
      ultimately show ?thesis using obj [of obj] by blast
    qed
  qed
  then show ?case unfolding inserts_well_def using insert_value_joins by blast
qed

subsection \<open>The response\<close>

definition completed_ok :: "('e + 'a) list \<Rightarrow> 'a list" where
  "completed_ok rs = concat (map (\<lambda>r. case r of Inr x \<Rightarrow> [x] | Inl e \<Rightarrow> []) rs)"

definition completed_errors :: "('e + 'a) list \<Rightarrow> 'e list" where
  "completed_errors rs = concat (map (\<lambda>r. case r of Inr x \<Rightarrow> [] | Inl e \<Rightarrow> [e]) rs)"

lemma do_resolve_container_eq:
  "do_resolve_container rs =
     (let results = merge_objects (completed_ok rs) [] in if results = [] then CNull else CObject results, completed_errors rs)"
proof -
  have "fold (\<lambda>res (results, errors). case res of
            Inr (n, val) \<Rightarrow> (insert_value results n val, errors) | Inl e \<Rightarrow> (results, errors @ [e])) rs (m, es) =
      (merge_objects (completed_ok rs) m, es @ completed_errors rs)" for m es
    by (induction rs arbitrary: m es) (auto simp: completed_ok_def completed_errors_def split: sum.splits)
  then show ?thesis by (simp add: do_resolve_container_def Let_def)
qed

text \<open>The results of the fields agree with each other.\<close>

definition results_agree :: "(server_error + name \<times> const_value) list \<Rightarrow> bool" where
  "results_agree rs \<longleftrightarrow>
     (\<forall>e\<in>set (completed_ok rs). flat (snd e) \<and> wf_const (snd e) \<and>
        (\<forall>e'\<in>set (completed_ok rs). agree (CObject [e]) (CObject [e'])))"

lemma joins_iff:
  "joins v w u \<Longrightarrow> agree v w \<Longrightarrow> view_at u p = Some x \<longleftrightarrow> view_at v p = Some x \<or> view_at w p = Some x"
  by (cases "view_at v p") (auto simp: joins_def map_add_def dest: agreeD)

lemma merge_results_views:
  assumes "\<And>e. e \<in> set es \<Longrightarrow> inserts_well (snd e)" "\<And>e. e \<in> set es \<Longrightarrow> agree (CObject t) (CObject [e])"
    and "\<And>e e'. e \<in> set es \<Longrightarrow> e' \<in> set es \<Longrightarrow> agree (CObject [e]) (CObject [e'])"
  shows "view_at (CObject (merge_objects es t)) p = Some x \<longleftrightarrow>
    view_at (CObject t) p = Some x \<or> (\<exists>e\<in>set es. view_at (CObject [e]) p = Some x)"
  using assms
proof (induction es arbitrary: t)
  case (Cons e es)
  obtain k v where e: "e = (k, v)" by fastforce
  have t: "joins (CObject t) (CObject [e]) (CObject (insert_value t k v))"
    unfolding e by (rule inserts_wellD) (use Cons.prems(1,2) [of e] e in auto)
  have "agree (CObject (insert_value t k v)) (CObject [e'])" if "e' \<in> set es" for e'
    by (rule agree_joins [OF t]) (use Cons.prems(2,3) that in auto)
  then have "view_at (CObject (merge_objects es (insert_value t k v))) p = Some x \<longleftrightarrow>
      view_at (CObject (insert_value t k v)) p = Some x \<or> (\<exists>e\<in>set es. view_at (CObject [e]) p = Some x)"
    using Cons.prems by (intro Cons.IH) auto
  then show ?case using joins_iff [OF t Cons.prems(2) [of e]] by (auto simp: e)
qed simp

lemma insert_value_not_empty: "insert_value t k v \<noteq> []"
proof -
  have "AList.update k x m \<noteq> []" for x and m :: "(name, const_value) index_map" by (cases m) auto
  then show ?thesis by (cases "map_of t k") (simp_all add: insert_value_eq)
qed

lemma merge_objects_empty: "merge_objects es t = [] \<longleftrightarrow> es = [] \<and> t = []"
proof (induction es arbitrary: t)
  case (Cons e es)
  then show ?case by (cases e) (simp add: insert_value_not_empty)
qed simp

text \<open>At every path the response has exactly what one of the results has there.\<close>

lemma response_views:
  assumes "results_agree rs" "completed_ok rs \<noteq> []"
  shows "view_at (fst (do_resolve_container rs)) p = Some x \<longleftrightarrow>
    p = [] \<and> x = ViewObject \<or> (\<exists>e\<in>set (completed_ok rs). view_at (CObject [e]) p = Some x)"
proof -
  have "view_at (CObject (merge_objects (completed_ok rs) [])) p = Some x \<longleftrightarrow>
      view_at (CObject []) p = Some x \<or> (\<exists>e\<in>set (completed_ok rs). view_at (CObject [e]) p = Some x)"
  proof (rule merge_results_views)
    show "agree (CObject []) (CObject [e])" for e
      by (rule agreeI) (auto simp: view_at_fields split: list.splits path_segment.splits)
  qed (use assms(1) in \<open>auto simp: results_agree_def intro!: inserts_well_value\<close>)
  then show ?thesis
    using assms(2)
    by (auto simp: do_resolve_container_eq merge_objects_empty view_at_fields [of "[]"] split: list.splits path_segment.splits)
qed

lemma completed_permuted:
  assumes "mset rs = mset rs'"
  shows "set (completed_ok rs) = set (completed_ok rs')" "mset (completed_errors rs) = mset (completed_errors rs')"
proof -
  show "set (completed_ok rs) = set (completed_ok rs')"
    using mset_eq_setD [OF assms] by (simp add: completed_ok_def)
  have "mset (completed_errors xs) = \<Sum>\<^sub># (image_mset (\<lambda>r. mset (case r of Inr x \<Rightarrow> [] | Inl e \<Rightarrow> [e])) (mset xs))" for xs :: "('a + 'b) list"
    by (induction xs) (simp_all add: completed_errors_def)
  then show "mset (completed_errors rs) = mset (completed_errors rs')" by (simp add: assms)
qed

lemma response_permuted:
  assumes "results_agree rs" "mset rs = mset rs'"
  shows "view_at (fst (do_resolve_container rs)) = view_at (fst (do_resolve_container rs'))"
    and "mset (snd (do_resolve_container rs)) = mset (snd (do_resolve_container rs'))"
proof -
  note perm = completed_permuted [OF assms(2)]
  have agree': "results_agree rs'" using assms(1) perm(1) by (simp add: results_agree_def)
  show "view_at (fst (do_resolve_container rs)) = view_at (fst (do_resolve_container rs'))"
  proof (cases "completed_ok rs = []")
    case True
    then show ?thesis using perm(1) by (simp add: do_resolve_container_eq)
  next
    case False
    then have "completed_ok rs' \<noteq> []" using perm(1) by auto
    then have "view_at (fst (do_resolve_container rs)) p = Some x \<longleftrightarrow>
        view_at (fst (do_resolve_container rs')) p = Some x" for p x
      using response_views [OF assms(1) False] response_views [OF agree'] perm(1) by simp
    then show ?thesis by (intro ext) (metis not_Some_eq)
  qed
  show "mset (snd (do_resolve_container rs)) = mset (snd (do_resolve_container rs'))"
    using perm(2) by (simp add: do_resolve_container_eq)
qed

text \<open>Objects in a list of lists are not merged: the fields of the second result are lost.\<close>

lemma nested_list_fields_lost:
  "merged (CList [CList [CObject [(a, x)]]]) (CList [CList [CObject [(b, y)]]]) = CList [CList [CObject [(a, x)]]]"
  by (simp add: merged_def merge_items_def merged_item_def)

end
