(* ===== verification/Parser_Grammar.thy ===== *)
theory Parser_Grammar
  imports Parser_Pairs
begin

text \<open>
  The pairs that \<open>parser/src/graphql.pest\<close> admits, and the rules to check a parsing function against them.

  \<open>grammar r\<close> lists the alternatives of the rule \<open>r\<close>, each the sequence of rules that leave pairs: literals
  and lookahead leave none, and a rule declared atomic (\<open>@\<close>) has no pairs below it. A repetition is
  greedy, as in a parsing expression grammar. \<open>token_text\<close> is the text of the rules the parser inspects.
\<close>

subsection \<open>The grammar\<close>

datatype item = One rule | Opt rule | Many rule

fun items_match :: "item list \<Rightarrow> rule list \<Rightarrow> bool" where
  "items_match [] rs \<longleftrightarrow> rs = []"
| "items_match (One r # is) rs \<longleftrightarrow> (case rs of [] \<Rightarrow> False | r' # rs' \<Rightarrow> r' = r \<and> items_match is rs')"
| "items_match (Opt r # is) rs \<longleftrightarrow>
     (case rs of [] \<Rightarrow> items_match is [] | r' # rs' \<Rightarrow> if r' = r then items_match is rs' else items_match is rs)"
| "items_match (Many r # is) rs \<longleftrightarrow> items_match is (dropWhile (\<lambda>r'. r' = r) rs)"

definition choice :: "rule list \<Rightarrow> item list list" where
  "choice rs = map (\<lambda>r. [One r]) rs"

fun grammar :: "rule \<Rightarrow> item list list" where
  "grammar R_executable_document = [[One R_executable_definition, Many R_executable_definition, One R_EOI]]"
| "grammar R_executable_definition = choice [R_operation_definition, R_fragment_definition]"
| "grammar R_operation_definition = choice [R_named_operation_definition, R_selection_set]"
| "grammar R_named_operation_definition =
     [[One R_operation_type, Opt R_name, Opt R_variable_definitions, Opt R_directives, One R_selection_set]]"
| "grammar R_variable_definitions = [[Many R_variable_definition]]"
| "grammar R_variable_definition = [[One R_variable, One R_type, Opt R_directives, Opt R_default_value]]"
| "grammar R_selection_set = [[One R_selection, Many R_selection]]"
| "grammar R_selection = choice [R_field, R_inline_fragment, R_fragment_spread]"
| "grammar R_field = [[Opt R_alias, One R_name, Opt R_arguments, Opt R_directives, Opt R_selection_set]]"
| "grammar R_alias = [[One R_name]]"
| "grammar R_fragment_spread = [[One R_name, Opt R_directives]]"
| "grammar R_inline_fragment = [[Opt R_type_condition, Opt R_directives, One R_selection_set]]"
| "grammar R_fragment_definition = [[One R_name, One R_type_condition, Opt R_directives, One R_selection_set]]"
| "grammar R_type_condition = [[One R_name]]"
| "grammar R_service_document = [[One R_type_system_definition, Many R_type_system_definition, One R_EOI]]"
| "grammar R_type_system_definition = choice [R_schema_definition, R_type_definition, R_directive_definition]"
| "grammar R_schema_definition =
     [[Opt R_const_directives, One R_operation_type_definition, Many R_operation_type_definition],
      [One R_extend, Opt R_const_directives, One R_operation_type_definition, Many R_operation_type_definition],
      [One R_extend, One R_const_directives]]"
| "grammar R_operation_type_definition = [[One R_operation_type, One R_name]]"
| "grammar R_type_definition =
     choice [R_scalar_type, R_object_type, R_interface_type, R_union_type, R_enum_type, R_input_object_type]"
| "grammar R_scalar_type =
     [[Opt R_string, One R_name, Opt R_const_directives], [One R_extend, One R_name, One R_const_directives]]"
| "grammar R_object_type =
     [[Opt R_string, One R_name, Opt R_implements_interfaces, Opt R_const_directives, Opt R_fields_definition],
      [One R_extend, One R_name, Opt R_implements_interfaces, Opt R_const_directives, One R_fields_definition],
      [One R_extend, One R_name, Opt R_implements_interfaces, One R_const_directives],
      [One R_extend, One R_name, One R_implements_interfaces]]"
| "grammar R_implements_interfaces = [[One R_name, Many R_name]]"
| "grammar R_interface_type =
     [[Opt R_string, One R_name, Opt R_implements_interfaces, Opt R_const_directives, Opt R_fields_definition],
      [One R_extend, One R_name, Opt R_implements_interfaces, Opt R_const_directives, One R_fields_definition],
      [One R_extend, One R_name, Opt R_implements_interfaces, One R_const_directives]]"
| "grammar R_fields_definition = [[One R_field_definition, Many R_field_definition]]"
| "grammar R_field_definition =
     [[Opt R_string, One R_name, Opt R_arguments_definition, One R_type, Opt R_const_directives]]"
| "grammar R_union_type =
     [[Opt R_string, One R_name, Opt R_const_directives, Opt R_union_member_types],
      [One R_extend, One R_name, Opt R_const_directives, One R_union_member_types],
      [One R_extend, One R_name, One R_const_directives]]"
| "grammar R_union_member_types = [[One R_name, Many R_name]]"
| "grammar R_enum_type =
     [[Opt R_string, One R_name, Opt R_const_directives, Opt R_enum_values],
      [One R_extend, One R_name, Opt R_const_directives, One R_enum_values],
      [One R_extend, One R_name, One R_const_directives]]"
| "grammar R_enum_values = [[One R_enum_value_definition, Many R_enum_value_definition]]"
| "grammar R_enum_value_definition = [[Opt R_string, One R_enum_value, Opt R_const_directives]]"
| "grammar R_input_object_type =
     [[Opt R_string, One R_name, Opt R_const_directives, Opt R_input_fields_definition],
      [One R_extend, One R_name, Opt R_const_directives, One R_input_fields_definition],
      [One R_extend, One R_name, One R_const_directives]]"
| "grammar R_input_fields_definition = [[One R_input_value_definition, Many R_input_value_definition]]"
| "grammar R_directive_definition =
     [[Opt R_string, One R_name, Opt R_arguments_definition, One R_repeatable, One R_directive_locations]]"
| "grammar R_directive_locations = [[One R_directive_location, Many R_directive_location]]"
| "grammar R_arguments_definition = [[One R_input_value_definition, Many R_input_value_definition]]"
| "grammar R_input_value_definition =
     [[Opt R_string, One R_name, One R_type, Opt R_default_value, Opt R_const_directives]]"
| "grammar R_default_value = [[One R_const_value]]"
| "grammar R_const_value =
     choice [R_number, R_string, R_boolean, R_null, R_enum_value, R_const_list, R_const_object]"
| "grammar R_value =
     choice [R_variable, R_number, R_string, R_boolean, R_null, R_enum_value, R_list, R_object]"
| "grammar R_variable = [[One R_name]]"
| "grammar R_string = choice [R_block_string_content, R_string_content]"
| "grammar R_enum_value = [[One R_name]]"
| "grammar R_const_list = [[Many R_const_value]]"
| "grammar R_list = [[Many R_value]]"
| "grammar R_const_object = [[Many R_const_object_field]]"
| "grammar R_object = [[Many R_object_field]]"
| "grammar R_const_object_field = [[One R_name, One R_const_value]]"
| "grammar R_object_field = [[One R_name, One R_value]]"
| "grammar R_const_directives = [[One R_const_directive, Many R_const_directive]]"
| "grammar R_directives = [[One R_directive, Many R_directive]]"
| "grammar R_const_directive = [[One R_name, Opt R_const_arguments]]"
| "grammar R_directive = [[One R_name, Opt R_arguments]]"
| "grammar R_const_arguments = [[One R_const_argument, Many R_const_argument]]"
| "grammar R_arguments = [[One R_argument, Many R_argument]]"
| "grammar R_const_argument = [[One R_name, One R_const_value]]"
| "grammar R_argument = [[One R_name, One R_value]]"
| "grammar _ = [[]]"

text \<open>The text of a name, of a type, and of the content of a quoted string.\<close>

definition is_name_start :: "char \<Rightarrow> bool" where
  "is_name_start c \<longleftrightarrow>
     (let n = of_char c :: nat in 65 \<le> n \<and> n \<le> 90 \<or> 97 \<le> n \<and> n \<le> 122 \<or> c = CHR ''_'')"

definition is_digit :: "char \<Rightarrow> bool" where
  "is_digit c \<longleftrightarrow> (let n = of_char c :: nat in 48 \<le> n \<and> n \<le> 57)"

fun name_text :: "string \<Rightarrow> bool" where
  "name_text [] \<longleftrightarrow> False"
| "name_text (c # cs) \<longleftrightarrow> is_name_start c \<and> list_all (\<lambda>c. is_name_start c \<or> is_digit c) cs"

inductive type_text :: "string \<Rightarrow> bool" where
  "name_text n \<Longrightarrow> type_text n"
| "name_text n \<Longrightarrow> type_text (n @ ''!'')"
| "type_text t \<Longrightarrow> type_text (''['' @ t @ '']'')"
| "type_text t \<Longrightarrow> type_text (''['' @ t @ '']!'')"

definition hex_digit :: "char \<Rightarrow> nat option" where
  "hex_digit c =
     (let n = of_char c :: nat
      in if 48 \<le> n \<and> n \<le> 57 then Some (n - 48)
         else if 97 \<le> n \<and> n \<le> 102 then Some (n - 87)
         else if 65 \<le> n \<and> n \<le> 70 then Some (n - 55)
         else None)"

fun surrogate_start :: "char \<Rightarrow> char \<Rightarrow> bool" where
  "surrogate_start a b \<longleftrightarrow>
     hex_digit a = Some 13 \<and> (case hex_digit b of Some d \<Rightarrow> 8 \<le> d | None \<Rightarrow> False)"

fun string_text :: "string \<Rightarrow> bool" where
  "string_text [] \<longleftrightarrow> True"
| "string_text (c # s) \<longleftrightarrow>
     (if c = CHR 0x5C then
        (case s of
           [] \<Rightarrow> False
         | e # s' \<Rightarrow>
             if e = CHR ''u'' then
               (case s' of
                  h1 # h2 # h3 # h4 # s'' \<Rightarrow>
                    list_all (\<lambda>h. hex_digit h \<noteq> None) [h1, h2, h3, h4] \<and>
                    \<not> surrogate_start h1 h2 \<and> string_text s''
                | _ \<Rightarrow> False)
             else e \<in> set [CHR 0x22, CHR 0x5C, CHR ''/'', CHR ''b'', CHR ''f'', CHR ''n'', CHR ''r'', CHR ''t''] \<and>
                  string_text s')
      else c \<notin> set [CHR 0x22, CHR 0x0A, CHR 0x0D] \<and> string_text s)"

text \<open>In UTF-8 a byte that continues a character does not follow an ASCII character.\<close>

fun stray_free :: "bool \<Rightarrow> string \<Rightarrow> bool" where
  "stray_free b [] \<longleftrightarrow> True"
| "stray_free b (c # s) \<longleftrightarrow> (is_continuation c \<longrightarrow> b) \<and> stray_free (128 \<le> (of_char c :: nat)) s"

abbreviation utf8_text :: "string \<Rightarrow> bool" where
  "utf8_text s \<equiv> stray_free False s"

definition directive_location_names :: "string list" where
  "directive_location_names =
     [''QUERY'', ''MUTATION'', ''SUBSCRIPTION'', ''FIELD_DEFINITION'', ''FIELD'', ''FRAGMENT_DEFINITION'',
      ''FRAGMENT_SPREAD'', ''INLINE_FRAGMENT'', ''VARIABLE_DEFINITION'', ''SCHEMA'', ''SCALAR'', ''OBJECT'',
      ''ARGUMENT_DEFINITION'', ''INTERFACE'', ''UNION'', ''ENUM_VALUE'', ''ENUM'', ''INPUT_OBJECT'',
      ''INPUT_FIELD_DEFINITION'']"

fun token_text :: "rule \<Rightarrow> string \<Rightarrow> bool" where
  "token_text R_operation_type s \<longleftrightarrow> s \<in> set [''query'', ''mutation'', ''subscription'']"
| "token_text R_boolean s \<longleftrightarrow> s \<in> set [''true'', ''false'']"
| "token_text R_name s \<longleftrightarrow> name_text s"
| "token_text R_type s \<longleftrightarrow> type_text s"
| "token_text R_string_content s \<longleftrightarrow> string_text s"
| "token_text R_block_string_content s \<longleftrightarrow> utf8_text s"
| "token_text R_directive_location s \<longleftrightarrow> s \<in> set directive_location_names"
| "token_text _ s \<longleftrightarrow> True"

fun ordered :: "nat \<Rightarrow> pair list \<Rightarrow> nat \<Rightarrow> bool" where
  "ordered lo [] hi \<longleftrightarrow> lo \<le> hi"
| "ordered lo (p # ps) hi \<longleftrightarrow> lo \<le> p_start p \<and> p_start p \<le> p_end p \<and> ordered (p_end p) ps hi"

fun conforms_pair :: "string \<Rightarrow> pair \<Rightarrow> bool" where
  "conforms_pair input (Pair rule str start finish inner) \<longleftrightarrow>
     list_ex (\<lambda>is. items_match is (map p_rule inner)) (grammar rule) \<and> token_text rule str \<and>
     is_char_boundary input start \<and> ordered start inner finish \<and> list_all (conforms_pair input) inner"

lemma conforms_pair_iff:
  "conforms_pair input p \<longleftrightarrow>
     list_ex (\<lambda>is. items_match is (map p_rule (p_inner p))) (grammar (p_rule p)) \<and>
     token_text (p_rule p) (p_str p) \<and> is_char_boundary input (p_start p) \<and>
     ordered (p_start p) (p_inner p) (p_end p) \<and> list_all (conforms_pair input) (p_inner p)"
  by (cases p) simp

lemma ordered_le: "ordered lo ps hi \<Longrightarrow> lo \<le> hi"
  by (induction ps arbitrary: lo) force+

lemma ordered_mono: "ordered lo ps hi \<Longrightarrow> lo' \<le> lo \<Longrightarrow> ordered lo' ps hi"
  by (cases ps) auto

subsection \<open>Positions\<close>

text \<open>Line and column of an offset: the line feeds before it, and the characters after the last line feed or
  carriage return before it, both counted from one.\<close>

definition line_col :: "string \<Rightarrow> nat \<Rightarrow> nat \<times> nat" where
  "line_col input n =
     (let before = take n input
      in (1 + length (filter (\<lambda>c. c = CHR 0x0A) before),
          1 + length (filter (\<lambda>c. \<not> is_continuation c)
                (takeWhile (\<lambda>c. c \<noteq> CHR 0x0A \<and> c \<noteq> CHR 0x0D) (rev before)))))"

definition pos_of :: "string \<Rightarrow> nat \<Rightarrow> pos" where
  "pos_of input n = (case line_col input n of (l, k) \<Rightarrow> Pos l k)"

lemma fold_advance:
  "fold advance s (1, 1) =
     (1 + length (filter (\<lambda>c. c = CHR 0x0A) s),
      1 + length (filter (\<lambda>c. \<not> is_continuation c)
            (takeWhile (\<lambda>c. c \<noteq> CHR 0x0A \<and> c \<noteq> CHR 0x0D) (rev s))))"
  by (induction s rule: rev_induct) (auto simp: advance_def)

lemma line_col_fold: "line_col input n = fold advance (take n input) (1, 1)"
  by (simp only: line_col_def fold_advance Let_def)

definition pc_ok :: "string \<Rightarrow> position_calculator \<Rightarrow> bool" where
  "pc_ok input pc \<longleftrightarrow>
     pc_input pc = drop (pc_pos pc) input \<and> is_char_boundary input (pc_pos pc) \<and>
     (pc_line pc, pc_column pc) = line_col input (pc_pos pc)"

lemma is_char_boundary_le: "is_char_boundary s n \<Longrightarrow> n \<le> length s"
  by (auto simp: is_char_boundary_def)

lemma is_char_boundary_drop:
  "is_char_boundary s m \<Longrightarrow> n \<le> m \<Longrightarrow> is_char_boundary (drop n s) (m - n)"
  by (auto simp: is_char_boundary_def)

lemma pc_ok_new: "pc_ok input (position_calculator_new input)"
  by (auto simp: pc_ok_def position_calculator_new_def is_char_boundary_def line_col_def)

lemma line_col_step:
  assumes "n \<le> m"
  shows "fold advance (take (m - n) (drop n input)) (line_col input n) = line_col input m"
proof -
  have "take n input @ take (m - n) (drop n input) = take m input"
    using assms by (metis le_add_diff_inverse take_add)
  then show ?thesis by (metis comp_apply fold_append line_col_fold)
qed

lemma pc_step_pos:
  assumes "pc_ok input pc" "is_char_boundary input (p_start pair)" "pc_pos pc \<le> p_start pair"
  obtains pc' where "pc_step pair pc = Inr (pos_of input (p_start pair), pc')" "pc_ok input pc'"
    "pc_pos pc' = p_start pair"
proof -
  obtain l k where lk: "line_col input (p_start pair) = (l, k)" by fastforce
  then have "fold advance (take (p_start pair - pc_pos pc) (pc_input pc)) (pc_line pc, pc_column pc) = (l, k)"
    using line_col_step [OF assms(3), of input] assms(1) by (simp add: pc_ok_def)
  moreover have "is_char_boundary (pc_input pc) (p_start pair - pc_pos pc)"
    using assms is_char_boundary_drop by (simp add: pc_ok_def)
  ultimately show ?thesis
    using assms lk
    by (intro that [of "\<lparr>pc_input = drop (p_start pair - pc_pos pc) (pc_input pc), pc_pos = p_start pair,
          pc_line = l, pc_column = k\<rparr>"])
       (auto simp: pc_step_def Let_def pos_of_def pc_ok_def)
qed

lemma pmap_pc_step:
  assumes "pc_ok input pc" "sorted (map p_start ps)" "list_all (\<lambda>p. is_char_boundary input (p_start p)) ps"
    and "ps = [] \<or> pc_pos pc \<le> p_start (hd ps)"
  shows "\<exists>pc'. pmap pc_step ps pc = Inr (map (\<lambda>p. pos_of input (p_start p)) ps, pc')"
  using assms
proof (induction ps arbitrary: pc)
  case (Cons p ps)
  obtain pc' where step: "pc_step p pc = Inr (pos_of input (p_start p), pc')" "pc_ok input pc'" "pc_pos pc' = p_start p"
    using pc_step_pos [of input pc p] Cons.prems by auto
  have "ps = [] \<or> pc_pos pc' \<le> p_start (hd ps)" using Cons.prems(2) step(3) by (cases ps) auto
  then obtain pc'' where "pmap pc_step ps pc' = Inr (map (\<lambda>p. pos_of input (p_start p)) ps, pc'')"
    using Cons.IH [of pc'] Cons.prems step(2) by auto
  then show ?case using step(1) by (auto simp: pbind_def preturn_def)
qed (simp add: preturn_def)

subsection \<open>Checking a parsing function\<close>

text \<open>From a state with \<open>P\<close>, \<open>m\<close> does not panic, and if it succeeds, its value and state have \<open>Q\<close>.\<close>

definition triple ::
  "(position_calculator \<Rightarrow> bool) \<Rightarrow> 'a parser \<Rightarrow> ('a \<Rightarrow> position_calculator \<Rightarrow> bool) \<Rightarrow> bool" where
  "triple P m Q \<longleftrightarrow>
     (\<forall>pc. P pc \<longrightarrow> m pc \<noteq> Inl Panicked \<and> (\<forall>x pc'. m pc = Inr (x, pc') \<longrightarrow> Q x pc'))"

lemma triple_bind:
  "triple P m Q \<Longrightarrow> (\<And>x. triple (Q x) (f x) R) \<Longrightarrow> triple P (pbind m f) R"
  by (fastforce simp: triple_def pbind_def split: sum.splits)

lemma triple_conseq:
  "triple P m Q \<Longrightarrow> (\<And>pc. P' pc \<Longrightarrow> P pc) \<Longrightarrow> (\<And>x pc. Q x pc \<Longrightarrow> Q' x pc) \<Longrightarrow> triple P' m Q'"
  unfolding triple_def by blast

lemma triple_return: "(\<And>pc. P pc \<Longrightarrow> Q x pc) \<Longrightarrow> triple P (preturn x) Q"
  by (auto simp: triple_def preturn_def)

lemma triple_fail: "triple P (pfail (Failed e)) Q"
  by (auto simp: triple_def pfail_def)

definition at_most :: "string \<Rightarrow> nat \<Rightarrow> position_calculator \<Rightarrow> bool" where
  "at_most input n pc \<longleftrightarrow> pc_ok input pc \<and> pc_pos pc \<le> n"

text \<open>The pairs that are left match the items that are left, lie between the calculator's position and
  the end of the enclosing pair, and are smaller than \<open>n\<close>.\<close>

definition ready ::
  "string \<Rightarrow> nat \<Rightarrow> nat \<Rightarrow> item list \<Rightarrow> pair list \<Rightarrow> position_calculator \<Rightarrow> bool" where
  "ready input n hi is ps pc \<longleftrightarrow>
     (\<exists>lo. at_most input lo pc \<and> ordered lo ps hi) \<and> items_match is (map p_rule ps) \<and>
     list_all (\<lambda>p. conforms_pair input p \<and> size p < n) ps"

text \<open>\<open>f\<close> parses the pairs of the rule \<open>r\<close> that are smaller than \<open>n\<close>, with results that have \<open>Q\<close>.\<close>

definition parses :: "string \<Rightarrow> nat \<Rightarrow> rule \<Rightarrow> (pair \<Rightarrow> 'a parser) \<Rightarrow> ('a \<Rightarrow> bool) \<Rightarrow> bool" where
  "parses input n r f Q \<longleftrightarrow>
     (\<forall>p. conforms_pair input p \<longrightarrow> p_rule p = r \<longrightarrow> size p < n \<longrightarrow>
        triple (at_most input (p_start p)) (f p) (\<lambda>x pc. at_most input (p_end p) pc \<and> Q x))"

lemma parsesI:
  "(\<And>p. conforms_pair input p \<Longrightarrow> p_rule p = r \<Longrightarrow> size p < n \<Longrightarrow>
      triple (at_most input (p_start p)) (f p) (\<lambda>x pc. at_most input (p_end p) pc \<and> Q x)) \<Longrightarrow>
   parses input n r f Q"
  by (simp add: parses_def)

lemma parses_mono: "parses input n r f Q \<Longrightarrow> m \<le> n \<Longrightarrow> parses input m r f Q"
  by (auto simp: parses_def)

lemma at_most_mono: "at_most input n pc \<Longrightarrow> n \<le> m \<Longrightarrow> at_most input m pc"
  by (auto simp: at_most_def)

lemma ready_done: "ready input n hi is ps pc \<Longrightarrow> at_most input hi pc"
  by (meson at_most_mono ordered_le ready_def)

lemma ready_start:
  assumes "conforms_pair input p" "at_most input (p_start p) pc"
  shows "\<exists>is\<in>set (grammar (p_rule p)). ready input (size p) (p_end p) is (p_inner p) pc"
proof -
  obtain "is" where "is \<in> set (grammar (p_rule p))" "items_match is (map p_rule (p_inner p))"
    using assms(1) unfolding conforms_pair_iff [of input p] list_ex_iff by blast
  moreover have "list_all (\<lambda>q. conforms_pair input q \<and> size q < size p) (p_inner p)"
    using assms(1) size_inner unfolding conforms_pair_iff [of input p] list_all_iff by blast
  moreover have "ordered (p_start p) (p_inner p) (p_end p)"
    using assms(1) unfolding conforms_pair_iff [of input p] by blast
  ultimately show ?thesis using assms(2) unfolding ready_def by blast
qed

lemma triple_ready:
  "conforms_pair input p \<Longrightarrow>
   (\<And>is. is \<in> set (grammar (p_rule p)) \<Longrightarrow> triple (ready input (size p) (p_end p) is (p_inner p)) m R) \<Longrightarrow>
   triple (at_most input (p_start p)) m R"
  unfolding triple_def using ready_start by blast

lemma triple_step:
  assumes "conforms_pair input p"
    and "\<And>is. is \<in> set (grammar (p_rule p)) \<Longrightarrow>
      triple (ready input (size p) (p_end p) is (p_inner p)) (g (pos_of input (p_start p))) R"
  shows "triple (at_most input (p_start p)) (pbind (pc_step p) g) R"
proof (rule triple_bind)
  show "triple (at_most input (p_start p)) (pc_step p)
      (\<lambda>x pc. x = pos_of input (p_start p) \<and> at_most input (p_start p) pc)"
    unfolding triple_def
  proof (intro allI impI)
    fix pc assume "at_most input (p_start p) pc"
    then obtain pc' where "pc_step p pc = Inr (pos_of input (p_start p), pc')" "pc_ok input pc'"
      "pc_pos pc' = p_start p"
      using pc_step_pos [of input pc p] assms(1) by (auto simp: at_most_def conforms_pair_iff)
    then show "pc_step p pc \<noteq> Inl Panicked \<and> (\<forall>x pc'. pc_step p pc = Inr (x, pc') \<longrightarrow>
        x = pos_of input (p_start p) \<and> at_most input (p_start p) pc')"
      by (auto simp: at_most_def)
  qed
  show "triple (\<lambda>pc. x = pos_of input (p_start p) \<and> at_most input (p_start p) pc) (g x) R" for x
    using triple_ready [OF assms(1), of "g x" R] assms(2) by (fastforce simp: triple_def)
qed

subsection \<open>Rules for sequences of pairs\<close>

fun starts :: "item list \<Rightarrow> rule \<Rightarrow> bool" where
  "starts [] r \<longleftrightarrow> False"
| "starts (One r' # is) r \<longleftrightarrow> r = r'"
| "starts (Opt r' # is) r \<longleftrightarrow> r = r' \<or> starts is r"
| "starts (Many r' # is) r \<longleftrightarrow> r = r' \<or> starts is r"

lemma items_match_starts: "items_match is (r # rs) \<Longrightarrow> starts is r"
proof (induction "is")
  case (Cons i "is")
  then show ?case by (cases i) (auto split: if_splits)
qed simp

lemma triple_child:
  assumes "parses input n r f Q" "conforms_pair input p" "p_rule p = r" "size p < n"
    and "\<And>pc. P pc \<Longrightarrow> at_most input (p_start p) pc"
    and "\<And>x. Q x \<Longrightarrow> triple (at_most input (p_end p)) (g x) R"
  shows "triple P (pbind (f p) g) R"
proof (rule triple_bind)
  show "triple P (f p) (\<lambda>x pc. Q x \<and> at_most input (p_end p) pc)"
    by (rule triple_conseq [where P = "at_most input (p_start p)" and
          Q = "\<lambda>x pc. at_most input (p_end p) pc \<and> Q x"])
       (use assms(1-5) in \<open>auto simp: parses_def\<close>)
  show "triple (\<lambda>pc. Q x \<and> at_most input (p_end p) pc) (g x) R" for x
    using assms(6) by (fastforce simp: triple_def)
qed

lemma ready_Cons:
  "ready input n hi is (p # ps) pc \<Longrightarrow>
   conforms_pair input p \<and> size p < n \<and> at_most input (p_start p) pc \<and> ordered (p_end p) ps hi \<and>
   list_all (\<lambda>p. conforms_pair input p \<and> size p < n) ps \<and> items_match is (p_rule p # map p_rule ps)"
  by (auto simp: ready_def intro: at_most_mono)

text \<open>The first pair is parsed by \<open>f\<close>, and what follows starts where it ends.\<close>

lemma triple_first:
  assumes f: "parses input n r f Q"
    and match: "\<And>pc. ready input n hi is (p # ps) pc \<Longrightarrow> p_rule p = r \<and> items_match is' (map p_rule ps)"
    and g: "\<And>x. Q x \<Longrightarrow> triple (ready input n hi is' ps) (g x) R"
  shows "triple (ready input n hi is (p # ps)) (pbind (f p) g) R"
proof -
  have "triple (ready input n hi is (p # ps)) (pbind (f p) g) R" if "ready input n hi is (p # ps) pc" for pc
  proof (rule triple_child [OF f])
    show "triple (at_most input (p_end p)) (g x) R" if "Q x" for x
      using g [OF that] match [OF \<open>ready input n hi is (p # ps) pc\<close>]
        ready_Cons [OF \<open>ready input n hi is (p # ps) pc\<close>]
      by (auto simp: triple_def ready_def)
  qed (use match that in \<open>auto dest: ready_Cons\<close>)
  then show ?thesis by (fastforce simp: triple_def)
qed

lemma seq_next:
  assumes "parses input n r f Q" "\<And>x qs. Q x \<Longrightarrow> triple (ready input n hi is qs) (g x qs) R"
  shows "triple (ready input n hi (One r # is) ps) (pbind (parse_next ps f) (\<lambda>(x, qs). g x qs)) R"
proof (cases ps)
  case Nil
  then show ?thesis by (simp add: triple_def ready_def)
next
  case (Cons p qs)
  have "pbind (parse_next ps f) (\<lambda>(x, qs). g x qs) = pbind (f p) (\<lambda>x. g x qs)"
    by (rule ext) (simp add: Cons parse_next_def pbind_def preturn_def split: sum.splits)
  moreover have "triple (ready input n hi (One r # is) (p # qs)) (pbind (f p) (\<lambda>x. g x qs)) R"
    by (rule triple_first [OF assms(1), where is' = "is"]) (auto dest: ready_Cons intro: assms(2))
  ultimately show ?thesis by (simp add: Cons)
qed

lemma parse_if_rule_other:
  "(\<And>p qs. ps = p # qs \<Longrightarrow> p_rule p \<noteq> r) \<Longrightarrow>
   pbind (parse_if_rule ps r f) (\<lambda>(x, qs). g x qs) = g None ps"
  by (rule ext) (cases ps, auto simp: parse_if_rule_def next_if_rule_def pbind_def preturn_def)

lemma parse_if_rule_this:
  "p_rule p = r \<Longrightarrow>
   pbind (parse_if_rule (p # ps) r f) (\<lambda>(x, qs). g x qs) = pbind (f p) (\<lambda>x. g (Some x) ps)"
  by (rule ext) (auto simp: parse_if_rule_def next_if_rule_def pbind_def preturn_def split: sum.splits)

lemma seq_if_skip:
  assumes "\<not> starts is r" "triple (ready input n hi is ps) (g None ps) R"
  shows "triple (ready input n hi is ps) (pbind (parse_if_rule ps r f) (\<lambda>(x, qs). g x qs)) R"
proof (cases "\<exists>p qs. ps = p # qs \<and> p_rule p = r")
  case True
  then show ?thesis using assms(1) by (auto simp: triple_def dest!: ready_Cons items_match_starts)
next
  case False
  then show ?thesis using assms(2) by (subst parse_if_rule_other) auto
qed

lemma seq_if_opt:
  assumes "parses input n r f Q"
    and "\<And>x qs. pred_option Q x \<Longrightarrow> triple (ready input n hi is qs) (g x qs) R"
  shows "triple (ready input n hi (Opt r # is) ps) (pbind (parse_if_rule ps r f) (\<lambda>(x, qs). g x qs)) R"
proof (cases "\<exists>p qs. ps = p # qs \<and> p_rule p = r")
  case True
  then obtain p qs where ps: "ps = p # qs" "p_rule p = r" by blast
  have "triple (ready input n hi (Opt r # is) (p # qs)) (pbind (f p) (\<lambda>x. g (Some x) qs)) R"
    by (rule triple_first [OF assms(1), where is' = "is"]) (use ps in \<open>auto dest: ready_Cons intro: assms(2)\<close>)
  then show ?thesis by (simp only: ps(1) parse_if_rule_this [OF ps(2)])
next
  case False
  have "triple (ready input n hi is ps) (g None ps) R" by (rule assms(2)) simp
  then have "triple (ready input n hi (Opt r # is) ps) (g None ps) R"
    by (rule triple_conseq) (use False in \<open>cases ps; auto simp: ready_def\<close>)
  then show ?thesis using False by (subst parse_if_rule_other) auto
qed

lemma seq_if_one:
  assumes "parses input n r f Q"
    and "\<And>x qs. Q x \<Longrightarrow> triple (ready input n hi is qs) (g (Some x) qs) R"
  shows "triple (ready input n hi (One r # is) ps) (pbind (parse_if_rule ps r f) (\<lambda>(x, qs). g x qs)) R"
proof (cases "\<exists>p qs. ps = p # qs \<and> p_rule p = r")
  case True
  then obtain p qs where ps: "ps = p # qs" "p_rule p = r" by blast
  have "triple (ready input n hi (One r # is) (p # qs)) (pbind (f p) (\<lambda>x. g (Some x) qs)) R"
    by (rule triple_first [OF assms(1), where is' = "is"]) (use ps in \<open>auto dest: ready_Cons intro: assms(2)\<close>)
  then show ?thesis by (simp only: ps(1) parse_if_rule_this [OF ps(2)])
next
  case False
  then show ?thesis by (cases ps) (auto simp: triple_def ready_def)
qed

lemma seq_end:
  assumes "triple (ready input n hi [] []) (g ()) R"
  shows "triple (ready input n hi [] ps) (pbind (expect_end ps) g) R"
proof (cases ps)
  case Nil
  have "pbind (expect_end []) g = g ()" by (rule ext) (simp add: expect_end_def pbind_def preturn_def)
  then show ?thesis using assms Nil by simp
qed (simp add: triple_def ready_def)

lemma seq_return:
  "Q x \<Longrightarrow> triple (ready input n hi is ps) (preturn x) (\<lambda>x pc. at_most input hi pc \<and> Q x)"
  by (auto intro!: triple_return dest: ready_done)

lemma seq_exactly_one:
  assumes "\<And>p. conforms_pair input p \<Longrightarrow> size p < n \<Longrightarrow> p_rule p = r \<Longrightarrow> p_end p \<le> hi \<Longrightarrow>
    triple (at_most input (p_start p)) (f p) R"
  shows "triple (ready input n hi [One r] ps) (exactly_one ps f) R"
proof (cases "\<exists>p. ps = [p] \<and> p_rule p = r")
  case True
  then obtain p where ps: "ps = [p]" "p_rule p = r" by blast
  then show ?thesis using assms [of p] by (fastforce simp: exactly_one_def triple_def dest: ready_Cons)
next
  case False
  then show ?thesis by (cases ps) (auto simp: triple_def ready_def)
qed

lemma seq_exactly:
  assumes "parses input n r f Q"
  shows "triple (ready input n hi [One r] ps) (exactly_one ps f) (\<lambda>x pc. at_most input hi pc \<and> Q x)"
proof (rule seq_exactly_one)
  fix p assume p: "conforms_pair input p" "size p < n" "p_rule p = r" "p_end p \<le> hi"
  show "triple (at_most input (p_start p)) (f p) (\<lambda>x pc. at_most input hi pc \<and> Q x)"
    by (rule triple_conseq [where P = "at_most input (p_start p)" and
          Q = "\<lambda>x pc. at_most input (p_end p) pc \<and> Q x"])
       (use assms p in \<open>auto simp: parses_def intro: at_most_mono\<close>)
qed

lemma items_match_plus: "items_match [One r, Many r] rs \<Longrightarrow> items_match [Many r] rs"
  by (cases rs) auto

lemma ready_plus: "ready input n hi [One r, Many r] ps pc \<Longrightarrow> ready input n hi [Many r] ps pc"
  unfolding ready_def using items_match_plus by blast

lemma seq_many:
  assumes "parses input n r f Q"
  shows "triple (ready input n hi [Many r] ps) (pmap f ps) (\<lambda>xs pc. at_most input hi pc \<and> list_all Q xs)"
proof (induction ps)
  case Nil
  then show ?case by (auto intro!: triple_return dest: ready_done)
next
  case (Cons p ps)
  have rest: "triple (ready input n hi [Many r] ps) (pbind (pmap f ps) (\<lambda>xs. preturn (x # xs)))
      (\<lambda>xs pc. at_most input hi pc \<and> list_all Q xs)" if "Q x" for x
    by (rule triple_bind [OF Cons.IH]) (use that in \<open>auto intro!: triple_return\<close>)
  show ?case
    unfolding pmap.simps
    by (rule triple_first [OF assms, where is' = "[Many r]"])
       (use rest in \<open>auto dest!: ready_Cons split: if_splits\<close>)
qed

lemma seq_plus:
  assumes "parses input n r f Q"
  shows "triple (ready input n hi [One r, Many r] ps) (pmap f ps) (\<lambda>xs pc. at_most input hi pc \<and> list_all Q xs)"
  using seq_many [OF assms] by (rule triple_conseq) (auto dest: ready_plus)

text \<open>A rule with a single alternative.\<close>

lemma triple_step1:
  assumes "conforms_pair input p" "p_rule p = r" "grammar r = [is]"
    and "triple (ready input (size p) (p_end p) is (p_inner p)) (g (pos_of input (p_start p))) R"
  shows "triple (at_most input (p_start p)) (pbind (pc_step p) g) R"
  using assms by (intro triple_step) auto

lemma triple_ready1:
  assumes "conforms_pair input p" "p_rule p = r" "grammar r = [is]"
    and "triple (ready input (size p) (p_end p) is (p_inner p)) m R"
  shows "triple (at_most input (p_start p)) m R"
  using assms by (intro triple_ready) auto

text \<open>A rule that is a choice of rules.\<close>

lemma choice_iff: "is \<in> set (choice rs) \<longleftrightarrow> (\<exists>r\<in>set rs. is = [One r])"
  by (auto simp: choice_def)

lemma pbind_assoc: "pbind (pbind m f) g = pbind m (\<lambda>x. pbind (f x) g)"
  by (rule ext) (simp add: pbind_def split: sum.splits)

lemma pbind_return [simp]: "pbind (preturn x) f = f x"
  by (rule ext) (simp add: pbind_def preturn_def)

lemma pbind_split: "pbind m (\<lambda>x. case x of (a, b) \<Rightarrow> f a b) = pbind m (\<lambda>x. f (fst x) (snd x))"
  by (simp add: case_prod_unfold)

lemma pbind_expect_rule [simp]: "p_rule p = r \<Longrightarrow> pbind (expect_rule p r) g = g ()"
  by (rule ext) (simp add: expect_rule_def pbind_def preturn_def)

end
