(* ===== verification/String_Literals.thy ===== *)
theory String_Literals
  imports Parser_Grammar
begin

text \<open>
  Strings and values as text: \<open>string_value\<close> and \<open>block_string_value\<close> of \<open>parser/src/parse/utils.rs\<close>
  read the content of a literal, \<open>Display\<close> of \<open>value/src/lib.rs\<close> (\<open>write_quoted\<close>, \<open>write_list\<close>,
  \<open>write_object\<close>) writes a value.

  The functions work on characters; a string here is its UTF-8 bytes. Bytes above 127 are copied, so only
  the escapes \<open>\u\<close> (read) and the control characters (written; the second half of them takes two bytes in
  UTF-8) need the encoding. Lemmas: reading never panics on the text the grammar admits; what
  \<open>write_quoted\<close> writes is such a text, and which strings are read back; \<open>block_string_value\<close> is its
  reference definition.
\<close>

subsection \<open>Quoted strings\<close>

definition utf8 :: "nat \<Rightarrow> string" where
  "utf8 n =
     map char_of
       (if n < 0x80 then [n]
        else if n < 0x800 then [0xC0 + n div 0x40, 0x80 + n mod 0x40]
        else if n < 0x10000 then [0xE0 + n div 0x1000, 0x80 + n div 0x40 mod 0x40, 0x80 + n mod 0x40]
        else [0xF0 + n div 0x40000, 0x80 + n div 0x1000 mod 0x40, 0x80 + n div 0x40 mod 0x40, 0x80 + n mod 0x40])"

text \<open>\<open>char::from_u32\<close>.\<close>

definition from_u32 :: "nat \<Rightarrow> string option" where
  "from_u32 n = (if n < 0xD800 \<or> 0xDFFF < n \<and> n < 0x110000 then Some (utf8 n) else None)"

definition hex4 :: "char \<Rightarrow> char \<Rightarrow> char \<Rightarrow> char \<Rightarrow> nat option" where
  "hex4 h1 h2 h3 h4 =
     (case (hex_digit h1, hex_digit h2, hex_digit h3, hex_digit h4) of
        (Some d1, Some d2, Some d3, Some d4) \<Rightarrow> Some (((d1 * 16 + d2) * 16 + d3) * 16 + d4)
      | _ \<Rightarrow> None)"

definition simple_escape :: "char \<Rightarrow> char option" where
  "simple_escape e =
     (if e = CHR 0x22 \<or> e = CHR 0x5C \<or> e = CHR ''/'' then Some e
      else if e = CHR ''b'' then Some (CHR 0x08)
      else if e = CHR ''f'' then Some (CHR 0x0C)
      else if e = CHR ''n'' then Some (CHR 0x0A)
      else if e = CHR ''r'' then Some (CHR 0x0D)
      else if e = CHR ''t'' then Some (CHR 0x09)
      else None)"

fun string_value :: "string \<Rightarrow> parse_failure + string" where
  "string_value [] = Inr []"
| "string_value (c # s) =
     (if c = CHR 0x5C then
        (case s of
           [] \<Rightarrow> Inl Panicked
         | e # s' \<Rightarrow>
             if e = CHR ''u'' then
               (case s' of
                  h1 # h2 # h3 # h4 # s'' \<Rightarrow>
                    (case Option.bind (hex4 h1 h2 h3 h4) from_u32 of
                       Some ch \<Rightarrow> map_ok (\<lambda>r. ch @ r) (string_value s'')
                     | None \<Rightarrow> Inl Panicked)
                | _ \<Rightarrow> Inl Panicked)
             else
               (case simple_escape e of
                  Some ch \<Rightarrow> map_ok (\<lambda>r. ch # r) (string_value s')
                | None \<Rightarrow> Inl Panicked))
      else map_ok (\<lambda>r. c # r) (string_value s))"

text \<open>\<open>{:04}\<close> of a number below ten thousand.\<close>

definition digit :: "nat \<Rightarrow> char" where
  "digit n = char_of (48 + n)"

definition pad4 :: "nat \<Rightarrow> string" where
  "pad4 n = [digit (n div 1000 mod 10), digit (n div 100 mod 10), digit (n div 10 mod 10), digit (n mod 10)]"

text \<open>The control characters are the code points below 32 and from 127 to 159, the latter but for the first
  with the leading byte \<open>0xC2\<close>.\<close>

definition is_control :: "char \<Rightarrow> bool" where
  "is_control c \<longleftrightarrow> (of_char c :: nat) < 32 \<or> (of_char c :: nat) = 127"

definition quoted_char :: "char \<Rightarrow> string" where
  "quoted_char c =
     (if c = CHR 0x0D then [CHR 0x5C, CHR ''r'']
      else if c = CHR 0x0A then [CHR 0x5C, CHR ''n'']
      else if c = CHR 0x09 then [CHR 0x5C, CHR ''t'']
      else if c = CHR 0x22 then [CHR 0x5C, CHR 0x22]
      else if c = CHR 0x5C then [CHR 0x5C, CHR 0x5C]
      else if is_control c then [CHR 0x5C, CHR ''u''] @ pad4 (of_char c)
      else [c])"

definition is_high_control :: "char \<Rightarrow> char \<Rightarrow> bool" where
  "is_high_control c d \<longleftrightarrow> c = CHR 0xC2 \<and> 128 \<le> (of_char d :: nat) \<and> (of_char d :: nat) < 160"

fun quoted_chars :: "string \<Rightarrow> string" where
  "quoted_chars (c # d # s) =
     (if is_high_control c d then [CHR 0x5C, CHR ''u''] @ pad4 (of_char d) @ quoted_chars s
      else quoted_char c @ quoted_chars (d # s))"
| "quoted_chars [c] = quoted_char c"
| "quoted_chars [] = []"

definition write_quoted :: "string \<Rightarrow> string" where
  "write_quoted s = [CHR 0x22] @ quoted_chars s @ [CHR 0x22]"

subsection \<open>Display of values\<close>

fun comma_separated :: "string list \<Rightarrow> string" where
  "comma_separated [] = []"
| "comma_separated [x] = x"
| "comma_separated (x # xs) = x @ '', '' @ comma_separated xs"

definition write_list :: "string list \<Rightarrow> string" where
  "write_list items = ''['' @ comma_separated items @ '']''"

definition write_object :: "(string \<times> string) list \<Rightarrow> string" where
  "write_object entries = ''{'' @ comma_separated (map (\<lambda>(n, v). n @ '': '' @ v) entries) @ ''}''"

fun show_byte :: "nat \<Rightarrow> string" where
  "show_byte n =
     (if n < 10 then [digit n]
      else if n < 100 then [digit (n div 10), digit (n mod 10)]
      else [digit (n div 100), digit (n div 10 mod 10), digit (n mod 10)])"

definition write_binary :: "8 word list \<Rightarrow> string" where
  "write_binary bytes = write_list (map (\<lambda>b. show_byte (unat b)) bytes)"

fun const_value_str :: "(number \<Rightarrow> string) \<Rightarrow> const_value \<Rightarrow> string" where
  "const_value_str show_number (CNumber num) = show_number num"
| "const_value_str show_number (CString val) = write_quoted val"
| "const_value_str show_number (CBoolean b) = (if b then ''true'' else ''false'')"
| "const_value_str show_number (CBinary bytes) = write_binary bytes"
| "const_value_str show_number CNull = ''null''"
| "const_value_str show_number (CEnum n) = n"
| "const_value_str show_number (CList items) = write_list (map (const_value_str show_number) items)"
| "const_value_str show_number (CObject m) =
     write_object (map (\<lambda>(n, v). (n, const_value_str show_number v)) m)"

fun gvalue_str :: "(number \<Rightarrow> string) \<Rightarrow> gvalue \<Rightarrow> string" where
  "gvalue_str show_number (VVariable n) = ''$'' @ n"
| "gvalue_str show_number (VNumber num) = show_number num"
| "gvalue_str show_number (VString val) = write_quoted val"
| "gvalue_str show_number (VBoolean b) = (if b then ''true'' else ''false'')"
| "gvalue_str show_number (VBinary bytes) = write_binary bytes"
| "gvalue_str show_number VNull = ''null''"
| "gvalue_str show_number (VEnum n) = n"
| "gvalue_str show_number (VList items) = write_list (map (gvalue_str show_number) items)"
| "gvalue_str show_number (VObject m) =
     write_object (map (\<lambda>(n, v). (n, gvalue_str show_number v)) m)"

lemma gvalue_str_into_value: "gvalue_str sh (into_value c) = const_value_str sh c"
proof (induction c)
  case (CList items)
  then show ?case by (auto simp: comp_def cong: map_cong)
next
  case (CObject m)
  then have "map (\<lambda>(n, v). (n, gvalue_str sh (into_value v))) m = map (\<lambda>(n, v). (n, const_value_str sh v)) m"
    by (force simp: snds.simps)
  then show ?case by (simp add: comp_def case_prod_unfold cong: map_cong)
qed auto

subsection \<open>Block strings\<close>

fun split_crlf :: "string \<Rightarrow> string list" where
  "split_crlf [] = [[]]"
| "split_crlf (c # s) =
     (if c = CHR 0x0D \<and> s \<noteq> [] \<and> hd s = CHR 0x0A then [] # split_crlf (tl s)
      else case split_crlf s of x # xs \<Rightarrow> (c # x) # xs | [] \<Rightarrow> [[c]])"

fun split_cr_lf :: "string \<Rightarrow> string list" where
  "split_cr_lf [] = [[]]"
| "split_cr_lf (c # s) =
     (if c = CHR 0x0D \<or> c = CHR 0x0A then [] # split_cr_lf s
      else case split_cr_lf s of x # xs \<Rightarrow> (c # x) # xs | [] \<Rightarrow> [[c]])"

definition block_lines :: "string \<Rightarrow> string list" where
  "block_lines raw = concat (map split_cr_lf (split_crlf raw))"

definition is_blank :: "char \<Rightarrow> bool" where
  "is_blank c \<longleftrightarrow> c = CHR 0x09 \<or> c = CHR '' ''"

definition line_has_content :: "string \<Rightarrow> bool" where
  "line_has_content l \<longleftrightarrow> list_ex (\<lambda>c. \<not> is_blank c) l"

text \<open>\<open>line.find(|c| c != '\t' && c != ' ')\<close>.\<close>

definition indent :: "string \<Rightarrow> nat option" where
  "indent l = (if line_has_content l then Some (length (takeWhile is_blank l)) else None)"

definition common_indent :: "string list \<Rightarrow> nat" where
  "common_indent ls =
     (case List.map_filter indent (drop 1 ls) of [] \<Rightarrow> 0 | n # ns \<Rightarrow> fold min ns n)"

fun position :: "('a \<Rightarrow> bool) \<Rightarrow> 'a list \<Rightarrow> nat option" where
  "position P [] = None"
| "position P (x # xs) = (if P x then Some 0 else map_option Suc (position P xs))"

definition rposition :: "('a \<Rightarrow> bool) \<Rightarrow> 'a list \<Rightarrow> nat option" where
  "rposition P xs = map_option (\<lambda>i. length xs - 1 - i) (position P (rev xs))"

definition dedent :: "nat \<Rightarrow> nat \<times> string \<Rightarrow> parse_failure + string" where
  "dedent common il =
     (case il of (i, l) \<Rightarrow>
        if i \<noteq> 0 \<and> common \<le> length l then
          (if is_char_boundary l common then Inr (drop common l) else Inl Panicked)
        else Inr l)"

fun join_lines :: "string list \<Rightarrow> string" where
  "join_lines [] = []"
| "join_lines (l # ls) = l @ concat (map (\<lambda>l. CHR 0x0A # l) ls)"

definition block_string_value :: "string \<Rightarrow> parse_failure + string" where
  "block_string_value raw =
     (let ls = block_lines raw;
          common = common_indent ls;
          first_contentful_line =
            (case position line_has_content ls of Some i \<Rightarrow> i | None \<Rightarrow> length ls);
          ending_lines_start = (case rposition line_has_content ls of Some i \<Rightarrow> i + 1 | None \<Rightarrow> 0)
      in map_ok join_lines
           (map_result (dedent common)
             (drop first_contentful_line (take ending_lines_start (enumerate 0 ls)))))"

subsection \<open>Reading a quoted string\<close>

lemma hex_digit_less: "hex_digit c = Some d \<Longrightarrow> d < 16"
  by (auto simp: hex_digit_def Let_def split: if_splits)

lemma shift_less: "a < m \<Longrightarrow> d < 16 \<Longrightarrow> a * 16 + d < m * 16" for a d m :: nat
  by simp

lemma shift_le: "m \<le> a \<Longrightarrow> m * 16 \<le> a * 16 + d" for a d m :: nat
  by simp

lemma hex_digits_scalar:
  fixes d1 d2 d3 d4 :: nat
  assumes "d1 < 16" "d2 < 16" "d3 < 16" "d4 < 16" "d1 \<noteq> 13 \<or> d2 < 8"
  shows "((d1 * 16 + d2) * 16 + d3) * 16 + d4 < 0xD800 \<or> 0xDFFF < ((d1 * 16 + d2) * 16 + d3) * 16 + d4"
    and "((d1 * 16 + d2) * 16 + d3) * 16 + d4 < 0x10000"
proof -
  have less: "((d1 * 16 + d2) * 16 + d3) * 16 + d4 < 256 * m" if "d1 * 16 + d2 < m" for m
    using shift_less [OF shift_less [OF that assms(3)] assms(4)] by simp
  have le: "256 * m \<le> ((d1 * 16 + d2) * 16 + d3) * 16 + d4" if "m \<le> d1 * 16 + d2" for m
    using shift_le [OF shift_le [OF that]] by simp
  show "((d1 * 16 + d2) * 16 + d3) * 16 + d4 < 0x10000" using less [of 256] assms(1,2) by simp
  consider "d1 < 13" | "d1 = 13" | "13 < d1" by linarith
  then have "d1 * 16 + d2 < 216 \<or> 224 \<le> d1 * 16 + d2" by cases (use assms(1,2,5) in auto)
  then show "((d1 * 16 + d2) * 16 + d3) * 16 + d4 < 0xD800 \<or> 0xDFFF < ((d1 * 16 + d2) * 16 + d3) * 16 + d4"
    using less [of 216] le [of 224] by auto
qed

lemma hex4_scalar:
  assumes "list_all (\<lambda>h. hex_digit h \<noteq> None) [h1, h2, h3, h4]" "\<not> surrogate_start h1 h2"
  obtains n where "hex4 h1 h2 h3 h4 = Some n" "n < 0xD800 \<or> 0xDFFF < n" "n < 0x10000"
proof -
  obtain d1 d2 d3 d4 where d: "hex_digit h1 = Some d1" "hex_digit h2 = Some d2"
      "hex_digit h3 = Some d3" "hex_digit h4 = Some d4"
    using assms(1) by auto
  then have less: "d1 < 16" "d2 < 16" "d3 < 16" "d4 < 16" using hex_digit_less by blast+
  have "d1 \<noteq> 13 \<or> d2 < 8" using assms(2) d by auto
  then show ?thesis using hex_digits_scalar [OF less] d by (intro that) (simp_all add: hex4_def)
qed

lemma string_value_ok: "string_text s \<Longrightarrow> \<exists>r. string_value s = Inr r"
proof (induction s rule: string_value.induct)
  case (2 c s)
  show ?case
  proof (cases "c = CHR 0x5C")
    case False
    then show ?thesis using 2 by (auto simp: res_simps)
  next
    case esc: True
    then obtain e s' where s: "s = e # s'" using "2.prems" by (cases s) auto
    show ?thesis
    proof (cases "e = CHR ''u''")
      case True
      then obtain h1 h2 h3 h4 s'' where s': "s' = h1 # h2 # h3 # h4 # s''"
        and hex: "list_all (\<lambda>h. hex_digit h \<noteq> None) [h1, h2, h3, h4]" "\<not> surrogate_start h1 h2"
        and rest: "string_text s''"
        using "2.prems" esc s by (auto split: list.splits)
      from hex obtain n where n: "hex4 h1 h2 h3 h4 = Some n" "n < 0xD800 \<or> 0xDFFF < n" "n < 0x10000"
        by (rule hex4_scalar)
      then have "Option.bind (hex4 h1 h2 h3 h4) from_u32 = Some (utf8 n)" by (auto simp: from_u32_def)
      moreover from this have "\<exists>r. string_value s'' = Inr r" using "2.IH"(1) esc s True s' rest by blast
      ultimately show ?thesis using esc s True s' by (auto simp: res_simps)
    next
      case False
      then obtain ch where ch: "simple_escape e = Some ch" and rest: "string_text s'"
        using "2.prems" esc s by (auto simp: simple_escape_def split: if_splits)
      then have "\<exists>r. string_value s' = Inr r" using "2.IH"(2) esc s False by blast
      then show ?thesis using ch esc s False by (auto simp: res_simps)
    qed
  qed
qed simp

subsection \<open>Reading back what was written\<close>

text \<open>A control character is written with its decimal code, which is read as hexadecimal.\<close>

definition misread :: "nat \<Rightarrow> nat" where
  "misread n = ((n div 1000 mod 10 * 16 + n div 100 mod 10) * 16 + n div 10 mod 10) * 16 + n mod 10"

definition reread_char :: "char \<Rightarrow> string" where
  "reread_char c =
     (if is_control c \<and> c \<notin> {CHR 0x0D, CHR 0x0A, CHR 0x09} then utf8 (misread (of_char c)) else [c])"

fun reread :: "string \<Rightarrow> string" where
  "reread (c # d # s) =
     (if is_high_control c d then utf8 (misread (of_char d)) @ reread s else reread_char c @ reread (d # s))"
| "reread [c] = reread_char c"
| "reread [] = []"

definition readable_char :: "char \<Rightarrow> bool" where
  "readable_char c \<longleftrightarrow> is_control c \<longrightarrow> c \<in> {CHR 0x0D, CHR 0x0A, CHR 0x09} \<or> (of_char c :: nat) < 10"

fun readable :: "string \<Rightarrow> bool" where
  "readable (c # d # s) \<longleftrightarrow> \<not> is_high_control c d \<and> readable_char c \<and> readable (d # s)"
| "readable [c] \<longleftrightarrow> readable_char c"
| "readable [] \<longleftrightarrow> True"

lemma hex_digit_digit: "d < 10 \<Longrightarrow> hex_digit (digit d) = Some d"
  by (simp add: hex_digit_def digit_def)

lemma hex4_pad4: "\<exists>h1 h2 h3 h4. pad4 n = [h1, h2, h3, h4] \<and> hex4 h1 h2 h3 h4 = Some (misread n) \<and>
    list_all (\<lambda>h. hex_digit h \<noteq> None) [h1, h2, h3, h4] \<and> \<not> surrogate_start h1 h2"
  by (simp add: pad4_def hex4_def hex_digit_digit misread_def)

lemma decimal_digits:
  assumes "n < 1000"
  obtains a b c where "n = 100 * a + 10 * b + c" "a < 10" "b < 10" "c < 10" "misread n = 256 * a + 16 * b + c"
proof (rule that)
  have "n div 10 = 10 * (n div 100) + n div 10 mod 10"
    using mult_div_mod_eq [of 10 "n div 10"] by (simp add: div_mult2_eq [of n 10 10, simplified])
  then show "n = 100 * (n div 100) + 10 * (n div 10 mod 10) + n mod 10"
    using mult_div_mod_eq [of 10 n] by linarith
  show "n div 100 < 10" "n div 10 mod 10 < 10" "n mod 10 < 10" using assms by simp_all
  then show "misread n = 256 * (n div 100) + 16 * (n div 10 mod 10) + n mod 10"
    using assms by (simp add: misread_def)
qed

lemma misread_less: "n < 1000 \<Longrightarrow> misread n < 0xD800"
  by (erule decimal_digits) linarith

lemma string_value_u:
  assumes "n < 1000"
  shows "string_value ([CHR 0x5C, CHR ''u''] @ pad4 n @ s) = map_ok (\<lambda>r. utf8 (misread n) @ r) (string_value s)"
    and "string_text ([CHR 0x5C, CHR ''u''] @ pad4 n @ s) \<longleftrightarrow> string_text s"
proof -
  obtain h1 h2 h3 h4 where h: "pad4 n = [h1, h2, h3, h4]" "hex4 h1 h2 h3 h4 = Some (misread n)"
    "list_all (\<lambda>h. hex_digit h \<noteq> None) [h1, h2, h3, h4]" "\<not> surrogate_start h1 h2"
    using hex4_pad4 by blast
  show "string_value ([CHR 0x5C, CHR ''u''] @ pad4 n @ s) = map_ok (\<lambda>r. utf8 (misread n) @ r) (string_value s)"
    using h misread_less [OF assms] by (simp add: from_u32_def)
  show "string_text ([CHR 0x5C, CHR ''u''] @ pad4 n @ s) \<longleftrightarrow> string_text s"
    using h by simp
qed

lemma control_less: "is_control c \<Longrightarrow> (of_char c :: nat) < 1000"
  by (auto simp: is_control_def)

lemma string_value_quoted_char:
  "string_value (quoted_char c @ s) = map_ok (\<lambda>r. reread_char c @ r) (string_value s)"
proof (cases "c \<in> {CHR 0x0D, CHR 0x0A, CHR 0x09, CHR 0x22, CHR 0x5C}")
  case True
  then show ?thesis
    by (elim insertE emptyE) (simp_all add: quoted_char_def reread_char_def simple_escape_def is_control_def)
next
  case False
  then show ?thesis
    using string_value_u(1) [OF control_less, of c s]
    by (cases "is_control c") (simp_all add: quoted_char_def reread_char_def)
qed

lemma string_text_quoted_char: "string_text (quoted_char c @ s) \<longleftrightarrow> string_text s"
proof (cases "c \<in> {CHR 0x0D, CHR 0x0A, CHR 0x09, CHR 0x22, CHR 0x5C}")
  case True
  then show ?thesis by (auto simp: quoted_char_def)
next
  case False
  then show ?thesis
    using string_value_u(2) [OF control_less, of c s] by (cases "is_control c") (simp_all add: quoted_char_def)
qed

lemma map_ok_comp: "map_ok f (map_ok g r) = map_ok (\<lambda>x. f (g x)) r"
  by (cases r) simp_all

lemma string_value_quoted: "string_value (quoted_chars s) = Inr (reread s)"
proof (induction s rule: quoted_chars.induct)
  case (1 c d s)
  then show ?case
    using string_value_u(1) [of "of_char d" "quoted_chars s"]
    by (auto simp del: string_value.simps append_Cons simp: string_value_quoted_char is_high_control_def)
next
  case (2 c)
  then show ?case using string_value_quoted_char [of c "[]"] by simp
qed simp

lemma string_text_quoted: "string_text (quoted_chars s)"
proof (induction s rule: quoted_chars.induct)
  case (1 c d s)
  then show ?case
    using string_value_u(2) [of "of_char d" "quoted_chars s"]
    by (auto simp del: string_text.simps append_Cons simp: string_text_quoted_char is_high_control_def)
next
  case (2 c)
  then show ?case using string_text_quoted_char [of c "[]"] by simp
qed simp

lemma utf8_first: "m < 0x800 \<Longrightarrow> \<exists>cs. utf8 m = (if m < 128 then char_of m else char_of (192 + m div 64)) # cs"
  by (simp add: utf8_def)

lemma char_of_neq: "m < 256 \<Longrightarrow> n < 256 \<Longrightarrow> m \<noteq> n \<Longrightarrow> char_of m \<noteq> (char_of n :: char)" for m n :: nat
  by (metis mod_less of_char_of)

lemma misread_first:
  assumes "10 \<le> n" "n < 160"
  shows "\<exists>c cs. utf8 (misread n) = c # cs \<and> c \<noteq> char_of n"
proof -
  obtain a b c where "n = 100 * a + 10 * b + c" "a < 10" "b < 10" "c < 10" "misread n = 256 * a + 16 * b + c"
    using assms by (auto intro: decimal_digits [of n])
  moreover from this have "a \<le> 1" using assms by linarith
  ultimately have "n < misread n" "misread n < 512" using assms by linarith+
  then show ?thesis
    using utf8_first [of "misread n"] char_of_neq [of "misread n" n] char_of_neq [of "192 + misread n div 64" n] assms
    by (cases "misread n < 128") auto
qed

lemma misread_high:
  assumes "128 \<le> n" "n < 160"
  shows "\<exists>c cs. utf8 (misread n) = c # cs \<and> c \<noteq> CHR 0xC2"
proof -
  obtain a b c where "n = 100 * a + 10 * b + c" "a < 10" "b < 10" "c < 10" "misread n = 256 * a + 16 * b + c"
    using assms by (auto intro: decimal_digits [of n])
  moreover from this have "a = 1" using assms by linarith
  ultimately have m: "256 \<le> misread n" "misread n < 512" using assms by linarith+
  then have "256 \<le> misread n" "192 + misread n div 64 < 256" "misread n div 64 \<noteq> 2" by auto
  then have "char_of (192 + misread n div 64) \<noteq> CHR 0xC2"
    using of_char_of [of "192 + misread n div 64"] by (auto simp del: of_char_of)
  then show ?thesis using utf8_first [of "misread n"] m by auto
qed

lemma misread_small: "n < 10 \<Longrightarrow> utf8 (misread n) = [char_of n]"
  by (simp add: misread_def utf8_def)

lemma reread_char_first:
  "\<not> readable_char c \<Longrightarrow> \<exists>c' cs. reread_char c = c' # cs \<and> c' \<noteq> c"
  using misread_first [of "of_char c"] by (auto simp: readable_char_def reread_char_def is_control_def)

lemma reread_char_readable: "readable_char c \<Longrightarrow> reread_char c = [c]"
  using misread_small [of "of_char c"] by (auto simp: readable_char_def reread_char_def)

lemma reread_eq: "reread s = s \<longleftrightarrow> readable s"
proof (induction s rule: reread.induct)
  case (1 c d s)
  show ?case
  proof (cases "is_high_control c d")
    case True
    then have "\<exists>c' cs. utf8 (misread (of_char d)) = c' # cs \<and> c' \<noteq> c"
      using misread_high [of "of_char d"] by (simp add: is_high_control_def)
    then show ?thesis using True by auto
  next
    case False
    then show ?thesis
      using 1 reread_char_first [of c] reread_char_readable [of c] by (cases "readable_char c") auto
  qed
next
  case (2 c)
  then show ?case using reread_char_first [of c] reread_char_readable [of c] by (cases "readable_char c") auto
qed simp

subsection \<open>The block string as a reference definition\<close>

text \<open>The lines between the first and the last that have content, all but the first line of the literal without
  the common indentation; a line shorter than that is kept.\<close>

definition strip_lines :: "(nat \<times> string) list \<Rightarrow> (nat \<times> string) list" where
  "strip_lines ls =
     (let blank = (\<lambda>(i, l). \<not> line_has_content l)
      in dropWhile blank (rev (dropWhile blank (rev ls))))"

definition block_string_reference :: "string \<Rightarrow> string" where
  "block_string_reference raw =
     (let ls = block_lines raw; common = common_indent ls
      in join_lines
           (map (\<lambda>(i, l). if i \<noteq> 0 \<and> common \<le> length l then drop common l else l)
             (strip_lines (enumerate 0 ls))))"

lemma stray_free_nth:
  "stray_free b l \<Longrightarrow> 0 < i \<Longrightarrow> i < length l \<Longrightarrow> (of_char (l ! (i - 1)) :: nat) < 128 \<Longrightarrow> \<not> is_continuation (l ! i)"
proof (induction l arbitrary: b i)
  case (Cons c l)
  show ?case
  proof (cases "i = 1")
    case True
    then show ?thesis using Cons.prems by (cases l) auto
  next
    case False
    then obtain j where "i = Suc j" "0 < j" using Cons.prems(2) by (metis gr0_implies_Suc neq0_conv One_nat_def)
    then show ?thesis using Cons.IH [of "128 \<le> (of_char c :: nat)" j] Cons.prems by (auto simp: nth_Cons')
  qed
qed simp

lemma stray_free_cr_lf:
  "stray_free b s \<Longrightarrow> \<exists>x xs. split_cr_lf s = x # xs \<and> stray_free b x \<and> list_all utf8_text xs"
proof (induction s arbitrary: b)
  case (Cons c s)
  then obtain x xs where "split_cr_lf s = x # xs" "stray_free (128 \<le> (of_char c :: nat)) x" "list_all utf8_text xs"
    by (meson stray_free.simps(2))
  then show ?case using Cons.prems by (cases "c = CHR 0x0D \<or> c = CHR 0x0A") auto
qed simp

lemma stray_free_crlf:
  "stray_free b s \<Longrightarrow> \<exists>x xs. split_crlf s = x # xs \<and> stray_free b x \<and> list_all utf8_text xs"
proof (induction s arbitrary: b rule: split_crlf.induct)
  case (2 c s)
  show ?case
  proof (cases "c = CHR 0x0D \<and> s \<noteq> [] \<and> hd s = CHR 0x0A")
    case True
    then have "utf8_text (tl s)" using "2.prems" by (cases s) auto
    then show ?thesis using "2.IH"(1) [OF True] True by fastforce
  next
    case False
    then show ?thesis using "2.IH"(2) [OF False, of "128 \<le> (of_char c :: nat)"] "2.prems" by fastforce
  qed
qed simp

lemma block_lines_utf8:
  assumes "utf8_text raw" "l \<in> set (block_lines raw)"
  shows "utf8_text l"
proof -
  obtain g where g: "g \<in> set (split_crlf raw)" "l \<in> set (split_cr_lf g)"
    using assms(2) by (auto simp: block_lines_def)
  have "utf8_text g" using stray_free_crlf [OF assms(1)] g(1) by (auto simp: list_all_iff)
  then show ?thesis using stray_free_cr_lf [of False g] g(2) by (auto simp: list_all_iff)
qed

lemma common_indent_le:
  assumes "l \<in> set ls" "line_has_content l"
  shows "common_indent (k # ls) \<le> length (takeWhile is_blank l)"
proof -
  have mem: "length (takeWhile is_blank l) \<in> set (List.map_filter indent ls)"
    using assms by (force simp: List.map_filter_def indent_def)
  then obtain n ns where "List.map_filter indent ls = n # ns" by (cases "List.map_filter indent ls") auto
  then show ?thesis using mem by (simp add: common_indent_def Min.set_eq_fold [symmetric])
qed

lemma blank_before_indent:
  assumes "l \<in> set ls" "i < common_indent (k # ls)" "i < length l"
  shows "is_blank (l ! i)"
proof (cases "line_has_content l")
  case True
  then have i: "i < length (takeWhile is_blank l)" using common_indent_le [OF assms(1)] assms(2) order.strict_trans2 by blast
  then show ?thesis using set_takeWhileD [OF nth_mem [OF i]] takeWhile_nth [OF i] by simp
next
  case False
  then show ?thesis using assms(3) by (simp add: line_has_content_def list_ex_iff)
qed

lemma common_indent_boundary:
  assumes "l \<in> set ls" "utf8_text l" "common_indent (k # ls) \<le> length l"
  shows "is_char_boundary l (common_indent (k # ls))"
proof (cases "0 < common_indent (k # ls) \<and> common_indent (k # ls) < length l")
  case True
  then have "is_blank (l ! (common_indent (k # ls) - 1))"
    by (intro blank_before_indent [OF assms(1), of _ k]) auto
  then have "\<not> is_continuation (l ! common_indent (k # ls))"
    using stray_free_nth [OF assms(2)] True by (auto simp: is_blank_def)
  then show ?thesis using True by (simp add: is_char_boundary_def)
next
  case False
  then show ?thesis using assms(3) by (auto simp: is_char_boundary_def)
qed

lemma position_takeWhile:
  "position P xs = (if list_ex P xs then Some (length (takeWhile (\<lambda>x. \<not> P x) xs)) else None)"
  by (induction xs) auto

lemma rposition_takeWhile:
  "(case rposition P xs of Some i \<Rightarrow> i + 1 | None \<Rightarrow> 0) = length xs - length (takeWhile (\<lambda>x. \<not> P x) (rev xs))"
proof (cases "list_ex P xs")
  case True
  then have "length (takeWhile (\<lambda>x. \<not> P x) (rev xs)) < length xs"
    by (metis (mono_tags, lifting) le_neq_implies_less length_rev length_takeWhile_le list_ex_iff set_rev
        takeWhile_eq_all_conv takeWhile_eq_take take_all_iff order_refl)
  then show ?thesis using True by (auto simp: rposition_def position_takeWhile list_ex_iff)
next
  case False
  then have "length (takeWhile (\<lambda>x. \<not> P x) (rev xs)) = length xs"
    by (metis length_rev list_ex_iff set_rev takeWhile_eq_all_conv)
  then show ?thesis using False by (simp add: rposition_def position_takeWhile list_ex_iff)
qed

lemma strip_both:
  "drop (length (takeWhile N xs)) (take (length xs - length (takeWhile N (rev xs))) xs) =
   dropWhile N (rev (dropWhile N (rev xs)))"
proof -
  define ys where "ys = rev (dropWhile N (rev xs))"
  have take: "take (length xs - length (takeWhile N (rev xs))) xs = ys"
    by (simp add: ys_def dropWhile_eq_drop rev_drop)
  have xs: "xs = ys @ rev (takeWhile N (rev xs))"
    by (metis rev_append rev_rev_ident takeWhile_dropWhile_id ys_def)
  show ?thesis
  proof (cases "ys = []")
    case False
    then have "dropWhile N (rev xs) \<noteq> []" by (simp add: ys_def)
    then have "\<not> N (last ys)" using hd_dropWhile [of N "rev xs"] by (simp add: ys_def last_rev)
    then have "takeWhile N xs = takeWhile N ys"
      using False xs by (metis last_in_set takeWhile_append1)
    then show ?thesis unfolding take ys_def [symmetric] by (simp add: dropWhile_eq_drop)
  qed (simp add: take ys_def [symmetric])
qed

lemma takeWhile_enumerate:
  "length (takeWhile (\<lambda>(i, l). P l) (enumerate n ls)) = length (takeWhile P ls)"
  "length (takeWhile (\<lambda>(i, l). P l) (rev (enumerate n ls))) = length (takeWhile P (rev ls))"
proof -
  have "takeWhile P (map snd es) = map snd (takeWhile (\<lambda>(i, l). P l) es)" for es :: "(nat \<times> 'a) list"
    by (simp add: takeWhile_map comp_def case_prod_unfold)
  from this [of "enumerate n ls"] this [of "rev (enumerate n ls)"]
  show "length (takeWhile (\<lambda>(i, l). P l) (enumerate n ls)) = length (takeWhile P ls)"
    "length (takeWhile (\<lambda>(i, l). P l) (rev (enumerate n ls))) = length (takeWhile P (rev ls))"
    by (simp_all add: rev_map [symmetric])
qed

lemma strip_lines_positions:
  "drop (case position line_has_content ls of Some i \<Rightarrow> i | None \<Rightarrow> length ls)
     (take (case rposition line_has_content ls of Some i \<Rightarrow> i + 1 | None \<Rightarrow> 0) (enumerate 0 ls)) =
   strip_lines (enumerate 0 ls)"
proof -
  have "(case position line_has_content ls of Some i \<Rightarrow> i | None \<Rightarrow> length ls) =
      length (takeWhile (\<lambda>l. \<not> line_has_content l) ls)"
    by (auto simp: position_takeWhile list_ex_iff takeWhile_eq_all_conv [THEN iffD2])
  then show ?thesis
    using strip_both [of "\<lambda>(i, l). \<not> line_has_content l" "enumerate 0 ls"]
    by (simp add: rposition_takeWhile takeWhile_enumerate strip_lines_def Let_def)
qed

lemma set_strip_lines: "set (strip_lines ls) \<subseteq> set ls"
  unfolding strip_lines_def Let_def using set_dropWhileD by (metis set_rev subsetI)

lemma block_string_value_reference:
  assumes "utf8_text raw"
  shows "block_string_value raw = Inr (block_string_reference raw)"
proof -
  define ls where "ls = block_lines raw"
  have "dedent (common_indent ls) x =
      Inr (case x of (i, l) \<Rightarrow> if i \<noteq> 0 \<and> common_indent ls \<le> length l then drop (common_indent ls) l else l)"
    if x: "x \<in> set (strip_lines (enumerate 0 ls))" for x
  proof (cases x)
    case (Pair i l)
    then have il: "i < length ls" "l = ls ! i" using x set_strip_lines by (fastforce simp: in_set_enumerate_eq)+
    show ?thesis
    proof (cases i)
      case (Suc j)
      then obtain k ks where ks: "ls = k # ks" using il by (cases ls) auto
      then have "l \<in> set ks" "utf8_text l"
        using il Suc block_lines_utf8 [OF assms] by (auto simp: ls_def [symmetric])
      then show ?thesis using common_indent_boundary [of l ks k] Pair ks by (auto simp: dedent_def)
    qed (simp add: Pair dedent_def)
  qed
  then show ?thesis
    using strip_lines_positions [of ls]
    by (simp add: block_string_value_def block_string_reference_def Let_def ls_def [symmetric]
        map_result_Inr_set del: One_nat_def)
qed

end
