(* ===== verification/Dynamic_Schema.thy ===== *)
theory Dynamic_Schema
  imports Resolution String_Literals
begin

text \<open>
  Schemas that are built at run time, \<open>src/dynamic/\<close>: type references (\<open>type_ref.rs\<close>), types (\<open>type.rs\<close>,
  \<open>object.rs\<close>, \<open>field.rs\<close>, \<open>interface.rs\<close>, \<open>union.rs\<close>, \<open>enum.rs\<close>, \<open>scalar.rs\<close>, \<open>input_object.rs\<close>,
  \<open>input_value.rs\<close>, \<open>subscription.rs\<close>), their registration, and the checks of a schema (\<open>check.rs\<close>).

  A resolver is a function of the path, the selected field, the arguments and the parent value; a value of
  the host program (\<open>dyn Any\<close>) is opaque.
\<close>

subsection \<open>Type references\<close>

datatype type_ref = RNamed string | RNonNull type_ref | RList type_ref

fun type_ref_str :: "type_ref \<Rightarrow> string" where
  "type_ref_str (RNamed n) = n"
| "type_ref_str (RNonNull ty) = type_ref_str ty @ ''!''"
| "type_ref_str (RList ty) = ''['' @ type_ref_str ty @ '']''"

fun type_ref_name :: "type_ref \<Rightarrow> string" where
  "type_ref_name (RNamed n) = n"
| "type_ref_name (RNonNull inner) = type_ref_name inner"
| "type_ref_name (RList inner) = type_ref_name inner"

fun is_nullable_ref :: "type_ref \<Rightarrow> bool" where
  "is_nullable_ref (RNonNull _) = False"
| "is_nullable_ref _ = True"

fun is_subtype_ref :: "type_ref \<Rightarrow> type_ref \<Rightarrow> bool" where
  "is_subtype_ref (RNonNull super) (RNonNull sub) = is_subtype_ref super sub"
| "is_subtype_ref cur (RNonNull sub) = is_subtype_ref cur sub"
| "is_subtype_ref (RNamed super) (RNamed sub) = (super = sub)"
| "is_subtype_ref (RList super) (RList sub) = is_subtype_ref super sub"
| "is_subtype_ref _ _ = False"

subsection \<open>Types\<close>

typedecl host_value

datatype field_value =
    FValue const_value
  | FAny string host_value
  | FList "field_value list"
  | FWithType field_value string

record user_error =
  ue_message :: string
  ue_extensions :: "(name, const_value) index_map option"

type_synonym resolver_fn =
  "path_segment list \<Rightarrow> field positioned \<Rightarrow> (name, const_value) index_map \<Rightarrow> field_value \<Rightarrow>
   user_error + field_value option"

record dyn_input_value =
  div_name :: string
  div_description :: "string option"
  div_ty :: type_ref
  div_default_value :: "const_value option"
  div_inaccessible :: bool
  div_tags :: "string list"
  div_directives :: "meta_directive_invocation list"
  div_deprecation :: deprecation

record interface_field =
  df_name :: string
  df_description :: "string option"
  df_arguments :: "(string, dyn_input_value) index_map"
  df_ty :: type_ref
  df_deprecation :: deprecation
  df_external :: bool
  df_requires :: "string option"
  df_provides :: "string option"
  df_shareable :: bool
  df_inaccessible :: bool
  df_tags :: "string list"
  df_override_from :: "string option"
  df_directives :: "meta_directive_invocation list"
  df_requires_scopes :: "string list"

record dyn_field = interface_field +
  df_resolver_fn :: resolver_fn

record subscription_field =
  sf_name :: string
  sf_description :: "string option"
  sf_arguments :: "(string, dyn_input_value) index_map"
  sf_ty :: type_ref
  sf_deprecation :: deprecation

record dyn_object =
  dob_name :: string
  dob_description :: "string option"
  dob_fields :: "(string, dyn_field) index_map"
  dob_implements :: "string list"
  dob_keys :: "string list"
  dob_extends :: bool
  dob_shareable :: bool
  dob_resolvable :: bool
  dob_inaccessible :: bool
  dob_interface_object :: bool
  dob_tags :: "string list"
  dob_directives :: "meta_directive_invocation list"
  dob_requires_scopes :: "string list"

record dyn_interface =
  din_name :: string
  din_description :: "string option"
  din_fields :: "(string, interface_field) index_map"
  din_implements :: "string list"
  din_keys :: "string list"
  din_extends :: bool
  din_inaccessible :: bool
  din_tags :: "string list"
  din_directives :: "meta_directive_invocation list"
  din_requires_scopes :: "string list"

record dyn_input_object =
  dio_name :: string
  dio_description :: "string option"
  dio_fields :: "(string, dyn_input_value) index_map"
  dio_oneof :: bool
  dio_inaccessible :: bool
  dio_tags :: "string list"
  dio_directives :: "meta_directive_invocation list"

record enum_item =
  ei_name :: string
  ei_description :: "string option"
  ei_deprecation :: deprecation
  ei_inaccessible :: bool
  ei_tags :: "string list"
  ei_directives :: "meta_directive_invocation list"

record dyn_enum =
  den_name :: string
  den_description :: "string option"
  den_enum_values :: "(string, enum_item) index_map"
  den_inaccessible :: bool
  den_tags :: "string list"
  den_directives :: "meta_directive_invocation list"
  den_requires_scopes :: "string list"

record dyn_scalar =
  dsc_name :: string
  dsc_description :: "string option"
  dsc_specified_by_url :: "string option"
  dsc_validator :: "scalar_validator_fn option"
  dsc_inaccessible :: bool
  dsc_tags :: "string list"
  dsc_directives :: "meta_directive_invocation list"
  dsc_requires_scopes :: "string list"

record dyn_union =
  dun_name :: string
  dun_description :: "string option"
  dun_possible_types :: "string list"
  dun_inaccessible :: bool
  dun_tags :: "string list"
  dun_directives :: "meta_directive_invocation list"

record dyn_subscription =
  dsu_name :: string
  dsu_description :: "string option"
  dsu_fields :: "(string, subscription_field) index_map"

datatype dyn_type =
    DScalar dyn_scalar
  | DObject dyn_object
  | DInputObject dyn_input_object
  | DEnum dyn_enum
  | DInterface dyn_interface
  | DUnion dyn_union
  | DSubscription dyn_subscription
  | DUpload

type_synonym dyn_types = "(string, dyn_type) index_map"

fun dyn_type_name :: "dyn_type \<Rightarrow> string" where
  "dyn_type_name (DScalar scalar) = dsc_name scalar"
| "dyn_type_name (DObject obj) = dob_name obj"
| "dyn_type_name (DInputObject obj) = dio_name obj"
| "dyn_type_name (DEnum e) = den_name e"
| "dyn_type_name (DInterface interface) = din_name interface"
| "dyn_type_name (DUnion u) = dun_name u"
| "dyn_type_name (DSubscription subscription) = dsu_name subscription"
| "dyn_type_name DUpload = ''Upload''"

definition as_object :: "dyn_type \<Rightarrow> dyn_object option" where
  "as_object ty = (case ty of DObject obj \<Rightarrow> Some obj | _ \<Rightarrow> None)"

definition as_interface :: "dyn_type \<Rightarrow> dyn_interface option" where
  "as_interface ty = (case ty of DInterface interface \<Rightarrow> Some interface | _ \<Rightarrow> None)"

definition as_input_object :: "dyn_type \<Rightarrow> dyn_input_object option" where
  "as_input_object ty = (case ty of DInputObject obj \<Rightarrow> Some obj | _ \<Rightarrow> None)"

definition as_subscription :: "dyn_type \<Rightarrow> dyn_subscription option" where
  "as_subscription ty = (case ty of DSubscription s \<Rightarrow> Some s | _ \<Rightarrow> None)"

fun is_output_type :: "dyn_type \<Rightarrow> bool" where
  "is_output_type (DInputObject _) = False"
| "is_output_type (DSubscription _) = False"
| "is_output_type DUpload = False"
| "is_output_type _ = True"

fun is_input_type :: "dyn_type \<Rightarrow> bool" where
  "is_input_type (DObject _) = False"
| "is_input_type (DInterface _) = False"
| "is_input_type (DUnion _) = False"
| "is_input_type (DSubscription _) = False"
| "is_input_type _ = True"

definition scalar_validate :: "dyn_scalar \<Rightarrow> const_value \<Rightarrow> bool" where
  "scalar_validate scalar val = (case dsc_validator scalar of Some validator \<Rightarrow> validator val | None \<Rightarrow> True)"

definition is_entity :: "dyn_object \<Rightarrow> bool" where
  "is_entity obj \<longleftrightarrow> dob_keys obj \<noteq> []"

record schema_inner =
  si_types :: dyn_types
  si_registry :: registry
  si_validation_mode :: validation_mode
  si_limits :: schema_limits
  si_entity_resolver :: "resolver_fn option"

subsection \<open>Registration\<close>

text \<open>\<open>show_number\<close> prints a number (\<open>serde_json\<close>).\<close>

definition to_meta_input_value :: "(number \<Rightarrow> string) \<Rightarrow> dyn_input_value \<Rightarrow> meta_input_value" where
  "to_meta_input_value show_number v =
     \<lparr>miv_name = div_name v, miv_description = div_description v, miv_ty = type_ref_str (div_ty v),
      miv_deprecation = div_deprecation v,
      miv_default_value = map_option (const_value_str show_number) (div_default_value v),
      miv_visible = None, miv_inaccessible = div_inaccessible v, miv_tags = div_tags v, miv_is_secret = False,
      miv_directive_invocations = div_directives v\<rparr>"

definition meta_args ::
  "(number \<Rightarrow> string) \<Rightarrow> (string, dyn_input_value) index_map \<Rightarrow> (string, meta_input_value) index_map" where
  "meta_args show_number args =
     fold (\<lambda>(_, argument). im_insert (div_name argument) (to_meta_input_value show_number argument)) args []"

definition meta_field_of :: "(number \<Rightarrow> string) \<Rightarrow> 'a interface_field_scheme \<Rightarrow> meta_field" where
  "meta_field_of show_number field =
     \<lparr>mf_name = df_name field, mf_description = df_description field,
      mf_args = meta_args show_number (df_arguments field), mf_ty = type_ref_str (df_ty field),
      mf_deprecation = df_deprecation field, mf_cache_control = cache_control_default,
      mf_external = df_external field, mf_requires = df_requires field, mf_provides = df_provides field,
      mf_visible = None, mf_shareable = df_shareable field, mf_inaccessible = df_inaccessible field,
      mf_tags = df_tags field, mf_override_from = df_override_from field, mf_compute_complexity = None,
      mf_directive_invocations = df_directives field, mf_requires_scopes = df_requires_scopes field\<rparr>"

definition meta_subscription_field :: "(number \<Rightarrow> string) \<Rightarrow> subscription_field \<Rightarrow> meta_field" where
  "meta_subscription_field show_number field =
     \<lparr>mf_name = sf_name field, mf_description = sf_description field,
      mf_args = meta_args show_number (sf_arguments field), mf_ty = type_ref_str (sf_ty field),
      mf_deprecation = sf_deprecation field, mf_cache_control = cache_control_default, mf_external = False,
      mf_requires = None, mf_provides = None, mf_visible = None, mf_shareable = False,
      mf_inaccessible = False, mf_tags = [], mf_override_from = None, mf_compute_complexity = None,
      mf_directive_invocations = [], mf_requires_scopes = []\<rparr>"

definition some_keys :: "string list \<Rightarrow> string list option" where
  "some_keys keys = (if keys \<noteq> [] then Some keys else None)"

definition add_meta_type :: "string \<Rightarrow> meta_type \<Rightarrow> registry \<Rightarrow> registry" where
  "add_meta_type n ty reg = reg\<lparr>types := im_insert n ty (types reg)\<rparr>"

definition register_object :: "(number \<Rightarrow> string) \<Rightarrow> dyn_object \<Rightarrow> registry \<Rightarrow> registry" where
  "register_object show_number obj reg =
     fold (add_implements (dob_name obj)) (dob_implements obj)
       (add_meta_type (dob_name obj)
         (MObject
           \<lparr>ob_name = dob_name obj, ob_description = dob_description obj,
            ob_fields = fold (\<lambda>(_, field). im_insert (df_name field) (meta_field_of show_number field)) (dob_fields obj) [],
            ob_cache_control = cache_control_default, ob_extends = dob_extends obj,
            ob_shareable = dob_shareable obj, ob_resolvable = dob_resolvable obj,
            ob_keys = some_keys (dob_keys obj), ob_visible = None, ob_inaccessible = dob_inaccessible obj,
            ob_interface_object = dob_interface_object obj, ob_tags = dob_tags obj,
            ob_is_subscription = False, ob_rust_typename = None,
            ob_directive_invocations = dob_directives obj, ob_requires_scopes = dob_requires_scopes obj\<rparr>) reg)"

definition register_interface :: "(number \<Rightarrow> string) \<Rightarrow> dyn_interface \<Rightarrow> registry \<Rightarrow> registry" where
  "register_interface show_number i reg =
     add_meta_type (din_name i)
       (MInterface
         \<lparr>it_name = din_name i, it_description = din_description i,
          it_fields = fold (\<lambda>(_, field). im_insert (df_name field) (meta_field_of show_number field)) (din_fields i) [],
          it_possible_types = [], it_extends = din_extends i, it_keys = some_keys (din_keys i),
          it_visible = None, it_inaccessible = din_inaccessible i, it_tags = din_tags i,
          it_rust_typename = None, it_directive_invocations = din_directives i,
          it_requires_scopes = din_requires_scopes i\<rparr>) reg"

definition register_union :: "dyn_union \<Rightarrow> registry \<Rightarrow> registry" where
  "register_union u reg =
     add_meta_type (dun_name u)
       (MUnion
         \<lparr>un_name = dun_name u, un_description = dun_description u, un_possible_types = dun_possible_types u,
          un_visible = None, un_inaccessible = dun_inaccessible u, un_tags = dun_tags u,
          un_rust_typename = None, un_directive_invocations = dun_directives u\<rparr>) reg"

definition register_enum :: "dyn_enum \<Rightarrow> registry \<Rightarrow> registry" where
  "register_enum e reg =
     add_meta_type (den_name e)
       (MEnum
         \<lparr>en_name = den_name e, en_description = den_description e,
          en_enum_values =
            fold (\<lambda>(_, item). im_insert (ei_name item)
              \<lparr>mev_name = ei_name item, mev_description = ei_description item,
               mev_deprecation = ei_deprecation item, mev_visible = None,
               mev_inaccessible = ei_inaccessible item, mev_tags = ei_tags item,
               mev_directive_invocations = ei_directives item\<rparr>) (den_enum_values e) [],
          en_visible = None, en_inaccessible = den_inaccessible e, en_tags = den_tags e,
          en_rust_typename = None, en_directive_invocations = den_directives e,
          en_requires_scopes = den_requires_scopes e\<rparr>) reg"

definition register_scalar :: "dyn_scalar \<Rightarrow> registry \<Rightarrow> registry" where
  "register_scalar s reg =
     add_meta_type (dsc_name s)
       (MScalar
         \<lparr>sc_name = dsc_name s, sc_description = dsc_description s, sc_is_valid = dsc_validator s,
          sc_visible = None, sc_inaccessible = dsc_inaccessible s, sc_tags = dsc_tags s,
          sc_specified_by_url = dsc_specified_by_url s, sc_directive_invocations = dsc_directives s,
          sc_requires_scopes = dsc_requires_scopes s\<rparr>) reg"

text \<open>A field of an input object gets the \<open>inaccessible\<close> and \<open>tags\<close> of the object, not its own.\<close>

definition register_input_object :: "(number \<Rightarrow> string) \<Rightarrow> dyn_input_object \<Rightarrow> registry \<Rightarrow> registry" where
  "register_input_object show_number obj reg =
     add_meta_type (dio_name obj)
       (MInputObject
         \<lparr>io_name = dio_name obj, io_description = dio_description obj,
          io_input_fields =
            fold (\<lambda>(_, field). im_insert (div_name field)
              \<lparr>miv_name = div_name field, miv_description = div_description field,
               miv_ty = type_ref_str (div_ty field), miv_deprecation = div_deprecation field,
               miv_default_value = map_option (const_value_str show_number) (div_default_value field),
               miv_visible = None, miv_inaccessible = dio_inaccessible obj, miv_tags = dio_tags obj,
               miv_is_secret = False, miv_directive_invocations = div_directives field\<rparr>) (dio_fields obj) [],
          io_visible = None, io_inaccessible = dio_inaccessible obj, io_tags = dio_tags obj,
          io_rust_typename = None, io_oneof = dio_oneof obj, io_directive_invocations = dio_directives obj\<rparr>) reg"

definition register_subscription :: "(number \<Rightarrow> string) \<Rightarrow> dyn_subscription \<Rightarrow> registry \<Rightarrow> registry" where
  "register_subscription show_number s reg =
     add_meta_type (dsu_name s)
       (MObject
         \<lparr>ob_name = dsu_name s, ob_description = dsu_description s,
          ob_fields =
            fold (\<lambda>(_, field). im_insert (sf_name field) (meta_subscription_field show_number field)) (dsu_fields s) [],
          ob_cache_control = cache_control_default, ob_extends = False, ob_shareable = False,
          ob_resolvable = True, ob_keys = None, ob_visible = None, ob_inaccessible = False,
          ob_interface_object = False, ob_tags = [], ob_is_subscription = True, ob_rust_typename = None,
          ob_directive_invocations = [], ob_requires_scopes = []\<rparr>) reg"

end
