(* ===== verification/Schema_Builder.thy ===== *)
theory Schema_Builder
  imports Dynamic_Check
begin

text \<open>
  \<open>SchemaBuilder\<close> of \<open>src/dynamic/schema.rs\<close> and the types that the registry creates itself
  (\<open>add_system_types\<close>, \<open>create_introspection_types\<close>, \<open>create_federation_types\<close> of \<open>src/registry/mod.rs\<close>).

  The \<open>create_type_info\<close> functions of the built-in scalars and of the introspection model are generated by the
  derive macros: they are the argument \<open>gen\<close>. A panic is a failure of its own.
\<close>

subsection \<open>Types of the registry\<close>

definition index_set_insert :: "'a \<Rightarrow> 'a list \<Rightarrow> 'a list" where
  "index_set_insert x s = (if x \<in> set s then s else s @ [x])"

record generated =
  create_system_scalars :: "registry \<Rightarrow> string + registry"
  create_schema_type_info :: "registry \<Rightarrow> string + registry"
  create_any_type_info :: "registry \<Rightarrow> string + registry"

definition simple_input_value :: "string \<Rightarrow> string option \<Rightarrow> string \<Rightarrow> string option \<Rightarrow> meta_input_value" where
  "simple_input_value n description ty default_value =
     \<lparr>miv_name = n, miv_description = description, miv_ty = ty, miv_deprecation = NoDeprecated,
      miv_default_value = default_value, miv_visible = None, miv_inaccessible = False, miv_tags = [],
      miv_is_secret = False, miv_directive_invocations = []\<rparr>"

definition simple_field :: "string \<Rightarrow> string option \<Rightarrow> (string, meta_input_value) index_map \<Rightarrow> string \<Rightarrow> meta_field" where
  "simple_field n description args ty =
     \<lparr>mf_name = n, mf_description = description, mf_args = args, mf_ty = ty, mf_deprecation = NoDeprecated,
      mf_cache_control = cache_control_default, mf_external = False, mf_requires = None, mf_provides = None,
      mf_visible = None, mf_shareable = False, mf_inaccessible = False, mf_tags = [], mf_override_from = None,
      mf_compute_complexity = None, mf_directive_invocations = [], mf_requires_scopes = []\<rparr>"

definition system_directive ::
  "string \<Rightarrow> string \<Rightarrow> directive_location list \<Rightarrow> (string, meta_input_value) index_map \<Rightarrow> meta_directive" where
  "system_directive n description locations args =
     \<lparr>md_name = n, md_description = Some description, md_locations = locations, md_args = args,
      md_is_repeatable = False, md_visible = None, md_composable = None\<rparr>"

definition system_directives :: "meta_directive list" where
  "system_directives =
     [system_directive ''skip''
        ''Directs the executor to skip this field or fragment when the `if` argument is true.''
        [LFIELD, LFRAGMENT_SPREAD, LINLINE_FRAGMENT]
        [(''if'', simple_input_value ''if'' (Some ''Skipped when true.'') ''Boolean!'' None)],
      system_directive ''include''
        ''Directs the executor to include this field or fragment only when the `if` argument is true.''
        [LFIELD, LFRAGMENT_SPREAD, LINLINE_FRAGMENT]
        [(''if'', simple_input_value ''if'' (Some ''Included when true.'') ''Boolean!'' None)],
      system_directive ''deprecated''
        ''Marks an element of a GraphQL schema as no longer supported.''
        [LFIELD_DEFINITION, LARGUMENT_DEFINITION, LINPUT_FIELD_DEFINITION, LENUM_VALUE]
        [(''reason'', simple_input_value ''reason''
            (Some ''A reason for why it is deprecated, formatted using Markdown syntax'') ''String''
            (Some ''\"No longer supported\"''))],
      system_directive ''specifiedBy''
        ''Provides a scalar specification URL for specifying the behavior of custom scalar types.''
        [LSCALAR]
        [(''url'', simple_input_value ''url'' (Some ''URL that specifies the behavior of this scalar.'') ''String!'' None)],
      system_directive ''oneOf''
        ''Indicates that an Input Object is a OneOf Input Object (and thus requires exactly one of its field be provided)''
        [LINPUT_OBJECT] []]"

definition add_system_types :: "generated \<Rightarrow> registry \<Rightarrow> string + registry" where
  "add_system_types gen reg = create_system_scalars gen (fold add_directive system_directives reg)"

definition add_query_fields :: "(string \<times> meta_field) list \<Rightarrow> registry \<Rightarrow> registry" where
  "add_query_fields fs reg =
     (case im_get (types reg) (query_type reg) of
        Some (MObject t) \<Rightarrow>
          reg\<lparr>types := im_insert (query_type reg)
            (MObject (t\<lparr>ob_fields := fold (\<lambda>(n, field). im_insert n field) fs (ob_fields t)\<rparr>)) (types reg)\<rparr>
      | _ \<Rightarrow> reg)"

definition create_introspection_types :: "generated \<Rightarrow> registry \<Rightarrow> string + registry" where
  "create_introspection_types gen reg =
     map_ok (add_query_fields
       [(''__schema'', simple_field ''__schema'' (Some ''Access the current type schema of this server.'') [] ''__Schema''),
        (''__type'', simple_field ''__type'' (Some ''Request the type information of a single type.'')
           [(''name'', simple_input_value ''name'' None ''String!'' None)] ''__Type'')])
       (create_schema_type_info gen reg)"

definition entity_names :: "registry \<Rightarrow> string list" where
  "entity_names reg =
     fold index_set_insert (List.map_filter (\<lambda>(_, ty). case ty of
         MObject t \<Rightarrow>
           (case ob_keys t of
              Some keys \<Rightarrow> if ob_resolvable t \<and> keys \<noteq> [] then Some (ob_name t) else None
            | None \<Rightarrow> None)
       | MInterface t \<Rightarrow>
           (case it_keys t of Some keys \<Rightarrow> if keys \<noteq> [] then Some (it_name t) else None | None \<Rightarrow> None)
       | _ \<Rightarrow> None) (types reg)) []"

definition create_entity_type_and_root_field :: "registry \<Rightarrow> string + registry" where
  "create_entity_type_and_root_field reg =
     (if \<not> im_contains (types reg) (query_type reg) then Inl ''missing query type''
      else
        let entities = entity_names reg;
            reg = add_query_fields [(''_service'', simple_field ''_service'' None [] ''_Service!'')] reg
        in if entities = [] then Inr reg
           else Inr (add_query_fields
             [(''_entities'', simple_field ''_entities'' None
                 [(''representations'', simple_input_value ''representations'' None ''[_Any!]!'' None)] ''[_Entity]!'')]
             (add_meta_type ''_Entity''
               (MUnion
                 \<lparr>un_name = ''_Entity'', un_description = None, un_possible_types = entities, un_visible = None,
                  un_inaccessible = False, un_tags = [], un_rust_typename = Some ''async_graphql::federation::Entity'',
                  un_directive_invocations = []\<rparr>) reg)))"

definition create_federation_types :: "generated \<Rightarrow> registry \<Rightarrow> string + registry" where
  "create_federation_types gen reg =
     bind_result (create_any_type_info gen reg) (\<lambda>reg.
     create_entity_type_and_root_field
       (add_meta_type ''_Service''
         (MObject
           \<lparr>ob_name = ''_Service'', ob_description = None,
            ob_fields = [(''sdl'', simple_field ''sdl'' None [] ''String'')],
            ob_cache_control = cache_control_default, ob_extends = False, ob_shareable = False,
            ob_resolvable = True, ob_keys = None, ob_visible = None, ob_inaccessible = False,
            ob_interface_object = False, ob_tags = [], ob_is_subscription = False,
            ob_rust_typename = Some ''async_graphql::federation::Service'', ob_directive_invocations = [],
            ob_requires_scopes = []\<rparr>) reg))"

subsection \<open>The builder\<close>

datatype build_failure = BuildError string | BuildPanic string

definition or_panic :: "string + 'a \<Rightarrow> build_failure + 'a" where
  "or_panic r = (case r of Inl message \<Rightarrow> Inl (BuildPanic message) | Inr x \<Rightarrow> Inr x)"

definition or_error :: "string + 'a \<Rightarrow> build_failure + 'a" where
  "or_error r = (case r of Inl message \<Rightarrow> Inl (BuildError message) | Inr x \<Rightarrow> Inr x)"

definition upload_type :: meta_type where
  "upload_type = MScalar
     \<lparr>sc_name = ''Upload'', sc_description = None,
      sc_is_valid = Some (\<lambda>val. case val of CString _ \<Rightarrow> True | _ \<Rightarrow> False), sc_visible = None,
      sc_inaccessible = False, sc_tags = [],
      sc_specified_by_url = Some ''https://github.com/jaydenseric/graphql-multipart-request-spec'',
      sc_directive_invocations = [], sc_requires_scopes = []\<rparr>"

definition register_type :: "(number \<Rightarrow> string) \<Rightarrow> dyn_type \<Rightarrow> registry \<Rightarrow> build_failure + registry" where
  "register_type show_number ty reg =
     (if im_contains (types reg) (dyn_type_name ty)
      then Inl (BuildError (''Type '' @ quoted (dyn_type_name ty) @ '' already exists''))
      else case ty of
        DScalar s \<Rightarrow> Inr (register_scalar s reg)
      | DObject obj \<Rightarrow> Inr (register_object show_number obj reg)
      | DInputObject obj \<Rightarrow> Inr (register_input_object show_number obj reg)
      | DEnum e \<Rightarrow> Inr (register_enum e reg)
      | DInterface i \<Rightarrow> Inr (register_interface show_number i reg)
      | DUnion u \<Rightarrow> Inr (register_union u reg)
      | DSubscription s \<Rightarrow> Inr (register_subscription show_number s reg)
      | DUpload \<Rightarrow> or_panic (create_type (\<lambda>reg. (upload_type, reg)) ''Upload'' ''async_graphql::types::upload::Upload'' TIScalar reg))"

primrec register_types :: "(number \<Rightarrow> string) \<Rightarrow> dyn_type list \<Rightarrow> registry \<Rightarrow> build_failure + registry" where
  "register_types show_number [] reg = Inr reg"
| "register_types show_number (ty # tys) reg =
     bind_result (register_type show_number ty reg) (register_types show_number tys)"

definition add_possible_type :: "string \<Rightarrow> string \<Rightarrow> registry \<Rightarrow> registry" where
  "add_possible_type obj_name interface reg =
     reg\<lparr>types := map (\<lambda>(k, ty). (k, case ty of
         MInterface t \<Rightarrow>
           MInterface (if it_name t = interface then t\<lparr>it_possible_types := index_set_insert obj_name (it_possible_types t)\<rparr> else t)
       | _ \<Rightarrow> ty)) (types reg)\<rparr>"

definition update_interface_possible_types :: "dyn_types \<Rightarrow> registry \<Rightarrow> registry" where
  "update_interface_possible_types tys =
     fold (\<lambda>(_, ty). case ty of
         DObject obj \<Rightarrow> fold (add_possible_type (dob_name obj)) (dob_implements obj)
       | _ \<Rightarrow> id) tys"

record schema_builder =
  sb_query_type :: string
  sb_mutation_type :: "string option"
  sb_subscription_type :: "string option"
  sb_types :: dyn_types
  sb_validation_mode :: validation_mode
  sb_limits :: schema_limits
  sb_enable_suggestions :: bool
  sb_introspection_mode :: introspection_mode
  sb_enable_federation :: bool
  sb_entity_resolver :: "resolver_fn option"

definition build :: "string \<Rightarrow> string option \<Rightarrow> string option \<Rightarrow> schema_builder" where
  "build query mutation subscription =
     \<lparr>sb_query_type = query, sb_mutation_type = mutation, sb_subscription_type = subscription, sb_types = [],
      sb_validation_mode = Strict,
      sb_limits = \<lparr>recursive_depth = 32, max_directives = None, limit_complexity = None, limit_depth = None\<rparr>,
      sb_enable_suggestions = True, sb_introspection_mode = IntrospectionEnabled, sb_enable_federation = False,
      sb_entity_resolver = None\<rparr>"

definition register :: "dyn_type \<Rightarrow> schema_builder \<Rightarrow> schema_builder" where
  "register ty b = b\<lparr>sb_types := im_insert (dyn_type_name ty) ty (sb_types b)\<rparr>"

definition enable_uploading :: "schema_builder \<Rightarrow> schema_builder" where
  "enable_uploading b = b\<lparr>sb_types := im_insert ''Upload'' DUpload (sb_types b)\<rparr>"

definition scalar_new :: "string \<Rightarrow> dyn_scalar" where
  "scalar_new n =
     \<lparr>dsc_name = n, dsc_description = None, dsc_specified_by_url = None, dsc_validator = None,
      dsc_inaccessible = False, dsc_tags = [], dsc_directives = [], dsc_requires_scopes = []\<rparr>"

definition system_scalars :: "string list" where
  "system_scalars = [''Int'', ''Float'', ''Boolean'', ''String'', ''ID'']"

definition is_entity_type :: "dyn_type \<Rightarrow> bool" where
  "is_entity_type ty =
     (case ty of DObject obj \<Rightarrow> is_entity obj | DInterface i \<Rightarrow> din_keys i \<noteq> [] | _ \<Rightarrow> False)"

definition entity_union :: "dyn_types \<Rightarrow> dyn_union" where
  "entity_union tys =
     \<lparr>dun_name = ''_Entity'', dun_description = None,
      dun_possible_types =
        fold (\<lambda>(_, ty). if is_entity_type ty then index_set_insert (dyn_type_name ty) else id) tys [],
      dun_inaccessible = False, dun_tags = [], dun_directives = []\<rparr>"

definition registry_new :: "schema_builder \<Rightarrow> registry" where
  "registry_new b =
     \<lparr>types = [], directives = [], implements = [], query_type = sb_query_type b,
      mutation_type = sb_mutation_type b, subscription_type = sb_subscription_type b,
      introspection_mode = sb_introspection_mode b, enable_federation = False,
      federation_subscription = False, ignore_name_conflicts = [], enable_suggestions = sb_enable_suggestions b\<rparr>"

text \<open>What \<open>finish\<close> makes, before the checks: the types and the registry.\<close>

definition assemble ::
  "generated \<Rightarrow> (number \<Rightarrow> string) \<Rightarrow> schema_builder \<Rightarrow> build_failure + dyn_types \<times> registry" where
  "assemble gen show_number b =
     bind_result (or_panic (add_system_types gen (registry_new b))) (\<lambda>reg.
     bind_result (register_types show_number (map snd (sb_types b)) reg) (\<lambda>reg.
     let reg = update_interface_possible_types (sb_types b) reg;
         tys = fold (\<lambda>n. im_insert n (DScalar (scalar_new n))) system_scalars (sb_types b)
     in bind_result
          (if sb_introspection_mode b \<noteq> IntrospectionDisabled
           then or_panic (create_introspection_types gen reg) else Inr reg) (\<lambda>reg.
        if sb_enable_federation b \<or> has_entities reg then
          map_ok (\<lambda>reg. (im_insert ''_Entity'' (DUnion (entity_union tys)) tys, reg))
            (or_panic (create_federation_types gen (reg\<lparr>enable_federation := True\<rparr>)))
        else Inr (tys, reg))))"

definition finish ::
  "generated \<Rightarrow> (number \<Rightarrow> string) \<Rightarrow> schema_builder \<Rightarrow> build_failure + schema_inner" where
  "finish gen show_number b =
     bind_result (assemble gen show_number b) (\<lambda>(tys, reg).
     let inner = \<lparr>si_types = tys, si_registry = reg, si_validation_mode = sb_validation_mode b,
                  si_limits = sb_limits b, si_entity_resolver = sb_entity_resolver b\<rparr>
     in map_ok (\<lambda>_. inner) (or_error (check_schema inner)))"

subsection \<open>What is known of a finished schema\<close>

text \<open>The generated functions register types, and change nothing else of the registry.\<close>

definition only_types :: "(registry \<Rightarrow> string + registry) \<Rightarrow> bool" where
  "only_types f \<longleftrightarrow> (\<forall>reg reg'. f reg = Inr reg' \<longrightarrow> (\<exists>tys. reg' = reg\<lparr>types := tys\<rparr>))"

definition adds_types :: "generated \<Rightarrow> bool" where
  "adds_types gen \<longleftrightarrow>
     only_types (create_system_scalars gen) \<and> only_types (create_schema_type_info gen) \<and>
     only_types (create_any_type_info gen)"

lemma or_error_Inr [res_simps]: "or_error r = Inr x \<longleftrightarrow> r = Inr x"
  by (auto simp: or_error_def split: sum.splits)

lemma or_panic_Inr [res_simps]: "or_panic r = Inr x \<longleftrightarrow> r = Inr x"
  by (auto simp: or_panic_def split: sum.splits)

lemma finish_Inr:
  assumes "finish gen show_number b = Inr s"
  shows "assemble gen show_number b = Inr (si_types s, si_registry s)" "check_schema s = Inr ()"
    "si_limits s = sb_limits b"
  using assms by (auto simp: finish_def Let_def res_simps)

lemma check_names_ok: "check_names tys ns = Inr () \<Longrightarrow> n \<in> set ns \<Longrightarrow> im_contains tys n"
  by (auto simp: check_names_def for_each_Inr split: if_splits)

lemma check_schema_closed:
  assumes "check_schema s = Inr ()" "(k, ty) \<in> set (si_types s)" "n \<in> set (mentioned_types ty)"
  shows "im_contains (si_types s) n"
  using assms check_names_ok [of "si_types s" "mentioned_types ty" n]
  by (auto simp: check_schema_def check_types_exists_def res_simps)

lemma enable_federation_fold: "(\<And>x r. enable_federation (f x r) = enable_federation r) \<Longrightarrow>
  enable_federation (fold f xs reg) = enable_federation reg"
  by (induction xs arbitrary: reg) simp_all

lemma enable_federation_keep [simp]:
  "enable_federation (add_directive d reg) = enable_federation reg"
  "enable_federation (add_meta_type n t reg) = enable_federation reg"
  "enable_federation (add_implements x y reg) = enable_federation reg"
  "enable_federation (add_possible_type x y reg) = enable_federation reg"
  "enable_federation (add_query_fields fs reg) = enable_federation reg"
  by (simp_all add: add_directive_def add_meta_type_def add_implements_def add_possible_type_def add_query_fields_def
      split: option.splits meta_type.splits)

lemma update_possible_types_federation [simp]:
  "enable_federation (update_interface_possible_types tys reg) = enable_federation reg"
  unfolding update_interface_possible_types_def
  by (rule enable_federation_fold) (auto simp: enable_federation_fold split: dyn_type.splits)

lemma register_type_federation:
  "register_type show_number ty reg = Inr reg' \<Longrightarrow> enable_federation reg' = enable_federation reg"
  by (cases ty)
     (auto simp: register_type_def register_scalar_def register_object_def register_input_object_def
       register_enum_def register_interface_def register_union_def register_subscription_def
       enable_federation_fold or_panic_Inr create_type_def Let_def
       split: if_splits sum.splits option.splits)

lemma register_types_federation:
  "register_types show_number tys reg = Inr reg' \<Longrightarrow> enable_federation reg' = enable_federation reg"
  by (induction tys arbitrary: reg) (auto simp: res_simps dest: register_type_federation)

lemma only_types_federation:
  "only_types f \<Longrightarrow> f reg = Inr reg' \<Longrightarrow> enable_federation reg' = enable_federation reg"
  by (auto simp: only_types_def dest!: spec)

lemma assemble_entity:
  assumes "adds_types gen" "assemble gen show_number b = Inr (tys, reg)" "enable_federation reg"
  shows "im_contains tys ''_Entity''"
proof (rule ccontr)
  assume no_entity: "\<not> im_contains tys ''_Entity''"
  have ty: "only_types (create_system_scalars gen)" "only_types (create_schema_type_info gen)"
    using assms(1) by (auto simp: adds_types_def)
  let ?tys = "fold (\<lambda>n. im_insert n (DScalar (scalar_new n))) system_scalars (sb_types b)"
  from assms(2) obtain reg1 reg2 reg3 where steps:
    "add_system_types gen (registry_new b) = Inr reg1"
    "register_types show_number (map snd (sb_types b)) reg1 = Inr reg2"
    "(if sb_introspection_mode b \<noteq> IntrospectionDisabled
      then or_panic (create_introspection_types gen (update_interface_possible_types (sb_types b) reg2))
      else Inr (update_interface_possible_types (sb_types b) reg2)) = Inr reg3"
    and last: "(if sb_enable_federation b \<or> has_entities reg3 then
          map_ok (\<lambda>reg. (im_insert ''_Entity'' (DUnion (entity_union ?tys)) ?tys, reg))
            (or_panic (create_federation_types gen (reg3\<lparr>enable_federation := True\<rparr>)))
        else Inr (?tys, reg3)) = Inr (tys, reg)"
    unfolding assemble_def Let_def bind_result_Inr_iff or_panic_Inr by blast
  from last no_entity have "reg = reg3"
    by (auto simp: res_simps update_conv' split: if_splits)
  with steps have "enable_federation reg = enable_federation (registry_new b)"
    using only_types_federation [OF ty(1)] only_types_federation [OF ty(2)]
    by (auto simp: add_system_types_def create_introspection_types_def res_simps
        enable_federation_fold dest!: register_types_federation split: if_splits)
  with assms(3) show False by (simp add: registry_new_def)
qed

text \<open>Every type is registered under its name.\<close>

definition named_types :: "dyn_types \<Rightarrow> bool" where
  "named_types tys \<longleftrightarrow> im_ok tys \<and> (\<forall>(k, ty)\<in>set tys. dyn_type_name ty = k)"

lemma set_update: "x \<in> set (AList.update k v m) \<Longrightarrow> x = (k, v) \<or> x \<in> set m"
  by (induction m) (auto split: if_splits)

lemma named_types_insert: "named_types tys \<Longrightarrow> dyn_type_name ty = k \<Longrightarrow> named_types (im_insert k ty tys)"
  using im_ok_insert [of tys k ty] by (auto simp: named_types_def dest!: set_update)

lemma named_types_build [simp]: "named_types (sb_types (build query mutation subscription))"
  by (simp add: build_def named_types_def im_ok_def)

lemma named_types_register [simp]: "named_types (sb_types b) \<Longrightarrow> named_types (sb_types (register ty b))"
  using named_types_insert [OF _ refl, of "sb_types b" ty] by (simp add: register_def)

lemma named_types_uploading [simp]: "named_types (sb_types b) \<Longrightarrow> named_types (sb_types (enable_uploading b))"
  using named_types_insert [OF _ refl, of "sb_types b" DUpload] by (simp add: enable_uploading_def)

definition with_system_scalars :: "dyn_types \<Rightarrow> dyn_types" where
  "with_system_scalars = fold (\<lambda>n. im_insert n (DScalar (scalar_new n))) system_scalars"

lemma assemble_types:
  assumes "assemble gen show_number b = Inr (tys, reg)"
  shows "tys = with_system_scalars (sb_types b) \<and> \<not> sb_enable_federation b \<or>
    tys = im_insert ''_Entity'' (DUnion (entity_union (with_system_scalars (sb_types b)))) (with_system_scalars (sb_types b))"
  using assms unfolding assemble_def Let_def bind_result_Inr_iff or_panic_Inr with_system_scalars_def
  by (auto simp: res_simps split: if_splits)

lemma named_types_scalars: "named_types tys \<Longrightarrow> named_types (with_system_scalars tys)"
proof -
  have "named_types (fold (\<lambda>n. im_insert n (DScalar (scalar_new n))) ns tys)" if "named_types tys" for ns
    using that by (induction ns arbitrary: tys) (auto simp: named_types_insert scalar_new_def simp del: im_insert_def)
  then show "named_types tys \<Longrightarrow> ?thesis" by (simp add: with_system_scalars_def)
qed

lemma finish_named:
  assumes "named_types (sb_types b)" "finish gen show_number b = Inr s"
  shows "named_types (si_types s)"
  using assemble_types [OF finish_Inr(1) [OF assms(2)]] named_types_scalars [OF assms(1)]
    named_types_insert [of "with_system_scalars (sb_types b)"
      "DUnion (entity_union (with_system_scalars (sb_types b)))" "''_Entity''"]
  by (auto simp: entity_union_def)

lemma named_types_get: "named_types tys \<Longrightarrow> (k, ty) \<in> set tys \<longleftrightarrow> map_of tys k = Some ty"
  by (auto simp: named_types_def im_ok_def dest: map_of_SomeD)

definition input_field_ok :: "dyn_types \<Rightarrow> dyn_input_object \<Rightarrow> dyn_input_value \<Rightarrow> bool" where
  "input_field_ok tys obj field \<longleftrightarrow>
     \<not> starts_with (div_name field) ''__'' \<and>
     (\<forall>ty. im_get tys (type_ref_name (div_ty field)) = Some ty \<longrightarrow> is_input_type ty) \<and>
     (dio_oneof obj \<longrightarrow> is_nullable_ref (div_ty field) \<and> div_default_value field = None)"

lemma check_input_field_iff: "check_input_field tys obj field = Inr () \<longleftrightarrow> input_field_ok tys obj field"
  by (auto simp: check_input_field_def input_field_ok_def check_type_usage_def res_simps split: option.splits)

lemma check_input_object_reference_Inr:
  "check_input_object_reference tys current obj [] = Inr () \<longleftrightarrow>
   \<not> (\<exists>n\<in>required_inputs obj. (requires_input tys)\<^sup>*\<^sup>* n current)"
  unfolding check_input_object_reference_iff [symmetric]
  by (cases "check_input_object_reference tys current obj []") auto

lemma requires_input_cycle:
  "(requires_input tys)\<^sup>+\<^sup>+ a a \<longleftrightarrow>
   (\<exists>obj. map_of tys a = Some (DInputObject obj) \<and> (\<exists>n\<in>required_inputs obj. (requires_input tys)\<^sup>*\<^sup>* n a))"
proof -
  have "(requires_input tys)\<^sup>+\<^sup>+ a a \<longleftrightarrow> (\<exists>n. requires_input tys a n \<and> (requires_input tys)\<^sup>*\<^sup>* n a)"
    by (blast dest: tranclpD intro: rtranclp_into_tranclp2)
  then show ?thesis by (auto simp: requires_input_def [of tys a])
qed

theorem check_input_objects_iff:
  assumes "named_types (si_types s)"
  shows "check_input_objects s = Inr () \<longleftrightarrow>
    (\<forall>k obj. im_get (si_types s) k = Some (DInputObject obj) \<longrightarrow>
       (\<forall>(_, field)\<in>set (dio_fields obj). input_field_ok (si_types s) obj field)) \<and>
    (\<forall>n. \<not> (requires_input (si_types s))\<^sup>+\<^sup>+ n n)"
proof -
  have name: "dio_name obj = k" if "(k, DInputObject obj) \<in> set (si_types s)" for k obj
    using assms that by (auto simp: named_types_def)
  have "check_input_objects s = Inr () \<longleftrightarrow>
    (\<forall>k obj. (k, DInputObject obj) \<in> set (si_types s) \<longrightarrow>
       (\<forall>(_, field)\<in>set (dio_fields obj). input_field_ok (si_types s) obj field) \<and>
       check_input_object_reference (si_types s) (dio_name obj) obj [] = Inr ())"
    by (simp add: check_input_objects_def res_simps check_input_field_iff case_prod_beta split: dyn_type.splits) force
  then show ?thesis
    unfolding check_input_object_reference_Inr requires_input_cycle named_types_get [OF assms]
    using name unfolding named_types_get [OF assms] im_get_def by metis
qed

text \<open>An interface with a key is made a member of the union \<open>_Entity\<close>, whose members have to be objects.\<close>

lemma entity_interface_rejected:
  assumes "named_types (sb_types b)" "sb_enable_federation b" "map_of (sb_types b) n = Some (DInterface i)"
    "din_keys i \<noteq> []" "n \<notin> set system_scalars" "n \<noteq> ''_Entity''"
  shows "finish gen show_number b \<noteq> Inr s"
proof
  assume fin: "finish gen show_number b = Inr s"
  let ?tys = "with_system_scalars (sb_types b)"
  have "map_of (fold (\<lambda>n. im_insert n (DScalar (scalar_new n))) ns (sb_types b)) n = Some (DInterface i)"
    if "n \<notin> set ns" for ns
    using that assms(3)
    by (induction ns arbitrary: b rule: rev_induct) (auto simp: update_conv')
  then have get: "map_of ?tys n = Some (DInterface i)" using assms(5) by (simp add: with_system_scalars_def)
  have n: "din_name i = n" using assms(1,3) by (force simp: named_types_def dest: map_of_SomeD)
  have "n \<in> set (fold (\<lambda>(_, ty). if is_entity_type ty then index_set_insert (dyn_type_name ty) else id) tys es)"
    if "(n, DInterface i) \<in> set tys \<or> n \<in> set es" for tys es
    using that
    by (induction tys arbitrary: es) (auto simp: is_entity_type_def assms(4) n index_set_insert_def)
  then have "n \<in> set (dun_possible_types (entity_union ?tys))"
    using get by (auto simp: entity_union_def dest: map_of_SomeD)
  moreover have "si_types s = im_insert ''_Entity'' (DUnion (entity_union ?tys)) ?tys"
    using assemble_types [OF finish_Inr(1) [OF fin]] assms(2) by simp
  ultimately have "map_of (si_types s) n = Some (DInterface i)"
      "map_of (si_types s) ''_Entity'' = Some (DUnion (entity_union ?tys))" "n \<in> set (dun_possible_types (entity_union ?tys))"
    using get assms(6) by (auto simp: update_conv')
  moreover from this(2) have "check_union (si_types s) (entity_union ?tys) = Inr ()"
    using finish_Inr(2) [OF fin]
    by (auto simp: check_schema_def check_unions_def res_simps dest!: map_of_SomeD bspec)
  ultimately show False by (auto simp: check_union_def res_simps is_object_type_def as_object_def split: if_splits)
qed

end
