(* ===== verification/Dynamic_Exec.thy ===== *)
theory Dynamic_Exec
  imports Schema_Builder
begin

text \<open>
  Execution of an operation on a dynamic schema: \<open>src/dynamic/resolve.rs\<close>, \<open>execute_once\<close> and \<open>execute\<close> of
  \<open>src/dynamic/schema.rs\<close>, and the evaluation of arguments of \<open>src/context.rs\<close>.

  The resolvers are functions of the schema; the fields whose values come from generated code (\<open>__schema\<close>,
  \<open>__type\<close>, \<open>_service\<close>) are the argument \<open>intro\<close>. The futures run one after the other, as they do when no
  resolver suspends, and no extension is installed. Indexing \<open>types\<close> with a name that is not registered is a
  panic, and more than \<open>n\<close> nested fragment spreads are a stack overflow.
\<close>

subsection \<open>Errors that end a field and errors that are added\<close>

type_synonym 'a exec = "request_failure + (server_error + 'a) \<times> server_error list"

definition exec_ok :: "'a \<Rightarrow> 'a exec" where
  "exec_ok x = Inr (Inr x, [])"

definition exec_err :: "server_error \<Rightarrow> 'a exec" where
  "exec_err e = Inr (Inl e, [])"

definition exec_bind :: "'a exec \<Rightarrow> ('a \<Rightarrow> 'b exec) \<Rightarrow> 'b exec" where
  "exec_bind m f =
     (case m of
        Inl fl \<Rightarrow> Inl fl
      | Inr (Inl e, errs) \<Rightarrow> Inr (Inl e, errs)
      | Inr (Inr x, errs) \<Rightarrow> map_ok (\<lambda>(r, errs'). (r, errs @ errs')) (f x))"

definition exec_lift :: "server_error + 'a \<Rightarrow> 'a exec" where
  "exec_lift r = Inr (r, [])"

text \<open>\<open>try_join_all\<close> of futures that do not suspend.\<close>

primrec exec_all :: "('a \<Rightarrow> 'b exec) \<Rightarrow> 'a list \<Rightarrow> 'b list exec" where
  "exec_all f [] = exec_ok []"
| "exec_all f (x # xs) = exec_bind (f x) (\<lambda>y. exec_bind (exec_all f xs) (\<lambda>ys. exec_ok (y # ys)))"

text \<open>The loop of \<open>do_resolve_container\<close>: the outcomes, and the errors in the order they are added.\<close>

primrec exec_each ::
  "('a \<Rightarrow> 'b exec) \<Rightarrow> 'a list \<Rightarrow> request_failure + (server_error + 'b) list \<times> server_error list" where
  "exec_each f [] = Inr ([], [])"
| "exec_each f (x # xs) =
     bind_result (f x) (\<lambda>(r, errs).
     map_ok (\<lambda>(rs, errs'). (r # rs, errs @ (case r of Inl e \<Rightarrow> [e] | Inr _ \<Rightarrow> []) @ errs')) (exec_each f xs))"

lemma exec_all_cong [fundef_cong]:
  "xs = ys \<Longrightarrow> (\<And>x. x \<in> set ys \<Longrightarrow> f x = g x) \<Longrightarrow> exec_all f xs = exec_all g ys"
  by (induction ys arbitrary: xs) simp_all

lemma exec_each_cong [fundef_cong]:
  "xs = ys \<Longrightarrow> (\<And>x. x \<in> set ys \<Longrightarrow> f x = g x) \<Longrightarrow> exec_each f xs = exec_each g ys"
  by (induction ys arbitrary: xs) simp_all

subsection \<open>Arguments\<close>

definition var_value :: "variables \<Rightarrow> operation_definition \<Rightarrow> string \<Rightarrow> pos \<Rightarrow> server_error + const_value" where
  "var_value vars operation n p =
     (case Option.bind (List.find (\<lambda>def. node (vd_name (node def)) = n) (od_variable_definitions operation)) (\<lambda>def.
             case im_get vars (node (vd_name (node def))) of
               Some v \<Rightarrow> Some v
             | None \<Rightarrow> vd_default (node def)) of
        Some v \<Rightarrow> Inr v
      | None \<Rightarrow> Inl (server_error_new (''Variable '' @ n @ '' is not defined.'') (Some p)))"

definition resolve_input_value ::
  "variables \<Rightarrow> operation_definition \<Rightarrow> gvalue positioned \<Rightarrow> server_error + const_value" where
  "resolve_input_value vars operation val =
     into_const_with (node val) (\<lambda>n. var_value vars operation n (pos val))"

definition resolve_arguments ::
  "variables \<Rightarrow> operation_definition \<Rightarrow> field \<Rightarrow> server_error + (name, const_value) index_map" where
  "resolve_arguments vars operation field =
     map_ok (\<lambda>args. fold (\<lambda>(n, v). im_insert n v) args [])
       (map_result (\<lambda>(n, val). map_ok (\<lambda>v. (node n, v)) (resolve_input_value vars operation val))
         (f_arguments field))"

definition add_default_arguments ::
  "(string, dyn_input_value) index_map \<Rightarrow> (name, const_value) index_map \<Rightarrow> (name, const_value) index_map" where
  "add_default_arguments defs args =
     fold (\<lambda>(n, arg) args. case div_default_value arg of
         Some def \<Rightarrow> if im_contains args n then args else im_insert n def args
       | None \<Rightarrow> args) defs args"

subsection \<open>Collecting fields\<close>

datatype generated_field = SchemaField | TypeField | ServiceField

datatype field_kind =
    KTypename
  | KGenerated generated_field
  | KEntities
  | KNull
  | KField dyn_field

definition introspects :: "introspection_mode \<Rightarrow> bool" where
  "introspects mode \<longleftrightarrow> mode \<noteq> IntrospectionDisabled"

text \<open>What a selected field resolves to; \<open>None\<close> when the object has no such field, which is skipped.\<close>

definition field_kind_of :: "schema_inner \<Rightarrow> introspection_mode \<Rightarrow> dyn_object \<Rightarrow> name \<Rightarrow> field_kind option" where
  "field_kind_of s mode obj n =
     (let reg = si_registry s;
          root = dob_name obj = query_type reg \<and> introspects (introspection_mode reg) \<and> introspects mode
      in if n = ''__typename'' then Some KTypename
         else if root \<and> n = ''__schema'' then Some (KGenerated SchemaField)
         else if root \<and> n = ''__type'' then Some (KGenerated TypeField)
         else if root \<and> enable_federation reg \<and> n = ''_service'' then Some (KGenerated ServiceField)
         else if root \<and> enable_federation reg \<and> n = ''_entities'' then Some KEntities
         else if introspection_mode reg = IntrospectionOnly \<or> mode = IntrospectionOnly then Some KNull
         else map_option KField (im_get (dob_fields obj) n))"

definition type_condition_matched :: "dyn_object \<Rightarrow> name option \<Rightarrow> bool" where
  "type_condition_matched obj condition =
     (case condition of
        None \<Rightarrow> True
      | Some c \<Rightarrow> c = dob_name obj \<or> c \<in> set (dob_implements obj))"

text \<open>Each collected field comes with the number of spreads that may still be nested below it.\<close>

function dyn_collect_fields ::
  "nat \<Rightarrow> schema_inner \<Rightarrow> introspection_mode \<Rightarrow> fragments \<Rightarrow> dyn_object \<Rightarrow> selection_set \<Rightarrow>
   (nat \<times> field_kind \<times> field positioned) list exec" where
  "dyn_collect_fields n s mode frags obj ss =
     exec_bind (exec_all (\<lambda>sel. case node sel of
         Field field \<Rightarrow>
           exec_ok (case field_kind_of s mode obj (node (f_name (node field))) of
               Some kind \<Rightarrow> [(n, kind, field)]
             | None \<Rightarrow> [])
       | FragmentSpread spread \<Rightarrow>
           (case im_get frags (node (fs_fragment_name (node spread))) of
              None \<Rightarrow> exec_err (unknown_fragment_error spread)
            | Some fragment \<Rightarrow>
                (if type_condition_matched obj (Some (node (tc_on (node (fd_type_condition (node fragment))))))
                 then (case n of
                         0 \<Rightarrow> Inl StackOverflow
                       | Suc n \<Rightarrow> dyn_collect_fields n s mode frags obj (node (fd_selection_set (node fragment))))
                 else exec_ok []))
       | InlineFragment frag \<Rightarrow>
           (if type_condition_matched obj (map_option (\<lambda>c. node (tc_on (node c))) (if_type_condition (node frag)))
            then dyn_collect_fields n s mode frags obj (node (if_selection_set (node frag)))
            else exec_ok [])) (ss_items ss)) (\<lambda>fields. exec_ok (concat fields))"
  by pat_completeness auto
termination
  by (relation "measures [fst, \<lambda>(_, _, _, _, _, ss). size ss]") (auto simp: termination_simp)

declare dyn_collect_fields.simps [simp del]

subsection \<open>Resolving a value\<close>

definition internal_error :: "path_segment list \<Rightarrow> field positioned \<Rightarrow> string \<Rightarrow> server_error" where
  "internal_error path field message =
     \<lparr>se_message = ''internal: '' @ message, se_locations = [pos field], se_path = path, se_extensions = None\<rparr>"

definition into_server_error :: "user_error \<Rightarrow> pos \<Rightarrow> server_error" where
  "into_server_error e p =
     \<lparr>se_message = ue_message e, se_locations = [p], se_path = [], se_extensions = ue_extensions e\<rparr>"

text \<open>\<open>rc path obj v\<close> resolves the selection set of the field on an object.\<close>

type_synonym resolve_object = "path_segment list \<Rightarrow> dyn_object \<Rightarrow> field_value \<Rightarrow> const_value option exec"

definition resolve_as_object ::
  "resolve_object \<Rightarrow> schema_inner \<Rightarrow> path_segment list \<Rightarrow> field positioned \<Rightarrow> string \<Rightarrow> field_value \<Rightarrow>
   const_value option exec" where
  "resolve_as_object rc s path field ty val =
     (case im_get (si_types s) ty of
        None \<Rightarrow> exec_err (internal_error path field (''object '' @ quoted ty @ '' does not registered''))
      | Some t \<Rightarrow>
          (case as_object t of
             None \<Rightarrow> exec_err (internal_error path field (''type '' @ quoted ty @ '' is not object''))
           | Some obj \<Rightarrow> rc path obj val))"

definition has_possible_type :: "registry \<Rightarrow> string \<Rightarrow> string \<Rightarrow> bool" where
  "has_possible_type reg interface ty =
     (case Option.bind (im_get (types reg) interface) possible_types of
        Some tys \<Rightarrow> ty \<in> set tys
      | None \<Rightarrow> False)"

definition resolve_enum :: "path_segment list \<Rightarrow> field positioned \<Rightarrow> dyn_enum \<Rightarrow> field_value \<Rightarrow> const_value option exec" where
  "resolve_enum path field e val =
     (let invalid = exec_err (internal_error path field (''invalid item for enum '' @ quoted (den_name e)))
      in case val of
           FValue (CEnum n) \<Rightarrow> if im_contains (den_enum_values e) n then exec_ok (Some (CEnum n)) else invalid
         | FValue (CString n) \<Rightarrow> if im_contains (den_enum_values e) n then exec_ok (Some (CEnum n)) else invalid
         | _ \<Rightarrow> invalid)"

fun resolve_value ::
  "resolve_object \<Rightarrow> schema_inner \<Rightarrow> path_segment list \<Rightarrow> field positioned \<Rightarrow> dyn_type \<Rightarrow> field_value \<Rightarrow>
   const_value option exec" where
  "resolve_value rc s path field (DScalar scalar) val =
     (case val of
        FValue v \<Rightarrow>
          if scalar_validate scalar v then exec_ok (Some v)
          else exec_err (internal_error path field
            (''invalid value for scalar '' @ quoted (dsc_name scalar) @ '', expected \"FieldValue::Value\"''))
      | _ \<Rightarrow> exec_err (internal_error path field
          (''invalid value for scalar '' @ quoted (dsc_name scalar) @ '', expected \"FieldValue::Value\"'')))"
| "resolve_value rc s path field (DObject obj) val = rc path obj val"
| "resolve_value rc s path field (DInputObject obj) val =
     exec_err (internal_error path field (''cannot use input object '' @ quoted (dio_name obj) @ '' as output value''))"
| "resolve_value rc s path field (DEnum e) val = resolve_enum path field e val"
| "resolve_value rc s path field (DInterface i) val =
     (case val of
        FWithType v ty \<Rightarrow>
          if has_possible_type (si_registry s) (din_name i) ty then resolve_as_object rc s path field ty v
          else exec_err (internal_error path field
            (''object '' @ quoted ty @ '' does not implement interface '' @ quoted (din_name i)))
      | _ \<Rightarrow> exec_err (internal_error path field
          (''invalid value for interface '' @ quoted (din_name i) @ '', expected \"FieldValue::WithType\"'')))"
| "resolve_value rc s path field (DUnion u) val =
     (case val of
        FWithType v ty \<Rightarrow>
          if ty \<in> set (dun_possible_types u) then resolve_as_object rc s path field ty v
          else exec_err (internal_error path field
            (''union '' @ quoted (dun_name u) @ '' does not contain object '' @ quoted ty))
      | _ \<Rightarrow> exec_err (internal_error path field
          (''invalid value for union '' @ quoted (dun_name u) @ '', expected \"FieldValue::WithType\"'')))"
| "resolve_value rc s path field (DSubscription sub) val =
     exec_err (internal_error path field (''cannot use subscription '' @ quoted (dsu_name sub) @ '' as output value''))"
| "resolve_value rc s path field DUpload val =
     exec_err (internal_error path field ''cannot use upload as output value'')"

definition value_or_null :: "const_value option \<Rightarrow> const_value" where
  "value_or_null v = (case v of Some v \<Rightarrow> v | None \<Rightarrow> CNull)"

fun resolve ::
  "resolve_object \<Rightarrow> schema_inner \<Rightarrow> path_segment list \<Rightarrow> field positioned \<Rightarrow> type_ref \<Rightarrow> field_value option \<Rightarrow>
   const_value option exec" where
  "resolve rc s path field (RNamed n) (Some val) =
     (case im_get (si_types s) n of
        None \<Rightarrow> Inl (request_failure.Panicked ''IndexMap: key not found'')
      | Some ty \<Rightarrow> resolve_value rc s path field ty val)"
| "resolve rc s path field (RNamed _) None = exec_ok None"
| "resolve rc s path field (RNonNull ty) (Some val) = resolve rc s path field ty (Some val)"
| "resolve rc s path field (RNonNull _) None =
     exec_err (internal_error path field ''non-null types require a return value'')"
| "resolve rc s path field (RList ty) None = exec_ok None"
| "resolve rc s path field (RList ty) (Some val) =
     (case (case val of FList vs \<Rightarrow> Some vs | FValue (CList vs) \<Rightarrow> Some (map FValue vs) | _ \<Rightarrow> None) of
        Some vs \<Rightarrow>
          exec_bind (exec_all (\<lambda>(idx, v).
              exec_bind (resolve rc s (path @ [PIndex idx]) field ty (Some v)) (\<lambda>r. exec_ok (value_or_null r)))
            (List.enumerate 0 vs)) (\<lambda>vs. exec_ok (Some (CList vs)))
      | None \<Rightarrow> exec_err (internal_error path field ''expects an array''))"

subsection \<open>Resolving an object\<close>

type_synonym generated_fn =
  "generated_field \<Rightarrow> path_segment list \<Rightarrow> field positioned \<Rightarrow> const_value exec"

definition run_resolver :: "user_error + 'a \<Rightarrow> field positioned \<Rightarrow> 'a exec" where
  "run_resolver r field = exec_lift (case r of Inl e \<Rightarrow> Inl (into_server_error e (pos field)) | Inr v \<Rightarrow> Inr v)"

text \<open>A field future, \<open>path\<close> the path of its object.\<close>

definition run_field ::
  "resolve_object \<Rightarrow> generated_fn \<Rightarrow> schema_inner \<Rightarrow> variables \<Rightarrow> operation_definition \<Rightarrow> path_segment list \<Rightarrow>
   dyn_object \<Rightarrow> field_value \<Rightarrow> field_kind \<Rightarrow> field positioned \<Rightarrow> (name \<times> const_value) exec" where
  "run_field rc intro s vars operation path obj parent_value kind field =
     (let key = node (response_key (node field));
          path = path @ [PField key]
      in exec_bind
        (case kind of
           KTypename \<Rightarrow> exec_ok (CString (dob_name obj))
         | KGenerated g \<Rightarrow> intro g path field
         | KEntities \<Rightarrow>
             (case si_entity_resolver s of
                None \<Rightarrow> exec_err (internal_error path field ''missing entity resolver'')
              | Some entity_resolver \<Rightarrow>
                  exec_bind (exec_lift (resolve_arguments vars operation (node field))) (\<lambda>args.
                  exec_bind (run_resolver (entity_resolver path field args parent_value) field) (\<lambda>v.
                  exec_bind (resolve rc s path field (RNonNull (RList (RNamed ''_Entity''))) v) (\<lambda>r.
                  exec_ok (value_or_null r)))))
         | KNull \<Rightarrow> exec_ok CNull
         | KField field_def \<Rightarrow>
             exec_bind (exec_lift (resolve_arguments vars operation (node field))) (\<lambda>args.
             exec_bind (run_resolver (df_resolver_fn field_def path field
                 (add_default_arguments (df_arguments field_def) args) parent_value) field) (\<lambda>v.
             exec_bind (resolve rc s path field (df_ty field_def) v) (\<lambda>r.
             exec_ok (value_or_null r)))))
        (\<lambda>v. exec_ok (key, v)))"

lemma exec_bind_Inr:
  "exec_bind m f = Inr (Inr y, errs) \<longleftrightarrow>
   (\<exists>x errs1 errs2. m = Inr (Inr x, errs1) \<and> f x = Inr (Inr y, errs2) \<and> errs = errs1 @ errs2)"
  by (auto simp: exec_bind_def map_ok_Inr_iff split: sum.splits prod.splits)

lemma exec_ok_iff: "exec_ok x = Inr (r, errs) \<longleftrightarrow> r = Inr x \<and> errs = []"
  by (auto simp: exec_ok_def)

lemma exec_err_iff: "exec_err x = Inr (r, errs) \<longleftrightarrow> r = Inl x \<and> errs = []"
  by (auto simp: exec_err_def)

lemma exec_lift_iff: "exec_lift x = Inr (r, errs) \<longleftrightarrow> r = x \<and> errs = []"
  by (auto simp: exec_lift_def)

lemma exec_all_Inr:
  "exec_all f xs = Inr (Inr ys, errs) \<Longrightarrow> \<forall>y\<in>set ys. \<exists>x\<in>set xs. \<exists>errs. f x = Inr (Inr y, errs)"
  by (induction xs arbitrary: ys errs) (fastforce simp: exec_bind_Inr exec_ok_iff)+

lemmas exec_simps = exec_bind_Inr exec_ok_iff exec_err_iff

text \<open>A collected field uses a spread less, or its selection set is smaller.\<close>

lemma dyn_collect_fields_Inr:
  assumes "dyn_collect_fields n s mode frags obj ss = Inr (Inr futs, errs)" "fut \<in> set futs"
  obtains (field) sel field kind where "sel \<in> set (ss_items ss)" "node sel = Field field"
      "field_kind_of s mode obj (node (f_name (node field))) = Some kind" "fut = (n, kind, field)"
  | (spread) sel spread fragment n' futs' errs' where "sel \<in> set (ss_items ss)" "node sel = FragmentSpread spread"
      "im_get frags (node (fs_fragment_name (node spread))) = Some fragment" "n = Suc n'"
      "type_condition_matched obj (Some (node (tc_on (node (fd_type_condition (node fragment))))))"
      "dyn_collect_fields n' s mode frags obj (node (fd_selection_set (node fragment))) = Inr (Inr futs', errs')"
      "fut \<in> set futs'"
  | (inline) sel frag futs' errs' where "sel \<in> set (ss_items ss)" "node sel = InlineFragment frag"
      "type_condition_matched obj (map_option (\<lambda>c. node (tc_on (node c))) (if_type_condition (node frag)))"
      "dyn_collect_fields n s mode frags obj (node (if_selection_set (node frag))) = Inr (Inr futs', errs')"
      "fut \<in> set futs'"
proof -
  let ?f = "\<lambda>sel. case node sel of
         Field field \<Rightarrow>
           exec_ok (case field_kind_of s mode obj (node (f_name (node field))) of
               Some kind \<Rightarrow> [(n, kind, field)]
             | None \<Rightarrow> [])
       | FragmentSpread spread \<Rightarrow>
           (case im_get frags (node (fs_fragment_name (node spread))) of
              None \<Rightarrow> exec_err (unknown_fragment_error spread)
            | Some fragment \<Rightarrow>
                (if type_condition_matched obj (Some (node (tc_on (node (fd_type_condition (node fragment))))))
                 then (case n of
                         0 \<Rightarrow> Inl StackOverflow
                       | Suc n \<Rightarrow> dyn_collect_fields n s mode frags obj (node (fd_selection_set (node fragment))))
                 else exec_ok []))
       | InlineFragment frag \<Rightarrow>
           (if type_condition_matched obj (map_option (\<lambda>c. node (tc_on (node c))) (if_type_condition (node frag)))
            then dyn_collect_fields n s mode frags obj (node (if_selection_set (node frag)))
            else exec_ok [])"
  from assms(1) obtain ls errs' where "exec_all ?f (ss_items ss) = Inr (Inr ls, errs')" "futs = concat ls"
    by (subst (asm) dyn_collect_fields.simps) (auto simp: exec_simps)
  with assms(2) obtain sel l errs'' where sel: "sel \<in> set (ss_items ss)" "?f sel = Inr (Inr l, errs'')" "fut \<in> set l"
    using exec_all_Inr [of ?f "ss_items ss" ls errs'] by auto
  show thesis
  proof (cases "node sel")
    case (Field fld)
    then show thesis using sel field by (auto simp: exec_simps split: option.splits)
  next
    case (FragmentSpread spr)
    then show thesis using sel spread by (auto simp: exec_simps split: option.splits if_splits nat.splits)
  next
    case (InlineFragment fr)
    then show thesis using sel inline by (auto simp: exec_simps split: if_splits)
  qed
qed

lemma dyn_collect_fields_smaller:
  "dyn_collect_fields n s mode frags obj ss = Inr (Inr futs, errs) \<Longrightarrow> (n', kind, fld) \<in> set futs \<Longrightarrow>
   n' < n \<or> n' = n \<and> size (node (f_selection_set (node fld))) < size ss"
proof (induction "(n, ss)" arbitrary: n ss futs errs
    rule: wf_induct_rule [OF wf_measures [of "[fst, \<lambda>(_, ss). size ss]"]])
  case 1
  from 1(2,3) show ?case
  proof (cases rule: dyn_collect_fields_Inr)
    case (field sel field kind)
    then show ?thesis using 1(1) by (auto simp: termination_simp)
  next
    case (spread sel spread fragment m futs' errs')
    then show ?thesis using 1(1) [of m "node (fd_selection_set (node fragment))"] by fastforce
  next
    case (inline sel frag futs' errs')
    have smaller: "size (node (if_selection_set (node frag))) < size ss"
      using inline(1,2) by (auto simp: termination_simp)
    then show ?thesis using 1(1) [of n "node (if_selection_set (node frag))"] inline by fastforce
  qed
qed

function resolve_container ::
  "nat \<Rightarrow> generated_fn \<Rightarrow> schema_inner \<Rightarrow> ('upload, 'data) query_env \<Rightarrow> dyn_object \<Rightarrow> selection_set \<Rightarrow>
   path_segment list \<Rightarrow> field_value \<Rightarrow> const_value option exec" where
  "resolve_container n intro s env obj ss path parent_value =
     (case dyn_collect_fields n s (qe_introspection_mode env) (qe_fragments env) obj ss of
        Inl fl \<Rightarrow> Inl fl
      | Inr (Inl e, errs) \<Rightarrow> Inr (Inl e, errs)
      | Inr (Inr futs, errs) \<Rightarrow>
          map_ok (\<lambda>(rs, errs'). (Inr (Some (fst (do_resolve_container rs))), errs @ errs'))
            (exec_each (\<lambda>(n', kind, field).
               run_field (\<lambda>path obj val. resolve_container n' intro s env obj (node (f_selection_set (node field))) path val)
                 intro s (qe_variables env) (node (qe_operation env)) path obj parent_value kind field) futs))"
  by pat_completeness auto
termination
  by (relation "measures [fst, \<lambda>(_, _, _, _, _, ss, _, _). size ss]") (auto dest: dyn_collect_fields_smaller)

declare resolve_container.simps [simp del]

subsection \<open>Executing an operation\<close>

record query_response =
  rs_data :: const_value
  rs_cache_control :: cache_control
  rs_errors :: "server_error list"

definition response_new :: "const_value \<Rightarrow> query_response" where
  "response_new data = \<lparr>rs_data = data, rs_cache_control = cache_control_default, rs_errors = []\<rparr>"

definition from_errors :: "server_error list \<Rightarrow> query_response" where
  "from_errors errs = \<lparr>rs_data = CNull, rs_cache_control = cache_control_default, rs_errors = errs\<rparr>"

definition query_root :: "schema_inner \<Rightarrow> server_error + dyn_object" where
  "query_root s =
     (case Option.bind (im_get (si_types s) (query_type (si_registry s))) as_object of
        Some obj \<Rightarrow> Inr obj
      | None \<Rightarrow> Inl (server_error_new ''Query root not found'' None))"

definition mutation_root :: "schema_inner \<Rightarrow> server_error + dyn_object" where
  "mutation_root s =
     (case Option.bind (Option.bind (mutation_type (si_registry s)) (im_get (si_types s))) as_object of
        Some obj \<Rightarrow> Inr obj
      | None \<Rightarrow> Inl (server_error_new ''Mutation root not found'' None))"

definition subscription_root :: "schema_inner \<Rightarrow> server_error + dyn_subscription" where
  "subscription_root s =
     (case Option.bind (Option.bind (subscription_type (si_registry s)) (im_get (si_types s))) as_subscription of
        Some sub \<Rightarrow> Inr sub
      | None \<Rightarrow> Inl (server_error_new ''Subscription root not found'' None))"

definition execute_once ::
  "nat \<Rightarrow> generated_fn \<Rightarrow> schema_inner \<Rightarrow> ('upload, 'data) query_env \<Rightarrow> field_value \<Rightarrow> request_failure + query_response" where
  "execute_once n intro s env root_value =
     (let operation = node (qe_operation env);
          run = (\<lambda>root. exec_bind (exec_lift root) (\<lambda>obj.
            resolve_container n intro s env obj (node (od_selection_set operation)) [] root_value))
      in map_ok (\<lambda>(res, errs).
           let resp = (case res of Inr v \<Rightarrow> response_new (value_or_null v) | Inl e \<Rightarrow> from_errors [e])
           in resp\<lparr>rs_errors := rs_errors resp @ qe_errors env @ errs\<rparr>)
         (case od_ty operation of
            Query \<Rightarrow> run (query_root s)
          | Mutation \<Rightarrow> run (mutation_root s)
          | Subscription \<Rightarrow>
              exec_err (server_error_new ''Subscriptions are not supported on this transport.'' None)))"

definition execute ::
  "nat \<Rightarrow> (string \<Rightarrow> server_error + executable_document) \<Rightarrow> generated_fn \<Rightarrow> 'data \<Rightarrow> schema_inner \<Rightarrow>
   ('upload, 'data) request \<Rightarrow> field_value \<Rightarrow> request_failure + query_response" where
  "execute n parse_query intro default_data s request root_value =
     (case prepare_request n parse_query no_hooks default_data request default_data (si_registry s)
             (si_validation_mode s) (si_limits s) of
        Inr (env, cache_control) \<Rightarrow>
          map_ok (\<lambda>resp. resp\<lparr>rs_cache_control := cache_control\<rparr>) (execute_once n intro s env root_value)
      | Inl (Rejected errs) \<Rightarrow> Inr (from_errors errs)
      | Inl fl \<Rightarrow> Inl fl)"

subsection \<open>The type of a resolved value\<close>

fun value_of_type :: "dyn_type \<Rightarrow> const_value \<Rightarrow> bool" where
  "value_of_type (DScalar scalar) v \<longleftrightarrow> scalar_validate scalar v"
| "value_of_type (DEnum e) v \<longleftrightarrow> (case v of CEnum n \<Rightarrow> im_contains (den_enum_values e) n | _ \<Rightarrow> False)"
| "value_of_type (DObject _) v \<longleftrightarrow> (case v of CNull \<Rightarrow> True | CObject _ \<Rightarrow> True | _ \<Rightarrow> False)"
| "value_of_type (DInterface _) v \<longleftrightarrow> (case v of CNull \<Rightarrow> True | CObject _ \<Rightarrow> True | _ \<Rightarrow> False)"
| "value_of_type (DUnion _) v \<longleftrightarrow> (case v of CNull \<Rightarrow> True | CObject _ \<Rightarrow> True | _ \<Rightarrow> False)"
| "value_of_type _ v \<longleftrightarrow> False"

fun value_of_ref :: "dyn_types \<Rightarrow> type_ref \<Rightarrow> const_value \<Rightarrow> bool" where
  "value_of_ref tys (RNamed n) v \<longleftrightarrow> (case im_get tys n of Some ty \<Rightarrow> value_of_type ty v | None \<Rightarrow> False)"
| "value_of_ref tys (RNonNull ty) v \<longleftrightarrow> value_of_ref tys ty v"
| "value_of_ref tys (RList ty) v \<longleftrightarrow> (case v of CList vs \<Rightarrow> list_all (value_of_ref tys ty) vs | _ \<Rightarrow> False)"

text \<open>A function that resolves objects gives an object, or null when no field has a value.\<close>

definition gives_objects :: "resolve_object \<Rightarrow> bool" where
  "gives_objects rc \<longleftrightarrow>
     (\<forall>path obj val r errs. rc path obj val = Inr (Inr r, errs) \<longrightarrow> (\<exists>v. r = Some v \<and> (v = CNull \<or> (\<exists>m. v = CObject m))))"

lemma do_resolve_container_value:
  "fst (do_resolve_container rs) = CNull \<or> (\<exists>m. fst (do_resolve_container rs) = CObject m)"
  by (auto simp: do_resolve_container_def Let_def split: prod.splits)

lemma resolve_container_object:
  "resolve_container n intro s env obj ss path par = Inr (Inr r, errs) \<Longrightarrow>
   \<exists>v. r = Some v \<and> (v = CNull \<or> (\<exists>m. v = CObject m))"
  using do_resolve_container_value
  by (subst (asm) resolve_container.simps) (auto simp: map_ok_Inr_iff split: sum.splits prod.splits)

lemma resolve_value_typed:
  assumes "gives_objects rc" "resolve_value rc s path field ty val = Inr (Inr r, errs)"
  shows "\<exists>v. r = Some v \<and> value_of_type ty v"
proof -
  have obj: "\<exists>v. r = Some v \<and> (case v of CNull \<Rightarrow> True | CObject _ \<Rightarrow> True | _ \<Rightarrow> False)"
    if "rc path o' v' = Inr (Inr r, errs)" for o' v'
    using assms(1) that unfolding gives_objects_def by fastforce
  have as_obj: "\<exists>v. r = Some v \<and> (case v of CNull \<Rightarrow> True | CObject _ \<Rightarrow> True | _ \<Rightarrow> False)"
    if "resolve_as_object rc s path field t v' = Inr (Inr r, errs)" for t v'
    using that obj by (auto simp: resolve_as_object_def exec_simps split: option.splits)
  show ?thesis
  proof (cases ty)
    case (DEnum e)
    then show ?thesis
      using assms(2) by (auto simp: resolve_enum_def Let_def exec_simps split: field_value.splits const_value.splits if_splits)
  qed (use assms(2) obj as_obj in \<open>auto simp: exec_simps split: field_value.splits if_splits\<close>)
qed

lemma resolve_typed:
  assumes "gives_objects rc"
  shows "resolve rc s path field ty val = Inr (Inr r, errs) \<Longrightarrow>
    (case r of Some v \<Rightarrow> val \<noteq> None \<and> value_of_ref (si_types s) ty v
             | None \<Rightarrow> val = None \<and> is_nullable_ref ty)"
proof (induction ty arbitrary: path val r errs)
  case (RNamed n)
  then show ?case
    using resolve_value_typed [OF assms] by (cases val) (fastforce simp: exec_simps split: option.splits)+
next
  case (RNonNull ty)
  show ?case
  proof (cases val)
    case (Some v)
    with RNonNull.prems RNonNull.IH [of path val r errs] show ?thesis by (simp split: option.splits)
  qed (use RNonNull.prems in \<open>simp add: exec_simps\<close>)
next
  case (RList ty)
  show ?case
  proof (cases val)
    case (Some v)
    let ?item = "\<lambda>(idx, v). exec_bind (resolve rc s (path @ [PIndex idx]) field ty (Some v))
      (\<lambda>r. exec_ok (value_or_null r))"
    have elem: "value_of_ref (si_types s) ty y" if "?item x = Inr (Inr y, errs')" for x y errs'
    proof -
      from that obtain r' errs1 where
        r': "resolve rc s (path @ [PIndex (fst x)]) field ty (Some (snd x)) = Inr (Inr r', errs1)"
          "y = value_or_null r'"
        by (cases x) (auto simp: exec_simps)
      show ?thesis using RList.IH [OF r'(1)] r'(2) by (simp add: value_or_null_def split: option.splits)
    qed
    from RList.prems Some obtain vs ys errs' where
      "exec_all ?item vs = Inr (Inr ys, errs')" "r = Some (CList ys)"
      by (auto simp: exec_simps split: option.splits field_value.splits const_value.splits)
    with Some show ?thesis
      using exec_all_Inr [of ?item vs ys errs'] elem by (fastforce simp: list_all_iff)
  qed (use RList.prems in \<open>simp add: exec_simps\<close>)
qed

subsection \<open>Nested spreads\<close>

function spreads_fit :: "nat \<Rightarrow> fragments \<Rightarrow> selection_set \<Rightarrow> bool" where
  "spreads_fit n frags ss \<longleftrightarrow>
     list_all (\<lambda>sel. case node sel of
         Field field \<Rightarrow> spreads_fit n frags (node (f_selection_set (node field)))
       | FragmentSpread spread \<Rightarrow>
           (case im_get frags (node (fs_fragment_name (node spread))) of
              None \<Rightarrow> True
            | Some fragment \<Rightarrow>
                (case n of 0 \<Rightarrow> False | Suc n \<Rightarrow> spreads_fit n frags (node (fd_selection_set (node fragment)))))
       | InlineFragment frag \<Rightarrow> spreads_fit n frags (node (if_selection_set (node frag)))) (ss_items ss)"
  by pat_completeness auto
termination
  by (relation "measures [fst, \<lambda>(_, _, ss). size ss]") (auto simp: termination_simp)

declare spreads_fit.simps [simp del]

definition spreads_fit_item :: "nat \<Rightarrow> fragments \<Rightarrow> selection \<Rightarrow> bool" where
  "spreads_fit_item n frags sel \<longleftrightarrow> (case sel of
         Field field \<Rightarrow> spreads_fit n frags (node (f_selection_set (node field)))
       | FragmentSpread spread \<Rightarrow>
           (case map_of frags (node (fs_fragment_name (node spread))) of
              None \<Rightarrow> True
            | Some fragment \<Rightarrow>
                (case n of 0 \<Rightarrow> False | Suc n \<Rightarrow> spreads_fit n frags (node (fd_selection_set (node fragment)))))
       | InlineFragment frag \<Rightarrow> spreads_fit n frags (node (if_selection_set (node frag))))"

lemma spreads_fit_iff: "spreads_fit n frags ss \<longleftrightarrow> (\<forall>sel\<in>set (ss_items ss). spreads_fit_item n frags (node sel))"
  unfolding spreads_fit.simps [of n frags ss] spreads_fit_item_def im_get_def list_all_iff by (rule refl)

lemma spreads_fit_item_simps:
  "spreads_fit_item n frags (Field field) \<longleftrightarrow> spreads_fit n frags (node (f_selection_set (node field)))"
  "spreads_fit_item n frags (FragmentSpread spread) \<longleftrightarrow>
     (\<forall>fragment. map_of frags (node (fs_fragment_name (node spread))) = Some fragment \<longrightarrow>
       (\<exists>m. n = Suc m \<and> spreads_fit m frags (node (fd_selection_set (node fragment)))))"
  "spreads_fit_item n frags (InlineFragment frag) \<longleftrightarrow> spreads_fit n frags (node (if_selection_set (node frag)))"
  by (auto simp: spreads_fit_item_def split: option.splits nat.splits)

lemma spreads_fit_itemD: "spreads_fit n frags ss \<Longrightarrow> sel \<in> set (ss_items ss) \<Longrightarrow> spreads_fit_item n frags (node sel)"
  by (simp add: spreads_fit_iff)

lemma recursive_depth_spreads_fit:
  assumes "recursive_depth_selection_set doc ss cur limit = Inr ()" "limit - cur \<le> n"
  shows "spreads_fit n (doc_fragments doc) (node ss)"
  using assms
proof (induction "Suc limit - cur" arbitrary: ss cur n rule: less_induct)
  case less
  note cur = recursive_depth_bound [OF less.prems(1)]
  have IH: "spreads_fit n' (doc_fragments doc) (node ss')"
    if "recursive_depth_selection_set doc ss' (Suc cur) limit = Inr ()" "limit - Suc cur \<le> n'" for ss' n'
    using less.hyps [OF _ that] recursive_depth_bound [OF that(1)] by simp
  have "spreads_fit_item n (doc_fragments doc) (node sel)" if sel: "sel \<in> set (ss_items (node ss))" for sel
  proof (cases "node sel")
    case (Field field)
    show ?thesis
    proof (cases "ss_items (node (f_selection_set (node field))) = []")
      case False
      show ?thesis
        using IH [OF recursive_depth_selections(1) [OF less.prems(1) sel Field False], of n] less.prems(2)
        by (simp add: Field spreads_fit_item_simps)
    qed (simp add: Field spreads_fit_item_simps spreads_fit_iff [of _ _ "node (f_selection_set (node field))"])
  next
    case (FragmentSpread spread)
    have "\<exists>m. n = Suc m \<and> spreads_fit m (doc_fragments doc) (node (fd_selection_set (node fragment)))"
      if "map_of (doc_fragments doc) (node (fs_fragment_name (node spread))) = Some fragment" for fragment
    proof -
      note sub = recursive_depth_selections(2) [OF less.prems(1) sel FragmentSpread that]
      then show ?thesis
        using IH [OF sub, of "n - 1"] less.prems(2) recursive_depth_bound [OF sub] by (cases n) auto
    qed
    then show ?thesis by (simp add: FragmentSpread spreads_fit_item_simps)
  next
    case (InlineFragment frag)
    show ?thesis
      using IH [OF recursive_depth_selections(3) [OF less.prems(1) sel InlineFragment], of n] less.prems(2)
      by (simp add: InlineFragment spreads_fit_item_simps)
  qed
  then show ?case unfolding spreads_fit_iff by blast
qed

lemma map_of_remove_skipped_fragments:
  "map_of (remove_skipped_fragments vars frags) n =
   map_option (map_positioned (\<lambda>fragment. fragment\<lparr>fd_selection_set :=
       map_positioned (remove_skipped_selection vars) (fd_selection_set fragment)\<rparr>)) (map_of frags n)"
  by (induction frags) (auto simp: remove_skipped_fragments_def)

lemma spreads_fit_remove_skipped:
  "spreads_fit n frags ss \<Longrightarrow> spreads_fit n (remove_skipped_fragments vars frags) (remove_skipped_selection vars ss)"
proof (induction n frags ss rule: spreads_fit.induct)
  case (1 n frags ss)
  have "spreads_fit_item n (remove_skipped_fragments vars frags) (remove_skipped_in vars (node sel))"
    if sel: "sel \<in> set (ss_items ss)" for sel
  proof -
    from 1(4) sel have item: "spreads_fit_item n frags (node sel)" by (simp add: spreads_fit_iff)
    show ?thesis
    proof (cases "node sel")
      case (Field field)
      then show ?thesis using 1(1) [OF sel Field] item by (simp add: spreads_fit_item_simps positioned.map_sel)
    next
      case (FragmentSpread spread)
      then show ?thesis
        using 1(2) [OF sel FragmentSpread] item
        by (auto simp: spreads_fit_item_simps positioned.map_sel map_of_remove_skipped_fragments im_get_def)
    next
      case (InlineFragment frag)
      then show ?thesis using 1(3) [OF sel InlineFragment] item by (simp add: spreads_fit_item_simps positioned.map_sel)
    qed
  qed
  then show ?case
    unfolding spreads_fit_iff [of n _ "remove_skipped_selection vars ss"]
    by (subst remove_skipped_selection.simps) (auto simp: positioned.map_sel)
qed

lemma dyn_collect_fields_spreads_fit:
  assumes "dyn_collect_fields n s mode frags obj ss = Inr (Inr futs, errs)" "(n', kind, fld) \<in> set futs" "spreads_fit n frags ss"
  shows "spreads_fit n' frags (node (f_selection_set (node fld)))"
  using assms
proof (induction "(n, ss)" arbitrary: n ss futs errs
    rule: wf_induct_rule [OF wf_measures [of "[fst, \<lambda>(_, ss). size ss]"]])
  case 1
  from 1(2,3) show ?case
  proof (cases rule: dyn_collect_fields_Inr)
    case (field sel field kind)
    then show ?thesis using spreads_fit_itemD [OF 1(4) field(1)] by (simp add: spreads_fit_item_simps)
  next
    case (spread sel spread fragment m futs' errs')
    with spreads_fit_itemD [OF 1(4) spread(1)] have "spreads_fit m frags (node (fd_selection_set (node fragment)))"
      by (simp add: spreads_fit_item_simps im_get_def)
    then show ?thesis using 1(1) [OF _ spread(6,7)] spread(4) by simp
  next
    case (inline sel frag futs' errs')
    with spreads_fit_itemD [OF 1(4) inline(1)] have "spreads_fit n frags (node (if_selection_set (node frag)))"
      by (simp add: spreads_fit_item_simps)
    moreover have "size (node (if_selection_set (node frag))) < size ss"
      using inline(1,2) by (auto simp: termination_simp)
    ultimately show ?thesis using 1(1) [OF _ inline(4,5)] by simp
  qed
qed

subsection \<open>Execution returns\<close>

definition returns :: "'a exec \<Rightarrow> bool" where
  "returns m \<longleftrightarrow> (\<exists>x. m = Inr x)"

named_theorems returns_intros

lemma returns_ok [simp, returns_intros]: "returns (exec_ok x)" "returns (exec_err e)" "returns (exec_lift r)"
  by (simp_all add: returns_def exec_ok_def exec_err_def exec_lift_def)

lemma returns_run_resolver [simp, returns_intros]: "returns (run_resolver r field)"
  by (simp add: run_resolver_def)

lemma returns_bind [returns_intros]:
  "returns m \<Longrightarrow> (\<And>x errs. m = Inr (Inr x, errs) \<Longrightarrow> returns (f x)) \<Longrightarrow> returns (exec_bind m f)"
  by (force simp: returns_def exec_bind_def split: sum.splits prod.splits)

lemma returns_exec_all [returns_intros]: "(\<And>x. x \<in> set xs \<Longrightarrow> returns (f x)) \<Longrightarrow> returns (exec_all f xs)"
  by (induction xs) (auto intro!: returns_bind)

lemma exec_each_returns: "(\<And>x. x \<in> set xs \<Longrightarrow> returns (f x)) \<Longrightarrow> \<exists>r. exec_each f xs = Inr r"
proof (induction xs)
  case (Cons x xs)
  then have "returns (f x)" "\<exists>r. exec_each f xs = Inr r" by auto
  then show ?case by (auto simp: returns_def)
qed simp

lemma dyn_collect_fields_returns:
  "spreads_fit n frags ss \<Longrightarrow> returns (dyn_collect_fields n s mode frags obj ss)"
proof (induction n s mode frags obj ss rule: dyn_collect_fields.induct)
  case (1 n s mode frags obj ss)
  note item = spreads_fit_itemD [OF 1(3)]
  have spread: "returns (case n of 0 \<Rightarrow> Inl StackOverflow
      | Suc n \<Rightarrow> dyn_collect_fields n s mode frags obj (node (fd_selection_set (node fragment))))"
    if "sel \<in> set (ss_items ss)" "node sel = FragmentSpread spread"
      "im_get frags (node (fs_fragment_name (node spread))) = Some fragment"
      "type_condition_matched obj (Some (node (tc_on (node (fd_type_condition (node fragment))))))"
    for sel spread fragment
    using item [OF that(1)] 1(1) [OF that] that(2,3) by (auto simp: spreads_fit_item_simps im_get_def)
  have inline: "returns (dyn_collect_fields n s mode frags obj (node (if_selection_set (node frag))))"
    if "sel \<in> set (ss_items ss)" "node sel = InlineFragment frag"
      "type_condition_matched obj (map_option (\<lambda>c. node (tc_on (node c))) (if_type_condition (node frag)))"
    for sel frag
    using item [OF that(1)] 1(2) [OF that] that(2) by (simp add: spreads_fit_item_simps)
  show ?case
    unfolding dyn_collect_fields.simps [of n s mode frags obj ss]
    by (intro returns_bind returns_exec_all)
       (auto split: selection.split option.split intro: spread inline)
qed

definition object_in :: "schema_inner \<Rightarrow> dyn_object \<Rightarrow> bool" where
  "object_in s obj \<longleftrightarrow> DObject obj \<in> snd ` set (si_types s)"

text \<open>What execution needs of a schema: the types of the fields of its objects are registered.\<close>

definition closed_schema :: "schema_inner \<Rightarrow> bool" where
  "closed_schema s \<longleftrightarrow>
     (\<forall>obj. object_in s obj \<longrightarrow>
        (\<forall>(n, field)\<in>set (dob_fields obj). im_contains (si_types s) (type_ref_name (df_ty field)))) \<and>
     (enable_federation (si_registry s) \<longrightarrow> im_contains (si_types s) ''_Entity'')"

definition objects_return :: "schema_inner \<Rightarrow> resolve_object \<Rightarrow> bool" where
  "objects_return s rc \<longleftrightarrow> (\<forall>path obj val. object_in s obj \<longrightarrow> returns (rc path obj val))"

lemma im_get_object_in: "map_of (si_types s) n = Some t \<Longrightarrow> as_object t = Some obj \<Longrightarrow> object_in s obj"
  by (auto simp: as_object_def object_in_def image_iff split: dyn_type.splits dest!: map_of_SomeD)
     (metis snd_conv)

lemma resolve_as_object_returns:
  "objects_return s rc \<Longrightarrow> returns (resolve_as_object rc s path field ty val)"
  by (auto simp: resolve_as_object_def objects_return_def dest: im_get_object_in split: option.split)

lemma resolve_value_returns:
  assumes "objects_return s rc" "im_get (si_types s) n = Some ty"
  shows "returns (resolve_value rc s path field ty val)"
  using assms resolve_as_object_returns [OF assms(1)] im_get_object_in [OF assms(2) [unfolded im_get_def]]
  by (cases ty) (auto simp: resolve_enum_def Let_def objects_return_def as_object_def
      split: field_value.split const_value.split)

lemma resolve_returns:
  assumes "objects_return s rc"
  shows "im_contains (si_types s) (type_ref_name ty) \<Longrightarrow> returns (resolve rc s path field ty val)"
proof (induction ty arbitrary: path val)
  case (RNamed n)
  then obtain ty where "im_get (si_types s) n = Some ty" by (auto simp: im_contains_def)
  then show ?case using resolve_value_returns [OF assms] by (cases val) auto
next
  case (RNonNull ty)
  then show ?case by (cases val) auto
next
  case (RList ty)
  then show ?case by (cases val) (auto split: option.split intro!: returns_bind returns_exec_all)
qed

lemma field_kind_of_field:
  "field_kind_of s mode obj n = Some (KField fld) \<Longrightarrow> map_of (dob_fields obj) n = Some fld"
  "field_kind_of s mode obj n = Some KEntities \<Longrightarrow> enable_federation (si_registry s)"
  by (simp_all add: field_kind_of_def Let_def split: if_splits)

lemma field_kind_of_closed:
  assumes "closed_schema s" "object_in s obj" "field_kind_of s mode obj n = Some kind"
  shows "kind = KField fld \<Longrightarrow> im_contains (si_types s) (type_ref_name (df_ty fld))"
    and "kind = KEntities \<Longrightarrow> im_contains (si_types s) ''_Entity''"
proof -
  assume "kind = KField fld"
  with assms(3) have "(n, fld) \<in> set (dob_fields obj)" by (auto dest: field_kind_of_field(1) map_of_SomeD)
  with assms(1,2) show "im_contains (si_types s) (type_ref_name (df_ty fld))"
    unfolding closed_schema_def by blast
next
  assume "kind = KEntities"
  with assms show "im_contains (si_types s) ''_Entity''"
    using field_kind_of_field(2) [of s mode obj n] by (simp add: closed_schema_def)
qed

lemma dyn_collect_fields_kind:
  assumes "dyn_collect_fields n s mode frags obj ss = Inr (Inr futs, errs)" "(n', kind, fld) \<in> set futs"
  shows "field_kind_of s mode obj (node (f_name (node fld))) = Some kind"
  using assms
proof (induction "(n, ss)" arbitrary: n ss futs errs
    rule: wf_induct_rule [OF wf_measures [of "[fst, \<lambda>(_, ss). size ss]"]])
  case 1
  from 1(2,3) show ?case
  proof (cases rule: dyn_collect_fields_Inr)
    case (spread sel spread fragment m futs' errs')
    then show ?thesis using 1(1) [OF _ spread(6,7)] by simp
  next
    case (inline sel frag futs' errs')
    moreover have "size (node (if_selection_set (node frag))) < size ss"
      using inline(1,2) by (auto simp: termination_simp)
    ultimately show ?thesis using 1(1) [OF _ inline(4,5)] by simp
  qed auto
qed

lemma run_field_returns:
  assumes "closed_schema s" "objects_return s rc" "\<And>g path field. returns (intro g path field)"
    "object_in s obj" "field_kind_of s mode obj n = Some kind"
  shows "returns (run_field rc intro s vars operation path obj par kind field)"
proof -
  note closed = field_kind_of_closed [OF assms(1,4,5)]
  show ?thesis
    unfolding run_field_def Let_def
    by (cases kind)
       (use closed assms(3) in \<open>auto intro!: returns_bind resolve_returns [OF assms(2)] split: option.split\<close>)
qed

theorem resolve_container_returns:
  assumes "closed_schema s" "\<And>g path field. returns (intro g path field)" "object_in s obj"
    "spreads_fit n (qe_fragments env) ss"
  shows "returns (resolve_container n intro s env obj ss path par)"
  using assms(3,4)
proof (induction "(n, ss)" arbitrary: n ss obj path par
    rule: wf_induct_rule [OF wf_measures [of "[fst, \<lambda>(_, ss). size ss]"]])
  case 1
  let ?collected = "dyn_collect_fields n s (qe_introspection_mode env) (qe_fragments env) obj ss"
  from dyn_collect_fields_returns [OF 1(3)] obtain x errs where x: "?collected = Inr (x, errs)"
    by (force simp: returns_def)
  show ?case
  proof (cases x)
    case (Inr futs)
    have "\<exists>r. exec_each (\<lambda>(n', kind, field).
        run_field (\<lambda>path obj val. resolve_container n' intro s env obj (node (f_selection_set (node field))) path val)
          intro s (qe_variables env) (node (qe_operation env)) path obj par kind field) futs = Inr r"
    proof (rule exec_each_returns, clarify)
      fix n' kind field
      assume fut: "(n', kind, field) \<in> set futs"
      note fut = dyn_collect_fields_smaller [OF x [unfolded Inr] fut] dyn_collect_fields_spreads_fit [OF x [unfolded Inr] fut 1(3)]
        dyn_collect_fields_kind [OF x [unfolded Inr] fut]
      have "objects_return s (\<lambda>path obj val. resolve_container n' intro s env obj (node (f_selection_set (node field))) path val)"
        unfolding objects_return_def using fut(1,2) by (intro allI impI 1(1)) auto
      from run_field_returns [OF assms(1) this assms(2) 1(2) fut(3)]
      show "returns (run_field
          (\<lambda>path obj val. resolve_container n' intro s env obj (node (f_selection_set (node field))) path val)
          intro s (qe_variables env) (node (qe_operation env)) path obj par kind field)" .
    qed
    then show ?thesis
      using x Inr by (subst resolve_container.simps) (auto simp: returns_def)
  qed (use x in \<open>subst resolve_container.simps, simp add: returns_def\<close>)
qed

lemma finish_closed:
  assumes "adds_types gen" "finish gen show_number b = Inr s"
  shows "closed_schema s"
  unfolding closed_schema_def
proof (intro conjI allI impI)
  fix obj
  assume "object_in s obj"
  then obtain k where k: "(k, DObject obj) \<in> set (si_types s)" by (auto simp: object_in_def)
  have "im_contains (si_types s) (type_ref_name (df_ty field))" if "(n, field) \<in> set (dob_fields obj)" for n field
  proof (rule check_schema_closed [OF finish_Inr(2) [OF assms(2)] k])
    from that have "type_ref_name (df_ty field) \<in> (\<Union>(_, f)\<in>set (dob_fields obj). set (field_type_names f))"
      by (intro UN_I [of "(n, field)"]) (simp_all add: field_type_names_def)
    then show "type_ref_name (df_ty field) \<in> set (mentioned_types (DObject obj))" by (auto simp: case_prod_beta)
  qed
  then show "\<forall>(n, field)\<in>set (dob_fields obj). im_contains (si_types s) (type_ref_name (df_ty field))" by blast
next
  assume "enable_federation (si_registry s)"
  with assms show "im_contains (si_types s) ''_Entity''" by (intro assemble_entity [OF assms(1) finish_Inr(1) [OF assms(2)]])
qed

lemma root_object_in:
  "query_root s = Inr obj \<Longrightarrow> object_in s obj" "mutation_root s = Inr obj \<Longrightarrow> object_in s obj"
  by (auto simp: query_root_def mutation_root_def bind_eq_Some_conv intro: im_get_object_in split: option.splits)

lemma execute_once_returns:
  assumes "closed_schema s" "\<And>g path field. returns (intro g path field)"
    "spreads_fit n (qe_fragments env) (node (od_selection_set (node (qe_operation env))))"
  shows "\<exists>resp. execute_once n intro s env root = Inr resp"
proof -
  have run: "returns (exec_bind (exec_lift r) (\<lambda>obj.
      resolve_container n intro s env obj (node (od_selection_set (node (qe_operation env)))) [] root))"
    if "\<And>obj. r = Inr obj \<Longrightarrow> object_in s obj" for r
    using that assms by (auto intro!: returns_bind resolve_container_returns simp: exec_lift_iff)
  have "returns (case od_ty (node (qe_operation env)) of
       Query \<Rightarrow> exec_bind (exec_lift (query_root s)) (\<lambda>obj.
         resolve_container n intro s env obj (node (od_selection_set (node (qe_operation env)))) [] root)
     | Mutation \<Rightarrow> exec_bind (exec_lift (mutation_root s)) (\<lambda>obj.
         resolve_container n intro s env obj (node (od_selection_set (node (qe_operation env)))) [] root)
     | Subscription \<Rightarrow>
         exec_err (server_error_new ''Subscriptions are not supported on this transport.'' None))"
    by (cases "od_ty (node (qe_operation env))") (simp_all add: run root_object_in)
  then show ?thesis unfolding execute_once_def Let_def by (auto simp: returns_def)
qed

text \<open>A prepared operation does not nest spreads deeper than the limit.\<close>

lemma rejected_Inr [res_simps]: "rejected r = Inr x \<longleftrightarrow> r = Inr x"
  by (auto simp: rejected_def split: sum.splits)

lemma prepared_spreads_fit:
  assumes "prepare_request n parse no_hooks dd request sd reg mode limits = Inr (env, cc)"
    "recursive_depth limits \<le> n"
  shows "spreads_fit n (qe_fragments env) (node (od_selection_set (node (qe_operation env))))"
proof -
  from assms(1) obtain doc opname operation where doc:
    "check_recursive_depth doc (recursive_depth limits) = Inr ()"
    "select_operation (rq_operation_name request) (doc_operations doc) = Inr (opname, operation)"
    "qe_fragments env = remove_skipped_fragments (rq_variables request) (doc_fragments doc)"
    "qe_operation env = remove_skipped_operation (rq_variables request) operation"
    by (auto simp: prepare_request_def no_hooks_def Let_def parse_document_def res_simps)
  have "(opname, operation) \<in> set (operations_iter (doc_operations doc))"
    using doc(2) by (force simp: select_operation_def split: option.splits document_operations.splits
        list.splits dest!: map_of_SomeD)
  with doc(1) have "recursive_depth_selection_set doc (od_selection_set (node operation)) 0 (recursive_depth limits) = Inr ()"
    by (force simp: check_recursive_depth_def for_each_Inr)
  then have "spreads_fit n (doc_fragments doc) (node (od_selection_set (node operation)))"
    using assms(2) by (intro recursive_depth_spreads_fit) auto
  from spreads_fit_remove_skipped [OF this, of "rq_variables request"] show ?thesis
    unfolding doc(3,4) by (simp add: remove_skipped_operation_def positioned.map_sel)
qed

subsection \<open>No field is lost without an error\<close>

definition object_keys :: "const_value \<Rightarrow> name set" where
  "object_keys v = (case v of CObject m \<Rightarrow> fst ` set m | _ \<Rightarrow> {})"

lemma keys_insert_value: "fst ` set (insert_value t k v) = insert k (fst ` set t)"
  by (auto simp: insert_value_eq dom_update split: option.splits)

lemma do_resolve_container_keys:
  "object_keys (fst (do_resolve_container rs)) = {k. \<exists>v. Inr (k, v) \<in> set rs}"
proof -
  let ?step = "\<lambda>res (results, errors). case res of
            Inr (n, val) \<Rightarrow> (insert_value results n val, errors)
          | Inl e \<Rightarrow> (results, errors @ [e])"
  have keys: "fst ` set (fst (fold ?step rs (m, es))) = fst ` set m \<union> {k. \<exists>v. Inr (k, v) \<in> set rs}" for m es
    by (induction rs arbitrary: m es) (auto simp: keys_insert_value split: sum.splits)
  show ?thesis
    using keys [of "[]" "[]"]
    by (cases "fold ?step rs ([], [])") (auto simp: do_resolve_container_def object_keys_def)
qed

lemma exec_each_outcomes:
  "exec_each f xs = Inr (rs, errs) \<Longrightarrow>
   list_all2 (\<lambda>x r. \<exists>es. f x = Inr (r, es)) xs rs \<and> (\<forall>e. Inl e \<in> set rs \<longrightarrow> e \<in> set errs)"
proof (induction xs arbitrary: rs errs)
  case (Cons x xs)
  from Cons.prems obtain r es rs' es' where step: "f x = Inr (r, es)" "exec_each f xs = Inr (rs', es')"
      "rs = r # rs'" "errs = es @ (case r of Inl e \<Rightarrow> [e] | Inr _ \<Rightarrow> []) @ es'"
    by (auto simp: res_simps split: prod.splits)
  with Cons.IH [OF step(2)] show ?case by auto
qed simp

lemma run_field_key:
  "run_field rc intro s vars operation path obj par kind field = Inr (Inr (k, v), es) \<Longrightarrow>
   k = node (response_key (node field))"
  by (auto simp: run_field_def Let_def exec_simps)

lemma list_all2_ex:
  assumes "list_all2 P xs ys"
  shows "x \<in> set xs \<Longrightarrow> \<exists>y\<in>set ys. P x y" "y \<in> set ys \<Longrightarrow> \<exists>x\<in>set xs. P x y"
  using assms by (induction rule: list_all2_induct) auto

definition future_key :: "nat \<times> field_kind \<times> field positioned \<Rightarrow> name" where
  "future_key fut = (case fut of (_, _, field) \<Rightarrow> node (response_key (node field)))"

theorem resolve_container_keys:
  assumes "resolve_container n intro s env obj ss path par = Inr (Inr (Some v), errs)"
    "dyn_collect_fields n s (qe_introspection_mode env) (qe_fragments env) obj ss = Inr (Inr futs, errs')"
  shows "object_keys v \<subseteq> future_key ` set futs" "errs = [] \<Longrightarrow> object_keys v = future_key ` set futs"
proof -
  let ?f = "\<lambda>(n', kind, field).
      run_field (\<lambda>path obj val. resolve_container n' intro s env obj (node (f_selection_set (node field))) path val)
        intro s (qe_variables env) (node (qe_operation env)) path obj par kind field"
  from assms obtain rs es where rs: "exec_each ?f futs = Inr (rs, es)" "v = fst (do_resolve_container rs)"
      "errs = errs' @ es"
    by (subst (asm) resolve_container.simps) (auto simp: res_simps)
  have each: "list_all2 (\<lambda>x r. \<exists>es. ?f x = Inr (r, es)) futs rs" and errors: "Inl e \<in> set rs \<Longrightarrow> e \<in> set es" for e
    using exec_each_outcomes [OF rs(1)] by blast+
  have key: "k = future_key fut" if "?f fut = Inr (Inr (k, w), es')" for k w fut es'
    using that by (cases fut) (auto simp: future_key_def dest: run_field_key)
  note keys = do_resolve_container_keys [of rs, folded rs(2)]
  show sub: "object_keys v \<subseteq> future_key ` set futs"
  proof
    fix k assume "k \<in> object_keys v"
    then obtain w where "Inr (k, w) \<in> set rs" by (auto simp: keys)
    from list_all2_ex(2) [OF each this] key show "k \<in> future_key ` set futs" by blast
  qed
  assume "errs = []"
  have "future_key fut \<in> object_keys v" if "fut \<in> set futs" for fut
  proof -
    from list_all2_ex(1) [OF each that] obtain r es' where r: "r \<in> set rs" "?f fut = Inr (r, es')" by blast
    with errors rs(3) \<open>errs = []\<close> obtain k w where "r = Inr (k, w)" by (cases r) auto
    with r key [of fut k w es'] show ?thesis by (auto simp: keys)
  qed
  with sub show "object_keys v = future_key ` set futs" by blast
qed

end
