(* ===== verification/Web_Socket.thy ===== *)
theory Web_Socket
  imports Prelude
begin

text \<open>
  The WebSocket transport, \<open>src/http/websocket.rs\<close>: \<open>poll_next\<close> of \<open>WebSocket\<close> as a function of its state and of
  what the things it polls answer: the timer, the client's messages, the futures of the callbacks and the
  streams of the executor.

  A step relation polls the connection in any environment. Its events are compared with an automaton that says
  which messages a server may send: the abstract protocol.

  Requests and responses are opaque (\<open>'req\<close>, \<open>'resp\<close>), as are JSON payloads (\<open>'json\<close>) and the values of \<open>Data\<close>
  (\<open>'any\<close>), a map from type names. Messages to the client are given before serialisation.
\<close>

subsection \<open>Messages\<close>

datatype protocols = SubscriptionsTransportWS | GraphQLWS

definition sec_websocket_protocol :: "protocols \<Rightarrow> string" where
  "sec_websocket_protocol p =
     (case p of SubscriptionsTransportWS \<Rightarrow> ''graphql-ws'' | GraphQLWS \<Rightarrow> ''graphql-transport-ws'')"

definition ascii_lower :: "char \<Rightarrow> char" where
  "ascii_lower c =
     (let n = of_char c :: nat in if 65 \<le> n \<and> n \<le> 90 then char_of (n + 32) else c)"

definition eq_ignore_ascii_case :: "string \<Rightarrow> string \<Rightarrow> bool" where
  "eq_ignore_ascii_case s t \<longleftrightarrow> map ascii_lower s = map ascii_lower t"

definition protocols_from_str :: "string \<Rightarrow> string + protocols" where
  "protocols_from_str protocol =
     (if eq_ignore_ascii_case protocol ''graphql-ws'' then Inr SubscriptionsTransportWS
      else if eq_ignore_ascii_case protocol ''graphql-transport-ws'' then Inr GraphQLWS
      else Inl (''Unsupported Sec-WebSocket-Protocol: '' @ protocol))"

datatype ('json, 'req) client_message =
    ConnectionInit "'json option"
  | Start string 'req
  | Stop string
  | ConnectionTerminate
  | Ping "'json option"
  | ClientPong "'json option"

datatype ('json, 'resp) server_message =
    ConnectionError string
  | ConnectionAck
  | Data string 'resp
  | Next string 'resp
  | Complete string
  | Pong "'json option"

datatype ('json, 'resp) ws_message =
    WsText "('json, 'resp) server_message"
  | WsClose nat string

definition next_message :: "protocols \<Rightarrow> string \<Rightarrow> 'resp \<Rightarrow> ('json, 'resp) server_message" where
  "next_message p i payload =
     (case p of SubscriptionsTransportWS \<Rightarrow> Data i payload | GraphQLWS \<Rightarrow> Next i payload)"

subsection \<open>The connection\<close>

type_synonym 'any data = "(string, 'any) index_map"

definition data_merge :: "'any data \<Rightarrow> 'any data \<Rightarrow> 'any data" where
  "data_merge self other = fold (\<lambda>(k, v). im_insert k v) other self"

text \<open>What the client's stream yields: a message, a text that is no message, or its end.\<close>

datatype 'msg incoming = Msg 'msg | Malformed string | Ended

text \<open>A field that holds a callback or a timer is true when it is present; a future is what it was made from.\<close>

record ('any, 'json, 'req) web_socket =
  ws_on_connection_init :: bool
  ws_init_fut :: "'json option option"
  ws_ping_fut :: "('any data option \<times> 'json option) option"
  ws_connection_data :: "'any data option"
  ws_data :: "'any data option"
  ws_streams :: "(string, 'req \<times> 'any data) index_map"
  ws_stream :: "('json, 'req) client_message incoming list"
  ws_protocol :: protocols
  ws_keepalive_timer :: bool
  ws_close :: bool

definition from_message_stream :: "protocols \<Rightarrow> ('any, 'json, 'req) web_socket" where
  "from_message_stream protocol =
     \<lparr>ws_on_connection_init = True, ws_init_fut = None, ws_ping_fut = None, ws_connection_data = None,
      ws_data = None, ws_streams = [], ws_stream = [], ws_protocol = protocol, ws_keepalive_timer = False,
      ws_close = False\<rparr>"

definition connection_data :: "'any data \<Rightarrow> ('any, 'json, 'req) web_socket \<Rightarrow> ('any, 'json, 'req) web_socket" where
  "connection_data data ws = ws\<lparr>ws_connection_data := Some data\<rparr>"

definition keepalive_timeout :: "bool \<Rightarrow> ('any, 'json, 'req) web_socket \<Rightarrow> ('any, 'json, 'req) web_socket" where
  "keepalive_timeout timeout ws = ws\<lparr>ws_keepalive_timer := timeout\<rparr>"

text \<open>The answers of what is polled; \<open>None\<close> is \<open>Pending\<close>.\<close>

record ('any, 'json, 'resp) polled =
  po_timer :: bool
  po_init :: "(string + 'any data) option"
  po_ping :: "(string + 'json option) option"
  po_streams :: "string \<Rightarrow> 'resp option option"

definition close_with ::
  "protocols \<Rightarrow> nat \<Rightarrow> string \<Rightarrow> ('json, 'resp) ws_message" where
  "close_with protocol code message =
     (case protocol of
        SubscriptionsTransportWS \<Rightarrow> WsText (ConnectionError message)
      | GraphQLWS \<Rightarrow> WsClose code message)"

text \<open>The loop over the client's messages; the result is what \<open>poll_next\<close> returns at once, if it does.\<close>

fun receive ::
  "('json, 'req) client_message incoming list \<Rightarrow> ('any, 'json, 'req) web_socket \<Rightarrow>
   ('any, 'json, 'req) web_socket \<times> ('json, 'resp) ws_message option option" where
  "receive [] ws = (ws\<lparr>ws_stream := []\<rparr>, None)"
| "receive (Ended # rest) ws = (ws\<lparr>ws_stream := rest\<rparr>, Some None)"
| "receive (Malformed err # rest) ws =
     (ws\<lparr>ws_stream := rest, ws_close := True\<rparr>, Some (Some (WsClose 1002 err)))"
| "receive (Msg (ConnectionInit payload) # rest) ws =
     (if ws_on_connection_init ws
      then (ws\<lparr>ws_stream := rest, ws_on_connection_init := False, ws_init_fut := Some payload\<rparr>, None)
      else (ws\<lparr>ws_stream := rest, ws_close := True\<rparr>,
            Some (Some (close_with (ws_protocol ws) 4429 ''Too many initialisation requests.''))))"
| "receive (Msg (Start i request) # rest) ws =
     (case ws_data ws of
        Some data \<Rightarrow> receive rest (ws\<lparr>ws_streams := im_insert i (request, data) (ws_streams ws)\<rparr>)
      | None \<Rightarrow> (ws\<lparr>ws_stream := rest, ws_close := True\<rparr>,
                  Some (Some (WsClose 1011 ''The handshake is not completed.''))))"
| "receive (Msg (Stop i) # rest) ws =
     (if im_contains (ws_streams ws) i
      then (ws\<lparr>ws_stream := rest, ws_streams := AList.delete i (ws_streams ws)\<rparr>,
            Some (Some (WsText (Complete i))))
      else receive rest ws)"
| "receive (Msg ConnectionTerminate # rest) ws = (ws\<lparr>ws_stream := rest, ws_close := True\<rparr>, Some None)"
| "receive (Msg (Ping payload) # rest) ws =
     (ws\<lparr>ws_stream := rest, ws_ping_fut := Some (ws_data ws, payload)\<rparr>, None)"
| "receive (Msg (ClientPong _) # rest) ws = receive rest ws"

text \<open>The loop over the streams of the subscriptions.\<close>

fun poll_streams ::
  "(string \<Rightarrow> 'resp option option) \<Rightarrow> (string, 'a) index_map \<Rightarrow> (string \<times> 'resp option) option" where
  "poll_streams poll [] = None"
| "poll_streams poll ((i, _) # rest) =
     (case poll i of Some payload \<Rightarrow> Some (i, payload) | None \<Rightarrow> poll_streams poll rest)"

datatype 'a poll = Pending | Ready 'a

definition poll_init ::
  "('any, 'json, 'resp) polled \<Rightarrow> ('any, 'json, 'req) web_socket \<Rightarrow>
   ('any, 'json, 'req) web_socket \<times> ('json, 'resp) ws_message option poll" where
  "poll_init env ws =
     (case po_init env of
        None \<Rightarrow> (ws, Pending)
      | Some (Inr data) \<Rightarrow>
          (let ctx_data = (case ws_connection_data ws of Some d \<Rightarrow> d | None \<Rightarrow> [])
           in (ws\<lparr>ws_init_fut := None, ws_connection_data := None, ws_data := Some (data_merge ctx_data data)\<rparr>,
               Ready (Some (WsText ConnectionAck))))
      | Some (Inl err) \<Rightarrow>
          (ws\<lparr>ws_init_fut := None, ws_close := True\<rparr>, Ready (Some (close_with (ws_protocol ws) 1002 err))))"

definition poll_ping ::
  "('any, 'json, 'resp) polled \<Rightarrow> ('any, 'json, 'req) web_socket \<Rightarrow>
   ('any, 'json, 'req) web_socket \<times> ('json, 'resp) ws_message option poll" where
  "poll_ping env ws =
     (case po_ping env of
        None \<Rightarrow> (ws, Pending)
      | Some (Inr payload) \<Rightarrow> (ws\<lparr>ws_ping_fut := None\<rparr>, Ready (Some (WsText (Pong payload))))
      | Some (Inl err) \<Rightarrow>
          (ws\<lparr>ws_ping_fut := None, ws_close := True\<rparr>, Ready (Some (close_with (ws_protocol ws) 1002 err))))"

definition poll_subscriptions ::
  "('any, 'json, 'resp) polled \<Rightarrow> ('any, 'json, 'req) web_socket \<Rightarrow>
   ('any, 'json, 'req) web_socket \<times> ('json, 'resp) ws_message option poll" where
  "poll_subscriptions env ws =
     (case poll_streams (po_streams env) (ws_streams ws) of
        None \<Rightarrow> (ws, Pending)
      | Some (i, Some payload) \<Rightarrow> (ws, Ready (Some (WsText (next_message (ws_protocol ws) i payload))))
      | Some (i, None) \<Rightarrow>
          (ws\<lparr>ws_streams := AList.delete i (ws_streams ws)\<rparr>, Ready (Some (WsText (Complete i)))))"

definition poll_futures ::
  "('any, 'json, 'resp) polled \<Rightarrow> ('any, 'json, 'req) web_socket \<Rightarrow>
   ('any, 'json, 'req) web_socket \<times> ('json, 'resp) ws_message option poll" where
  "poll_futures env ws =
     (if ws_init_fut ws \<noteq> None then poll_init env ws
      else if ws_ping_fut ws \<noteq> None then poll_ping env ws
      else poll_subscriptions env ws)"

definition poll_next ::
  "('any, 'json, 'resp) polled \<Rightarrow> ('any, 'json, 'req) web_socket \<Rightarrow>
   ('any, 'json, 'req) web_socket \<times> ('json, 'resp) ws_message option poll" where
  "poll_next env ws =
     (if ws_close ws then (ws, Ready None)
      else if ws_keepalive_timer ws \<and> po_timer env
      then (ws\<lparr>ws_close := True\<rparr>, Ready (Some (close_with (ws_protocol ws) 3008 ''timeout'')))
      else
        case (if ws_init_fut ws = None \<and> ws_ping_fut ws = None then receive (ws_stream ws) ws else (ws, None)) of
          (ws, Some r) \<Rightarrow> (ws, Ready r)
        | (ws, None) \<Rightarrow> poll_futures env ws)"

subsection \<open>The abstract protocol\<close>

datatype ('json, 'req, 'resp) ws_event =
    Received "('json, 'req) client_message incoming"
  | Sent "('json, 'resp) ws_message"

text \<open>What a server must remember to know what it may send.\<close>

record session =
  se_initialising :: bool
  se_acknowledged :: bool
  se_live :: "string set"
  se_pinged :: bool
  se_closed :: bool

definition session_start :: session where
  "session_start =
     \<lparr>se_initialising = False, se_acknowledged = False, se_live = {}, se_pinged = False, se_closed = False\<rparr>"

fun session_receives :: "('json, 'req) client_message incoming \<Rightarrow> session \<Rightarrow> session" where
  "session_receives (Msg (ConnectionInit _)) se =
     se\<lparr>se_initialising := \<not> se_initialising se \<and> \<not> se_acknowledged se\<rparr>"
| "session_receives (Msg (Start i _)) se =
     (if se_acknowledged se then se\<lparr>se_live := insert i (se_live se)\<rparr> else se)"
| "session_receives (Msg ConnectionTerminate) se = se\<lparr>se_closed := True\<rparr>"
| "session_receives (Msg (Ping _)) se = se\<lparr>se_pinged := True\<rparr>"
| "session_receives _ se = se"

definition closing :: "protocols \<Rightarrow> ('json, 'resp) ws_message \<Rightarrow> bool" where
  "closing protocol m =
     (case m of
        WsClose _ _ \<Rightarrow> True
      | WsText (ConnectionError _) \<Rightarrow> protocol = SubscriptionsTransportWS
      | _ \<Rightarrow> False)"

text \<open>\<open>None\<close> is a violation of the protocol.\<close>

fun session_step :: "protocols \<Rightarrow> ('json, 'req, 'resp) ws_event \<Rightarrow> session \<Rightarrow> session option" where
  "session_step p (Received m) se =
     (if se_closed se \<or> se_initialising se \<or> se_pinged se then None else Some (session_receives m se))"
| "session_step p (Sent m) se =
     (if se_closed se then None
      else if closing p m then Some (se\<lparr>se_closed := True\<rparr>)
      else case m of
        WsText ConnectionAck \<Rightarrow>
          (if se_initialising se then Some (se\<lparr>se_initialising := False, se_acknowledged := True\<rparr>) else None)
      | WsText (Pong _) \<Rightarrow> (if se_pinged se then Some (se\<lparr>se_pinged := False\<rparr>) else None)
      | WsText (Data i _) \<Rightarrow> (if p = SubscriptionsTransportWS \<and> i \<in> se_live se then Some se else None)
      | WsText (Next i _) \<Rightarrow> (if p = GraphQLWS \<and> i \<in> se_live se then Some se else None)
      | WsText (Complete i) \<Rightarrow> (if i \<in> se_live se then Some (se\<lparr>se_live := se_live se - {i}\<rparr>) else None)
      | _ \<Rightarrow> None)"

primrec session_run ::
  "protocols \<Rightarrow> ('json, 'req, 'resp) ws_event list \<Rightarrow> session \<Rightarrow> session option" where
  "session_run p [] se = Some se"
| "session_run p (e # es) se = Option.bind (session_step p e se) (session_run p es)"

subsection \<open>A connection follows the protocol\<close>

text \<open>The session of a connection that is open.\<close>

definition in_session :: "('any, 'json, 'req) web_socket \<Rightarrow> session \<Rightarrow> bool" where
  "in_session ws se \<longleftrightarrow>
     se_closed se = ws_close ws \<and>
     (\<not> ws_close ws \<longrightarrow>
        se_initialising se = (ws_init_fut ws \<noteq> None) \<and> se_acknowledged se = (ws_data ws \<noteq> None) \<and>
        se_live se = fst ` set (ws_streams ws) \<and> se_pinged se = (ws_ping_fut ws \<noteq> None) \<and>
        ws_on_connection_init ws = (ws_init_fut ws = None \<and> ws_data ws = None))"

definition sent_events :: "('json, 'resp) ws_message option poll \<Rightarrow> ('json, 'req, 'resp) ws_event list" where
  "sent_events r = (case r of Ready (Some m) \<Rightarrow> [Sent m] | _ \<Rightarrow> [])"

lemma session_run_append:
  "session_run p (es @ es') se = Option.bind (session_run p es se) (session_run p es')"
  by (induction es arbitrary: se) (auto split: Option.bind_splits)

lemma closing_close_with [simp]: "closing p (close_with p code message)"
  by (cases p) (simp_all add: closing_def close_with_def)

lemma keys_delete: "fst ` set (AList.delete k m) = fst ` set m - {k}"
  by (induction m) auto

lemma in_session_simps:
  "ws_close ws \<Longrightarrow> in_session ws se \<longleftrightarrow> se_closed se"
  "\<not> ws_close ws \<Longrightarrow> in_session ws se \<longleftrightarrow>
     \<not> se_closed se \<and> se_initialising se = (ws_init_fut ws \<noteq> None) \<and> se_acknowledged se = (ws_data ws \<noteq> None) \<and>
     se_live se = fst ` set (ws_streams ws) \<and> se_pinged se = (ws_ping_fut ws \<noteq> None) \<and>
     ws_on_connection_init ws = (ws_init_fut ws = None \<and> ws_data ws = None)"
  by (auto simp: in_session_def)

lemma receive_session:
  assumes "in_session ws se" "\<not> ws_close ws" "ws_init_fut ws = None" "ws_ping_fut ws = None"
    "receive q ws = (ws', r)"
  shows "\<exists>consumed se'. q = consumed @ ws_stream ws' \<and> ws_protocol ws' = ws_protocol ws \<and>
    session_run (ws_protocol ws) (map Received consumed @ (case r of Some (Some m) \<Rightarrow> [Sent m] | _ \<Rightarrow> [])) se = Some se' \<and>
    in_session ws' se'"
  using assms
proof (induction q ws arbitrary: se rule: receive.induct)
  case (1 ws)
  then show ?case by (intro exI [of _ "[]"] exI [of _ se]) (auto simp: in_session_simps)
next
  case (2 rest ws)
  then show ?case by (intro exI [of _ "[Ended]"] exI [of _ se]) (auto simp: in_session_simps)
next
  case (3 err rest ws)
  then show ?case
    by (intro exI [of _ "[Malformed err]"] exI [of _ "se\<lparr>se_closed := True\<rparr>"]) (auto simp: in_session_simps closing_def)
next
  case (4 payload rest ws)
  show ?case
  proof (cases "ws_on_connection_init ws")
    case True
    then show ?thesis
      using 4 by (intro exI [of _ "[Msg (ConnectionInit payload)]"] exI [of _ "se\<lparr>se_initialising := True\<rparr>"])
        (auto simp: in_session_simps)
  next
    case False
    then show ?thesis
      using 4 by (intro exI [of _ "[Msg (ConnectionInit payload)]"]
          exI [of _ "se\<lparr>se_initialising := False, se_closed := True\<rparr>"]) (auto simp: in_session_simps)
  qed
next
  case (5 i request rest ws)
  show ?case
  proof (cases "ws_data ws")
    case None
    then show ?thesis
      using 5 by (intro exI [of _ "[Msg (Start i request)]"] exI [of _ "se\<lparr>se_closed := True\<rparr>"])
        (auto simp: in_session_simps closing_def)
  next
    case (Some data)
    let ?ws = "ws\<lparr>ws_streams := im_insert i (request, data) (ws_streams ws)\<rparr>"
    let ?se = "se\<lparr>se_live := insert i (se_live se)\<rparr>"
    have "in_session ?ws ?se" using 5(2,3) by (auto simp: in_session_simps dom_update)
    with 5 Some obtain consumed se' where
      "rest = consumed @ ws_stream ws'" "ws_protocol ws' = ws_protocol ws"
      "session_run (ws_protocol ws) (map Received consumed @ (case r of Some (Some m) \<Rightarrow> [Sent m] | _ \<Rightarrow> [])) ?se = Some se'"
      "in_session ws' se'" by fastforce
    then show ?thesis
      using 5(2-5) Some by (intro exI [of _ "Msg (Start i request) # consumed"] exI [of _ se']) (auto simp: in_session_simps)
  qed
next
  case (6 i rest ws)
  show ?case
  proof (cases "im_contains (ws_streams ws) i")
    case True
    then have "i \<in> fst ` set (ws_streams ws)" by (force dest: map_of_SomeD)
    moreover have "ws' = ws\<lparr>ws_stream := rest, ws_streams := AList.delete i (ws_streams ws)\<rparr>"
      "r = Some (Some (WsText (Complete i)))" using 6(6) True by auto
    ultimately show ?thesis
      using 6(2-5) by (intro exI [of _ "[Msg (Stop i)]"] exI [of _ "se\<lparr>se_live := se_live se - {i}\<rparr>"])
        (simp add: in_session_simps closing_def keys_delete)
  next
    case False
    with 6 obtain consumed se' where
      "rest = consumed @ ws_stream ws'" "ws_protocol ws' = ws_protocol ws"
      "session_run (ws_protocol ws) (map Received consumed @ (case r of Some (Some m) \<Rightarrow> [Sent m] | _ \<Rightarrow> [])) se = Some se'"
      "in_session ws' se'" by fastforce
    then show ?thesis
      using 6(2-5) by (intro exI [of _ "Msg (Stop i) # consumed"] exI [of _ se']) (auto simp: in_session_simps)
  qed
next
  case (7 rest ws)
  then show ?case
    by (intro exI [of _ "[Msg ConnectionTerminate]"] exI [of _ "se\<lparr>se_closed := True\<rparr>"]) (auto simp: in_session_simps)
next
  case (8 payload rest ws)
  then show ?case
    by (intro exI [of _ "[Msg (Ping payload)]"] exI [of _ "se\<lparr>se_pinged := True\<rparr>"]) (auto simp: in_session_simps)
next
  case (9 payload rest ws)
  then obtain consumed se' where
    "rest = consumed @ ws_stream ws'" "ws_protocol ws' = ws_protocol ws"
    "session_run (ws_protocol ws) (map Received consumed @ (case r of Some (Some m) \<Rightarrow> [Sent m] | _ \<Rightarrow> [])) se = Some se'"
    "in_session ws' se'" by fastforce
  then show ?case
    using 9(2-5) by (intro exI [of _ "Msg (ClientPong payload) # consumed"] exI [of _ se']) (auto simp: in_session_simps)
qed

lemma poll_streams_live: "poll_streams poll m = Some (i, payload) \<Longrightarrow> i \<in> fst ` set m"
  by (induction poll m rule: poll_streams.induct) (auto split: option.splits)

lemma poll_subscriptions_session:
  assumes "in_session ws se" "\<not> ws_close ws" "poll_subscriptions env ws = (ws', r)"
  shows "\<exists>se'. ws_stream ws' = ws_stream ws \<and> ws_protocol ws' = ws_protocol ws \<and>
    session_run (ws_protocol ws) (sent_events r) se = Some se' \<and> in_session ws' se'"
proof (cases "poll_streams (po_streams env) (ws_streams ws)")
  case None
  with assms show ?thesis by (simp add: poll_subscriptions_def sent_events_def)
next
  case (Some x)
  obtain i payload where x: "x = (i, payload)" by force
  with Some have live: "i \<in> se_live se" using assms(1,2) by (simp add: in_session_simps poll_streams_live)
  have se: "\<not> se_closed se" "se_live se = fst ` set (ws_streams ws)" using assms(1,2) by (simp_all add: in_session_simps)
  show ?thesis
  proof (cases payload)
    case None
    with Some x assms(3) have "ws' = ws\<lparr>ws_streams := AList.delete i (ws_streams ws)\<rparr>" "r = Ready (Some (WsText (Complete i)))"
      by (simp_all add: poll_subscriptions_def)
    then show ?thesis
      using assms(1,2) live se(2)
      by (intro exI [of _ "se\<lparr>se_live := se_live se - {i}\<rparr>"])
         (simp add: sent_events_def in_session_simps closing_def keys_delete)
  next
    case (Some resp)
    with \<open>poll_streams _ _ = Some x\<close> x assms(3)
    have "ws' = ws" "r = Ready (Some (WsText (next_message (ws_protocol ws) i resp)))"
      by (auto simp: poll_subscriptions_def)
    then show ?thesis
      using assms(1) live se(1)
      by (intro exI [of _ se], cases "ws_protocol ws") (simp_all add: sent_events_def closing_def next_message_def)
  qed
qed

lemma poll_init_session:
  assumes "in_session ws se" "\<not> ws_close ws" "ws_init_fut ws \<noteq> None" "poll_init env ws = (ws', r)"
  shows "\<exists>se'. ws_stream ws' = ws_stream ws \<and> ws_protocol ws' = ws_protocol ws \<and>
    session_run (ws_protocol ws) (sent_events r) se = Some se' \<and> in_session ws' se'"
proof (cases "po_init env")
  case None
  with assms show ?thesis by (simp add: poll_init_def sent_events_def)
next
  case (Some res)
  show ?thesis
  proof (cases res)
    case (Inl err)
    with Some assms show ?thesis
      by (intro exI [of _ "se\<lparr>se_closed := True\<rparr>"]) (auto simp: poll_init_def sent_events_def in_session_simps)
  next
    case (Inr data)
    with Some assms show ?thesis
      by (intro exI [of _ "se\<lparr>se_initialising := False, se_acknowledged := True\<rparr>"])
         (auto simp: poll_init_def Let_def sent_events_def in_session_simps closing_def)
  qed
qed

lemma poll_ping_session:
  assumes "in_session ws se" "\<not> ws_close ws" "ws_ping_fut ws \<noteq> None" "poll_ping env ws = (ws', r)"
  shows "\<exists>se'. ws_stream ws' = ws_stream ws \<and> ws_protocol ws' = ws_protocol ws \<and>
    session_run (ws_protocol ws) (sent_events r) se = Some se' \<and> in_session ws' se'"
proof (cases "po_ping env")
  case None
  with assms show ?thesis by (simp add: poll_ping_def sent_events_def)
next
  case (Some res)
  show ?thesis
  proof (cases res)
    case (Inl err)
    with Some assms show ?thesis
      by (intro exI [of _ "se\<lparr>se_closed := True\<rparr>"]) (auto simp: poll_ping_def sent_events_def in_session_simps)
  next
    case (Inr data)
    with Some assms show ?thesis
      by (intro exI [of _ "se\<lparr>se_pinged := False\<rparr>"])
         (auto simp: poll_ping_def sent_events_def in_session_simps closing_def)
  qed
qed

lemma poll_futures_session:
  assumes "in_session ws se" "\<not> ws_close ws" "poll_futures env ws = (ws', r)"
  shows "\<exists>se'. ws_stream ws' = ws_stream ws \<and> ws_protocol ws' = ws_protocol ws \<and>
    session_run (ws_protocol ws) (sent_events r) se = Some se' \<and> in_session ws' se'"
proof -
  consider "ws_init_fut ws \<noteq> None" "poll_init env ws = (ws', r)" | "ws_ping_fut ws \<noteq> None" "poll_ping env ws = (ws', r)"
    | "poll_subscriptions env ws = (ws', r)"
    using assms(3) unfolding poll_futures_def by (metis (full_types))
  then show ?thesis
    by cases (intro poll_init_session poll_ping_session poll_subscriptions_session assms(1,2); assumption)+
qed

lemma receive_open: "receive q ws = (ws', None) \<Longrightarrow> ws_close ws' = ws_close ws"
  by (induction q ws rule: receive.induct) (auto split: if_splits option.splits)

lemma poll_next_cases:
  fixes env :: "('any, 'json, 'resp) polled" and ws ws' :: "('any, 'json, 'req) web_socket"
  assumes "poll_next env ws = (ws', r)"
  obtains (stopped) "ws_close ws" "ws' = ws" "r = Ready None"
  | (timeout) "\<not> ws_close ws" "ws_keepalive_timer ws" "po_timer env" "ws' = ws\<lparr>ws_close := True\<rparr>"
      "r = Ready (Some (close_with (ws_protocol ws) 3008 ''timeout''))"
  | (busy) "\<not> ws_close ws" "\<not> (ws_keepalive_timer ws \<and> po_timer env)"
      "ws_init_fut ws \<noteq> None \<or> ws_ping_fut ws \<noteq> None" "poll_futures env ws = (ws', r)"
  | (answered) r' where "\<not> ws_close ws" "\<not> (ws_keepalive_timer ws \<and> po_timer env)"
      "ws_init_fut ws = None" "ws_ping_fut ws = None"
      "receive (ws_stream ws) ws = (ws', Some r')" "r = Ready r'"
  | (received) ws1 where "\<not> ws_close ws" "\<not> (ws_keepalive_timer ws \<and> po_timer env)"
      "ws_init_fut ws = None" "ws_ping_fut ws = None"
      "receive (ws_stream ws) ws = (ws1, None :: ('json, 'resp) ws_message option option)" "poll_futures env ws1 = (ws', r)"
proof -
  consider "ws_close ws" | "\<not> ws_close ws" "ws_keepalive_timer ws" "po_timer env"
    | "\<not> ws_close ws" "\<not> (ws_keepalive_timer ws \<and> po_timer env)" by blast
  then show thesis
  proof cases
    case 1
    with assms have "ws' = ws" "r = Ready None" by (auto simp: poll_next_def)
    with 1 show thesis by (intro stopped)
  next
    case 2
    with assms have "ws' = ws\<lparr>ws_close := True\<rparr>" "r = Ready (Some (close_with (ws_protocol ws) 3008 ''timeout''))"
      by (auto simp: poll_next_def)
    with 2 show thesis by (intro timeout)
  next
    case 3
    obtain ws1 and r1 :: "('json, 'resp) ws_message option option" where rec: "receive (ws_stream ws) ws = (ws1, r1)" by force
    consider "ws_init_fut ws \<noteq> None \<or> ws_ping_fut ws \<noteq> None" | "ws_init_fut ws = None" "ws_ping_fut ws = None" by blast
    then show thesis
    proof cases
      case 1
      with assms 3 have "poll_futures env ws = (ws', r)" by (auto simp: poll_next_def)
      with 1 3 show thesis by (intro busy)
    next
      case 2
      show thesis
      proof (cases r1)
        case None
        with assms 2 3 rec have "poll_futures env ws1 = (ws', r)" by (simp add: poll_next_def)
        with 2 3 rec None show thesis by (intro received) simp_all
      next
        case (Some r')
        with assms 2 3 rec have "ws1 = ws'" "r = Ready r'" by (simp_all add: poll_next_def)
        with 2 3 rec Some show thesis by (intro answered [of r']) simp_all
      qed
    qed
  qed
qed

lemma poll_next_session:
  fixes env :: "('any, 'json, 'resp) polled" and ws ws' :: "('any, 'json, 'req) web_socket"
  assumes "in_session ws se" "poll_next env ws = (ws', r)"
  shows "\<exists>consumed se'. ws_stream ws = consumed @ ws_stream ws' \<and> ws_protocol ws' = ws_protocol ws \<and>
    session_run (ws_protocol ws) (map Received consumed @ sent_events r) se = Some se' \<and> in_session ws' se'"
  using assms(2)
proof (cases rule: poll_next_cases)
  case stopped
  with assms(1) show ?thesis by (intro exI [of _ "[]"]) (simp add: sent_events_def)
next
  case timeout
  with assms(1) show ?thesis by (intro exI [of _ "[]"]) (simp add: sent_events_def in_session_simps)
next
  case busy
  from poll_futures_session [OF assms(1) busy(1,4)] show ?thesis by (intro exI [of _ "[]"]) auto
next
  case (answered r')
  from receive_session [OF assms(1) answered(1,3,4,5)] answered(6) show ?thesis
    by (cases r') (auto simp: sent_events_def)
next
  case (received ws1)
  from receive_session [OF assms(1) received(1,3,4,5)] obtain consumed se1 where
    se1: "ws_stream ws = consumed @ ws_stream ws1" "ws_protocol ws1 = ws_protocol ws"
      "session_run (ws_protocol ws) (map Received consumed :: ('json, 'req, 'resp) ws_event list) se = Some se1"
      "in_session ws1 se1"
    unfolding option.case append_Nil2 by blast
  have "\<not> ws_close ws1" using receive_open [OF received(5)] received(1) by simp
  from poll_futures_session [OF se1(4) this received(6)] se1 show ?thesis
    by (intro exI [of _ consumed]) (auto simp: session_run_append)
qed

subsection \<open>Runs\<close>

text \<open>A connection with what was received and sent so far, and whether its consumer has seen the end.\<close>

record ('any, 'json, 'req, 'resp) ws_system =
  wy_socket :: "('any, 'json, 'req) web_socket"
  wy_events :: "('json, 'req, 'resp) ws_event list"
  wy_finished :: bool

definition ws_poll ::
  "('any, 'json, 'resp) polled \<Rightarrow> ('any, 'json, 'req, 'resp) ws_system \<Rightarrow> ('any, 'json, 'req, 'resp) ws_system" where
  "ws_poll env sy =
     (let q = ws_stream (wy_socket sy);
          (ws, r) = poll_next env (wy_socket sy)
      in \<lparr>wy_socket = ws,
          wy_events = wy_events sy @ map Received (take (length q - length (ws_stream ws)) q) @ sent_events r,
          wy_finished = (r = Ready None)\<rparr>)"

inductive ws_reachable :: "protocols \<Rightarrow> ('any, 'json, 'req, 'resp) ws_system \<Rightarrow> bool" for protocol where
  start: "ws_reachable protocol
    \<lparr>wy_socket = keepalive_timeout timeout (ws\<lparr>ws_connection_data := data\<rparr>), wy_events = [], wy_finished = False\<rparr>"
    if "ws = from_message_stream protocol"
| client: "ws_reachable protocol sy \<Longrightarrow>
    ws_reachable protocol (sy\<lparr>wy_socket := (wy_socket sy)\<lparr>ws_stream := ws_stream (wy_socket sy) @ [message]\<rparr>\<rparr>)"
| poll: "ws_reachable protocol sy \<Longrightarrow> \<not> wy_finished sy \<Longrightarrow> ws_reachable protocol (ws_poll env sy)"

theorem ws_reachable_session:
  assumes "ws_reachable protocol sy"
  shows "\<exists>se. ws_protocol (wy_socket sy) = protocol \<and>
    session_run protocol (wy_events sy) session_start = Some se \<and> in_session (wy_socket sy) se"
  using assms
proof induction
  case (start ws timeout data)
  then show ?case by (simp add: from_message_stream_def keepalive_timeout_def in_session_def session_start_def)
next
  case (client sy message)
  then show ?case by (simp add: in_session_def)
next
  case (poll sy env)
  then obtain se where se: "ws_protocol (wy_socket sy) = protocol"
    "session_run protocol (wy_events sy) session_start = Some se" "in_session (wy_socket sy) se" by blast
  obtain ws r where pn: "poll_next env (wy_socket sy) = (ws, r)" by force
  from poll_next_session [OF se(3) pn] obtain consumed se' where
    "ws_stream (wy_socket sy) = consumed @ ws_stream ws" "ws_protocol ws = protocol"
    "session_run protocol (map Received consumed @ sent_events r) se = Some se'" "in_session ws se'"
    using se(1) by blast
  then show ?case using pn se(2) by (auto simp: ws_poll_def Let_def session_run_append)
qed

subsection \<open>A connection that waits has nothing to do\<close>

lemma receive_pending:
  "receive q ws = (ws', None) \<Longrightarrow> ws_init_fut ws' = None \<Longrightarrow> ws_ping_fut ws' = None \<Longrightarrow> ws_stream ws' = []"
  by (induction q ws rule: receive.induct) (auto split: if_splits option.splits)

lemma poll_streams_None: "poll_streams poll m = None \<longleftrightarrow> (\<forall>(i, _)\<in>set m. poll i = None)"
  by (induction poll m rule: poll_streams.induct) (auto split: option.splits)

theorem poll_next_pending:
  assumes "poll_next env ws = (ws', Pending)"
  shows "\<not> ws_close ws \<and> \<not> (ws_keepalive_timer ws \<and> po_timer env) \<and>
    (if ws_init_fut ws' \<noteq> None then po_init env = None
     else if ws_ping_fut ws' \<noteq> None then po_ping env = None
     else ws_stream ws' = [] \<and> (\<forall>(i, _)\<in>set (ws_streams ws'). po_streams env i = None))"
proof -
  have wait: "if ws_init_fut ws' \<noteq> None then po_init env = None
     else if ws_ping_fut ws' \<noteq> None then po_ping env = None
     else \<forall>(i, _)\<in>set (ws_streams ws'). po_streams env i = None" "ws' = ws1"
    if "poll_futures env ws1 = (ws', Pending)" for ws1
    using that
    by (auto simp: poll_futures_def poll_init_def poll_ping_def poll_subscriptions_def poll_streams_None Let_def
        split: if_splits option.splits sum.splits)
  from assms show ?thesis
  proof (cases rule: poll_next_cases)
    case busy
    then show ?thesis using wait [OF busy(4)] by auto
  next
    case (received ws1)
    have "ws_stream ws1 = []" if "ws_init_fut ws1 = None" "ws_ping_fut ws1 = None"
      using receive_pending [OF received(5)] that .
    with received wait [OF received(6)] show ?thesis by (cases "ws_ping_fut ws1") auto
  qed simp_all
qed

text \<open>A second \<open>Start\<close> with the name of a live subscription replaces it: the first is dropped, and its client is
  told nothing.\<close>

lemma duplicate_start_replaces:
  assumes "ws_data ws = Some data" "map_of (ws_streams ws) i = Some old"
  shows "receive [Msg (Start i request)] ws =
    (ws\<lparr>ws_streams := im_insert i (request, data) (ws_streams ws), ws_stream := []\<rparr>, None)"
    "map_of (im_insert i (request, data) (ws_streams ws)) i = Some (request, data)"
  using assms by (simp_all add: update_conv')

end
