(* ===== verification/Scoped.thy ===== *)
theory Scoped
  imports Validation
begin

text \<open>
  What the rules that judge the document as a whole say of the document itself.

  The rules for variables, fragments and cycles keep one entry for each operation and fragment and
  report when the document is left. They react to few calls (\<open>is_scope_call\<close>) and do not look at the
  context, which is the contract \<open>scope_rule\<close>. A traversal in normal mode makes these calls block by
  block, one block for each fragment and then one for each operation (\<open>doc_calls\<close>), so what such a
  rule reports is a function of the blocks of the document (\<open>scope_rule.outcome_doc\<close>). The results:
  the rules report nothing exactly when

  \<^item> every variable used in an operation, or in a fragment it reaches, is defined by the operation;
  \<^item> every variable of an operation is used in it or in a fragment it reaches;
  \<^item> every fragment is reached from an operation;
  \<^item> no fragment reaches itself.
\<close>

subsection \<open>The calls of a document in normal mode\<close>

fun is_body_call :: "visitor_call \<Rightarrow> bool" where
  "is_body_call (EnterVariableDefinition _) = True"
| "is_body_call (EnterArgument _ _) = True"
| "is_body_call (EnterFragmentSpread _) = True"
| "is_body_call _ = False"

fun is_scope_call :: "visitor_call \<Rightarrow> bool" where
  "is_scope_call (EnterOperationDefinition _ _) = True"
| "is_scope_call (EnterFragmentDefinition _ _) = True"
| "is_scope_call (ExitFragmentDefinition _ _) = True"
| "is_scope_call (ExitDocument _) = True"
| "is_scope_call c = is_body_call c"

definition scope_calls :: "event list \<Rightarrow> visitor_call list" where
  "scope_calls evs = filter is_scope_call (event_calls evs)"

lemma scope_calls_simps [simp]:
  "scope_calls [] = []"
  "scope_calls (Call c env # evs) = (if is_scope_call c then c # scope_calls evs else scope_calls evs)"
  "scope_calls (Report e # evs) = scope_calls evs"
  "scope_calls (evs @ evs') = scope_calls evs @ scope_calls evs'"
  by (simp_all add: scope_calls_def)

lemma scope_calls_concat: "scope_calls (concat evss) = concat (map scope_calls evss)"
  by (induction evss) simp_all

definition argument_calls :: "arguments \<Rightarrow> visitor_call list" where
  "argument_calls args = map (\<lambda>(n, value). EnterArgument n value) args"

definition directive_calls :: "directive positioned list \<Rightarrow> visitor_call list" where
  "directive_calls ds = concat (map (\<lambda>d. argument_calls (d_arguments (node d))) ds)"

function selection_calls :: "selection_set \<Rightarrow> visitor_call list" where
  "selection_calls ss =
     concat (map (\<lambda>sel. case node sel of
         Field field \<Rightarrow>
           if node (f_name (node field)) = ''__typename'' then []
           else argument_calls (f_arguments (node field)) @ directive_calls (f_directives (node field)) @
                selection_calls (node (f_selection_set (node field)))
       | FragmentSpread spread \<Rightarrow> EnterFragmentSpread spread # directive_calls (fs_directives (node spread))
       | InlineFragment frag \<Rightarrow>
           directive_calls (if_directives (node frag)) @ selection_calls (node (if_selection_set (node frag))))
       (ss_items ss))"
  by pat_completeness auto
termination
  by (relation "measure size") (auto simp: termination_simp)

declare selection_calls.simps [simp del]

text \<open>A fragment or operation: its scope and the calls made inside it.\<close>

definition fragment_body :: "fragment_definition positioned \<Rightarrow> visitor_call list" where
  "fragment_body fragment =
     directive_calls (fd_directives (node fragment)) @
     selection_calls (node (fd_selection_set (node fragment)))"

definition operation_body :: "registry \<Rightarrow> operation_definition positioned \<Rightarrow> visitor_call list" where
  "operation_body reg operation =
     (if root_name reg (od_ty (node operation)) = None then []
      else map EnterVariableDefinition (od_variable_definitions (node operation)) @
           directive_calls (od_directives (node operation)) @
           selection_calls (node (od_selection_set (node operation))))"

definition doc_calls :: "registry \<Rightarrow> executable_document \<Rightarrow> visitor_call list" where
  "doc_calls reg doc =
     concat (map (\<lambda>(n, fragment).
       EnterFragmentDefinition n fragment # fragment_body fragment @ [ExitFragmentDefinition n fragment])
       (doc_fragments doc)) @
     concat (map (\<lambda>(n, operation). EnterOperationDefinition n operation # operation_body reg operation)
       (operations_iter (doc_operations doc)))"

lemma scope_calls_input_value [simp]: "scope_calls (trace_input_value env p ty val) = []"
  by (induction val arbitrary: ty)
     (auto simp: scope_calls_concat split: option.splits meta_type_name.splits meta_type.splits)

lemma scope_calls_arguments:
  "scope_calls (concat (map (trace_argument p sa env) args)) = argument_calls args"
  by (induction args) (auto simp: argument_calls_def trace_argument_def Let_def)

lemma scope_calls_directives: "scope_calls (trace_directives env ds) = directive_calls ds"
  by (induction ds)
     (simp_all add: trace_directives_def trace_directive_def directive_calls_def scope_calls_arguments)

lemma map_result_scope_calls:
  assumes "map_result f xs = Inr evss"
    and "\<And>x evs. x \<in> set xs \<Longrightarrow> f x = Inr evs \<Longrightarrow> scope_calls evs = g x"
  shows "scope_calls (concat evss) = concat (map g xs)"
  using assms by (induction xs arbitrary: evss) (auto simp: res_simps)

lemma trace_scope_calls:
  "trace_selection_set n m env ss = Inr evs \<Longrightarrow> m = ModeNormal \<Longrightarrow>
     scope_calls evs = selection_calls (node ss)"
  and "trace_selection n m env sel = Inr evs1 \<Longrightarrow> m = ModeNormal \<Longrightarrow>
     scope_calls evs1 = selection_calls (SelectionSet [sel])"
  and "trace_field n m env fld = Inr evs2 \<Longrightarrow> m = ModeNormal \<Longrightarrow>
     scope_calls evs2 = argument_calls (f_arguments (node fld)) @
       directive_calls (f_directives (node fld)) @ selection_calls (node (f_selection_set (node fld)))"
  and "trace_fragment_spread n m env spr = Inr evs3 \<Longrightarrow> m = ModeNormal \<Longrightarrow>
     scope_calls evs3 = EnterFragmentSpread spr # directive_calls (fs_directives (node spr))"
  and "trace_inline_fragment n m env ifr = Inr evs4 \<Longrightarrow> m = ModeNormal \<Longrightarrow>
     scope_calls evs4 = directive_calls (if_directives (node ifr)) @
       selection_calls (node (if_selection_set (node ifr)))"
proof (induction n m env ss and n m env sel and n m env fld and n m env spr and n m env ifr
    arbitrary: evs and evs1 and evs2 and evs3 and evs4
    rule: trace_selection_set_trace_selection_trace_field_trace_fragment_spread_trace_inline_fragment.induct)
  case (1 n m env ss)
  show ?case
  proof (cases "ss_items (node ss) = []")
    case False
    then obtain evss where evss: "map_result (trace_selection n m env) (ss_items (node ss)) = Inr evss"
      "evs = Call (EnterSelectionSet ss) env # concat evss @ [Call (ExitSelectionSet ss) env]"
      using "1.prems" by (auto simp: trace_selection_set.simps res_simps)
    have "scope_calls (concat evss) =
        concat (map (\<lambda>sel. selection_calls (SelectionSet [sel])) (ss_items (node ss)))"
      by (rule map_result_scope_calls [OF evss(1)]) (use 1 False in auto)
    also have "\<dots> = selection_calls (node ss)"
      by (simp add: selection_calls.simps [of "node ss"] selection_calls.simps [of "SelectionSet _"])
    finally show ?thesis using evss(2) by simp
  qed (use 1 in \<open>simp add: trace_selection_set.simps selection_calls.simps [of "node ss"]\<close>)
next
  case (2 n m env p sel)
  then show ?case
    by (cases sel)
       (auto simp: trace_selection.simps res_simps selection_calls.simps [of "SelectionSet _"]
         split: if_splits option.splits)
next
  case (3 n m env field)
  then show ?case by (auto simp: trace_field.simps res_simps scope_calls_arguments scope_calls_directives)
next
  case (4 n m env spr)
  then show ?case by (auto simp: trace_fragment_spread.simps res_simps scope_calls_directives)
next
  case (5 n m env ifr)
  then show ?case by (auto simp: trace_inline_fragment.simps res_simps scope_calls_directives)
qed


lemma scope_calls_variable_definitions:
  "scope_calls (trace_variable_definitions env defs) = map EnterVariableDefinition defs"
  by (induction defs) (simp_all add: trace_variable_definitions_def)

lemma trace_scope_calls_doc:
  assumes "trace n ModeNormal env doc = Inr evs"
  shows "scope_calls evs = doc_calls (vc_registry env) doc @ [ExitDocument doc]"
proof -
  from assms obtain frags ops where
    frags: "map_result (trace_fragment_definition n ModeNormal env) (doc_fragments doc) = Inr frags"
    and ops: "map_result (trace_operation_definition n ModeNormal env)
      (operations_iter (doc_operations doc)) = Inr ops"
    and evs: "evs = Call (EnterDocument doc) env # concat frags @ concat ops @ [Call (ExitDocument doc) env]"
    by (auto simp: trace_def res_simps)
  have "scope_calls (concat frags) = concat (map (\<lambda>(n, fragment).
       EnterFragmentDefinition n fragment # fragment_body fragment @ [ExitFragmentDefinition n fragment])
       (doc_fragments doc))"
    by (rule map_result_scope_calls [OF frags])
       (auto simp: trace_fragment_definition_def Let_def res_simps scope_calls_directives fragment_body_def
         dest: trace_scope_calls(1) split: prod.splits)
  moreover have "scope_calls (concat ops) =
      concat (map (\<lambda>(n, operation). EnterOperationDefinition n operation # operation_body (vc_registry env) operation)
       (operations_iter (doc_operations doc)))"
    by (rule map_result_scope_calls [OF ops])
       (auto simp: trace_operation_definition_def Let_def res_simps scope_calls_directives
         operation_body_def scope_calls_variable_definitions dest: trace_scope_calls(1)
         split: prod.splits option.splits)
  ultimately show ?thesis by (simp add: evs doc_calls_def)
qed

subsection \<open>Rules that report at the end\<close>

locale scope_rule = rule_visitor v for v :: "'s visitor" +
  assumes ignores: "\<not> is_scope_call c \<Longrightarrow> v_call v c ctx s = (ctx, s)"
    and late: "is_scope_call c \<Longrightarrow> (\<And>d. c \<noteq> ExitDocument d) \<Longrightarrow> emits v c env s = []"
    and context_free: "emits v c env s = emits v c env' s" "nextst v c env s = nextst v c env' s"
begin

definition after :: "visitor_call list \<Rightarrow> 's \<Rightarrow> 's" where
  "after cs s = fold (\<lambda>c. nextst v c undefined) cs s"

lemma after_simps [simp]:
  "after [] s = s"
  "after (c # cs) s = after cs (nextst v c undefined s)"
  "after (cs @ cs') s = after cs' (after cs s)"
  by (simp_all add: after_def)

lemma outcome_calls:
  "outcome v evs s = outcome v (map (\<lambda>c. Call c env) (scope_calls evs)) s"
proof (induction evs arbitrary: s rule: event_calls.induct)
  case (2 c e evs)
  have "emits v c e s = []" "nextst v c e s = s" if "\<not> is_scope_call c"
    using ignores [OF that] by (simp_all add: emits_def nextst_def clear_def)
  then show ?case using 2 context_free [of c e s env] by (auto simp: case_prod_beta)
qed simp_all

lemma outcome_silent:
  assumes "list_all (\<lambda>c. is_scope_call c \<and> (\<forall>d. c \<noteq> ExitDocument d)) cs"
  shows "outcome v (map (\<lambda>c. Call c env) cs) s = ([], after cs s)"
  using assms
  by (induction cs arbitrary: s) (auto simp: late context_free(2) [of _ env _ undefined])

end

lemma is_scope_call_parts:
  "list_all (\<lambda>c. is_scope_call c \<and> (\<forall>d. c \<noteq> ExitDocument d)) (argument_calls args)"
  "list_all (\<lambda>c. is_scope_call c \<and> (\<forall>d. c \<noteq> ExitDocument d)) (directive_calls ds)"
  "list_all (\<lambda>c. is_scope_call c \<and> (\<forall>d. c \<noteq> ExitDocument d)) (selection_calls ss)"
proof -
  show args: "list_all (\<lambda>c. is_scope_call c \<and> (\<forall>d. c \<noteq> ExitDocument d)) (argument_calls args)" for args
    by (auto simp: argument_calls_def list_all_iff)
  then show ds: "list_all (\<lambda>c. is_scope_call c \<and> (\<forall>d. c \<noteq> ExitDocument d)) (directive_calls ds)" for ds
    by (auto simp: directive_calls_def list_all_iff)
  show "list_all (\<lambda>c. is_scope_call c \<and> (\<forall>d. c \<noteq> ExitDocument d)) (selection_calls ss)"
  proof (induction ss rule: selection_calls.induct)
    case (1 ss)
    show ?case
      unfolding selection_calls.simps [of ss]
      by (auto simp: list_all_concat list.pred_map list_all_iff split: selection.splits
          dest: 1 [unfolded list_all_iff] args [unfolded list_all_iff, rule_format]
            ds [unfolded list_all_iff, rule_format])
  qed
qed

lemma doc_calls_scope:
  "list_all (\<lambda>c. is_scope_call c \<and> (\<forall>d. c \<noteq> ExitDocument d)) (doc_calls reg doc)"
  by (auto simp: doc_calls_def list_all_concat list.pred_map fragment_body_def operation_body_def
      is_scope_call_parts list_all_iff [of _ "doc_fragments _"] list_all_iff [of _ "operations_iter _"]
      o_def list.pred_True)

context scope_rule
begin

lemma outcome_doc:
  assumes "trace n ModeNormal env doc = Inr evs"
  shows "fst (outcome v evs s) =
    emits v (ExitDocument doc) undefined (after (doc_calls (vc_registry env) doc) s)"
  using outcome_silent [OF doc_calls_scope, of undefined]
  by (simp add: outcome_calls [of evs s undefined] trace_scope_calls_doc [OF assms] outcome_append)

end

interpretation undefined_variables: scope_rule no_undefined_variables
  by unfold_locales
     (auto simp: no_undefined_variables_def emits_def nextst_def undefined_errors_fold [unfolded Let_def]
       Let_def clear_def append_errors_def split: visitor_call.splits elim: is_scope_call.elims)


interpretation unused_fragments: scope_rule no_unused_fragments
  by unfold_locales
     (auto simp: no_unused_fragments_def emits_def nextst_def unused_fragment_errors_fold
       Let_def clear_def append_errors_def simp flip: reachable_fragments_def
       split: visitor_call.splits elim: is_scope_call.elims)

interpretation unused_variables: scope_rule no_unused_variables
  by unfold_locales
     (auto simp: no_unused_variables_def emits_def nextst_def unused_variable_errors_fold [unfolded Let_def]
       Let_def clear_def append_errors_def split: visitor_call.splits elim: is_scope_call.elims)

interpretation fragment_cycles: scope_rule no_fragment_cycles
  by unfold_locales
     (auto simp: no_fragment_cycles_def emits_def nextst_def
       Let_def clear_def append_errors_def split: visitor_call.splits elim: is_scope_call.elims)

subsection \<open>What the calls of a document contain\<close>

fun spread_name :: "visitor_call \<Rightarrow> (string \<times> pos) list" where
  "spread_name (EnterFragmentSpread spread) = [(node (fs_fragment_name (node spread)), pos spread)]"
| "spread_name _ = []"

fun argument_vars :: "visitor_call \<Rightarrow> string list" where
  "argument_vars (EnterArgument _ value) = referenced_variables (node value)"
| "argument_vars _ = []"

fun defined_var :: "visitor_call \<Rightarrow> (string \<times> pos) list" where
  "defined_var (EnterVariableDefinition def) = [(node (vd_name (node def)), pos def)]"
| "defined_var _ = []"

text \<open>The list kept for a key, empty when there is none.\<close>

definition entry :: "('k, 'v list) index_map \<Rightarrow> 'k \<Rightarrow> 'v list" where
  "entry m k = (case map_of m k of Some vs \<Rightarrow> vs | None \<Rightarrow> [])"

lemma entry_extend [simp]:
  "entry (entry_extend k vs m) k' = entry m k' @ (if k' = k then vs else [])"
  by (simp add: entry_def entry_extend_def update_conv')

lemma entry_Nil [simp]: "entry [] k = []"
  by (simp add: entry_def)

text \<open>The calls made in a scope.\<close>

definition blocks :: "registry \<Rightarrow> executable_document \<Rightarrow> (scope \<times> visitor_call list) list" where
  "blocks reg doc =
     map (\<lambda>(n, fragment). (ScopeFragment n, fragment_body fragment)) (doc_fragments doc) @
     map (\<lambda>(n, operation). (ScopeOperation n, operation_body reg operation))
       (operations_iter (doc_operations doc))"

definition in_scope :: "registry \<Rightarrow> executable_document \<Rightarrow> scope \<Rightarrow> visitor_call list" where
  "in_scope reg doc sc = concat (map (\<lambda>(k, cs). if k = sc then cs else []) (blocks reg doc))"

definition scope_edges :: "registry \<Rightarrow> executable_document \<Rightarrow> (scope \<times> scope) set" where
  "scope_edges reg doc =
     {(sc, ScopeFragment n) | sc n. n \<in> fst ` set (concat (map spread_name (in_scope reg doc sc)))}"

definition used_in :: "registry \<Rightarrow> executable_document \<Rightarrow> scope \<Rightarrow> string set" where
  "used_in reg doc sc = set (concat (map argument_vars (in_scope reg doc sc)))"

definition defined_in :: "registry \<Rightarrow> executable_document \<Rightarrow> scope \<Rightarrow> string set" where
  "defined_in reg doc sc = fst ` set (concat (map defined_var (in_scope reg doc sc)))"

text \<open>The variables used in an operation or in a fragment that it spreads, directly or not.\<close>

definition reachable_uses :: "registry \<Rightarrow> executable_document \<Rightarrow> string option \<Rightarrow> string set" where
  "reachable_uses reg doc op_name =
     {var. \<exists>sc. (ScopeOperation op_name, sc) \<in> (scope_edges reg doc)\<^sup>* \<and> var \<in> used_in reg doc sc}"

text \<open>The calls that occur inside a scope. Only an operation defines variables.\<close>

definition fits :: "scope \<Rightarrow> visitor_call \<Rightarrow> bool" where
  "fits sc c \<longleftrightarrow> is_body_call c \<and>
     ((\<exists>def. c = EnterVariableDefinition def) \<longrightarrow> (\<exists>n. sc = ScopeOperation n))"

lemma fits_parts:
  "list_all (fits sc) (argument_calls args)"
  "list_all (fits sc) (directive_calls ds)"
  "list_all (fits sc) (selection_calls ss)"
proof -
  show args: "list_all (fits sc) (argument_calls args)" for args
    by (auto simp: argument_calls_def list_all_iff fits_def)
  then show ds: "list_all (fits sc) (directive_calls ds)" for ds
    by (auto simp: directive_calls_def list_all_iff)
  show "list_all (fits sc) (selection_calls ss)"
  proof (induction ss rule: selection_calls.induct)
    case (1 ss)
    show ?case
      unfolding selection_calls.simps [of ss]
      by (auto simp: list_all_concat list.pred_map list_all_iff split: selection.splits
          dest: 1 [unfolded list_all_iff] args [unfolded list_all_iff, rule_format]
            ds [unfolded list_all_iff, rule_format])
        (simp_all add: fits_def)
  qed
qed

lemma fits_bodies:
  "list_all (fits (ScopeFragment n)) (fragment_body fragment)"
  "list_all (fits (ScopeOperation m)) (operation_body reg operation)"
  by (simp_all add: fragment_body_def operation_body_def fits_parts list.pred_map o_def fits_def
      list.pred_True)

lemma UN_keyed:
  "(\<Union>c\<in>set (concat (map (\<lambda>(k', cs). if k' = k then cs else []) (map (\<lambda>(n, x). (K n, B x)) xs))). f c) =
     (\<Union>(n, x)\<in>set xs. if k = K n then (\<Union>c\<in>set (B x). f c) else {})"
proof (induction xs)
  case (Cons a xs)
  then show ?case by (cases a; cases "k = K (fst a)") (simp_all add: UN_Un del: map_map)
qed simp

lemma in_scope_items:
  "(\<Union>c\<in>set (in_scope reg doc k). f c) =
     (\<Union>(n, fr)\<in>set (doc_fragments doc).
        if k = ScopeFragment n then (\<Union>c\<in>set (fragment_body fr). f c) else {}) \<union>
     (\<Union>(m, op)\<in>set (operations_iter (doc_operations doc)).
        if k = ScopeOperation m then (\<Union>c\<in>set (operation_body reg op). f c) else {})"
  unfolding in_scope_def blocks_def map_append concat_append set_append UN_Un UN_keyed by (rule refl)

text \<open>
  A rule that keeps a set for each scope: a call inside a scope adds to the set of that scope, entering
  a scope for the first time adds nothing.
\<close>

locale scope_collector = scope_rule v for v :: "'s visitor" +
  fixes inv :: "'s \<Rightarrow> bool"
    and located :: "'s \<Rightarrow> scope \<Rightarrow> bool"
    and idle :: "'s \<Rightarrow> bool"
    and col :: "'s \<Rightarrow> scope \<Rightarrow> 'x set"
    and item :: "scope \<Rightarrow> visitor_call \<Rightarrow> 'x set"
  assumes inv: "inv s \<Longrightarrow> is_scope_call c \<Longrightarrow> inv (nextst v c env s)"
    and inside: "inv s \<Longrightarrow> located s sc \<Longrightarrow> fits sc c \<Longrightarrow>
      col (nextst v c env s) k = col s k \<union> (if k = sc then item sc c else {})"
      "located s sc \<Longrightarrow> is_body_call c \<Longrightarrow> located (nextst v c env s) sc"
    and fragment: "col (nextst v (EnterFragmentDefinition n fr) env s) = col s"
      "located (nextst v (EnterFragmentDefinition n fr) env s) (ScopeFragment n)"
    and fragment_end: "col (nextst v (ExitFragmentDefinition n fr) env s) = col s"
      "idle (nextst v (ExitFragmentDefinition n fr) env s)"
    and operation: "col s (ScopeOperation m) = {} \<Longrightarrow>
        col (nextst v (EnterOperationDefinition m op) env s) = col s"
      "idle s \<Longrightarrow> located (nextst v (EnterOperationDefinition m op) env s) (ScopeOperation m)"
    and operation_end: "located s (ScopeOperation m) \<Longrightarrow> idle s"
begin

lemma after_body:
  assumes "list_all (fits sc) cs" "inv s" "located s sc"
  shows "inv (after cs s) \<and> located (after cs s) sc \<and>
    col (after cs s) k = col s k \<union> (if k = sc then (\<Union>c\<in>set cs. item k c) else {})"
  using assms
proof (induction cs arbitrary: s)
  case (Cons c cs)
  then have "is_body_call c" "fits sc c" by (simp_all add: fits_def)
  then have "is_scope_call c" by (cases c) simp_all
  then show ?case
    using Cons inside [of s sc c] inv [of s c undefined] \<open>is_body_call c\<close> \<open>fits sc c\<close>
    by auto
qed simp

lemma after_fragments:
  assumes "inv s" "idle s"
  shows "inv (after (concat (map (\<lambda>(n, fr).
        EnterFragmentDefinition n fr # fragment_body fr @ [ExitFragmentDefinition n fr]) frags)) s) \<and>
    idle (after (concat (map (\<lambda>(n, fr).
        EnterFragmentDefinition n fr # fragment_body fr @ [ExitFragmentDefinition n fr]) frags)) s) \<and>
    col (after (concat (map (\<lambda>(n, fr).
        EnterFragmentDefinition n fr # fragment_body fr @ [ExitFragmentDefinition n fr]) frags)) s) k =
      col s k \<union> (\<Union>(n, fr)\<in>set frags. if k = ScopeFragment n then (\<Union>c\<in>set (fragment_body fr). item k c) else {})"
  using assms
proof (induction frags arbitrary: s)
  case (Cons f frags)
  obtain n fr where f: "f = (n, fr)" by fastforce
  define s1 where "s1 = nextst v (EnterFragmentDefinition n fr) undefined s"
  have s1: "inv s1" "located s1 (ScopeFragment n)" "col s1 = col s"
    using Cons.prems by (simp_all add: s1_def inv fragment)
  define s2 where "s2 = after (fragment_body fr) s1"
  have s2: "inv s2" "col s2 k = col s k \<union>
      (if k = ScopeFragment n then (\<Union>c\<in>set (fragment_body fr). item k c) else {})"
    using after_body [OF fits_bodies(1) s1(1,2), of fr k] by (simp_all add: s2_def s1(3))
  show ?case
    using Cons.IH [of "nextst v (ExitFragmentDefinition n fr) undefined s2"] s2
    by (simp add: f inv fragment_end Un_assoc flip: s1_def s2_def)
qed simp

lemma after_operations:
  assumes "inv s" "idle s" "distinct (map fst ops)" "\<And>m. m \<in> fst ` set ops \<Longrightarrow> col s (ScopeOperation m) = {}"
  shows "inv (after (concat (map (\<lambda>(m, op). EnterOperationDefinition m op # operation_body reg op) ops)) s) \<and>
    col (after (concat (map (\<lambda>(m, op). EnterOperationDefinition m op # operation_body reg op) ops)) s) k =
      col s k \<union> (\<Union>(m, op)\<in>set ops. if k = ScopeOperation m then (\<Union>c\<in>set (operation_body reg op). item k c) else {})"
  using assms
proof (induction ops arbitrary: s)
  case (Cons f ops)
  obtain m op where f: "f = (m, op)" by fastforce
  define s1 where "s1 = nextst v (EnterOperationDefinition m op) undefined s"
  have s1: "inv s1" "located s1 (ScopeOperation m)" "col s1 = col s"
    using Cons.prems by (simp_all add: s1_def inv operation f)
  define s2 where "s2 = after (operation_body reg op) s1"
  have s2: "inv s2" "idle s2" "col s2 k = col s k \<union>
      (if k = ScopeOperation m then (\<Union>c\<in>set (operation_body reg op). item k c) else {})" for k
    using after_body [OF fits_bodies(2) s1(1,2), of reg op k] operation_end by (auto simp: s2_def s1(3))
  have "col s2 (ScopeOperation m') = {}" if "m' \<in> fst ` set ops" for m'
    using that Cons.prems(3,4) f by (auto simp: s2(3))
  with Cons.IH [of s2] s2 Cons.prems(3) show ?case
    by (simp add: f Un_assoc flip: s1_def s2_def)
qed simp

lemma after_doc:
  assumes "inv s" "idle s" "distinct (map fst (operations_iter (doc_operations doc)))" "\<And>k. col s k = {}"
  shows "inv (after (doc_calls reg doc) s)"
    and "col (after (doc_calls reg doc) s) k = (\<Union>c\<in>set (in_scope reg doc k). item k c)"
proof -
  define s1 where "s1 = after (concat (map (\<lambda>(n, fr).
        EnterFragmentDefinition n fr # fragment_body fr @ [ExitFragmentDefinition n fr]) (doc_fragments doc))) s"
  have s1: "inv s1" "idle s1" "col s1 k = (\<Union>(n, fr)\<in>set (doc_fragments doc).
      if k = ScopeFragment n then (\<Union>c\<in>set (fragment_body fr). item k c) else {})" for k
    using after_fragments [OF assms(1,2), of "doc_fragments doc"] assms(4) by (simp_all add: s1_def)
  have empty: "col s1 (ScopeOperation m) = {}" for m by (auto simp: s1(3))
  note ops = after_operations [OF s1(1,2) assms(3), of reg, OF empty]
  show "inv (after (doc_calls reg doc) s)" using ops by (simp add: doc_calls_def flip: s1_def)
  show "col (after (doc_calls reg doc) s) k = (\<Union>c\<in>set (in_scope reg doc k). item k c)"
    using ops [of k] by (simp add: in_scope_items doc_calls_def s1(3) flip: s1_def)
qed

end

text \<open>A rule that keeps an entry for each definition it has entered.\<close>

locale scope_keys = scope_rule v for v :: "'s visitor" +
  fixes keys :: "'s \<Rightarrow> 'k set" and key :: "visitor_call \<Rightarrow> 'k set"
  assumes keys: "is_scope_call c \<Longrightarrow> keys (nextst v c env s) = keys s \<union> key c"
    and key_body: "is_body_call c \<Longrightarrow> key c = {}"
begin

lemma after_calls:
  "list_all is_scope_call cs \<Longrightarrow> keys (after cs s) = keys s \<union> (\<Union>c\<in>set cs. key c)"
  by (induction cs arbitrary: s) (auto simp: keys)

lemma key_bodies:
  "c \<in> set (fragment_body fr) \<Longrightarrow> key c = {}" "c \<in> set (operation_body reg op) \<Longrightarrow> key c = {}"
  using fits_bodies by (auto simp: list_all_iff fits_def key_body)

lemma after_keys:
  "keys (after (doc_calls reg doc) s) =
     keys s \<union> (\<Union>(n, fr)\<in>set (doc_fragments doc).
       key (EnterFragmentDefinition n fr) \<union> key (ExitFragmentDefinition n fr)) \<union>
     (\<Union>(m, op)\<in>set (operations_iter (doc_operations doc)). key (EnterOperationDefinition m op))"
proof -
  have "(\<Union>c\<in>set (concat (map (\<lambda>(n, fr).
      EnterFragmentDefinition n fr # fragment_body fr @ [ExitFragmentDefinition n fr]) frags)). key c) =
      (\<Union>(n, fr)\<in>set frags. key (EnterFragmentDefinition n fr) \<union> key (ExitFragmentDefinition n fr))" for frags
    by (induction frags) (auto simp: key_bodies)
  moreover have "(\<Union>c\<in>set (concat (map (\<lambda>(m, op).
      EnterOperationDefinition m op # operation_body reg op) ops)). key c) =
      (\<Union>(m, op)\<in>set ops. key (EnterOperationDefinition m op))" for ops
    by (induction ops) (auto simp: key_bodies)
  moreover have "list_all is_scope_call (doc_calls reg doc)"
    using doc_calls_scope [of reg doc] by (simp add: list_all_iff)
  ultimately show ?thesis
    by (simp add: after_calls doc_calls_def UN_Un Un_assoc del: set_concat)
qed

end


subsection \<open>Unused fragments\<close>

interpretation nf_spreads: scope_collector no_unused_fragments "\<lambda>_. True"
  "\<lambda>s sc. nf_current_scope s = Some sc" "\<lambda>_. True" "\<lambda>s k. set (entry (nf_spreads s) k)"
  "\<lambda>_ c. fst ` set (spread_name c)"
proof unfold_locales
  fix s :: no_unused_fragments_state and sc c env k
  assume "nf_current_scope s = Some sc" "fits sc c"
  then show "set (entry (nf_spreads (nextst no_unused_fragments c env s)) k) =
      set (entry (nf_spreads s) k) \<union> (if k = sc then fst ` set (spread_name c) else {})"
    by (cases c) (simp_all add: nextst_def no_unused_fragments_def fits_def)
next
  fix s :: no_unused_fragments_state and sc c env
  assume "nf_current_scope s = Some sc" "is_body_call c"
  then show "nf_current_scope (nextst no_unused_fragments c env s) = Some sc"
    by (cases c) (simp_all add: nextst_def no_unused_fragments_def)
qed (simp_all add: nextst_def no_unused_fragments_def)

interpretation nf_keys: scope_keys no_unused_fragments "\<lambda>s. set (nf_defined_fragments s)"
  "\<lambda>c. case c of EnterFragmentDefinition n fr \<Rightarrow> {(n, pos fr)} | _ \<Rightarrow> {}"
proof unfold_locales
  fix c env and s :: no_unused_fragments_state
  show "set (nf_defined_fragments (nextst no_unused_fragments c env s)) =
      set (nf_defined_fragments s) \<union> (case c of EnterFragmentDefinition n fr \<Rightarrow> {(n, pos fr)} | _ \<Rightarrow> {})"
    by (cases c) (simp_all add: nextst_def no_unused_fragments_def split: option.splits)
qed (auto split: visitor_call.splits)

lemma map_of_fragment_graph: "map_of (fragment_graph m) n = map_of m (ScopeFragment n)"
  by (induction m) (auto simp: fragment_graph_def split: scope.splits)

lemma edges_fragment_graph: "edges (fragment_graph m) = {(x, y). y \<in> set (entry m (ScopeFragment x))}"
  by (auto simp: edges_def succs_def map_of_fragment_graph entry_def split: option.splits)

lemma set_reachable:
  assumes "closed_except (fragment_graph (nf_spreads s)) {} (set acc)"
  shows "set (fold (\<lambda>(n, _). find_reachable_fragments s (ScopeOperation n)) ops acc) =
    set acc \<union> {y. \<exists>(n, _)\<in>set ops. \<exists>x\<in>set (entry (nf_spreads s) (ScopeOperation n)).
      (x, y) \<in> (edges (fragment_graph (nf_spreads s)))\<^sup>*}"
  using assms
proof (induction ops arbitrary: acc)
  case (Cons op ops)
  obtain n o' where op: "op = (n, o')" by fastforce
  define acc' where "acc' = find_reachable_fragments s (ScopeOperation n) acc"
  have acc': "acc' = visits (fragment_graph (nf_spreads s)) (entry (nf_spreads s) (ScopeOperation n)) acc"
    by (simp add: acc'_def find_reachable_fragments_def fst_dfs entry_def)
  then have "closed_except (fragment_graph (nf_spreads s)) {} (set acc')"
    using visits_closed [OF Cons.prems] by simp
  from Cons.IH [OF this] set_visits [OF Cons.prems, of "entry (nf_spreads s) (ScopeOperation n)"] acc'
  show ?case by (auto simp: op simp flip: acc'_def)
qed simp


definition wf_doc :: "executable_document \<Rightarrow> bool" where
  "wf_doc doc \<longleftrightarrow> distinct (map fst (doc_fragments doc)) \<and>
     distinct (map fst (operations_iter (doc_operations doc)))"

lemma scope_edges_fragment: "(sc, sc') \<in> scope_edges reg doc \<Longrightarrow> \<exists>y. sc' = ScopeFragment y"
  by (auto simp: scope_edges_def)

lemma reach_fragment:
  "(ScopeFragment x, ScopeFragment y) \<in> (scope_edges reg doc)\<^sup>* \<longleftrightarrow>
     (x, y) \<in> {(x, y). (ScopeFragment x, ScopeFragment y) \<in> scope_edges reg doc}\<^sup>*" (is "?L \<longleftrightarrow> ?R")
proof
  have "\<exists>z. sc = ScopeFragment z \<and> (x, z) \<in> {(x, y). (ScopeFragment x, ScopeFragment y) \<in> scope_edges reg doc}\<^sup>*"
    if "(ScopeFragment x, sc) \<in> (scope_edges reg doc)\<^sup>*" for sc
    using that
    by (induction rule: rtrancl_induct)
       (auto dest: scope_edges_fragment intro: rtrancl_into_rtrancl)
  then show "?L \<Longrightarrow> ?R" by blast
next
  show "?R \<Longrightarrow> ?L"
    by (induction rule: rtrancl_induct) (auto intro: rtrancl_into_rtrancl)
qed

lemma reach_from_operation:
  "(ScopeOperation m, ScopeFragment y) \<in> (scope_edges reg doc)\<^sup>* \<longleftrightarrow>
     (\<exists>x. (ScopeOperation m, ScopeFragment x) \<in> scope_edges reg doc \<and>
        (ScopeFragment x, ScopeFragment y) \<in> (scope_edges reg doc)\<^sup>*)" (is "?L \<longleftrightarrow> ?R")
proof
  assume ?L
  then show ?R
  proof (cases rule: converse_rtranclE)
    case (step z)
    then show ?thesis using scope_edges_fragment by blast
  qed simp
qed (blast intro: converse_rtrancl_into_rtrancl)

text \<open>Every fragment is spread by an operation or by a fragment that is.\<close>

definition all_fragments_used :: "registry \<Rightarrow> executable_document \<Rightarrow> bool" where
  "all_fragments_used reg doc \<longleftrightarrow>
     (\<forall>(y, _)\<in>set (doc_fragments doc). \<exists>(m, _)\<in>set (operations_iter (doc_operations doc)).
        (ScopeOperation m, ScopeFragment y) \<in> (scope_edges reg doc)\<^sup>*)"

lemma no_unused_fragments_doc:
  assumes "wf_doc doc" "trace n ModeNormal env doc = Inr evs"
  shows "fst (outcome no_unused_fragments evs nf_init) = [] \<longleftrightarrow> all_fragments_used (vc_registry env) doc"
proof -
  define reg where "reg = vc_registry env"
  define s where "s = unused_fragments.after (doc_calls reg doc) nf_init"
  have ops: "distinct (map fst (operations_iter (doc_operations doc)))" using assms(1) by (simp add: wf_doc_def)
  have spreads: "set (entry (nf_spreads s) k) = fst ` set (concat (map spread_name (in_scope reg doc k)))" for k
    using nf_spreads.after_doc(2) [OF _ _ ops, of nf_init reg k] by (simp add: s_def nf_init_def image_UN)
  have defined: "set (nf_defined_fragments s) = (\<lambda>(n, fr). (n, pos fr)) ` set (doc_fragments doc)"
    using nf_keys.after_keys [of reg doc nf_init] by (auto simp: s_def nf_init_def)
  have edges: "edges (fragment_graph (nf_spreads s)) =
      {(x, y). (ScopeFragment x, ScopeFragment y) \<in> scope_edges reg doc}"
    by (auto simp: edges_fragment_graph spreads scope_edges_def)
  have "y \<in> set (reachable_fragments s doc) \<longleftrightarrow>
      (\<exists>(m, _)\<in>set (operations_iter (doc_operations doc)).
        (ScopeOperation m, ScopeFragment y) \<in> (scope_edges reg doc)\<^sup>*)" for y
    unfolding reachable_fragments_def reach_from_operation reach_fragment edges [symmetric]
    by (subst set_reachable) (auto simp: spreads scope_edges_def)
  moreover have "fst (outcome no_unused_fragments evs nf_init) = unused_fragment_errors s doc"
    using unused_fragments.outcome_doc [OF assms(2), of nf_init]
    by (simp add: s_def reg_def emits_def no_unused_fragments_def Let_def unused_fragment_errors_fold
        unused_fragment_errors_def clear_def append_errors_def flip: reachable_fragments_def)
  ultimately show ?thesis
    by (simp add: unused_fragment_errors_def filter_empty_conv defined all_fragments_used_def
        case_prod_beta flip: reg_def)
qed


subsection \<open>Fragment cycles\<close>

definition fc_inv :: "no_fragment_cycles_state \<Rightarrow> bool" where
  "fc_inv s \<longleftrightarrow> fst ` set (fc_spreads s) \<subseteq> set (fc_fragment_order s) \<and>
     (\<forall>n. fc_current_fragment s = Some n \<longrightarrow> n \<in> set (fc_fragment_order s))"

lemma keys_entry_extend: "fst ` set (entry_extend k vs m) = insert k (fst ` set m)"
  by (simp add: entry_extend_def dom_update)

interpretation fc_spreads: scope_collector no_fragment_cycles fc_inv
  "\<lambda>s sc. fc_current_fragment s = (case sc of ScopeFragment n \<Rightarrow> Some n | ScopeOperation _ \<Rightarrow> None)"
  "\<lambda>s. fc_current_fragment s = None"
  "\<lambda>s k. case k of ScopeFragment n \<Rightarrow> fst ` set (entry (fc_spreads s) n) | ScopeOperation _ \<Rightarrow> {}"
  "\<lambda>sc c. case sc of ScopeFragment _ \<Rightarrow> fst ` set (spread_name c) | ScopeOperation _ \<Rightarrow> {}"
proof unfold_locales
  fix s c env assume "fc_inv s"
  then show "fc_inv (nextst no_fragment_cycles c env s)"
    by (cases c) (auto simp: nextst_def no_fragment_cycles_def fc_inv_def keys_entry_extend split: option.splits)
next
  fix s :: no_fragment_cycles_state and sc c env k
  assume "fc_current_fragment s = (case sc of ScopeFragment n \<Rightarrow> Some n | ScopeOperation _ \<Rightarrow> None)" "fits sc c"
  then show "(case k of ScopeFragment n \<Rightarrow> fst ` set (entry (fc_spreads (nextst no_fragment_cycles c env s)) n)
        | ScopeOperation _ \<Rightarrow> {}) =
      (case k of ScopeFragment n \<Rightarrow> fst ` set (entry (fc_spreads s) n) | ScopeOperation _ \<Rightarrow> {}) \<union>
      (if k = sc then case sc of ScopeFragment _ \<Rightarrow> fst ` set (spread_name c) | ScopeOperation _ \<Rightarrow> {} else {})"
    by (cases c; cases sc; cases k) (simp_all add: nextst_def no_fragment_cycles_def fits_def)
next
  fix s :: no_fragment_cycles_state and sc c env
  assume "fc_current_fragment s = (case sc of ScopeFragment n \<Rightarrow> Some n | ScopeOperation _ \<Rightarrow> None)" "is_body_call c"
  then show "fc_current_fragment (nextst no_fragment_cycles c env s) =
      (case sc of ScopeFragment n \<Rightarrow> Some n | ScopeOperation _ \<Rightarrow> None)"
    by (cases c) (simp_all add: nextst_def no_fragment_cycles_def split: option.splits)
qed (simp_all add: nextst_def no_fragment_cycles_def fun_eq_iff split: scope.splits)

definition no_spread_cycle :: "registry \<Rightarrow> executable_document \<Rightarrow> bool" where
  "no_spread_cycle reg doc \<longleftrightarrow>
     acyclic {(x, y). (ScopeFragment x, ScopeFragment y) \<in> scope_edges reg doc}"

lemma no_fragment_cycles_doc:
  assumes "wf_doc doc" "trace n ModeNormal env doc = Inr evs"
  shows "fst (outcome no_fragment_cycles evs fc_init) = [] \<longleftrightarrow> no_spread_cycle (vc_registry env) doc"
proof -
  define reg where "reg = vc_registry env"
  define s where "s = fragment_cycles.after (doc_calls reg doc) fc_init"
  have ops: "distinct (map fst (operations_iter (doc_operations doc)))" using assms(1) by (simp add: wf_doc_def)
  have "fc_inv s" using fc_spreads.after_doc(1) [OF _ _ ops, of fc_init reg]
    by (simp add: s_def fc_inv_def fc_init_def split: scope.splits)
  have spreads: "fst ` set (entry (fc_spreads s) x) =
      fst ` set (concat (map spread_name (in_scope reg doc (ScopeFragment x))))" for x
    using fc_spreads.after_doc(2) [OF _ _ ops, of fc_init reg "ScopeFragment x"]
    by (simp add: s_def fc_init_def fc_inv_def image_UN split: scope.splits)
  have "spread_edges (fc_spreads s) = {(x, y). y \<in> fst ` set (entry (fc_spreads s) x)}"
    by (force simp: spread_edges_def entry_def split: option.splits)
  then have edges: "spread_edges (fc_spreads s) =
      {(x, y). (ScopeFragment x, ScopeFragment y) \<in> scope_edges reg doc}"
    unfolding spreads by (auto simp: scope_edges_def)
  have "fst (outcome no_fragment_cycles evs fc_init) =
      snd (snd (detect_cycles (fc_spreads s) (fc_fragment_order s) ({}, Map.empty, [])))"
    using fragment_cycles.outcome_doc [OF assms(2), of fc_init]
    by (simp add: s_def reg_def emits_def no_fragment_cycles_def clear_def append_errors_def)
  then show ?thesis
    using detect_cycles_acyclic [of "fc_spreads s" "fc_fragment_order s"] \<open>fc_inv s\<close>
    by (simp add: no_spread_cycle_def edges fc_inv_def flip: reg_def)
qed


subsection \<open>Unused variables\<close>

lemma edges_scope_graph: "edges (scope_graph m) = {(a, ScopeFragment y) | a y. y \<in> set (entry m a)}"
proof -
  have "map_of (scope_graph m) a = map_option (map ScopeFragment) (map_of m a)" for a
    unfolding scope_graph_def by (induction m) auto
  then show ?thesis by (auto simp: edges_def succs_def entry_def split: option.splits)
qed

interpretation nv_spreads: scope_collector no_unused_variables "\<lambda>_. True"
  "\<lambda>s sc. nv_current_scope s = Some sc" "\<lambda>_. True" "\<lambda>s k. set (entry (nv_spreads s) k)"
  "\<lambda>_ c. fst ` set (spread_name c)"
proof unfold_locales
  fix s :: no_unused_variables_state and sc c env k
  assume "nv_current_scope s = Some sc" "fits sc c"
  then show "set (entry (nv_spreads (nextst no_unused_variables c env s)) k) =
      set (entry (nv_spreads s) k) \<union> (if k = sc then fst ` set (spread_name c) else {})"
    by (cases c) (simp_all add: nextst_def no_unused_variables_def fits_def split: option.splits scope.splits)
next
  fix s :: no_unused_variables_state and sc c env
  assume "nv_current_scope s = Some sc" "is_body_call c"
  then show "nv_current_scope (nextst no_unused_variables c env s) = Some sc"
    by (cases c) (simp_all add: nextst_def no_unused_variables_def split: option.splits scope.splits)
qed (simp_all add: nextst_def no_unused_variables_def)

interpretation nv_used: scope_collector no_unused_variables "\<lambda>_. True"
  "\<lambda>s sc. nv_current_scope s = Some sc" "\<lambda>_. True" "\<lambda>s k. set (entry (nv_used_variables s) k)"
  "\<lambda>_ c. set (argument_vars c)"
proof unfold_locales
  fix s :: no_unused_variables_state and sc c env k
  assume "nv_current_scope s = Some sc" "fits sc c"
  then show "set (entry (nv_used_variables (nextst no_unused_variables c env s)) k) =
      set (entry (nv_used_variables s) k) \<union> (if k = sc then set (argument_vars c) else {})"
    by (cases c) (simp_all add: nextst_def no_unused_variables_def fits_def split: option.splits scope.splits)
qed (simp_all add: nextst_def no_unused_variables_def nv_spreads.inside(2) [unfolded nextst_def no_unused_variables_def, simplified])

definition nv_inv :: "no_unused_variables_state \<Rightarrow> bool" where
  "nv_inv s \<longleftrightarrow> distinct (map fst (nv_defined_variables s)) \<and>
     (\<forall>m. nv_current_scope s = Some (ScopeOperation m) \<longrightarrow> m \<in> fst ` set (nv_defined_variables s))"

lemma entry_insert: "entry (im_insert k vs m) k' = (if k' = k then vs else entry m k')"
  by (simp add: entry_def update_conv')

lemma in_keys_map_of: "k \<in> fst ` set m \<Longrightarrow> \<exists>v. map_of m k = Some v"
  by (metis map_of_eq_None_iff not_None_eq)

lemma Ball_keys:
  "distinct (map fst l) \<Longrightarrow>
   (\<forall>(k, v)\<in>set l. P k v) \<longleftrightarrow> (\<forall>k\<in>fst ` set l. P k (the (map_of l k)))"
  by (auto simp: Ball_def)

interpretation nv_defined: scope_collector no_unused_variables nv_inv
  "\<lambda>s sc. nv_current_scope s = Some sc" "\<lambda>_. True"
  "\<lambda>s k. case k of ScopeOperation m \<Rightarrow> set (entry (nv_defined_variables s) m) | ScopeFragment _ \<Rightarrow> {}"
  "\<lambda>sc c. case sc of ScopeOperation _ \<Rightarrow> set (defined_var c) | ScopeFragment _ \<Rightarrow> {}"
proof unfold_locales
  fix s c env assume "nv_inv s"
  then show "nv_inv (nextst no_unused_variables c env s)"
    by (cases c) (auto simp: nextst_def no_unused_variables_def nv_inv_def dom_update distinct_update
        split: option.splits scope.splits)
next
  fix s :: no_unused_variables_state and sc c env k
  assume "nv_inv s" "nv_current_scope s = Some sc" "fits sc c"
  then show "(case k of ScopeOperation m \<Rightarrow> set (entry (nv_defined_variables (nextst no_unused_variables c env s)) m)
        | ScopeFragment _ \<Rightarrow> {}) =
      (case k of ScopeOperation m \<Rightarrow> set (entry (nv_defined_variables s) m) | ScopeFragment _ \<Rightarrow> {}) \<union>
      (if k = sc then case sc of ScopeOperation _ \<Rightarrow> set (defined_var c) | ScopeFragment _ \<Rightarrow> {} else {})"
    by (cases c; cases sc; cases k)
       (auto simp: nextst_def no_unused_variables_def fits_def nv_inv_def entry_def update_conv'
         dest!: in_keys_map_of dest: eq_key_imp_eq_value split: option.splits if_splits)
qed (auto simp: nextst_def no_unused_variables_def fun_eq_iff entry_def update_conv' split: scope.splits
      intro: nv_spreads.inside(2) [unfolded nextst_def no_unused_variables_def, simplified])

interpretation nv_keys: scope_keys no_unused_variables "\<lambda>s. fst ` set (nv_defined_variables s)"
  "\<lambda>c. case c of EnterOperationDefinition m _ \<Rightarrow> {m} | _ \<Rightarrow> {}"
proof unfold_locales
  fix c env and s :: no_unused_variables_state
  show "fst ` set (nv_defined_variables (nextst no_unused_variables c env s)) =
      fst ` set (nv_defined_variables s) \<union> (case c of EnterOperationDefinition m _ \<Rightarrow> {m} | _ \<Rightarrow> {})"
    by (cases c) (force simp: nextst_def no_unused_variables_def dom_update
        dest: map_of_SomeD split: option.splits scope.splits)+
qed (auto split: visitor_call.splits)


lemma fold_insert_if:
  "fold (\<lambda>x U. if x \<in> D then insert x U else U) xs U = U \<union> (D \<inter> set xs)"
  by (induction xs arbitrary: U) auto

lemma used_vars_eq:
  "used_vars s m defs = fst ` set defs \<inter>
     {var. \<exists>sc. (ScopeOperation m, sc) \<in> (edges (scope_graph (nv_spreads s)))\<^sup>* \<and>
        var \<in> set (entry (nv_used_variables s) sc)}"
proof -
  have "fold (\<lambda>sc used. case map_of (nv_used_variables s) sc of
          Some vars \<Rightarrow> fold (\<lambda>x U. if x \<in> D then insert x U else U) vars used | None \<Rightarrow> used) scs U =
      U \<union> (D \<inter> (\<Union>sc\<in>set scs. set (entry (nv_used_variables s) sc)))" for D scs U
  proof (induction scs arbitrary: U)
    case (Cons sc scs)
    then show ?case by (auto simp: fold_insert_if entry_def split: option.splits)
  qed simp
  then show ?thesis
    unfolding used_vars_def find_used_vars_def snd_dfs im_get_def list.size drop0
    by (auto simp: set_visits_from)
qed

definition all_variables_used :: "registry \<Rightarrow> executable_document \<Rightarrow> bool" where
  "all_variables_used reg doc \<longleftrightarrow>
     (\<forall>(m, _)\<in>set (operations_iter (doc_operations doc)).
        defined_in reg doc (ScopeOperation m) \<subseteq> reachable_uses reg doc m)"

lemma nv_exit: "emits no_unused_variables (ExitDocument doc) env s = unused_variable_errors s"
  by (simp add: emits_def no_unused_variables_def unused_variable_errors_fold [unfolded Let_def] Let_def clear_def
      append_errors_def)

lemma no_unused_variables_doc:
  assumes "wf_doc doc" "trace n ModeNormal env doc = Inr evs"
  shows "fst (outcome no_unused_variables evs nv_init) = [] \<longleftrightarrow> all_variables_used (vc_registry env) doc"
proof -
  define reg where "reg = vc_registry env"
  define s where "s = unused_variables.after (doc_calls reg doc) nv_init"
  have ops: "distinct (map fst (operations_iter (doc_operations doc)))" using assms(1) by (simp add: wf_doc_def)
  have spreads: "set (entry (nv_spreads s) k) = fst ` set (concat (map spread_name (in_scope reg doc k)))" for k
    using nv_spreads.after_doc(2) [OF _ _ ops, of nv_init reg k] by (simp add: s_def nv_init_def image_UN)
  then have edges: "edges (scope_graph (nv_spreads s)) = scope_edges reg doc"
    by (simp add: edges_scope_graph scope_edges_def)
  have used: "set (entry (nv_used_variables s) k) = used_in reg doc k" for k
    using nv_used.after_doc(2) [OF _ _ ops, of nv_init reg k] by (simp add: s_def nv_init_def used_in_def)
  have "nv_inv s" using nv_defined.after_doc(1) [OF _ _ ops, of nv_init reg]
    by (simp add: s_def nv_inv_def nv_init_def split: scope.splits)
  then have dist: "distinct (map fst (nv_defined_variables s))" by (simp add: nv_inv_def)
  have defined: "fst ` set (entry (nv_defined_variables s) m) = defined_in reg doc (ScopeOperation m)" for m
    using nv_defined.after_doc(2) [OF _ _ ops, of nv_init reg "ScopeOperation m"]
    by (simp add: s_def nv_init_def nv_inv_def defined_in_def image_UN split: scope.splits)
  have keys: "fst ` set (nv_defined_variables s) = fst ` set (operations_iter (doc_operations doc))"
    using nv_keys.after_keys [of reg doc nv_init] by (force simp: s_def nv_init_def)
  have "fst (outcome no_unused_variables evs nv_init) = unused_variable_errors s"
    using unused_variables.outcome_doc [OF assms(2), of nv_init] by (simp add: s_def reg_def nv_exit)
  also have "\<dots> = [] \<longleftrightarrow> (\<forall>(m, defs)\<in>set (nv_defined_variables s). fst ` set defs \<subseteq> used_vars s m defs)"
    by (simp add: unused_variable_errors_def filter_empty_conv case_prod_beta image_subset_iff)
  also have "\<dots> \<longleftrightarrow> (\<forall>(m, defs)\<in>set (nv_defined_variables s). fst ` set defs \<subseteq> reachable_uses reg doc m)"
    by (simp add: used_vars_eq edges used reachable_uses_def case_prod_beta)
  also have "\<dots> \<longleftrightarrow> (\<forall>m\<in>fst ` set (nv_defined_variables s).
      fst ` set (entry (nv_defined_variables s) m) \<subseteq> reachable_uses reg doc m)"
    unfolding Ball_keys [OF dist, of "\<lambda>m defs. fst ` set defs \<subseteq> reachable_uses reg doc m"]
    by (rule ball_cong [OF refl], drule in_keys_map_of, elim exE) (simp only: entry_def option.sel option.case)
  also have "\<dots> \<longleftrightarrow> all_variables_used reg doc"
    unfolding keys defined all_variables_used_def by (simp add: case_prod_beta)
  finally show ?thesis by (simp add: reg_def)
qed


subsection \<open>Undefined variables\<close>

interpretation nd_spreads: scope_collector no_undefined_variables "\<lambda>_. True"
  "\<lambda>s sc. nd_current_scope s = Some sc" "\<lambda>_. True" "\<lambda>s k. set (entry (nd_spreads s) k)"
  "\<lambda>_ c. fst ` set (spread_name c)"
proof unfold_locales
  fix s :: no_undefined_variables_state and sc c env k
  assume "nd_current_scope s = Some sc" "fits sc c"
  then show "set (entry (nd_spreads (nextst no_undefined_variables c env s)) k) =
      set (entry (nd_spreads s) k) \<union> (if k = sc then fst ` set (spread_name c) else {})"
    by (cases c) (simp_all add: nextst_def no_undefined_variables_def fits_def split: option.splits scope.splits)
next
  fix s :: no_undefined_variables_state and sc c env
  assume "nd_current_scope s = Some sc" "is_body_call c"
  then show "nd_current_scope (nextst no_undefined_variables c env s) = Some sc"
    by (cases c) (simp_all add: nextst_def no_undefined_variables_def split: option.splits scope.splits)
qed (simp_all add: nextst_def no_undefined_variables_def)

lemma keys_fold_insert: "fst ` set (fold (\<lambda>var. im_insert var p) vars m) = fst ` set m \<union> set vars"
  by (induction vars arbitrary: m) (auto simp: dom_update)

interpretation nd_used: scope_collector no_undefined_variables "\<lambda>_. True"
  "\<lambda>s sc. nd_current_scope s = Some sc" "\<lambda>_. True" "\<lambda>s k. fst ` set (entry (nd_used_variables s) k)"
  "\<lambda>_ c. set (argument_vars c)"
proof unfold_locales
  fix s :: no_undefined_variables_state and sc c env k
  assume "nd_current_scope s = Some sc" "fits sc c"
  then show "fst ` set (entry (nd_used_variables (nextst no_undefined_variables c env s)) k) =
      fst ` set (entry (nd_used_variables s) k) \<union> (if k = sc then set (argument_vars c) else {})"
    by (cases c)
       (simp_all add: nextst_def no_undefined_variables_def fits_def entry_insert [unfolded im_insert_def]
         keys_fold_insert flip: entry_def split: option.splits scope.splits)
qed (simp_all add: nextst_def no_undefined_variables_def nd_spreads.inside(2) [unfolded nextst_def no_undefined_variables_def, simplified])

definition nd_inv :: "no_undefined_variables_state \<Rightarrow> bool" where
  "nd_inv s \<longleftrightarrow> distinct (map fst (nd_defined_variables s)) \<and>
     (\<forall>m. nd_current_scope s = Some (ScopeOperation m) \<longrightarrow> m \<in> fst ` set (nd_defined_variables s))"

interpretation nd_defined: scope_collector no_undefined_variables nd_inv
  "\<lambda>s sc. nd_current_scope s = Some sc" "\<lambda>_. True"
  "\<lambda>s k. case k of
      ScopeOperation m \<Rightarrow> (case map_of (nd_defined_variables s) m of Some (_, vars) \<Rightarrow> vars | None \<Rightarrow> {})
    | ScopeFragment _ \<Rightarrow> {}"
  "\<lambda>sc c. case sc of ScopeOperation _ \<Rightarrow> fst ` set (defined_var c) | ScopeFragment _ \<Rightarrow> {}"
proof unfold_locales
  fix s c env assume "nd_inv s"
  then show "nd_inv (nextst no_undefined_variables c env s)"
    by (cases c) (auto simp: nextst_def no_undefined_variables_def nd_inv_def dom_update distinct_update
        split: option.splits scope.splits)
next
  fix s :: no_undefined_variables_state and sc c env k
  assume "nd_inv s" "nd_current_scope s = Some sc" "fits sc c"
  note prems = this
  show "(case k of
        ScopeOperation m \<Rightarrow> (case map_of (nd_defined_variables (nextst no_undefined_variables c env s)) m of
            Some (_, vars) \<Rightarrow> vars | None \<Rightarrow> {})
      | ScopeFragment _ \<Rightarrow> {}) =
      (case k of
        ScopeOperation m \<Rightarrow> (case map_of (nd_defined_variables s) m of Some (_, vars) \<Rightarrow> vars | None \<Rightarrow> {})
      | ScopeFragment _ \<Rightarrow> {}) \<union>
      (if k = sc then case sc of ScopeOperation _ \<Rightarrow> fst ` set (defined_var c) | ScopeFragment _ \<Rightarrow> {} else {})"
  proof (cases "\<exists>def. c = EnterVariableDefinition def")
    case True
    then obtain def m p vars where "c = EnterVariableDefinition def" "sc = ScopeOperation m"
      "map_of (nd_defined_variables s) m = Some (p, vars)"
      using prems by (auto simp: fits_def nd_inv_def dest!: in_keys_map_of)
    then show ?thesis
      using prems by (cases k) (simp_all add: nextst_def no_undefined_variables_def update_conv')
  next
    case False
    then have "nd_defined_variables (nextst no_undefined_variables c env s) = nd_defined_variables s"
      using prems by (cases c) (simp_all add: nextst_def no_undefined_variables_def fits_def)
    moreover have "defined_var c = []" using False by (cases c) simp_all
    ultimately show ?thesis by (simp split: scope.splits)
  qed
qed (auto simp: nextst_def no_undefined_variables_def fun_eq_iff update_conv' split: scope.splits option.splits
      intro: nd_spreads.inside(2) [unfolded nextst_def no_undefined_variables_def, simplified])

interpretation nd_keys: scope_keys no_undefined_variables "\<lambda>s. fst ` set (nd_defined_variables s)"
  "\<lambda>c. case c of EnterOperationDefinition m _ \<Rightarrow> {m} | _ \<Rightarrow> {}"
proof unfold_locales
  fix c env and s :: no_undefined_variables_state
  show "fst ` set (nd_defined_variables (nextst no_undefined_variables c env s)) =
      fst ` set (nd_defined_variables s) \<union> (case c of EnterOperationDefinition m _ \<Rightarrow> {m} | _ \<Rightarrow> {})"
    by (cases c) (force simp: nextst_def no_undefined_variables_def dom_update
        dest: map_of_SomeD split: option.splits scope.splits)+
qed (auto split: visitor_call.splits)

lemma undef_vars_Nil:
  "undef_vars s m D = [] \<longleftrightarrow>
     {var. \<exists>sc. (ScopeOperation m, sc) \<in> (edges (scope_graph (nd_spreads s)))\<^sup>* \<and>
        var \<in> fst ` set (entry (nd_used_variables s) sc)} \<subseteq> D"
proof -
  have "fold (\<lambda>sc undef. case map_of (nd_used_variables s) sc of
          Some vars \<Rightarrow> undef @ filter (\<lambda>(var, p). var \<notin> D) vars | None \<Rightarrow> undef) scs us =
      us @ concat (map (\<lambda>sc. filter (\<lambda>(var, p). var \<notin> D) (entry (nd_used_variables s) sc)) scs)" for scs us
    by (induction scs arbitrary: us) (auto simp: entry_def split: option.splits)
  then show ?thesis
    unfolding undef_vars_def find_undef_vars_def snd_dfs im_get_def list.size drop0
    by (force simp: set_visits_from filter_empty_conv)
qed

text \<open>Every variable an operation uses, itself or through the fragments it reaches, is one it defines.\<close>

definition all_variables_defined :: "registry \<Rightarrow> executable_document \<Rightarrow> bool" where
  "all_variables_defined reg doc \<longleftrightarrow>
     (\<forall>(m, _)\<in>set (operations_iter (doc_operations doc)).
        reachable_uses reg doc m \<subseteq> defined_in reg doc (ScopeOperation m))"

lemma nd_exit: "emits no_undefined_variables (ExitDocument doc) env s = undefined_errors s"
  by (simp add: emits_def no_undefined_variables_def undefined_errors_fold [unfolded Let_def] Let_def clear_def
      append_errors_def)

lemma no_undefined_variables_doc:
  assumes "wf_doc doc" "trace n ModeNormal env doc = Inr evs"
  shows "fst (outcome no_undefined_variables evs nd_init) = [] \<longleftrightarrow> all_variables_defined (vc_registry env) doc"
proof -
  define reg where "reg = vc_registry env"
  define s where "s = undefined_variables.after (doc_calls reg doc) nd_init"
  have ops: "distinct (map fst (operations_iter (doc_operations doc)))" using assms(1) by (simp add: wf_doc_def)
  have spreads: "set (entry (nd_spreads s) k) = fst ` set (concat (map spread_name (in_scope reg doc k)))" for k
    using nd_spreads.after_doc(2) [OF _ _ ops, of nd_init reg k] by (simp add: s_def nd_init_def image_UN)
  then have edges: "edges (scope_graph (nd_spreads s)) = scope_edges reg doc"
    by (simp add: edges_scope_graph scope_edges_def)
  have used: "fst ` set (entry (nd_used_variables s) k) = used_in reg doc k" for k
    using nd_used.after_doc(2) [OF _ _ ops, of nd_init reg k] by (simp add: s_def nd_init_def used_in_def)
  have "nd_inv s" using nd_defined.after_doc(1) [OF _ _ ops, of nd_init reg]
    by (simp add: s_def nd_inv_def nd_init_def split: scope.splits)
  then have dist: "distinct (map fst (nd_defined_variables s))" by (simp add: nd_inv_def)
  have defined: "(case map_of (nd_defined_variables s) m of Some (_, vars) \<Rightarrow> vars | None \<Rightarrow> {}) =
      defined_in reg doc (ScopeOperation m)" for m
    using nd_defined.after_doc(2) [OF _ _ ops, of nd_init reg "ScopeOperation m"]
    by (simp add: s_def nd_init_def nd_inv_def defined_in_def image_UN split: scope.splits)
  have keys: "fst ` set (nd_defined_variables s) = fst ` set (operations_iter (doc_operations doc))"
    using nd_keys.after_keys [of reg doc nd_init] by (force simp: s_def nd_init_def)
  have "fst (outcome no_undefined_variables evs nd_init) = undefined_errors s"
    using undefined_variables.outcome_doc [OF assms(2), of nd_init] by (simp add: s_def reg_def nd_exit)
  also have "\<dots> = [] \<longleftrightarrow> (\<forall>(m, p, D)\<in>set (nd_defined_variables s). undef_vars s m D = [])"
    by (simp add: undefined_errors_def case_prod_beta)
  also have "\<dots> \<longleftrightarrow> (\<forall>(m, x)\<in>set (nd_defined_variables s). reachable_uses reg doc m \<subseteq> snd x)"
    by (simp add: undef_vars_Nil edges used reachable_uses_def case_prod_beta)
  also have "\<dots> \<longleftrightarrow> (\<forall>m\<in>fst ` set (nd_defined_variables s). reachable_uses reg doc m \<subseteq>
      (case map_of (nd_defined_variables s) m of Some (_, vars) \<Rightarrow> vars | None \<Rightarrow> {}))"
    unfolding Ball_keys [OF dist, of "\<lambda>m x. reachable_uses reg doc m \<subseteq> snd x"]
    by (rule ball_cong) (auto dest!: in_keys_map_of)
  also have "\<dots> \<longleftrightarrow> all_variables_defined reg doc"
    unfolding keys defined all_variables_defined_def by (simp add: case_prod_beta)
  finally show ?thesis by (simp add: reg_def)
qed

end
