(* ===== verification/Parser_Values.thy ===== *)
theory Parser_Values
  imports String_Literals
begin

text \<open>
  \<open>parser/src/parse/mod.rs\<close>: names, types, values, directives and arguments from pairs.

  \<open>serde_json\<close> reads the text of a number; that is the parameter \<open>read_number\<close>, which returns a message
  or a number. The entry of an object or of an argument list, the same few lines at four places of the
  source, is \<open>parse_entry\<close>. Lemmas: each function parses the pairs of its rule (\<open>parses\<close>), so it never panics
  on a tree the grammar admits.
\<close>

type_synonym number_reader = "string \<Rightarrow> string + number"

definition parse_operation_type :: "pair \<Rightarrow> operation_type positioned parser" where
  "parse_operation_type pair =
     pbind (expect_rule pair R_operation_type) (\<lambda>_.
     pbind (pc_step pair) (\<lambda>pos.
       if p_str pair = ''query'' then preturn (Positioned pos Query)
       else if p_str pair = ''mutation'' then preturn (Positioned pos Mutation)
       else if p_str pair = ''subscription'' then preturn (Positioned pos Subscription)
       else pfail Panicked))"

definition parse_name :: "pair \<Rightarrow> name positioned parser" where
  "parse_name pair =
     pbind (expect_rule pair R_name) (\<lambda>_.
     pbind (pc_step pair) (\<lambda>pos. preturn (Positioned pos (p_str pair))))"

definition parse_type :: "pair \<Rightarrow> gtype positioned parser" where
  "parse_type pair =
     pbind (expect_rule pair R_type) (\<lambda>_.
       case type_new (p_str pair) of
         None \<Rightarrow> pfail Panicked
       | Some ty \<Rightarrow> pbind (pc_step pair) (\<lambda>pos. preturn (Positioned pos ty)))"

definition parse_variable :: "pair \<Rightarrow> name positioned parser" where
  "parse_variable pair =
     pbind (expect_rule pair R_variable) (\<lambda>_. exactly_one (p_inner pair) parse_name)"

definition parse_number :: "number_reader \<Rightarrow> pair \<Rightarrow> number positioned parser" where
  "parse_number read_number pair =
     pbind (expect_rule pair R_number) (\<lambda>_.
     pbind (pc_step pair) (\<lambda>pos.
       case read_number (p_str pair) of
         Inl err \<Rightarrow> pfail (Failed (Syntax (''invalid number: '' @ err) pos None))
       | Inr num \<Rightarrow> preturn (Positioned pos num)))"

definition lift_result :: "parse_failure + 'a \<Rightarrow> 'a parser" where
  "lift_result r = (case r of Inl e \<Rightarrow> pfail e | Inr x \<Rightarrow> preturn x)"

definition parse_string :: "pair \<Rightarrow> string positioned parser" where
  "parse_string pair =
     pbind (expect_rule pair R_string) (\<lambda>_.
     pbind (pc_step pair) (\<lambda>pos.
       exactly_one (p_inner pair) (\<lambda>p.
         pbind (lift_result
             (if p_rule p = R_block_string_content then block_string_value (p_str p)
              else if p_rule p = R_string_content then string_value (p_str p)
              else Inl Panicked))
           (\<lambda>s. preturn (Positioned pos s)))))"

definition parse_boolean :: "pair \<Rightarrow> bool positioned parser" where
  "parse_boolean pair =
     pbind (expect_rule pair R_boolean) (\<lambda>_.
     pbind (pc_step pair) (\<lambda>pos.
       if p_str pair = ''true'' then preturn (Positioned pos True)
       else if p_str pair = ''false'' then preturn (Positioned pos False)
       else pfail Panicked))"

definition parse_enum_value :: "pair \<Rightarrow> name positioned parser" where
  "parse_enum_value pair =
     pbind (expect_rule pair R_enum_value) (\<lambda>_. exactly_one (p_inner pair) parse_name)"

definition parse_entry :: "rule \<Rightarrow> (pair \<Rightarrow> 'v parser) \<Rightarrow> pair \<Rightarrow> (name positioned \<times> 'v) parser" where
  "parse_entry rule parse_val pair =
     pbind (expect_rule pair rule) (\<lambda>_.
     pbind (parse_next (p_inner pair) parse_name) (\<lambda>(n, pairs).
     pbind (parse_next pairs parse_val) (\<lambda>(value, pairs).
     pbind (expect_end pairs) (\<lambda>_.
       preturn (n, value)))))"

lemma parse_entry_cong [fundef_cong]:
  assumes "pair = pair'" "\<And>p. p \<in> set (p_inner pair') \<Longrightarrow> f p = g p"
  shows "parse_entry r f pair = parse_entry r g pair'"
  unfolding parse_entry_def assms(1)
  by (intro pbind_cong refl) (auto dest!: pairs_left intro!: pbind_cong parse_next_cong assms(2))

definition collect_map :: "('k \<times> 'v) list \<Rightarrow> ('k, 'v) index_map" where
  "collect_map kvs = fold (\<lambda>(k, v). im_insert k v) kvs []"

text \<open>The \<open>match\<close> on the pair below a value; \<open>parse_rec\<close> is the recursive call.\<close>

definition const_value_of ::
  "number_reader \<Rightarrow> (pair \<Rightarrow> const_value positioned parser) \<Rightarrow> pair \<Rightarrow> const_value parser" where
  "const_value_of read_number parse_rec p =
     (if p_rule p = R_number then pbind (parse_number read_number p) (\<lambda>x. preturn (CNumber (node x)))
      else if p_rule p = R_string then pbind (parse_string p) (\<lambda>x. preturn (CString (node x)))
      else if p_rule p = R_boolean then pbind (parse_boolean p) (\<lambda>x. preturn (CBoolean (node x)))
      else if p_rule p = R_null then preturn CNull
      else if p_rule p = R_enum_value then pbind (parse_enum_value p) (\<lambda>x. preturn (CEnum (node x)))
      else if p_rule p = R_const_list then
        pbind (pmap (\<lambda>q. pbind (parse_rec q) (\<lambda>x. preturn (node x))) (p_inner p)) (\<lambda>xs. preturn (CList xs))
      else if p_rule p = R_const_object then
        pbind (pmap (\<lambda>q. pbind (parse_entry R_const_object_field parse_rec q)
                 (\<lambda>x. preturn (node (fst x), node (snd x)))) (p_inner p))
          (\<lambda>kvs. preturn (CObject (collect_map kvs)))
      else pfail Panicked)"

definition value_of ::
  "number_reader \<Rightarrow> (pair \<Rightarrow> gvalue positioned parser) \<Rightarrow> pair \<Rightarrow> gvalue parser" where
  "value_of read_number parse_rec p =
     (if p_rule p = R_variable then pbind (parse_variable p) (\<lambda>x. preturn (VVariable (node x)))
      else if p_rule p = R_number then pbind (parse_number read_number p) (\<lambda>x. preturn (VNumber (node x)))
      else if p_rule p = R_string then pbind (parse_string p) (\<lambda>x. preturn (VString (node x)))
      else if p_rule p = R_boolean then pbind (parse_boolean p) (\<lambda>x. preturn (VBoolean (node x)))
      else if p_rule p = R_null then preturn VNull
      else if p_rule p = R_enum_value then pbind (parse_enum_value p) (\<lambda>x. preturn (VEnum (node x)))
      else if p_rule p = R_list then
        pbind (pmap (\<lambda>q. pbind (parse_rec q) (\<lambda>x. preturn (node x))) (p_inner p)) (\<lambda>xs. preturn (VList xs))
      else if p_rule p = R_object then
        pbind (pmap (\<lambda>q. pbind (parse_entry R_object_field parse_rec q)
                 (\<lambda>x. preturn (node (fst x), node (snd x)))) (p_inner p))
          (\<lambda>kvs. preturn (VObject (collect_map kvs)))
      else pfail Panicked)"

lemma inner_cong:
  assumes "\<And>q. size q < size p \<Longrightarrow> f q = g q"
  shows "pmap (\<lambda>q. pbind (f q) h) (p_inner p) = pmap (\<lambda>q. pbind (g q) h) (p_inner p)"
    and "pmap (\<lambda>q. pbind (parse_entry r f q) k) (p_inner p) = pmap (\<lambda>q. pbind (parse_entry r g q) k) (p_inner p)"
proof -
  show "pmap (\<lambda>q. pbind (f q) h) (p_inner p) = pmap (\<lambda>q. pbind (g q) h) (p_inner p)"
    by (rule pmap_cong) (auto simp: assms size_inner)
  have "parse_entry r f q = parse_entry r g q" if "q \<in> set (p_inner p)" for q
    by (rule parse_entry_cong [OF refl], rule assms) (use that size_inner less_trans in blast)
  then show "pmap (\<lambda>q. pbind (parse_entry r f q) k) (p_inner p) = pmap (\<lambda>q. pbind (parse_entry r g q) k) (p_inner p)"
    by (intro pmap_cong) auto
qed

lemma const_value_of_cong [fundef_cong]:
  assumes "p = p'" "\<And>q. size q < size p' \<Longrightarrow> f q = g q"
  shows "const_value_of rn f p = const_value_of rn g p'"
  unfolding const_value_of_def assms(1) by (simp only: inner_cong [of p' f g, OF assms(2)])

lemma value_of_cong [fundef_cong]:
  assumes "p = p'" "\<And>q. size q < size p' \<Longrightarrow> f q = g q"
  shows "value_of rn f p = value_of rn g p'"
  unfolding value_of_def assms(1) by (simp only: inner_cong [of p' f g, OF assms(2)])

function parse_const_value :: "number_reader \<Rightarrow> pair \<Rightarrow> const_value positioned parser" where
  "parse_const_value read_number pair =
     pbind (expect_rule pair R_const_value) (\<lambda>_.
     pbind (pc_step pair) (\<lambda>pos.
       exactly_one (p_inner pair) (\<lambda>p.
         pbind (const_value_of read_number (parse_const_value read_number) p) (\<lambda>v. preturn (Positioned pos v)))))"
  by pat_completeness auto
termination
  by (relation "measure (\<lambda>(_, p). size p)") (auto dest: size_inner)

function parse_value :: "number_reader \<Rightarrow> pair \<Rightarrow> gvalue positioned parser" where
  "parse_value read_number pair =
     pbind (expect_rule pair R_value) (\<lambda>_.
     pbind (pc_step pair) (\<lambda>pos.
       exactly_one (p_inner pair) (\<lambda>p.
         pbind (value_of read_number (parse_value read_number) p) (\<lambda>v. preturn (Positioned pos v)))))"
  by pat_completeness auto
termination
  by (relation "measure (\<lambda>(_, p). size p)") (auto dest: size_inner)

declare parse_const_value.simps [simp del] parse_value.simps [simp del]

definition parse_default_value :: "number_reader \<Rightarrow> pair \<Rightarrow> const_value positioned parser" where
  "parse_default_value read_number pair =
     pbind (expect_rule pair R_default_value) (\<lambda>_. exactly_one (p_inner pair) (parse_const_value read_number))"

definition parse_const_arguments ::
  "number_reader \<Rightarrow> pair \<Rightarrow> (name positioned \<times> const_value positioned) list parser" where
  "parse_const_arguments read_number pair =
     pbind (expect_rule pair R_const_arguments) (\<lambda>_.
       pmap (parse_entry R_const_argument (parse_const_value read_number)) (p_inner pair))"

definition parse_arguments :: "number_reader \<Rightarrow> pair \<Rightarrow> arguments parser" where
  "parse_arguments read_number pair =
     pbind (expect_rule pair R_arguments) (\<lambda>_.
       pmap (parse_entry R_argument (parse_value read_number)) (p_inner pair))"

definition unwrap_or_default :: "'a list option \<Rightarrow> 'a list" where
  "unwrap_or_default x = (case x of Some xs \<Rightarrow> xs | None \<Rightarrow> [])"

definition parse_const_directive :: "number_reader \<Rightarrow> pair \<Rightarrow> const_directive positioned parser" where
  "parse_const_directive read_number pair =
     pbind (expect_rule pair R_const_directive) (\<lambda>_.
     pbind (pc_step pair) (\<lambda>pos.
     pbind (parse_next (p_inner pair) parse_name) (\<lambda>(n, pairs).
     pbind (parse_if_rule pairs R_const_arguments (parse_const_arguments read_number)) (\<lambda>(arguments, pairs).
     pbind (expect_end pairs) (\<lambda>_.
       preturn (Positioned pos \<lparr>cd_name = n, cd_arguments = unwrap_or_default arguments\<rparr>))))))"

definition parse_directive :: "number_reader \<Rightarrow> pair \<Rightarrow> directive positioned parser" where
  "parse_directive read_number pair =
     pbind (expect_rule pair R_directive) (\<lambda>_.
     pbind (pc_step pair) (\<lambda>pos.
     pbind (parse_next (p_inner pair) parse_name) (\<lambda>(n, pairs).
     pbind (parse_if_rule pairs R_arguments (parse_arguments read_number)) (\<lambda>(arguments, pairs).
     pbind (expect_end pairs) (\<lambda>_.
       preturn (Positioned pos \<lparr>d_name = n, d_arguments = unwrap_or_default arguments\<rparr>))))))"

definition parse_const_directives :: "number_reader \<Rightarrow> pair \<Rightarrow> const_directive positioned list parser" where
  "parse_const_directives read_number pair =
     pbind (expect_rule pair R_const_directives) (\<lambda>_. pmap (parse_const_directive read_number) (p_inner pair))"

definition parse_directives :: "number_reader \<Rightarrow> pair \<Rightarrow> directive positioned list parser" where
  "parse_directives read_number pair =
     pbind (expect_rule pair R_directives) (\<lambda>_. pmap (parse_directive read_number) (p_inner pair))"

definition parse_opt_const_directives ::
  "number_reader \<Rightarrow> pair list \<Rightarrow> (const_directive positioned list \<times> pair list) parser" where
  "parse_opt_const_directives read_number pairs =
     pbind (parse_if_rule pairs R_const_directives (parse_const_directives read_number))
       (\<lambda>(directives, pairs). preturn (unwrap_or_default directives, pairs))"

definition parse_opt_directives ::
  "number_reader \<Rightarrow> pair list \<Rightarrow> (directive positioned list \<times> pair list) parser" where
  "parse_opt_directives read_number pairs =
     pbind (parse_if_rule pairs R_directives (parse_directives read_number))
       (\<lambda>(directives, pairs). preturn (unwrap_or_default directives, pairs))"

subsection \<open>No panics\<close>

lemma name_text_plain: "name_text n \<Longrightarrow> plain_name n"
proof (cases n)
  case (Cons c cs)
  assume "name_text n"
  then have all: "list_all (\<lambda>c. is_name_start c \<or> is_digit c) n" by (simp add: Cons)
  have "c \<noteq> CHR ''!'' \<and> c \<noteq> CHR ''[''" if "is_name_start c \<or> is_digit c" for c
    using that by (auto simp: is_name_start_def is_digit_def Let_def)
  then show ?thesis using all Cons by (auto simp: plain_name_def list_all_iff)
qed simp

lemma type_text_type_str: "type_text s \<Longrightarrow> \<exists>t. wf_type t \<and> type_str t = s"
proof (induction rule: type_text.induct)
  case (1 n)
  then show ?case by (intro exI [of _ "GType (BNamed n) True"]) (simp add: name_text_plain)
next
  case (2 n)
  then show ?case by (intro exI [of _ "GType (BNamed n) False"]) (simp add: name_text_plain)
next
  case (3 t)
  then obtain u where "wf_type u" "type_str u = t" by blast
  then show ?case by (intro exI [of _ "GType (BList u) True"]) simp
next
  case (4 t)
  then obtain u where "wf_type u" "type_str u = t" by blast
  then show ?case by (intro exI [of _ "GType (BList u) False"]) simp
qed

lemma type_text_type_new: "type_text s \<Longrightarrow> \<exists>t. type_new s = Some t"
  using type_text_type_str type_new_type_str by blast

named_theorems parses_rules \<open>parsing functions that are checked against the grammar\<close>

lemmas seq_rules = seq_next seq_if_opt seq_end seq_return

abbreviation any :: "'a \<Rightarrow> bool" where
  "any \<equiv> \<lambda>_. True"

lemma token_textD: "conforms_pair input p \<Longrightarrow> token_text (p_rule p) (p_str p)"
  by (simp add: conforms_pair_iff)

lemma parses_name [parses_rules]: "parses input n R_name parse_name any"
  by (rule parsesI, simp add: parse_name_def, rule triple_step1) (auto intro!: triple_return dest: ready_done)

lemma parses_operation_type [parses_rules]: "parses input n R_operation_type parse_operation_type any"
proof (rule parsesI, simp add: parse_operation_type_def, rule triple_step1)
  fix p assume p: "conforms_pair input p" "p_rule p = R_operation_type"
  show "triple (ready input (size p) (p_end p) [] (p_inner p))
     (if p_str p = ''query'' then preturn (Positioned (pos_of input (p_start p)) Query)
      else if p_str p = ''mutation'' then preturn (Positioned (pos_of input (p_start p)) Mutation)
      else if p_str p = ''subscription'' then preturn (Positioned (pos_of input (p_start p)) Subscription)
      else pfail Panicked)
     (\<lambda>x. at_most input (p_end p))"
    using token_textD [OF p(1)] p(2) by (auto intro!: triple_return dest: ready_done)
qed auto

lemma parses_boolean [parses_rules]: "parses input n R_boolean parse_boolean any"
proof (rule parsesI, simp add: parse_boolean_def, rule triple_step1)
  fix p assume p: "conforms_pair input p" "p_rule p = R_boolean"
  show "triple (ready input (size p) (p_end p) [] (p_inner p))
     (if p_str p = ''true'' then preturn (Positioned (pos_of input (p_start p)) True)
      else if p_str p = ''false'' then preturn (Positioned (pos_of input (p_start p)) False)
      else pfail Panicked)
     (\<lambda>x. at_most input (p_end p))"
    using token_textD [OF p(1)] p(2) by (auto intro!: triple_return dest: ready_done)
qed auto

lemma parses_type [parses_rules]: "parses input n R_type parse_type any"
proof (rule parsesI)
  fix p assume p: "conforms_pair input p" "p_rule p = R_type"
  then obtain t where "type_new (p_str p) = Some t"
    using token_textD [OF p(1)] type_text_type_new by auto
  then show "triple (at_most input (p_start p)) (parse_type p) (\<lambda>x pc. at_most input (p_end p) pc \<and> True)"
    using p by (simp add: parse_type_def) (rule triple_step1, assumption+, simp, rule triple_return, erule ready_done)
qed

lemma parses_number [parses_rules]: "parses input n R_number (parse_number read_number) any"
  by (rule parsesI, simp add: parse_number_def, rule triple_step1)
     (auto split: sum.split intro!: triple_fail triple_return dest: ready_done)

lemma parses_one:
  assumes "grammar r = [[One r']]" "parses input n r' f Q"
  shows "parses input n r (\<lambda>p. pbind (expect_rule p r) (\<lambda>_. exactly_one (p_inner p) f)) Q"
  by (rule parsesI, simp) (rule triple_ready1 [OF _ _ assms(1)], assumption+, rule seq_exactly,
      rule parses_mono [OF assms(2)], simp)

lemma parses_variable [parses_rules]: "parses input n R_variable parse_variable any"
  unfolding parse_variable_def [abs_def] by (rule parses_one [OF _ parses_name]) simp

lemma parses_enum_value [parses_rules]: "parses input n R_enum_value parse_enum_value any"
  unfolding parse_enum_value_def [abs_def] by (rule parses_one [OF _ parses_name]) simp

text \<open>The text of a string literal is read without a panic, so the pair below the literal decides.\<close>

lemma triple_lift:
  "r \<noteq> Inl Panicked \<Longrightarrow> (\<And>x. triple P (f x) R) \<Longrightarrow> triple P (pbind (lift_result r) f) R"
proof (cases r)
  case (Inl e)
  moreover assume "r \<noteq> Inl Panicked"
  ultimately show ?thesis by (cases e) (auto simp: lift_result_def triple_def pbind_def pfail_def)
qed (simp add: lift_result_def)

lemma string_pair_value:
  assumes "conforms_pair input p" "p_rule p \<in> {R_block_string_content, R_string_content}"
  shows "(if p_rule p = R_block_string_content then block_string_value (p_str p)
          else if p_rule p = R_string_content then string_value (p_str p) else Inl Panicked) \<noteq> Inl Panicked"
  using token_textD [OF assms(1)] assms(2) string_value_ok [of "p_str p"]
    block_string_value_reference [of "p_str p"] by auto

lemma parses_string [parses_rules]: "parses input n R_string parse_string any"
proof (rule parsesI, simp add: parse_string_def, rule triple_step)
  fix p "is" assume p: "p_rule p = R_string" and "is": "is \<in> set (grammar (p_rule p))"
  then obtain r where r: "is = [One r]" "r \<in> {R_block_string_content, R_string_content}"
    by (auto simp: choice_iff)
  show "triple (ready input (size p) (p_end p) is (p_inner p))
     (exactly_one (p_inner p) (\<lambda>q. pbind (lift_result
        (if p_rule q = R_block_string_content then block_string_value (p_str q)
         else if p_rule q = R_string_content then string_value (p_str q) else Inl Panicked))
        (\<lambda>s. preturn (Positioned (pos_of input (p_start p)) s)))) (\<lambda>x. at_most input (p_end p))"
    unfolding r(1)
    by (rule seq_exactly_one, rule triple_lift, rule string_pair_value)
       (use r(2) in \<open>auto intro!: triple_return intro: at_most_mono simp: conforms_pair_iff dest: ordered_le\<close>)
qed

lemma parses_entry:
  assumes "grammar r = [[One R_name, One r']]" "parses input n r' f any"
  shows "parses input n r (parse_entry r f) any"
  by (rule parsesI, simp add: parse_entry_def)
     (rule triple_ready1 [OF _ _ assms(1)], assumption+, rule seq_next, rule parses_name, rule seq_next,
      rule parses_mono [OF assms(2)], simp, rule seq_end, rule triple_return, erule ready_done)

lemma seq_map_return:
  assumes "triple P m (\<lambda>x pc. at_most input hi pc \<and> Q x)"
  shows "triple P (pbind m (\<lambda>x. preturn (g x))) (\<lambda>x. at_most input hi)"
  by (rule triple_bind [OF assms]) (auto intro!: triple_return)

lemma parses_return:
  "parses input n r f any \<Longrightarrow> parses input n r (\<lambda>q. pbind (f q) (\<lambda>x. preturn (g x))) any"
  unfolding parses_def by (auto intro: seq_map_return [where Q = any])

lemma parses_list:
  assumes "grammar (p_rule p) = [[Many r]]" "conforms_pair input p" "parses input (size p) r f any"
  shows "triple (at_most input (p_start p)) (pbind (pmap f (p_inner p)) (\<lambda>xs. preturn (g xs)))
    (\<lambda>x. at_most input (p_end p))"
  by (rule seq_map_return, rule triple_ready1 [OF assms(2) refl assms(1)], rule seq_many [OF assms(3)])

lemma triple_known:
  assumes "parses input (Suc (size p)) r f any" "conforms_pair input p" "p_rule p = r"
  shows "triple (at_most input (p_start p)) (pbind (f p) (\<lambda>x. preturn (g x))) (\<lambda>x. at_most input (p_end p))"
  by (rule seq_map_return [where Q = any]) (use assms in \<open>auto simp: parses_def\<close>)

lemma triple_null:
  "conforms_pair input p \<Longrightarrow> triple (at_most input (p_start p)) (preturn x) (\<lambda>x. at_most input (p_end p))"
  by (rule triple_return) (auto simp: conforms_pair_iff intro: at_most_mono dest: ordered_le)

lemma const_value_of_ok:
  assumes rec: "parses input (size p) R_const_value f any" and p: "conforms_pair input p"
    and r: "p_rule p \<in> {R_number, R_string, R_boolean, R_null, R_enum_value, R_const_list, R_const_object}"
  shows "triple (at_most input (p_start p)) (const_value_of read_number f p) (\<lambda>x. at_most input (p_end p))"
proof -
  have entry: "parses input (size p) R_const_object_field (parse_entry R_const_object_field f) any"
    by (rule parses_entry [OF _ rec]) simp
  show ?thesis
    using r unfolding const_value_of_def
    by (elim insertE emptyE)
       (simp_all add: p triple_null triple_known [OF parses_number] triple_known [OF parses_string]
          triple_known [OF parses_boolean] triple_known [OF parses_enum_value]
          parses_list [OF _ p parses_return [OF rec]] parses_list [OF _ p parses_return [OF entry]])
qed

lemma value_of_ok:
  assumes rec: "parses input (size p) R_value f any" and p: "conforms_pair input p"
    and r: "p_rule p \<in> {R_variable, R_number, R_string, R_boolean, R_null, R_enum_value, R_list, R_object}"
  shows "triple (at_most input (p_start p)) (value_of read_number f p) (\<lambda>x. at_most input (p_end p))"
proof -
  have entry: "parses input (size p) R_object_field (parse_entry R_object_field f) any"
    by (rule parses_entry [OF _ rec]) simp
  show ?thesis
    using r unfolding value_of_def
    by (elim insertE emptyE)
       (simp_all add: p triple_null triple_known [OF parses_number] triple_known [OF parses_string]
          triple_known [OF parses_boolean] triple_known [OF parses_enum_value] triple_known [OF parses_variable]
          parses_list [OF _ p parses_return [OF rec]] parses_list [OF _ p parses_return [OF entry]])
qed

text \<open>The value of a pair that is one of several rules, at the position of that pair.\<close>

lemma parses_choice:
  assumes "grammar r = choice rs" "conforms_pair input p" "p_rule p = r"
    and "\<And>q. conforms_pair input q \<Longrightarrow> p_rule q \<in> set rs \<Longrightarrow> size q < size p \<Longrightarrow>
      triple (at_most input (p_start q)) (f q) (\<lambda>x. at_most input (p_end q))"
  shows "triple (at_most input (p_start p))
    (pbind (pc_step p) (\<lambda>pos. exactly_one (p_inner p) (\<lambda>q. pbind (f q) (\<lambda>v. preturn (Positioned pos v)))))
    (\<lambda>x. at_most input (p_end p))"
proof (rule triple_step [OF assms(2)])
  fix "is" assume "is \<in> set (grammar (p_rule p))"
  then obtain r' where r': "is = [One r']" "r' \<in> set rs" using assms(1,3) by (auto simp: choice_iff)
  show "triple (ready input (size p) (p_end p) is (p_inner p))
      (exactly_one (p_inner p) (\<lambda>q. pbind (f q) (\<lambda>v. preturn (Positioned (pos_of input (p_start p)) v))))
      (\<lambda>x. at_most input (p_end p))"
    unfolding r'(1)
    by (rule seq_exactly_one, rule triple_bind, rule assms(4))
       (use r'(2) in \<open>auto intro!: triple_return intro: at_most_mono\<close>)
qed

lemma parses_const_value [parses_rules]: "parses input n R_const_value (parse_const_value read_number) any"
proof (induction n rule: less_induct)
  case (less n)
  show ?case
    by (rule parsesI, subst parse_const_value.simps, simp, rule parses_choice [where r = R_const_value], rule grammar.simps,
        assumption+, rule const_value_of_ok) (auto intro: parses_mono [OF less.IH])
qed

lemma parses_value [parses_rules]: "parses input n R_value (parse_value read_number) any"
proof (induction n rule: less_induct)
  case (less n)
  show ?case
    by (rule parsesI, subst parse_value.simps, simp, rule parses_choice [where r = R_value], rule grammar.simps,
        assumption+, rule value_of_ok) (auto intro: parses_mono [OF less.IH])
qed

lemma parses_default_value [parses_rules]: "parses input n R_default_value (parse_default_value read_number) any"
  unfolding parse_default_value_def [abs_def] by (rule parses_one [OF _ parses_const_value]) simp

lemma parses_plus:
  assumes "grammar r = [[One r', Many r']]" "parses input n r' f Q"
  shows "parses input n r (\<lambda>p. pbind (expect_rule p r) (\<lambda>_. pmap f (p_inner p))) (list_all Q)"
  by (rule parsesI, simp) (rule triple_ready1 [OF _ _ assms(1)], assumption+, rule seq_plus,
      rule parses_mono [OF assms(2)], simp)

lemma parses_many:
  assumes "grammar r = [[Many r']]" "parses input n r' f Q"
  shows "parses input n r (\<lambda>p. pbind (expect_rule p r) (\<lambda>_. pmap f (p_inner p))) (list_all Q)"
  by (rule parsesI, simp) (rule triple_ready1 [OF _ _ assms(1)], assumption+, rule seq_many,
      rule parses_mono [OF assms(2)], simp)

lemma parses_weaken: "parses input n r f Q \<Longrightarrow> parses input n r f any"
  by (fastforce simp: parses_def intro: triple_conseq)

lemma parses_const_arguments [parses_rules]:
  "parses input n R_const_arguments (parse_const_arguments read_number) any"
  unfolding parse_const_arguments_def [abs_def]
  by (rule parses_weaken, rule parses_plus [OF _ parses_entry [OF _ parses_const_value]]) simp_all

lemma parses_arguments [parses_rules]: "parses input n R_arguments (parse_arguments read_number) any"
  unfolding parse_arguments_def [abs_def]
  by (rule parses_weaken, rule parses_plus [OF _ parses_entry [OF _ parses_value]]) simp_all

lemma parses_const_directive [parses_rules]:
  "parses input n R_const_directive (parse_const_directive read_number) any"
  by (rule parsesI, simp add: parse_const_directive_def)
     (rule triple_step1, assumption+, simp, rule seq_next, rule parses_name, rule seq_if_opt,
      rule parses_const_arguments, rule seq_end, rule triple_return, erule ready_done)

lemma parses_directive [parses_rules]: "parses input n R_directive (parse_directive read_number) any"
  by (rule parsesI, simp add: parse_directive_def)
     (rule triple_step1, assumption+, simp, rule seq_next, rule parses_name, rule seq_if_opt,
      rule parses_arguments, rule seq_end, rule triple_return, erule ready_done)

lemma parses_const_directives [parses_rules]:
  "parses input n R_const_directives (parse_const_directives read_number) any"
  unfolding parse_const_directives_def [abs_def]
  by (rule parses_weaken, rule parses_plus [OF _ parses_const_directive]) simp

lemma parses_directives [parses_rules]: "parses input n R_directives (parse_directives read_number) any"
  unfolding parse_directives_def [abs_def]
  by (rule parses_weaken, rule parses_plus [OF _ parses_directive]) simp

lemma opt_directives_left:
  "parse_opt_directives rn ps pc = Inr ((x, qs), pc') \<Longrightarrow> set qs \<subseteq> set ps"
  "parse_opt_const_directives rn ps pc = Inr ((y, qs), pc') \<Longrightarrow> set qs \<subseteq> set ps"
  by (auto simp: parse_opt_directives_def parse_opt_const_directives_def pbind_Inr preturn_def dest!: pairs_left)

lemma opt_directives_bind:
  "pbind (parse_opt_directives rn ps) (\<lambda>(x, qs). g x qs) =
     pbind (parse_if_rule ps R_directives (parse_directives rn)) (\<lambda>(x, qs). g (unwrap_or_default x) qs)"
  "pbind (parse_opt_const_directives rn ps) (\<lambda>(y, qs). h y qs) =
     pbind (parse_if_rule ps R_const_directives (parse_const_directives rn)) (\<lambda>(y, qs). h (unwrap_or_default y) qs)"
  by (simp_all add: parse_opt_directives_def parse_opt_const_directives_def pbind_assoc case_prod_unfold)

text \<open>\<open>parse_opt_directives\<close> in a sequence.\<close>

lemma seq_directives:
  assumes "\<And>x qs. triple (ready input n hi is qs) (g x qs) R"
  shows "triple (ready input n hi (Opt R_directives # is) ps) (pbind (parse_opt_directives rn ps) (\<lambda>(x, qs). g x qs)) R"
  unfolding opt_directives_bind by (rule seq_if_opt, rule parses_directives, rule assms)

lemma seq_const_directives:
  assumes "\<And>x qs. triple (ready input n hi is qs) (g x qs) R"
  shows "triple (ready input n hi (Opt R_const_directives # is) ps)
    (pbind (parse_opt_const_directives rn ps) (\<lambda>(x, qs). g x qs)) R"
  unfolding opt_directives_bind by (rule seq_if_opt, rule parses_const_directives, rule assms)

lemma seq_const_directives_one:
  assumes "\<And>x qs. triple (ready input n hi is qs) (g x qs) R"
  shows "triple (ready input n hi (One R_const_directives # is) ps)
    (pbind (parse_opt_const_directives rn ps) (\<lambda>(x, qs). g x qs)) R"
  unfolding opt_directives_bind by (rule seq_if_one, rule parses_const_directives, rule assms)

lemma seq_const_directives_skip:
  assumes "\<not> starts is R_const_directives" "\<And>x qs. triple (ready input n hi is qs) (g x qs) R"
  shows "triple (ready input n hi is ps) (pbind (parse_opt_const_directives rn ps) (\<lambda>(x, qs). g x qs)) R"
  unfolding opt_directives_bind by (rule seq_if_skip [OF assms(1)], rule assms(2))

end
