(* ===== verification/Parser_Executable.thy ===== *)
theory Parser_Executable
  imports Parser_Values
begin

text \<open>
  \<open>parser/src/parse/executable.rs\<close>: \<open>parse_query\<close> and the functions below it.

  \<open>GraphQLParser::parse\<close>, which the crate \<open>pest\<close> derives from the grammar, is the parameter \<open>pest\<close>; it returns
  the message and place of a syntax error or the pairs. \<open>pest_conforms\<close> is what is relied on.
  The macro \<open>recursion_depth!\<close> is the test of \<open>remaining_depth\<close>.
  Lemmas: \<open>parse_query\<close> never panics (\<open>parse_query_no_panic\<close>); which operations and fragments it accepts
  (\<open>document_of_items_iff\<close>); its selection sets are nested at most 65 levels.
\<close>

subsection \<open>Selection sets\<close>

definition max_recursion_depth :: nat where
  "max_recursion_depth = 64"

definition parse_alias :: "pair \<Rightarrow> name positioned parser" where
  "parse_alias pair = pbind (expect_rule pair R_alias) (\<lambda>_. exactly_one (p_inner pair) parse_name)"

definition parse_type_condition :: "pair \<Rightarrow> type_condition positioned parser" where
  "parse_type_condition pair =
     pbind (expect_rule pair R_type_condition) (\<lambda>_.
     pbind (pc_step pair) (\<lambda>pos.
     pbind (exactly_one (p_inner pair) parse_name) (\<lambda>n.
       preturn (Positioned pos \<lparr>tc_on = n\<rparr>))))"

definition parse_fragment_spread :: "number_reader \<Rightarrow> pair \<Rightarrow> fragment_spread positioned parser" where
  "parse_fragment_spread rn pair =
     pbind (expect_rule pair R_fragment_spread) (\<lambda>_.
     pbind (pc_step pair) (\<lambda>pos.
     pbind (parse_next (p_inner pair) parse_name) (\<lambda>(fragment_name, pairs).
     pbind (parse_opt_directives rn pairs) (\<lambda>(directives, pairs).
     pbind (expect_end pairs) (\<lambda>_.
       preturn (Positioned pos \<lparr>fs_fragment_name = fragment_name, fs_directives = directives\<rparr>))))))"

text \<open>\<open>Positioned<SelectionSet>::default()\<close>.\<close>

definition default_selection_set :: "selection_set positioned" where
  "default_selection_set = Positioned (Pos 0 0) (SelectionSet [])"

function (sequential)
  parse_selection_set :: "number_reader \<Rightarrow> nat \<Rightarrow> pair \<Rightarrow> selection_set positioned parser" and
  parse_selection :: "number_reader \<Rightarrow> nat \<Rightarrow> pair \<Rightarrow> selection positioned parser" and
  parse_field :: "number_reader \<Rightarrow> nat \<Rightarrow> pair \<Rightarrow> field positioned parser" and
  parse_inline_fragment :: "number_reader \<Rightarrow> nat \<Rightarrow> pair \<Rightarrow> inline_fragment positioned parser" where
  "parse_selection_set rn remaining_depth pair =
     pbind (expect_rule pair R_selection_set) (\<lambda>_.
     pbind (pc_step pair) (\<lambda>pos.
     pbind (pmap (\<lambda>p. parse_selection rn remaining_depth p) (p_inner pair)) (\<lambda>items.
       preturn (Positioned pos (SelectionSet items)))))"
| "parse_selection rn remaining_depth pair =
     pbind (expect_rule pair R_selection) (\<lambda>_.
     pbind (pc_step pair) (\<lambda>pos.
       exactly_one (p_inner pair) (\<lambda>p.
         pbind
           (if p_rule p = R_field then pbind (parse_field rn remaining_depth p) (\<lambda>x. preturn (Field x))
            else if p_rule p = R_fragment_spread then
              pbind (parse_fragment_spread rn p) (\<lambda>x. preturn (FragmentSpread x))
            else if p_rule p = R_inline_fragment then
              pbind (parse_inline_fragment rn remaining_depth p) (\<lambda>x. preturn (InlineFragment x))
            else pfail Panicked)
           (\<lambda>sel. preturn (Positioned pos sel)))))"
| "parse_field rn remaining_depth pair =
     pbind (expect_rule pair R_field) (\<lambda>_.
     pbind (pc_step pair) (\<lambda>pos.
     pbind (parse_if_rule (p_inner pair) R_alias parse_alias) (\<lambda>(alias, pairs).
     pbind (parse_next pairs parse_name) (\<lambda>(n, pairs).
     pbind (parse_if_rule pairs R_arguments (parse_arguments rn)) (\<lambda>(arguments, pairs).
     pbind (parse_opt_directives rn pairs) (\<lambda>(directives, pairs).
     pbind (parse_if_rule pairs R_selection_set (\<lambda>p.
         if remaining_depth = 0 then pfail (Failed RecursionLimitExceeded)
         else parse_selection_set rn (remaining_depth - 1) p)) (\<lambda>(selection_set, pairs).
     pbind (expect_end pairs) (\<lambda>_.
       preturn (Positioned pos
         (MkField alias n (unwrap_or_default arguments) directives
           (case selection_set of Some s \<Rightarrow> s | None \<Rightarrow> default_selection_set)))))))))))"
| "parse_inline_fragment rn remaining_depth pair =
     pbind (expect_rule pair R_inline_fragment) (\<lambda>_.
     pbind (pc_step pair) (\<lambda>pos.
     pbind (parse_if_rule (p_inner pair) R_type_condition parse_type_condition) (\<lambda>(type_condition, pairs).
     pbind (parse_opt_directives rn pairs) (\<lambda>(directives, pairs).
     pbind (parse_next pairs (\<lambda>p.
         if remaining_depth = 0 then pfail (Failed RecursionLimitExceeded)
         else parse_selection_set rn (remaining_depth - 1) p)) (\<lambda>(selection_set, pairs).
     pbind (expect_end pairs) (\<lambda>_.
       preturn (Positioned pos (MkInlineFragment type_condition directives selection_set))))))))"
  by pat_completeness auto

termination parse_selection_set
  by (relation "measure (case_sum (case_sum (\<lambda>(_, _, p). size p) (\<lambda>(_, _, p). size p))
        (case_sum (\<lambda>(_, _, p). size p) (\<lambda>(_, _, p). size p)))")
     (auto dest!: pairs_left opt_directives_left(1) intro!: size_inner)

declare parse_selection_set.simps [simp del] parse_selection.simps [simp del] parse_field.simps [simp del]
  parse_inline_fragment.simps [simp del]

subsection \<open>Definitions\<close>

record operation_definition_item =
  oi_name :: "name positioned option"
  oi_definition :: operation_definition

record fragment_definition_item =
  fi_name :: "name positioned"
  fi_definition :: fragment_definition

datatype definition_item =
    OperationItem "operation_definition_item positioned"
  | FragmentItem "fragment_definition_item positioned"

definition parse_variable_definition :: "number_reader \<Rightarrow> pair \<Rightarrow> variable_definition positioned parser" where
  "parse_variable_definition rn pair =
     pbind (expect_rule pair R_variable_definition) (\<lambda>_.
     pbind (pc_step pair) (\<lambda>pos.
     pbind (parse_next (p_inner pair) parse_variable) (\<lambda>(variable, pairs).
     pbind (parse_next pairs parse_type) (\<lambda>(var_type, pairs).
     pbind (parse_opt_directives rn pairs) (\<lambda>(directives, pairs).
     pbind (parse_if_rule pairs R_default_value (parse_default_value rn)) (\<lambda>(default_value, pairs).
     pbind (expect_end pairs) (\<lambda>_.
       preturn (Positioned pos
         \<lparr>vd_name = variable, vd_var_type = var_type, vd_directives = directives,
          vd_default_value = default_value\<rparr>))))))))"

definition parse_variable_definitions ::
  "number_reader \<Rightarrow> pair \<Rightarrow> variable_definition positioned list parser" where
  "parse_variable_definitions rn pair =
     pbind (expect_rule pair R_variable_definitions) (\<lambda>_. pmap (parse_variable_definition rn) (p_inner pair))"

definition parse_named_operation_definition :: "number_reader \<Rightarrow> pair \<Rightarrow> operation_definition_item parser" where
  "parse_named_operation_definition rn pair =
     pbind (expect_rule pair R_named_operation_definition) (\<lambda>_.
     pbind (parse_next (p_inner pair) parse_operation_type) (\<lambda>(ty, pairs).
     pbind (parse_if_rule pairs R_name parse_name) (\<lambda>(n, pairs).
     pbind (parse_if_rule pairs R_variable_definitions (parse_variable_definitions rn))
       (\<lambda>(variable_definitions, pairs).
     pbind (parse_opt_directives rn pairs) (\<lambda>(directives, pairs).
     pbind (parse_next pairs (parse_selection_set rn max_recursion_depth)) (\<lambda>(selection_set, pairs).
     pbind (expect_end pairs) (\<lambda>_.
       preturn
         \<lparr>oi_name = n,
          oi_definition =
            \<lparr>od_ty = node ty, od_variable_definitions = unwrap_or_default variable_definitions,
             od_directives = directives, od_selection_set = selection_set\<rparr>\<rparr>)))))))"

definition parse_operation_definition_item ::
  "number_reader \<Rightarrow> pair \<Rightarrow> operation_definition_item positioned parser" where
  "parse_operation_definition_item rn pair =
     pbind (expect_rule pair R_operation_definition) (\<lambda>_.
     pbind (pc_step pair) (\<lambda>pos.
       exactly_one (p_inner pair) (\<lambda>p.
         pbind
           (if p_rule p = R_named_operation_definition then parse_named_operation_definition rn p
            else if p_rule p = R_selection_set then
              pbind (parse_selection_set rn max_recursion_depth p) (\<lambda>selection_set.
                preturn
                  \<lparr>oi_name = None,
                   oi_definition =
                     \<lparr>od_ty = Query, od_variable_definitions = [], od_directives = [],
                      od_selection_set = selection_set\<rparr>\<rparr>)
            else pfail Panicked)
           (\<lambda>item. preturn (Positioned pos item)))))"

definition parse_fragment_definition_item ::
  "number_reader \<Rightarrow> pair \<Rightarrow> fragment_definition_item positioned parser" where
  "parse_fragment_definition_item rn pair =
     pbind (expect_rule pair R_fragment_definition) (\<lambda>_.
     pbind (pc_step pair) (\<lambda>pos.
     pbind (parse_next (p_inner pair) parse_name) (\<lambda>(n, pairs).
     pbind (parse_next pairs parse_type_condition) (\<lambda>(type_condition, pairs).
     pbind (parse_opt_directives rn pairs) (\<lambda>(directives, pairs).
     pbind (parse_next pairs (parse_selection_set rn max_recursion_depth)) (\<lambda>(selection_set, pairs).
     pbind (expect_end pairs) (\<lambda>_.
       preturn (Positioned pos
         \<lparr>fi_name = n,
          fi_definition =
            \<lparr>fd_type_condition = type_condition, fd_directives = directives,
             fd_selection_set = selection_set\<rparr>\<rparr>))))))))"

definition parse_definition_item :: "number_reader \<Rightarrow> pair \<Rightarrow> definition_item parser" where
  "parse_definition_item rn pair =
     pbind (expect_rule pair R_executable_definition) (\<lambda>_.
       exactly_one (p_inner pair) (\<lambda>p.
         if p_rule p = R_operation_definition then
           pbind (parse_operation_definition_item rn p) (\<lambda>x. preturn (OperationItem x))
         else if p_rule p = R_fragment_definition then
           pbind (parse_fragment_definition_item rn p) (\<lambda>x. preturn (FragmentItem x))
         else pfail Panicked))"

definition parse_definition_items :: "number_reader \<Rightarrow> pair \<Rightarrow> definition_item list parser" where
  "parse_definition_items rn pair =
     pbind (expect_rule pair R_executable_document) (\<lambda>_.
       pmap (parse_definition_item rn) (filter (\<lambda>p. p_rule p \<noteq> R_EOI) (p_inner pair)))"

subsection \<open>Documents\<close>

text \<open>One round of the loop of \<open>parse_query\<close>. An operation that has a name where an anonymous one exists, an
  anonymous one where any exists, and a second definition of a name are errors. (The position
  reported for an anonymous operation after several named ones is that of any of these, whichever the
  \<open>HashMap\<close> lists first.)\<close>

type_synonym document_state = "document_operations option \<times> fragments"

definition add_operation ::
  "operation_definition_item positioned \<Rightarrow> document_operations option \<Rightarrow> parse_failure + document_operations" where
  "add_operation item ops =
     (let op = Positioned (pos item) (oi_definition (node item))
      in case oi_name (node item) of
           Some n \<Rightarrow>
             (case (case ops of None \<Rightarrow> Multiple [] | Some ops \<Rightarrow> ops) of
                Single anonymous \<Rightarrow> Inl (Failed (MultipleOperations (pos anonymous) (pos item)))
              | Multiple ops \<Rightarrow>
                  (case im_get ops (node n) of
                     Some first \<Rightarrow> Inl (Failed (OperationDuplicated (node n) (pos first) (pos item)))
                   | None \<Rightarrow> Inr (Multiple (im_insert (node n) op ops))))
         | None \<Rightarrow>
             (case ops of
                Some (Single single) \<Rightarrow> Inl (Failed (MultipleOperations (pos item) (pos single)))
              | Some (Multiple ((_, other) # _)) \<Rightarrow> Inl (Failed (MultipleOperations (pos item) (pos other)))
              | Some (Multiple []) \<Rightarrow> Inl Panicked
              | None \<Rightarrow> Inr (Single op)))"

definition add_fragment ::
  "fragment_definition_item positioned \<Rightarrow> fragments \<Rightarrow> parse_failure + fragments" where
  "add_fragment item frags =
     (case im_get frags (node (fi_name (node item))) of
        Some first \<Rightarrow>
          Inl (Failed (FragmentDuplicated (node (fi_name (node item))) (pos first) (pos item)))
      | None \<Rightarrow>
          Inr (im_insert (node (fi_name (node item))) (Positioned (pos item) (fi_definition (node item))) frags))"

fun add_items :: "definition_item list \<Rightarrow> document_state \<Rightarrow> parse_failure + document_state" where
  "add_items [] st = Inr st"
| "add_items (OperationItem item # items) (ops, frags) =
     bind_result (add_operation item ops) (\<lambda>ops. add_items items (Some ops, frags))"
| "add_items (FragmentItem item # items) (ops, frags) =
     bind_result (add_fragment item frags) (\<lambda>frags. add_items items (ops, frags))"

definition document_of_items :: "definition_item list \<Rightarrow> parse_failure + executable_document" where
  "document_of_items items =
     bind_result (add_items items (None, [])) (\<lambda>(ops, frags).
       case ops of
         None \<Rightarrow> Inl (Failed MissingOperation)
       | Some ops \<Rightarrow> Inr \<lparr>doc_operations = ops, doc_fragments = frags\<rparr>)"

text \<open>The place of a syntax error as \<open>pest\<close> reports it.\<close>

datatype line_col_location = LinePos "nat \<times> nat" | LineSpan "nat \<times> nat" "nat \<times> nat"

definition syntax_error :: "string \<times> line_col_location \<Rightarrow> parse_error" where
  "syntax_error err =
     (case snd err of
        LinePos (l, c) \<Rightarrow> Syntax (fst err) (Pos l c) None
      | LineSpan (l, c) (l', c') \<Rightarrow> Syntax (fst err) (Pos l c) (Some (Pos l' c')))"

type_synonym pest = "rule \<Rightarrow> string \<Rightarrow> (string \<times> line_col_location) + pair list"

definition parse_query :: "pest \<Rightarrow> number_reader \<Rightarrow> string \<Rightarrow> parse_failure + executable_document" where
  "parse_query pest rn input =
     (case pest R_executable_document input of
        Inl err \<Rightarrow> Inl (Failed (syntax_error err))
      | Inr pairs \<Rightarrow>
          bind_result (exactly_one pairs (parse_definition_items rn) (position_calculator_new input))
            (\<lambda>(items, _). document_of_items items))"

subsection \<open>Nesting of the parsed selection sets\<close>

fun nested_within :: "nat \<Rightarrow> selection_set \<Rightarrow> bool" where
  "nested_within 0 ss \<longleftrightarrow> ss_items ss = []"
| "nested_within (Suc n) ss \<longleftrightarrow>
     list_all (\<lambda>sel. case node sel of
         Field field \<Rightarrow> nested_within n (node (f_selection_set (node field)))
       | FragmentSpread _ \<Rightarrow> True
       | InlineFragment inline \<Rightarrow> nested_within n (node (if_selection_set (node inline))))
       (ss_items ss)"

definition selection_within :: "nat \<Rightarrow> selection \<Rightarrow> bool" where
  "selection_within n sel \<longleftrightarrow>
     (case sel of
        Field field \<Rightarrow> nested_within n (node (f_selection_set (node field)))
      | FragmentSpread _ \<Rightarrow> True
      | InlineFragment inline \<Rightarrow> nested_within n (node (if_selection_set (node inline))))"

lemma nested_within_Suc:
  "nested_within (Suc n) ss \<longleftrightarrow> list_all (\<lambda>sel. selection_within n (node sel)) (ss_items ss)"
  by (simp add: selection_within_def)

lemma nested_within_empty [simp]: "nested_within n (SelectionSet [])"
  by (cases n) simp_all

lemma nested_within_default [simp]: "nested_within n (node default_selection_set)"
  by (simp add: default_selection_set_def)

lemma parses_alias [parses_rules]: "parses input n R_alias parse_alias any"
  unfolding parse_alias_def [abs_def] by (rule parses_one [OF _ parses_name]) simp

lemma parses_type_condition [parses_rules]: "parses input n R_type_condition parse_type_condition any"
proof (rule parsesI, simp add: parse_type_condition_def)
  fix p assume p: "conforms_pair input p" "p_rule p = R_type_condition"
  show "triple (at_most input (p_start p)) (pbind (pc_step p) (\<lambda>pos. pbind (exactly_one (p_inner p) parse_name)
      (\<lambda>n. preturn (Positioned pos \<lparr>tc_on = n\<rparr>)))) (\<lambda>x. at_most input (p_end p))"
    by (rule triple_step1 [OF p], simp, rule seq_map_return, rule seq_exactly, rule parses_name)
qed

lemma parses_fragment_spread [parses_rules]:
  "parses input n R_fragment_spread (parse_fragment_spread rn) any"
  by (rule parsesI, simp add: parse_fragment_spread_def)
     (rule triple_step1, assumption+, simp, rule seq_next, rule parses_name, rule seq_directives,
      rule seq_end, rule triple_return, erule ready_done)

text \<open>A selection set one level down, if the depth allows one.\<close>

lemma parses_below:
  assumes "\<And>d. parses input n R_selection_set (parse_selection_set rn d) (\<lambda>x. nested_within (Suc d) (node x))"
  shows "parses input n R_selection_set
    (\<lambda>p. if d = 0 then pfail (Failed RecursionLimitExceeded) else parse_selection_set rn (d - 1) p)
    (\<lambda>x. nested_within d (node x))"
  using assms [of "d - 1"] by (cases d) (auto simp: parses_def intro: triple_fail)

lemma parses_field:
  assumes "\<And>d. parses input n R_selection_set (parse_selection_set rn d) (\<lambda>x. nested_within (Suc d) (node x))"
  shows "parses input n R_field (parse_field rn d) (\<lambda>x. nested_within d (node (f_selection_set (node x))))"
proof (rule parsesI)
  fix p assume p: "conforms_pair input p" "p_rule p = R_field" "size p < n"
  have below: "parses input (size p) R_selection_set
      (\<lambda>p. if d = 0 then pfail (Failed RecursionLimitExceeded) else parse_selection_set rn (d - 1) p)
      (\<lambda>x. nested_within d (node x))"
    by (rule parses_mono [OF parses_below [OF assms]]) (use p(3) in simp)
  show "triple (at_most input (p_start p)) (parse_field rn d p)
      (\<lambda>x pc. at_most input (p_end p) pc \<and> nested_within d (node (f_selection_set (node x))))"
    unfolding parse_field.simps pbind_expect_rule [OF p(2)]
    by (rule triple_step1 [OF p(1,2)], rule grammar.simps, rule seq_if_opt, rule parses_alias,
        rule seq_next, rule parses_name, rule seq_if_opt, rule parses_arguments, rule seq_directives,
        rule seq_if_opt, rule below, rule seq_end, rule seq_return) (auto split: option.split)
qed

lemma parses_inline_fragment:
  assumes "\<And>d. parses input n R_selection_set (parse_selection_set rn d) (\<lambda>x. nested_within (Suc d) (node x))"
  shows "parses input n R_inline_fragment (parse_inline_fragment rn d)
    (\<lambda>x. nested_within d (node (if_selection_set (node x))))"
proof (rule parsesI)
  fix p assume p: "conforms_pair input p" "p_rule p = R_inline_fragment" "size p < n"
  have below: "parses input (size p) R_selection_set
      (\<lambda>p. if d = 0 then pfail (Failed RecursionLimitExceeded) else parse_selection_set rn (d - 1) p)
      (\<lambda>x. nested_within d (node x))"
    by (rule parses_mono [OF parses_below [OF assms]]) (use p(3) in simp)
  show "triple (at_most input (p_start p)) (parse_inline_fragment rn d p)
      (\<lambda>x pc. at_most input (p_end p) pc \<and> nested_within d (node (if_selection_set (node x))))"
    unfolding parse_inline_fragment.simps pbind_expect_rule [OF p(2)]
    by (rule triple_step1 [OF p(1,2)], rule grammar.simps, rule seq_if_opt, rule parses_type_condition,
        rule seq_directives, rule seq_next, rule below, rule seq_end, rule seq_return) simp
qed

text \<open>The pair below a choice is parsed by \<open>f\<close>, whose results have \<open>Q\<close>.\<close>

lemma seq_choice:
  assumes "is \<in> set (choice rs)"
    and "\<And>q. conforms_pair input q \<Longrightarrow> p_rule q \<in> set rs \<Longrightarrow> size q < n \<Longrightarrow>
      triple (at_most input (p_start q)) (f q) (\<lambda>x pc. at_most input (p_end q) pc \<and> Q x)"
  shows "triple (ready input n hi is ps) (exactly_one ps f) (\<lambda>x pc. at_most input hi pc \<and> Q x)"
proof -
  obtain r where r: "is = [One r]" "r \<in> set rs" using assms(1) by (auto simp: choice_iff)
  show ?thesis
    unfolding r(1) by (rule seq_exactly) (use assms(2) r(2) in \<open>auto simp: parses_def\<close>)
qed

lemma triple_map:
  assumes "triple P m (\<lambda>x pc. at_most input hi pc \<and> Q x)" "\<And>x. Q x \<Longrightarrow> Q' (g x)"
  shows "triple P (pbind m (\<lambda>x. preturn (g x))) (\<lambda>x pc. at_most input hi pc \<and> Q' x)"
  by (rule triple_bind [OF assms(1)]) (auto intro!: triple_return assms(2))

lemma parses_pair:
  "parses input n r f Q \<Longrightarrow> conforms_pair input p \<Longrightarrow> p_rule p = r \<Longrightarrow> size p < n \<Longrightarrow>
   triple (at_most input (p_start p)) (f p) (\<lambda>x pc. at_most input (p_end p) pc \<and> Q x)"
  by (simp add: parses_def)

lemma parses_selection:
  assumes "\<And>d. parses input n R_selection_set (parse_selection_set rn d) (\<lambda>x. nested_within (Suc d) (node x))"
  shows "parses input n R_selection (parse_selection rn d) (\<lambda>x. selection_within d (node x))"
proof (rule parsesI)
  fix p assume p: "conforms_pair input p" "p_rule p = R_selection" "size p < n"
  let ?arm = "\<lambda>q. if p_rule q = R_field then pbind (parse_field rn d q) (\<lambda>x. preturn (Field x))
     else if p_rule q = R_fragment_spread then pbind (parse_fragment_spread rn q) (\<lambda>x. preturn (FragmentSpread x))
     else if p_rule q = R_inline_fragment then
       pbind (parse_inline_fragment rn d q) (\<lambda>x. preturn (InlineFragment x))
     else pfail Panicked"
  have arm: "triple (at_most input (p_start q)) (?arm q) (\<lambda>x pc. at_most input (p_end q) pc \<and> selection_within d x)"
    if q: "conforms_pair input q" "p_rule q \<in> set [R_field, R_inline_fragment, R_fragment_spread]" "size q < size p" for q
  proof -
    have "size q < n" using q(3) p(3) by simp
    then show ?thesis
      using q(2)
        triple_map [OF parses_pair [OF parses_field [OF assms, of d] q(1)], where g = Field and Q' = "selection_within d"]
        triple_map [OF parses_pair [OF parses_inline_fragment [OF assms, of d] q(1)], where g = InlineFragment and Q' = "selection_within d"]
        triple_map [OF parses_pair [OF parses_fragment_spread q(1)], where g = FragmentSpread and Q' = "selection_within d"]
      by (auto simp: selection_within_def)
  qed
  show "triple (at_most input (p_start p)) (parse_selection rn d p)
      (\<lambda>x pc. at_most input (p_end p) pc \<and> selection_within d (node x))"
    unfolding parse_selection.simps pbind_expect_rule [OF p(2)]
    by (rule triple_step [OF p(1)], rule seq_choice, simp only: p(2) grammar.simps, rule triple_map, rule arm) auto
qed

lemma parses_selection_set:
  "parses input n R_selection_set (parse_selection_set rn d) (\<lambda>x. nested_within (Suc d) (node x))"
proof (induction n arbitrary: d rule: less_induct)
  case (less n)
  show ?case
  proof (rule parsesI)
    fix p assume p: "conforms_pair input p" "p_rule p = R_selection_set" "size p < n"
    show "triple (at_most input (p_start p)) (parse_selection_set rn d p)
        (\<lambda>x pc. at_most input (p_end p) pc \<and> nested_within (Suc d) (node x))"
      unfolding parse_selection_set.simps pbind_expect_rule [OF p(2)]
      by (rule triple_step1 [OF p(1,2)], rule grammar.simps, rule triple_map, rule seq_plus,
          rule parses_selection [OF less.IH [OF p(3)]]) (simp only: nested_within_Suc positioned.sel selection_set.sel)
  qed
qed

subsection \<open>No panics\<close>

lemma parses_variable_definition [parses_rules]:
  "parses input n R_variable_definition (parse_variable_definition rn) any"
  by (rule parsesI, simp add: parse_variable_definition_def)
     (rule triple_step1, assumption+, simp, rule seq_next, rule parses_variable, rule seq_next, rule parses_type,
      rule seq_directives, rule seq_if_opt, rule parses_default_value, rule seq_end, rule triple_return, erule ready_done)

lemma parses_variable_definitions [parses_rules]:
  "parses input n R_variable_definitions (parse_variable_definitions rn) any"
  unfolding parse_variable_definitions_def [abs_def]
  by (rule parses_weaken, rule parses_many [OF _ parses_variable_definition]) simp

text \<open>The selection set of a definition is within the limit.\<close>

definition operation_within :: "operation_definition \<Rightarrow> bool" where
  "operation_within op \<longleftrightarrow> nested_within (Suc max_recursion_depth) (node (od_selection_set op))"

definition fragment_within :: "fragment_definition \<Rightarrow> bool" where
  "fragment_within frag \<longleftrightarrow> nested_within (Suc max_recursion_depth) (node (fd_selection_set frag))"

fun item_within :: "definition_item \<Rightarrow> bool" where
  "item_within (OperationItem item) \<longleftrightarrow> operation_within (oi_definition (node item))"
| "item_within (FragmentItem item) \<longleftrightarrow> fragment_within (fi_definition (node item))"

lemma parses_named_operation_definition:
  "parses input n R_named_operation_definition (parse_named_operation_definition rn)
     (\<lambda>x. operation_within (oi_definition x))"
proof (rule parsesI)
  fix p assume p: "conforms_pair input p" "p_rule p = R_named_operation_definition"
  show "triple (at_most input (p_start p)) (parse_named_operation_definition rn p)
      (\<lambda>x pc. at_most input (p_end p) pc \<and> operation_within (oi_definition x))"
    unfolding parse_named_operation_definition_def pbind_expect_rule [OF p(2)]
    by (rule triple_ready1 [OF p], rule grammar.simps, rule seq_next, rule parses_operation_type, rule seq_if_opt,
        rule parses_name, rule seq_if_opt, rule parses_variable_definitions, rule seq_directives, rule seq_next,
        rule parses_selection_set, rule seq_end, rule seq_return) (simp add: operation_within_def)
qed

lemma parses_operation_definition_item:
  "parses input n R_operation_definition (parse_operation_definition_item rn)
     (\<lambda>x. operation_within (oi_definition (node x)))"
proof (rule parsesI)
  fix p assume p: "conforms_pair input p" "p_rule p = R_operation_definition"
  let ?arm = "\<lambda>q. if p_rule q = R_named_operation_definition then parse_named_operation_definition rn q
     else if p_rule q = R_selection_set then
       pbind (parse_selection_set rn max_recursion_depth q) (\<lambda>selection_set.
         preturn \<lparr>oi_name = None, oi_definition = \<lparr>od_ty = Query, od_variable_definitions = [],
           od_directives = [], od_selection_set = selection_set\<rparr>\<rparr>)
     else pfail Panicked"
  have arm: "triple (at_most input (p_start q)) (?arm q)
      (\<lambda>x pc. at_most input (p_end q) pc \<and> operation_within (oi_definition x))"
    if q: "conforms_pair input q" "p_rule q \<in> set [R_named_operation_definition, R_selection_set]" for q
    using q(2) parses_pair [OF parses_named_operation_definition q(1) _ lessI]
      triple_map [OF parses_pair [OF parses_selection_set q(1) _ lessI], where Q' = "\<lambda>x. operation_within (oi_definition x)"
        and g = "\<lambda>selection_set. \<lparr>oi_name = None, oi_definition = \<lparr>od_ty = Query, od_variable_definitions = [],
           od_directives = [], od_selection_set = selection_set\<rparr>\<rparr>"]
    by (auto simp: operation_within_def)
  show "triple (at_most input (p_start p)) (parse_operation_definition_item rn p)
      (\<lambda>x pc. at_most input (p_end p) pc \<and> operation_within (oi_definition (node x)))"
    unfolding parse_operation_definition_item_def pbind_expect_rule [OF p(2)]
    by (rule triple_step [OF p(1)], rule seq_choice, simp only: p(2) grammar.simps, rule triple_map, rule arm) auto
qed

lemma parses_fragment_definition_item:
  "parses input n R_fragment_definition (parse_fragment_definition_item rn)
     (\<lambda>x. fragment_within (fi_definition (node x)))"
proof (rule parsesI)
  fix p assume p: "conforms_pair input p" "p_rule p = R_fragment_definition"
  show "triple (at_most input (p_start p)) (parse_fragment_definition_item rn p)
      (\<lambda>x pc. at_most input (p_end p) pc \<and> fragment_within (fi_definition (node x)))"
    unfolding parse_fragment_definition_item_def pbind_expect_rule [OF p(2)]
    by (rule triple_step1 [OF p], rule grammar.simps, rule seq_next, rule parses_name, rule seq_next,
        rule parses_type_condition, rule seq_directives, rule seq_next, rule parses_selection_set, rule seq_end,
        rule seq_return) (simp add: fragment_within_def)
qed

lemma parses_definition_item: "parses input n R_executable_definition (parse_definition_item rn) item_within"
proof (rule parsesI)
  fix p assume p: "conforms_pair input p" "p_rule p = R_executable_definition"
  let ?arm = "\<lambda>q. if p_rule q = R_operation_definition then
       pbind (parse_operation_definition_item rn q) (\<lambda>x. preturn (OperationItem x))
     else if p_rule q = R_fragment_definition then
       pbind (parse_fragment_definition_item rn q) (\<lambda>x. preturn (FragmentItem x))
     else pfail Panicked"
  have arm: "triple (at_most input (p_start q)) (?arm q) (\<lambda>x pc. at_most input (p_end q) pc \<and> item_within x)"
    if q: "conforms_pair input q" "p_rule q \<in> set [R_operation_definition, R_fragment_definition]" for q
    using q(2)
      triple_map [OF parses_pair [OF parses_operation_definition_item q(1) _ lessI], where g = OperationItem and Q' = item_within]
      triple_map [OF parses_pair [OF parses_fragment_definition_item q(1) _ lessI], where g = FragmentItem and Q' = item_within]
    by auto
  show "triple (at_most input (p_start p)) (parse_definition_item rn p)
      (\<lambda>x pc. at_most input (p_end p) pc \<and> item_within x)"
    unfolding parse_definition_item_def pbind_expect_rule [OF p(2)]
    by (rule triple_ready [OF p(1)], rule seq_choice, simp only: p(2) grammar.simps, rule arm)
qed

lemma items_match_eoi:
  assumes "items_match [One r, Many r, One e] rs" "r \<noteq> e"
  shows "items_match [Many r] (filter (\<lambda>x. x \<noteq> e) rs)"
proof -
  have "items_match [Many r, One e] rs" using assms(1) by (cases rs) auto
  then have "dropWhile (\<lambda>x. x = r) rs = [e]" by (auto split: list.splits)
  then have "rs = takeWhile (\<lambda>x. x = r) rs @ [e]" by (metis takeWhile_dropWhile_id)
  moreover have "filter (\<lambda>x. x \<noteq> e) (takeWhile (\<lambda>x. x = r) rs) = takeWhile (\<lambda>x. x = r) rs"
    using assms(2) by (auto simp: filter_id_conv dest: set_takeWhileD)
  ultimately have "filter (\<lambda>x. x \<noteq> e) rs = takeWhile (\<lambda>x. x = r) rs"
    by (metis (mono_tags, lifting) append_Nil2 filter.simps filter_append)
  then show ?thesis by (auto dest: set_takeWhileD)
qed

lemma ordered_filter: "ordered lo ps hi \<Longrightarrow> ordered lo (filter P ps) hi"
  by (induction ps arbitrary: lo) (auto intro: ordered_mono)

lemma ready_eoi:
  assumes "ready input n hi [One r, Many r, One e] ps pc" "r \<noteq> e"
  shows "ready input n hi [Many r] (filter (\<lambda>p. p_rule p \<noteq> e) ps) pc"
proof -
  have "map p_rule (filter (\<lambda>p. p_rule p \<noteq> e) ps) = filter (\<lambda>x. x \<noteq> e) (map p_rule ps)"
    by (simp add: filter_map comp_def)
  then show ?thesis
    using assms items_match_eoi [of r e "map p_rule ps"]
    by (auto simp: ready_def list_all_iff intro: ordered_filter simp del: items_match.simps)
qed

lemma parses_document:
  assumes "grammar r = [[One r', Many r', One R_EOI]]" "r' \<noteq> R_EOI" "parses input n r' f Q"
  shows "parses input n r
    (\<lambda>p. pbind (expect_rule p r) (\<lambda>_. pmap f (filter (\<lambda>p. p_rule p \<noteq> R_EOI) (p_inner p)))) (list_all Q)"
proof (rule parsesI)
  fix p assume p: "conforms_pair input p" "p_rule p = r" "size p < n"
  have "triple (ready input (size p) (p_end p) [One r', Many r', One R_EOI] (p_inner p))
      (pmap f (filter (\<lambda>p. p_rule p \<noteq> R_EOI) (p_inner p))) (\<lambda>xs pc. at_most input (p_end p) pc \<and> list_all Q xs)"
    using seq_many [OF parses_mono [OF assms(3) less_imp_le [OF p(3)]]]
    by (rule triple_conseq) (auto dest: ready_eoi [OF _ assms(2)])
  then show "triple (at_most input (p_start p))
      (pbind (expect_rule p r) (\<lambda>_. pmap f (filter (\<lambda>p. p_rule p \<noteq> R_EOI) (p_inner p))))
      (\<lambda>xs pc. at_most input (p_end p) pc \<and> list_all Q xs)"
    unfolding pbind_expect_rule [OF p(2)] by (rule triple_ready1 [OF p(1,2) assms(1)])
qed

lemma parses_definition_items:
  "parses input n R_executable_document (parse_definition_items rn) (list_all item_within)"
  unfolding parse_definition_items_def [abs_def]
  by (rule parses_document [OF _ _ parses_definition_item]) simp_all

text \<open>What is relied on of \<open>pest\<close>: it returns one pair, for the rule it was asked for, that conforms to the
  grammar.\<close>

definition pest_conforms :: "pest \<Rightarrow> bool" where
  "pest_conforms pest \<longleftrightarrow>
     (\<forall>r input pairs. pest r input = Inr pairs \<longrightarrow> (\<exists>p. pairs = [p] \<and> p_rule p = r \<and> conforms_pair input p))"

lemma parsed_root:
  assumes "pest_conforms pest" "pest r input = Inr pairs" "\<And>n. parses input n r f Q"
  shows "exactly_one pairs f (position_calculator_new input) \<noteq> Inl Panicked"
    and "exactly_one pairs f (position_calculator_new input) = Inr (x, pc) \<Longrightarrow> Q x"
proof -
  obtain p where p: "pairs = [p]" "p_rule p = r" "conforms_pair input p"
    using assms(1,2) unfolding pest_conforms_def by blast
  have "triple (at_most input (p_start p)) (f p) (\<lambda>x pc. at_most input (p_end p) pc \<and> Q x)"
    by (rule parses_pair [OF assms(3) p(3,2) lessI])
  moreover have "at_most input (p_start p) (position_calculator_new input)"
    by (simp add: at_most_def pc_ok_new) (simp add: position_calculator_new_def)
  ultimately show "exactly_one pairs f (position_calculator_new input) \<noteq> Inl Panicked"
    "exactly_one pairs f (position_calculator_new input) = Inr (x, pc) \<Longrightarrow> Q x"
    by (auto simp: triple_def exactly_one_def p(1))
qed

subsection \<open>Operations and fragments of a document\<close>

fun named_operation :: "definition_item \<Rightarrow> (name \<times> operation_definition positioned) option" where
  "named_operation (OperationItem item) =
     map_option (\<lambda>n. (node n, Positioned (pos item) (oi_definition (node item)))) (oi_name (node item))"
| "named_operation (FragmentItem item) = None"

fun anonymous_operation :: "definition_item \<Rightarrow> operation_definition positioned option" where
  "anonymous_operation (OperationItem item) =
     (if oi_name (node item) = None then Some (Positioned (pos item) (oi_definition (node item))) else None)"
| "anonymous_operation (FragmentItem item) = None"

fun fragment_of_item :: "definition_item \<Rightarrow> (name \<times> fragment_definition positioned) option" where
  "fragment_of_item (FragmentItem item) =
     Some (node (fi_name (node item)), Positioned (pos item) (fi_definition (node item)))"
| "fragment_of_item (OperationItem item) = None"

abbreviation "named_operations items \<equiv> List.map_filter named_operation items"
abbreviation "anonymous_operations items \<equiv> List.map_filter anonymous_operation items"
abbreviation "item_fragments items \<equiv> List.map_filter fragment_of_item items"

text \<open>No name is defined twice, and an anonymous operation is the only one.\<close>

definition items_valid :: "definition_item list \<Rightarrow> bool" where
  "items_valid items \<longleftrightarrow>
     distinct (map fst (item_fragments items)) \<and> distinct (map fst (named_operations items)) \<and>
     (anonymous_operations items = [] \<or>
      length (anonymous_operations items) = 1 \<and> named_operations items = [])"

definition operations_of :: "definition_item list \<Rightarrow> document_operations option" where
  "operations_of items =
     (case (named_operations items, anonymous_operations items) of
        ([], []) \<Rightarrow> None
      | ([], op # _) \<Rightarrow> Some (Single op)
      | (ops, _) \<Rightarrow> Some (Multiple ops))"

lemma map_filter_append: "List.map_filter f (xs @ ys) = List.map_filter f xs @ List.map_filter f ys"
  by (simp add: List.map_filter_def)

lemma items_valid_prefix: "items_valid (pre @ items) \<Longrightarrow> items_valid pre"
  by (cases "anonymous_operations pre") (auto simp: items_valid_def map_filter_append)

lemma update_fresh: "map_of m k = None \<Longrightarrow> AList.update k v m = m @ [(k, v)]"
  by (induction m) (auto split: if_splits)

lemma map_of_fst_None: "map_of m k = None \<longleftrightarrow> k \<notin> fst ` set m"
  by (simp add: map_of_eq_None_iff)

lemma add_fragment_Inr:
  assumes "items_valid pre"
  shows "add_fragment item (item_fragments pre) = Inr frags \<longleftrightarrow>
     items_valid (pre @ [FragmentItem item]) \<and> frags = item_fragments (pre @ [FragmentItem item])"
proof (cases "map_of (item_fragments pre) (node (fi_name (node item)))")
  case None
  then show ?thesis
    using assms map_of_fst_None [of "item_fragments pre" "node (fi_name (node item))"]
    by (auto simp: add_fragment_def update_fresh items_valid_def map_filter_append)
next
  case (Some first)
  then have "node (fi_name (node item)) \<in> fst ` set (item_fragments pre)" using map_of_fst_None by (metis option.distinct(1))
  then show ?thesis using Some by (simp add: add_fragment_def items_valid_def map_filter_append)
qed

lemma add_operation_Inr:
  assumes "items_valid pre"
  shows "add_operation item (operations_of pre) = Inr ops \<longleftrightarrow>
     items_valid (pre @ [OperationItem item]) \<and> Some ops = operations_of (pre @ [OperationItem item])"
proof (cases "oi_name (node item)")
  case None
  then show ?thesis
    using assms
    by (cases "named_operations pre"; cases "anonymous_operations pre")
       (auto simp: add_operation_def Let_def operations_of_def items_valid_def map_filter_append)
next
  case (Some n)
  then show ?thesis
    using assms
    by (cases "named_operations pre"; cases "anonymous_operations pre")
       (auto simp: add_operation_def Let_def operations_of_def items_valid_def map_filter_append
          map_of_fst_None update_fresh split: option.splits, force)
qed

lemma add_items_Inr:
  "items_valid pre \<Longrightarrow>
   add_items items (operations_of pre, item_fragments pre) = Inr st \<longleftrightarrow>
     items_valid (pre @ items) \<and> st = (operations_of (pre @ items), item_fragments (pre @ items))"
proof (induction items arbitrary: pre)
  case Nil
  then show ?case by auto
next
  case (Cons i items)
  have next_item: "add_items items (operations_of (pre @ [i]), item_fragments (pre @ [i])) = Inr st \<longleftrightarrow>
      items_valid (pre @ i # items) \<and> st = (operations_of (pre @ i # items), item_fragments (pre @ i # items))"
    if "items_valid (pre @ [i])"
    using Cons.IH [OF that] by simp
  have step: "items_valid (pre @ i # items) \<Longrightarrow> items_valid (pre @ [i])"
    using items_valid_prefix [of "pre @ [i]" items] by simp
  show ?case
  proof (cases i)
    case (OperationItem item)
    have frags: "item_fragments (pre @ [i]) = item_fragments pre" by (simp add: OperationItem map_filter_append)
    obtain ops where ops: "operations_of (pre @ [i]) = Some ops"
      by (cases "oi_name (node item)"; cases "named_operations pre"; cases "anonymous_operations pre")
         (auto simp: OperationItem operations_of_def map_filter_append)
    have "add_items (i # items) (operations_of pre, item_fragments pre) = Inr st \<longleftrightarrow>
        items_valid (pre @ [i]) \<and> add_items items (Some ops, item_fragments pre) = Inr st"
      using add_operation_Inr [OF Cons.prems, of item] ops by (auto simp: OperationItem res_simps)
    then show ?thesis using next_item step ops frags by auto
  next
    case (FragmentItem item)
    have ops: "operations_of (pre @ [i]) = operations_of pre"
      by (simp add: FragmentItem operations_of_def map_filter_append)
    have "add_items (i # items) (operations_of pre, item_fragments pre) = Inr st \<longleftrightarrow>
        items_valid (pre @ [i]) \<and> add_items items (operations_of pre, item_fragments (pre @ [i])) = Inr st"
      using add_fragment_Inr [OF Cons.prems, of item] by (auto simp: FragmentItem res_simps)
    then show ?thesis using next_item step ops by auto
  qed
qed

lemma document_of_items_iff:
  "document_of_items items = Inr doc \<longleftrightarrow>
     items_valid items \<and> operations_of items = Some (doc_operations doc) \<and> doc_fragments doc = item_fragments items"
proof -
  have "items_valid []" "operations_of [] = None" "item_fragments [] = []"
    by (simp_all add: items_valid_def operations_of_def)
  then have "add_items items (None, []) = Inr st \<longleftrightarrow>
      items_valid items \<and> st = (operations_of items, item_fragments items)" for st
    using add_items_Inr [of "[]" items st] by simp
  then show ?thesis
    by (cases doc) (auto simp: document_of_items_def res_simps split: option.splits)
qed

lemma add_items_no_panic:
  "fst st \<noteq> Some (Multiple []) \<Longrightarrow> add_items items st \<noteq> Inl Panicked"
proof (induction items st rule: add_items.induct)
  case (2 item items ops frags)
  have "add_operation item ops \<noteq> Inl Panicked"
    using "2.prems" by (auto simp: add_operation_def Let_def split: option.splits document_operations.splits list.splits)
  moreover have "ops' \<noteq> Multiple []" if "add_operation item ops = Inr ops'" for ops'
  proof -
    have "AList.update k x m \<noteq> []" for k and x :: "operation_definition positioned" and m by (induction m) auto
    then show ?thesis
      using that by (auto simp: add_operation_def Let_def split: option.splits document_operations.splits list.splits)
  qed
  ultimately show ?case using "2.IH" by (auto simp: res_simps)
next
  case (3 item items ops frags)
  then show ?case by (auto simp: res_simps add_fragment_def split: option.splits)
qed simp

lemma parse_query_no_panic_lemma:
  assumes "pest_conforms pest"
  shows "parse_query pest rn input \<noteq> Inl Panicked"
proof (cases "pest R_executable_document input")
  case (Inr pairs)
  have "exactly_one pairs (parse_definition_items rn) (position_calculator_new input) \<noteq> Inl Panicked"
    by (rule parsed_root(1) [OF assms Inr parses_definition_items])
  moreover have "document_of_items items \<noteq> Inl Panicked" for items
    using add_items_no_panic [of "(None, [])" items]
    by (auto simp: document_of_items_def res_simps split: option.splits)
  ultimately show ?thesis using Inr by (auto simp: parse_query_def res_simps)
qed (simp add: parse_query_def)

lemma parse_query_items:
  assumes "pest_conforms pest" "parse_query pest rn input = Inr doc"
  obtains items where "document_of_items items = Inr doc" "list_all item_within items"
proof (cases "pest R_executable_document input")
  case (Inr pairs)
  then obtain items pc where
      items: "exactly_one pairs (parse_definition_items rn) (position_calculator_new input) = Inr (items, pc)"
        "document_of_items items = Inr doc"
    using assms(2) by (auto simp: parse_query_def res_simps)
  then show thesis using that parsed_root(2) [OF assms(1) Inr parses_definition_items] by blast
qed (use assms(2) in \<open>simp add: parse_query_def\<close>)

lemma set_map_filter: "y \<in> set (List.map_filter f xs) \<longleftrightarrow> (\<exists>x\<in>set xs. f x = Some y)"
  by (force simp: List.map_filter_def)

lemma document_operations_cases:
  assumes "document_of_items items = Inr doc"
  obtains (single) op where "doc_operations doc = Single op" "op \<in> set (anonymous_operations items)"
    | (multiple) "doc_operations doc = Multiple (named_operations items)" "distinct (map fst (named_operations items))"
  using assms by (auto simp: document_of_items_iff operations_of_def items_valid_def split: list.splits)

lemma document_operations_items:
  assumes "document_of_items items = Inr doc" "(n, op) \<in> set (operations_iter (doc_operations doc))"
  shows "\<exists>item. OperationItem item \<in> set items \<and> node op = oi_definition (node item)"
  using assms(1)
proof (cases rule: document_operations_cases)
  case (single op')
  then obtain i where "i \<in> set items" "anonymous_operation i = Some op"
    using assms(2) by (auto simp: set_map_filter)
  then show ?thesis by (cases i rule: definition_item.exhaust) (auto split: if_splits)
next
  case multiple
  then obtain i m where "i \<in> set items" "named_operation i = Some (m, op)"
    using assms(2) by (auto simp: set_map_filter)
  then show ?thesis by (cases i rule: definition_item.exhaust) auto
qed

lemma document_fragments_items:
  assumes "document_of_items items = Inr doc" "(n, frag) \<in> set (doc_fragments doc)"
  shows "\<exists>item. FragmentItem item \<in> set items \<and> node frag = fi_definition (node item)"
proof -
  obtain i where "i \<in> set items" "fragment_of_item i = Some (n, frag)"
    using assms by (auto simp: document_of_items_iff set_map_filter)
  then show ?thesis by (cases i rule: definition_item.exhaust) auto
qed

lemma parsed_names_distinct:
  assumes "document_of_items items = Inr doc"
  shows "distinct (map fst (doc_fragments doc))"
    and "distinct (map fst (operations_iter (doc_operations doc)))"
proof -
  show "distinct (map fst (doc_fragments doc))" using assms by (simp add: document_of_items_iff items_valid_def)
  have names: "map fst (operations_iter (Multiple ops)) = map Some (map fst ops)" for ops by auto
  show "distinct (map fst (operations_iter (doc_operations doc)))"
    using assms
  proof (cases rule: document_operations_cases)
    case multiple
    have "distinct (map Some xs) \<longleftrightarrow> distinct xs" for xs :: "name list"
      by (simp add: distinct_map inj_on_def)
    then show ?thesis unfolding multiple(1) names using multiple(2) by blast
  qed simp
qed

end
