(* ===== verification/Parser_Service.thy ===== *)
theory Parser_Service
  imports Parser_Executable
begin

text \<open>
  Schema documents: \<open>parser/src/types/service.rs\<close> and \<open>parser/src/parse/service.rs\<close>.

  The arms of the \<open>match\<close> of \<open>parse_type_definition\<close> are \<open>parse_kind\<close>.
  Lemmas: \<open>parse_schema\<close> never panics on the pairs the grammar admits; a schema definition that is not an
  extension has a query root; a directive definition is always marked repeatable, since the grammar's rule
  \<open>repeatable\<close> leaves a pair whether or not the keyword is there.
\<close>

subsection \<open>Documents\<close>

record schema_definition =
  sd_extend :: bool
  sd_directives :: "const_directive positioned list"
  sd_query :: "name positioned option"
  sd_mutation :: "name positioned option"
  sd_subscription :: "name positioned option"

record input_value_definition =
  ivd_description :: "string positioned option"
  ivd_name :: "name positioned"
  ivd_ty :: "gtype positioned"
  ivd_default_value :: "const_value positioned option"
  ivd_directives :: "const_directive positioned list"

record field_definition =
  fld_description :: "string positioned option"
  fld_name :: "name positioned"
  fld_arguments :: "input_value_definition positioned list"
  fld_ty :: "gtype positioned"
  fld_directives :: "const_directive positioned list"

record enum_value_definition =
  evd_description :: "string positioned option"
  evd_value :: "name positioned"
  evd_directives :: "const_directive positioned list"

text \<open>\<open>ObjectType\<close> and \<open>InterfaceType\<close> have the same fields.\<close>

record fields_kind =
  k_implements :: "name positioned list"
  k_fields :: "field_definition positioned list"

datatype type_kind =
    KScalar
  | KObject fields_kind
  | KInterface fields_kind
  | KUnion "name positioned list"
  | KEnum "enum_value_definition positioned list"
  | KInputObject "input_value_definition positioned list"

record type_definition =
  td_extend :: bool
  td_description :: "string positioned option"
  td_name :: "name positioned"
  td_directives :: "const_directive positioned list"
  td_kind :: type_kind

datatype parsed_location =
    DL_Query | DL_Mutation | DL_Subscription | DL_Field | DL_FragmentDefinition | DL_FragmentSpread
  | DL_InlineFragment | DL_Schema | DL_Scalar | DL_Object | DL_FieldDefinition | DL_ArgumentDefinition
  | DL_Interface | DL_Union | DL_Enum | DL_EnumValue | DL_InputObject | DL_InputFieldDefinition
  | DL_VariableDefinition

record directive_definition =
  dd_description :: "string positioned option"
  dd_name :: "name positioned"
  dd_arguments :: "input_value_definition positioned list"
  dd_is_repeatable :: bool
  dd_locations :: "parsed_location positioned list"

datatype type_system_definition =
    SchemaDef "schema_definition positioned"
  | TypeDef "type_definition positioned"
  | DirectiveDef "directive_definition positioned"

record service_document =
  definitions :: "type_system_definition list"

subsection \<open>Fields and input values\<close>

definition parse_input_value_definition ::
  "number_reader \<Rightarrow> pair \<Rightarrow> input_value_definition positioned parser" where
  "parse_input_value_definition rn pair =
     pbind (expect_rule pair R_input_value_definition) (\<lambda>_.
     pbind (pc_step pair) (\<lambda>pos.
     pbind (parse_if_rule (p_inner pair) R_string parse_string) (\<lambda>(description, pairs).
     pbind (parse_next pairs parse_name) (\<lambda>(n, pairs).
     pbind (parse_next pairs parse_type) (\<lambda>(ty, pairs).
     pbind (parse_if_rule pairs R_default_value (parse_default_value rn)) (\<lambda>(default_value, pairs).
     pbind (parse_opt_const_directives rn pairs) (\<lambda>(directives, pairs).
       preturn (Positioned pos
         \<lparr>ivd_description = description, ivd_name = n, ivd_ty = ty, ivd_default_value = default_value,
          ivd_directives = directives\<rparr>))))))))"

definition parse_arguments_definition ::
  "number_reader \<Rightarrow> pair \<Rightarrow> input_value_definition positioned list parser" where
  "parse_arguments_definition rn pair =
     pbind (expect_rule pair R_arguments_definition) (\<lambda>_. pmap (parse_input_value_definition rn) (p_inner pair))"

definition parse_field_definition :: "number_reader \<Rightarrow> pair \<Rightarrow> field_definition positioned parser" where
  "parse_field_definition rn pair =
     pbind (expect_rule pair R_field_definition) (\<lambda>_.
     pbind (pc_step pair) (\<lambda>pos.
     pbind (parse_if_rule (p_inner pair) R_string parse_string) (\<lambda>(description, pairs).
     pbind (parse_next pairs parse_name) (\<lambda>(n, pairs).
     pbind (parse_if_rule pairs R_arguments_definition (parse_arguments_definition rn)) (\<lambda>(arguments, pairs).
     pbind (parse_next pairs parse_type) (\<lambda>(ty, pairs).
     pbind (parse_opt_const_directives rn pairs) (\<lambda>(directives, pairs).
     pbind (expect_end pairs) (\<lambda>_.
       preturn (Positioned pos
         \<lparr>fld_description = description, fld_name = n, fld_arguments = unwrap_or_default arguments,
          fld_ty = ty, fld_directives = directives\<rparr>)))))))))"

definition parse_fields_definition :: "number_reader \<Rightarrow> pair \<Rightarrow> field_definition positioned list parser" where
  "parse_fields_definition rn pair =
     pbind (expect_rule pair R_fields_definition) (\<lambda>_. pmap (parse_field_definition rn) (p_inner pair))"

subsection \<open>Types\<close>

definition parse_names :: "rule \<Rightarrow> pair \<Rightarrow> name positioned list parser" where
  "parse_names rule pair = pbind (expect_rule pair rule) (\<lambda>_. pmap parse_name (p_inner pair))"

definition parse_enum_value_definition ::
  "number_reader \<Rightarrow> pair \<Rightarrow> enum_value_definition positioned parser" where
  "parse_enum_value_definition rn pair =
     pbind (expect_rule pair R_enum_value_definition) (\<lambda>_.
     pbind (pc_step pair) (\<lambda>pos.
     pbind (parse_if_rule (p_inner pair) R_string parse_string) (\<lambda>(description, pairs).
     pbind (parse_next pairs parse_enum_value) (\<lambda>(value, pairs).
     pbind (parse_opt_const_directives rn pairs) (\<lambda>(directives, pairs).
     pbind (expect_end pairs) (\<lambda>_.
       preturn (Positioned pos
         \<lparr>evd_description = description, evd_value = value, evd_directives = directives\<rparr>)))))))"

definition parse_enum_values :: "number_reader \<Rightarrow> pair \<Rightarrow> enum_value_definition positioned list parser" where
  "parse_enum_values rn pair =
     pbind (expect_rule pair R_enum_values) (\<lambda>_. pmap (parse_enum_value_definition rn) (p_inner pair))"

definition parse_input_fields :: "number_reader \<Rightarrow> pair \<Rightarrow> input_value_definition positioned list parser" where
  "parse_input_fields rn pair =
     pbind (expect_rule pair R_input_fields_definition) (\<lambda>_.
       pmap (parse_input_value_definition rn) (p_inner pair))"

definition parse_fields_kind ::
  "number_reader \<Rightarrow> (fields_kind \<Rightarrow> type_kind) \<Rightarrow> pair list \<Rightarrow>
   ((const_directive positioned list \<times> type_kind) \<times> pair list) parser" where
  "parse_fields_kind rn kind pairs =
     pbind (parse_if_rule pairs R_implements_interfaces (parse_names R_implements_interfaces)) (\<lambda>(implements, pairs).
     pbind (parse_opt_const_directives rn pairs) (\<lambda>(directives, pairs).
     pbind (parse_if_rule pairs R_fields_definition (parse_fields_definition rn)) (\<lambda>(fields, pairs).
       preturn
         ((directives,
           kind \<lparr>k_implements = unwrap_or_default implements, k_fields = unwrap_or_default fields\<rparr>), pairs))))"

definition parse_members_kind ::
  "number_reader \<Rightarrow> rule \<Rightarrow> (pair \<Rightarrow> 'a list parser) \<Rightarrow> ('a list \<Rightarrow> type_kind) \<Rightarrow> pair list \<Rightarrow>
   ((const_directive positioned list \<times> type_kind) \<times> pair list) parser" where
  "parse_members_kind rn rule parse_members kind pairs =
     pbind (parse_opt_const_directives rn pairs) (\<lambda>(directives, pairs).
     pbind (parse_if_rule pairs rule parse_members) (\<lambda>(members, pairs).
       preturn ((directives, kind (unwrap_or_default members)), pairs)))"

definition parse_kind ::
  "number_reader \<Rightarrow> rule \<Rightarrow> pair list \<Rightarrow> ((const_directive positioned list \<times> type_kind) \<times> pair list) parser" where
  "parse_kind rn rule pairs =
     (if rule = R_scalar_type then
        pbind (parse_opt_const_directives rn pairs) (\<lambda>(directives, pairs). preturn ((directives, KScalar), pairs))
      else if rule = R_object_type then parse_fields_kind rn KObject pairs
      else if rule = R_interface_type then parse_fields_kind rn KInterface pairs
      else if rule = R_union_type then
        parse_members_kind rn R_union_member_types (parse_names R_union_member_types) KUnion pairs
      else if rule = R_enum_type then parse_members_kind rn R_enum_values (parse_enum_values rn) KEnum pairs
      else if rule = R_input_object_type then
        parse_members_kind rn R_input_fields_definition (parse_input_fields rn) KInputObject pairs
      else pfail Panicked)"

definition parse_type_definition :: "number_reader \<Rightarrow> pair \<Rightarrow> type_definition positioned parser" where
  "parse_type_definition rn pair =
     pbind (expect_rule pair R_type_definition) (\<lambda>_.
     pbind (pc_step pair) (\<lambda>pos.
       exactly_one (p_inner pair) (\<lambda>p.
         pbind (parse_if_rule (p_inner p) R_string parse_string) (\<lambda>(description, pairs).
         case next_if_rule pairs R_extend of (ext, pairs) \<Rightarrow>
         pbind (parse_next pairs parse_name) (\<lambda>(n, pairs).
         pbind (parse_kind rn (p_rule p) pairs) (\<lambda>((directives, kind), pairs).
         pbind (expect_end pairs) (\<lambda>_.
           preturn (Positioned pos
             \<lparr>td_extend = (ext \<noteq> None), td_description = description, td_name = n,
              td_directives = directives, td_kind = kind\<rparr>))))))))"

subsection \<open>Schemas and directives\<close>

record schema_roots =
  r_query :: "name positioned option"
  r_mutation :: "name positioned option"
  r_subscription :: "name positioned option"

definition set_root ::
  "pos \<Rightarrow> operation_type positioned \<Rightarrow> name positioned \<Rightarrow> schema_roots \<Rightarrow> parse_failure + schema_roots" where
  "set_root schema_pos ty n roots =
     (let multiple = Inl (Failed (MultipleRoots (node ty) schema_pos (pos ty)))
      in case node ty of
           Query \<Rightarrow> if r_query roots = None then Inr (roots\<lparr>r_query := Some n\<rparr>) else multiple
         | Mutation \<Rightarrow> if r_mutation roots = None then Inr (roots\<lparr>r_mutation := Some n\<rparr>) else multiple
         | Subscription \<Rightarrow>
             if r_subscription roots = None then Inr (roots\<lparr>r_subscription := Some n\<rparr>) else multiple)"

definition parse_root :: "pos \<Rightarrow> schema_roots \<Rightarrow> pair \<Rightarrow> schema_roots parser" where
  "parse_root schema_pos roots pair =
     pbind (expect_rule pair R_operation_type_definition) (\<lambda>_.
     pbind (parse_next (p_inner pair) parse_operation_type) (\<lambda>(ty, pairs).
     pbind (parse_next pairs parse_name) (\<lambda>(n, pairs).
     pbind (lift_result (set_root schema_pos ty n roots)) (\<lambda>roots.
     pbind (expect_end pairs) (\<lambda>_. preturn roots)))))"

fun parse_roots :: "pos \<Rightarrow> pair list \<Rightarrow> schema_roots \<Rightarrow> schema_roots parser" where
  "parse_roots schema_pos [] roots = preturn roots"
| "parse_roots schema_pos (pair # rest) roots =
     pbind (parse_root schema_pos roots pair) (\<lambda>roots. parse_roots schema_pos rest roots)"

definition parse_schema_definition :: "number_reader \<Rightarrow> pair \<Rightarrow> schema_definition positioned parser" where
  "parse_schema_definition rn pair =
     pbind (expect_rule pair R_schema_definition) (\<lambda>_.
     pbind (pc_step pair) (\<lambda>pos.
     case next_if_rule (p_inner pair) R_extend of (ext, pairs) \<Rightarrow>
     pbind (parse_opt_const_directives rn pairs) (\<lambda>(directives, pairs).
     pbind (parse_roots pos pairs \<lparr>r_query = None, r_mutation = None, r_subscription = None\<rparr>) (\<lambda>roots.
       if ext = None \<and> r_query roots = None then pfail (Failed (MissingQueryRoot pos))
       else
         preturn (Positioned pos
           \<lparr>sd_extend = (ext \<noteq> None), sd_directives = directives, sd_query = r_query roots,
            sd_mutation = r_mutation roots, sd_subscription = r_subscription roots\<rparr>)))))"

definition location_of_name :: "string \<Rightarrow> parsed_location option" where
  "location_of_name s =
     map_of
       [(''QUERY'', DL_Query), (''MUTATION'', DL_Mutation), (''SUBSCRIPTION'', DL_Subscription),
        (''FIELD'', DL_Field), (''FRAGMENT_DEFINITION'', DL_FragmentDefinition),
        (''FRAGMENT_SPREAD'', DL_FragmentSpread), (''INLINE_FRAGMENT'', DL_InlineFragment),
        (''VARIABLE_DEFINITION'', DL_VariableDefinition), (''SCHEMA'', DL_Schema), (''SCALAR'', DL_Scalar),
        (''OBJECT'', DL_Object), (''FIELD_DEFINITION'', DL_FieldDefinition),
        (''ARGUMENT_DEFINITION'', DL_ArgumentDefinition), (''INTERFACE'', DL_Interface), (''UNION'', DL_Union),
        (''ENUM'', DL_Enum), (''ENUM_VALUE'', DL_EnumValue), (''INPUT_OBJECT'', DL_InputObject),
        (''INPUT_FIELD_DEFINITION'', DL_InputFieldDefinition)] s"

definition parse_location :: "pair \<Rightarrow> parsed_location positioned parser" where
  "parse_location pair =
     pbind (pc_step pair) (\<lambda>pos.
     pbind (expect_rule pair R_directive_location) (\<lambda>_.
       case location_of_name (p_str pair) of
         Some l \<Rightarrow> preturn (Positioned pos l)
       | None \<Rightarrow> pfail Panicked))"

definition parse_directive_locations :: "pair \<Rightarrow> parsed_location positioned list parser" where
  "parse_directive_locations pair =
     pbind (expect_rule pair R_directive_locations) (\<lambda>_. pmap parse_location (p_inner pair))"

definition parse_directive_definition :: "number_reader \<Rightarrow> pair \<Rightarrow> directive_definition positioned parser" where
  "parse_directive_definition rn pair =
     pbind (expect_rule pair R_directive_definition) (\<lambda>_.
     pbind (pc_step pair) (\<lambda>pos.
     pbind (parse_if_rule (p_inner pair) R_string parse_string) (\<lambda>(description, pairs).
     pbind (parse_next pairs parse_name) (\<lambda>(n, pairs).
     pbind (parse_if_rule pairs R_arguments_definition (parse_arguments_definition rn)) (\<lambda>(arguments, pairs).
     pbind (parse_if_rule pairs R_repeatable (\<lambda>p. pbind (expect_rule p R_repeatable) preturn)) (\<lambda>(repeatable, pairs).
     pbind (parse_next pairs parse_directive_locations) (\<lambda>(locations, pairs).
     pbind (expect_end pairs) (\<lambda>_.
       preturn (Positioned pos
         \<lparr>dd_description = description, dd_name = n, dd_arguments = unwrap_or_default arguments,
          dd_is_repeatable = (repeatable \<noteq> None), dd_locations = locations\<rparr>)))))))))"

definition parse_type_system_definition :: "number_reader \<Rightarrow> pair \<Rightarrow> type_system_definition parser" where
  "parse_type_system_definition rn pair =
     pbind (expect_rule pair R_type_system_definition) (\<lambda>_.
       exactly_one (p_inner pair) (\<lambda>p.
         if p_rule p = R_schema_definition then
           pbind (parse_schema_definition rn p) (\<lambda>x. preturn (SchemaDef x))
         else if p_rule p = R_type_definition then pbind (parse_type_definition rn p) (\<lambda>x. preturn (TypeDef x))
         else if p_rule p = R_directive_definition then
           pbind (parse_directive_definition rn p) (\<lambda>x. preturn (DirectiveDef x))
         else pfail Panicked))"

definition parse_service_document :: "number_reader \<Rightarrow> pair \<Rightarrow> service_document parser" where
  "parse_service_document rn pair =
     pbind (pbind (expect_rule pair R_service_document) (\<lambda>_.
       pmap (parse_type_system_definition rn) (filter (\<lambda>p. p_rule p \<noteq> R_EOI) (p_inner pair))))
       (\<lambda>defs. preturn \<lparr>definitions = defs\<rparr>)"

definition parse_schema :: "pest \<Rightarrow> number_reader \<Rightarrow> string \<Rightarrow> parse_failure + service_document" where
  "parse_schema pest rn input =
     (case pest R_service_document input of
        Inl err \<Rightarrow> Inl (Failed (syntax_error err))
      | Inr pairs \<Rightarrow>
          map_ok fst (exactly_one pairs (parse_service_document rn) (position_calculator_new input)))"

subsection \<open>No panics\<close>

lemma parses_input_value_definition [parses_rules]:
  "parses input n R_input_value_definition (parse_input_value_definition rn) any"
  by (rule parsesI, simp add: parse_input_value_definition_def)
     (rule triple_step1, assumption+, simp, rule seq_if_opt, rule parses_string, rule seq_next, rule parses_name,
      rule seq_next, rule parses_type, rule seq_if_opt, rule parses_default_value, rule seq_const_directives,
      rule triple_return, erule ready_done)

lemma parses_arguments_definition [parses_rules]:
  "parses input n R_arguments_definition (parse_arguments_definition rn) any"
  unfolding parse_arguments_definition_def [abs_def]
  by (rule parses_weaken, rule parses_plus [OF _ parses_input_value_definition]) simp

lemma parses_field_definition [parses_rules]: "parses input n R_field_definition (parse_field_definition rn) any"
  by (rule parsesI, simp add: parse_field_definition_def)
     (rule triple_step1, assumption+, simp, rule seq_if_opt, rule parses_string, rule seq_next, rule parses_name,
      rule seq_if_opt, rule parses_arguments_definition, rule seq_next, rule parses_type, rule seq_const_directives,
      rule seq_end, rule triple_return, erule ready_done)

lemma parses_fields_definition [parses_rules]:
  "parses input n R_fields_definition (parse_fields_definition rn) any"
  unfolding parse_fields_definition_def [abs_def]
  by (rule parses_weaken, rule parses_plus [OF _ parses_field_definition]) simp

lemma parses_names:
  "grammar r = [[One R_name, Many R_name]] \<Longrightarrow> parses input n r (parse_names r) any"
  unfolding parse_names_def [abs_def] by (rule parses_weaken, rule parses_plus [OF _ parses_name])

lemma parses_implements [parses_rules]:
  "parses input n R_implements_interfaces (parse_names R_implements_interfaces) any"
  by (rule parses_names) simp

lemma parses_members [parses_rules]: "parses input n R_union_member_types (parse_names R_union_member_types) any"
  by (rule parses_names) simp

lemma parses_enum_value_definition [parses_rules]:
  "parses input n R_enum_value_definition (parse_enum_value_definition rn) any"
  by (rule parsesI, simp add: parse_enum_value_definition_def)
     (rule triple_step1, assumption+, simp, rule seq_if_opt, rule parses_string, rule seq_next,
      rule parses_enum_value, rule seq_const_directives, rule seq_end, rule triple_return, erule ready_done)

lemma parses_enum_values [parses_rules]: "parses input n R_enum_values (parse_enum_values rn) any"
  unfolding parse_enum_values_def [abs_def]
  by (rule parses_weaken, rule parses_plus [OF _ parses_enum_value_definition]) simp

lemma parses_input_fields [parses_rules]:
  "parses input n R_input_fields_definition (parse_input_fields rn) any"
  unfolding parse_input_fields_def [abs_def]
  by (rule parses_weaken, rule parses_plus [OF _ parses_input_value_definition]) simp

text \<open>The optional keyword \<open>extend\<close>.\<close>

lemma seq_extend_skip:
  assumes "\<not> starts is R_extend" "triple (ready input n hi is ps) (g None ps) R"
  shows "triple (ready input n hi is ps) (case next_if_rule ps R_extend of (x, qs) \<Rightarrow> g x qs) R"
proof (cases "\<exists>p qs. ps = p # qs \<and> p_rule p = R_extend")
  case True
  then show ?thesis using assms(1) by (auto simp: triple_def dest!: ready_Cons items_match_starts)
next
  case False
  then show ?thesis using assms(2) by (cases ps) (auto simp: next_if_rule_def)
qed

lemma seq_extend:
  assumes "\<And>p qs. triple (ready input n hi is qs) (g (Some p) qs) R"
  shows "triple (ready input n hi (One R_extend # is) ps) (case next_if_rule ps R_extend of (x, qs) \<Rightarrow> g x qs) R"
proof (cases ps)
  case (Cons p qs)
  show ?thesis
  proof (cases "p_rule p = R_extend")
    case True
    have "triple (ready input n hi (One R_extend # is) ps) (g (Some p) qs) R"
      by (rule triple_conseq [OF assms])
         (use Cons in \<open>auto simp: ready_def intro: at_most_mono ordered_mono\<close>)
    then show ?thesis using True Cons by (simp add: next_if_rule_def)
  qed (simp add: Cons triple_def ready_def)
qed (simp add: triple_def ready_def)

lemmas seq_opt_rules = seq_if_opt seq_if_one seq_const_directives seq_const_directives_one
lemmas seq_skip_rules = seq_if_skip seq_const_directives_skip

lemma fields_kind_ok:
  assumes "is \<in> {[Opt R_implements_interfaces, Opt R_const_directives, Opt R_fields_definition],
    [Opt R_implements_interfaces, Opt R_const_directives, One R_fields_definition],
    [Opt R_implements_interfaces, One R_const_directives], [One R_implements_interfaces]}"
  shows "triple (ready input n hi is ps) (parse_fields_kind rn kind ps) (\<lambda>x. ready input n hi [] (snd x))"
  using assms unfolding parse_fields_kind_def
  by (elim insertE emptyE; simp only:)
     ((rule seq_opt_rules parses_rules | (rule seq_skip_rules, (simp; fail)) | (rule triple_return, (simp; fail)))+)

lemma members_kind_ok:
  assumes "parses input n r f any" "r \<noteq> R_const_directives"
    and "is \<in> {[Opt R_const_directives, Opt r], [Opt R_const_directives, One r], [One R_const_directives]}"
  shows "triple (ready input n hi is ps) (parse_members_kind rn r f kind ps) (\<lambda>x. ready input n hi [] (snd x))"
  using assms(3) unfolding parse_members_kind_def
  by (elim insertE emptyE; simp only:)
     ((rule seq_opt_rules assms(1) | (rule seq_skip_rules, (simp; fail)) | (rule triple_return, (simp; fail)))+)

lemma scalar_kind_ok:
  assumes "is \<in> {[Opt R_const_directives], [One R_const_directives]}"
  shows "triple (ready input n hi is ps)
    (pbind (parse_opt_const_directives rn ps) (\<lambda>(directives, ps). preturn ((directives, KScalar), ps)))
    (\<lambda>x. ready input n hi [] (snd x))"
  using assms
  by (elim insertE emptyE; simp only:)
     ((rule seq_opt_rules | (rule triple_return, (simp; fail)))+)

text \<open>What follows the name of a type of each kind.\<close>

fun kind_items :: "rule \<Rightarrow> item list list" where
  "kind_items R_scalar_type = [[Opt R_const_directives], [One R_const_directives]]"
| "kind_items R_object_type =
     [[Opt R_implements_interfaces, Opt R_const_directives, Opt R_fields_definition],
      [Opt R_implements_interfaces, Opt R_const_directives, One R_fields_definition],
      [Opt R_implements_interfaces, One R_const_directives], [One R_implements_interfaces]]"
| "kind_items R_interface_type =
     [[Opt R_implements_interfaces, Opt R_const_directives, Opt R_fields_definition],
      [Opt R_implements_interfaces, Opt R_const_directives, One R_fields_definition],
      [Opt R_implements_interfaces, One R_const_directives]]"
| "kind_items R_union_type =
     [[Opt R_const_directives, Opt R_union_member_types], [Opt R_const_directives, One R_union_member_types],
      [One R_const_directives]]"
| "kind_items R_enum_type =
     [[Opt R_const_directives, Opt R_enum_values], [Opt R_const_directives, One R_enum_values],
      [One R_const_directives]]"
| "kind_items R_input_object_type =
     [[Opt R_const_directives, Opt R_input_fields_definition],
      [Opt R_const_directives, One R_input_fields_definition], [One R_const_directives]]"
| "kind_items _ = []"

abbreviation type_rules :: "rule list" where
  "type_rules \<equiv> [R_scalar_type, R_object_type, R_interface_type, R_union_type, R_enum_type, R_input_object_type]"

lemma type_grammar:
  assumes "r \<in> set type_rules" "is \<in> set (grammar r)"
  shows "\<exists>rest\<in>set (kind_items r). is = Opt R_string # One R_name # rest \<or> is = One R_extend # One R_name # rest"
  using assms by auto

lemma kind_ok:
  assumes "r \<in> set type_rules" "is \<in> set (kind_items r)"
  shows "triple (ready input n hi is ps) (parse_kind rn r ps) (\<lambda>x. ready input n hi [] (snd x))"
  using assms unfolding parse_kind_def
  by (auto intro!: fields_kind_ok scalar_kind_ok members_kind_ok parses_members parses_enum_values parses_input_fields)

lemma type_body_ok:
  assumes q: "conforms_pair input q" "p_rule q \<in> set type_rules"
  shows "triple (at_most input (p_start q))
    (pbind (parse_if_rule (p_inner q) R_string parse_string) (\<lambda>(description, pairs).
       case next_if_rule pairs R_extend of (ext, pairs) \<Rightarrow>
       pbind (parse_next pairs parse_name) (\<lambda>(n, pairs).
       pbind (parse_kind rn (p_rule q) pairs) (\<lambda>((directives, kind), pairs).
       pbind (expect_end pairs) (\<lambda>_. preturn (g description ext n directives kind))))))
    (\<lambda>x pc. at_most input (p_end q) pc \<and> True)"
proof (rule triple_ready [OF q(1)])
  fix "is" assume "is \<in> set (grammar (p_rule q))"
  then obtain rest where rest: "rest \<in> set (kind_items (p_rule q))"
    and "is": "is = Opt R_string # One R_name # rest \<or> is = One R_extend # One R_name # rest"
    using type_grammar [OF q(2)] by blast
  have tail: "triple (ready input (size q) (p_end q) rest ps)
      (pbind (parse_kind rn (p_rule q) ps) (\<lambda>((directives, kind), pairs).
         pbind (expect_end pairs) (\<lambda>_. preturn (g description ext n directives kind))))
      (\<lambda>x pc. at_most input (p_end q) pc \<and> True)" for ps description ext n
    by (rule triple_bind [OF kind_ok [OF q(2) rest]], simp add: split_beta) (rule seq_end, rule triple_return, erule ready_done)
  let ?body = "pbind (parse_if_rule (p_inner q) R_string parse_string) (\<lambda>(description, pairs).
       case next_if_rule pairs R_extend of (ext, pairs) \<Rightarrow>
       pbind (parse_next pairs parse_name) (\<lambda>(n, pairs).
       pbind (parse_kind rn (p_rule q) pairs) (\<lambda>((directives, kind), pairs).
       pbind (expect_end pairs) (\<lambda>_. preturn (g description ext n directives kind)))))"
  have "triple (ready input (size q) (p_end q) (Opt R_string # One R_name # rest) (p_inner q)) ?body
      (\<lambda>x pc. at_most input (p_end q) pc \<and> True)"
    by (rule seq_if_opt, rule parses_string, rule seq_extend_skip, simp, rule seq_next, rule parses_name, rule tail)
  moreover have "triple (ready input (size q) (p_end q) (One R_extend # One R_name # rest) (p_inner q)) ?body
      (\<lambda>x pc. at_most input (p_end q) pc \<and> True)"
    by (rule seq_if_skip, simp, rule seq_extend, rule seq_next, rule parses_name, rule tail)
  ultimately show "triple (ready input (size q) (p_end q) is (p_inner q)) ?body
      (\<lambda>x pc. at_most input (p_end q) pc \<and> True)"
    using "is" by blast
qed

lemma parses_type_definition [parses_rules]:
  "parses input n R_type_definition (parse_type_definition rn) any"
proof (rule parsesI)
  fix p assume p: "conforms_pair input p" "p_rule p = R_type_definition"
  show "triple (at_most input (p_start p)) (parse_type_definition rn p) (\<lambda>x pc. at_most input (p_end p) pc \<and> True)"
    unfolding parse_type_definition_def pbind_expect_rule [OF p(2)]
    by (rule triple_step [OF p(1)], rule seq_choice, simp only: p(2) grammar.simps, rule type_body_ok)
qed

lemma set_root_no_panic: "set_root schema_pos ty n roots \<noteq> Inl Panicked"
  by (cases "node ty") (auto simp: set_root_def Let_def)

lemma parses_root: "parses input n R_operation_type_definition (parse_root schema_pos roots) any"
proof (rule parsesI)
  fix p assume p: "conforms_pair input p" "p_rule p = R_operation_type_definition"
  show "triple (at_most input (p_start p)) (parse_root schema_pos roots p) (\<lambda>x pc. at_most input (p_end p) pc \<and> True)"
    unfolding parse_root_def pbind_expect_rule [OF p(2)]
    by (rule triple_ready1 [OF p], rule grammar.simps, rule seq_next, rule parses_operation_type, rule seq_next,
        rule parses_name, rule triple_lift, rule set_root_no_panic, rule seq_end, rule seq_return) simp
qed

lemma parse_roots_ok:
  "triple (ready input n hi [Many R_operation_type_definition] ps) (parse_roots schema_pos ps roots)
     (\<lambda>x. at_most input hi)"
proof (induction ps arbitrary: roots)
  case Nil
  then show ?case by (auto intro!: triple_return dest: ready_done)
next
  case (Cons p ps)
  show ?case
    unfolding parse_roots.simps
    by (rule triple_first [OF parses_root, where is' = "[Many R_operation_type_definition]"])
       (use Cons.IH in \<open>auto dest!: ready_Cons split: if_splits\<close>)
qed

definition schema_has_query :: "schema_definition positioned \<Rightarrow> bool" where
  "schema_has_query sd \<longleftrightarrow> sd_extend (node sd) \<or> sd_query (node sd) \<noteq> None"

lemma schema_tail_ok:
  assumes "is \<in> {[One R_operation_type_definition, Many R_operation_type_definition], []}"
  shows "triple (ready input n hi is ps)
    (pbind (parse_roots p ps roots) (\<lambda>roots.
       if ext = None \<and> r_query roots = None then pfail (Failed (MissingQueryRoot p))
       else preturn (Positioned p
         \<lparr>sd_extend = (ext \<noteq> None), sd_directives = directives, sd_query = r_query roots,
          sd_mutation = r_mutation roots, sd_subscription = r_subscription roots\<rparr>)))
    (\<lambda>x pc. at_most input hi pc \<and> schema_has_query x)"
proof (rule triple_bind)
  show "triple (ready input n hi is ps) (parse_roots p ps roots) (\<lambda>x. at_most input hi)"
    by (rule triple_conseq [OF parse_roots_ok])
       (use assms ready_plus in \<open>force simp: ready_def dest: ready_plus\<close>)+
qed (auto intro: triple_fail intro!: triple_return simp: schema_has_query_def)

lemma parses_schema_definition: "parses input n R_schema_definition (parse_schema_definition rn) schema_has_query"
proof (rule parsesI)
  fix p assume p: "conforms_pair input p" "p_rule p = R_schema_definition"
  show "triple (at_most input (p_start p)) (parse_schema_definition rn p)
      (\<lambda>x pc. at_most input (p_end p) pc \<and> schema_has_query x)"
    unfolding parse_schema_definition_def pbind_expect_rule [OF p(2)]
  proof (rule triple_step [OF p(1)])
    fix "is" assume "is \<in> set (grammar (p_rule p))"
    then consider
        (plain) "is = [Opt R_const_directives, One R_operation_type_definition, Many R_operation_type_definition]"
      | (roots) "is = [One R_extend, Opt R_const_directives, One R_operation_type_definition, Many R_operation_type_definition]"
      | (directives) "is = [One R_extend, One R_const_directives]"
      using p(2) by auto
    then show "triple (ready input (size p) (p_end p) is (p_inner p))
        (case next_if_rule (p_inner p) R_extend of (ext, pairs) \<Rightarrow>
           pbind (parse_opt_const_directives rn pairs) (\<lambda>(directives, pairs).
           pbind (parse_roots (pos_of input (p_start p)) pairs \<lparr>r_query = None, r_mutation = None, r_subscription = None\<rparr>)
             (\<lambda>roots. if ext = None \<and> r_query roots = None then pfail (Failed (MissingQueryRoot (pos_of input (p_start p))))
               else preturn (Positioned (pos_of input (p_start p))
                 \<lparr>sd_extend = (ext \<noteq> None), sd_directives = directives, sd_query = r_query roots,
                  sd_mutation = r_mutation roots, sd_subscription = r_subscription roots\<rparr>))))
        (\<lambda>x pc. at_most input (p_end p) pc \<and> schema_has_query x)"
    proof cases
      case plain
      show ?thesis unfolding plain
        by (rule seq_extend_skip, simp, rule seq_const_directives, rule schema_tail_ok) simp
    next
      case roots
      show ?thesis unfolding roots
        by (rule seq_extend, rule seq_const_directives, rule schema_tail_ok) simp
    next
      case directives
      show ?thesis unfolding directives
        by (rule seq_extend, rule seq_const_directives_one, rule schema_tail_ok) simp
    qed
  qed
qed

lemma location_of_name_known: "s \<in> set directive_location_names \<Longrightarrow> \<exists>l. location_of_name s = Some l"
  by (auto simp: directive_location_names_def location_of_name_def)

lemma parses_location [parses_rules]: "parses input n R_directive_location parse_location any"
proof (rule parsesI)
  fix p assume p: "conforms_pair input p" "p_rule p = R_directive_location"
  obtain l where "location_of_name (p_str p) = Some l"
    using token_textD [OF p(1)] p(2) location_of_name_known by auto
  then show "triple (at_most input (p_start p)) (parse_location p) (\<lambda>x pc. at_most input (p_end p) pc \<and> True)"
    unfolding parse_location_def pbind_expect_rule [OF p(2)]
    by (intro triple_step1 [OF p]) (auto intro!: triple_return dest: ready_done)
qed

lemma parses_directive_locations [parses_rules]:
  "parses input n R_directive_locations parse_directive_locations any"
  unfolding parse_directive_locations_def [abs_def]
  by (rule parses_weaken, rule parses_plus [OF _ parses_location]) simp

lemma parses_repeatable:
  "parses input n R_repeatable (\<lambda>p. pbind (expect_rule p R_repeatable) preturn) any"
  by (rule parsesI, simp) (rule triple_null)

lemma parses_directive_definition:
  "parses input n R_directive_definition (parse_directive_definition rn) (\<lambda>x. dd_is_repeatable (node x))"
proof (rule parsesI)
  fix p assume p: "conforms_pair input p" "p_rule p = R_directive_definition"
  show "triple (at_most input (p_start p)) (parse_directive_definition rn p)
      (\<lambda>x pc. at_most input (p_end p) pc \<and> dd_is_repeatable (node x))"
    unfolding parse_directive_definition_def pbind_expect_rule [OF p(2)]
    by (rule triple_step1 [OF p], rule grammar.simps, rule seq_if_opt, rule parses_string, rule seq_next,
        rule parses_name, rule seq_if_opt, rule parses_arguments_definition, rule seq_if_one, rule parses_repeatable,
        rule seq_next, rule parses_directive_locations, rule seq_end, rule seq_return) simp
qed

fun definition_ok :: "type_system_definition \<Rightarrow> bool" where
  "definition_ok (SchemaDef sd) \<longleftrightarrow> schema_has_query sd"
| "definition_ok (TypeDef td) \<longleftrightarrow> True"
| "definition_ok (DirectiveDef dd) \<longleftrightarrow> dd_is_repeatable (node dd)"

lemma parses_type_system_definition:
  "parses input n R_type_system_definition (parse_type_system_definition rn) definition_ok"
proof (rule parsesI)
  fix p assume p: "conforms_pair input p" "p_rule p = R_type_system_definition"
  let ?arm = "\<lambda>q. if p_rule q = R_schema_definition then pbind (parse_schema_definition rn q) (\<lambda>x. preturn (SchemaDef x))
     else if p_rule q = R_type_definition then pbind (parse_type_definition rn q) (\<lambda>x. preturn (TypeDef x))
     else if p_rule q = R_directive_definition then pbind (parse_directive_definition rn q) (\<lambda>x. preturn (DirectiveDef x))
     else pfail Panicked"
  have arm: "triple (at_most input (p_start q)) (?arm q) (\<lambda>x pc. at_most input (p_end q) pc \<and> definition_ok x)"
    if q: "conforms_pair input q" "p_rule q \<in> set [R_schema_definition, R_type_definition, R_directive_definition]" for q
    using q(2)
      triple_map [OF parses_pair [OF parses_schema_definition q(1) _ lessI], where g = SchemaDef and Q' = definition_ok]
      triple_map [OF parses_pair [OF parses_type_definition q(1) _ lessI], where g = TypeDef and Q' = definition_ok]
      triple_map [OF parses_pair [OF parses_directive_definition q(1) _ lessI], where g = DirectiveDef and Q' = definition_ok]
    by auto
  show "triple (at_most input (p_start p)) (parse_type_system_definition rn p)
      (\<lambda>x pc. at_most input (p_end p) pc \<and> definition_ok x)"
    unfolding parse_type_system_definition_def pbind_expect_rule [OF p(2)]
    by (rule triple_ready [OF p(1)], rule seq_choice, simp only: p(2) grammar.simps, rule arm)
qed

lemma parses_service_document:
  "parses input n R_service_document (parse_service_document rn) (\<lambda>d. list_all definition_ok (definitions d))"
proof (rule parsesI)
  fix p assume p: "conforms_pair input p" "p_rule p = R_service_document" "size p < n"
  show "triple (at_most input (p_start p)) (parse_service_document rn p)
      (\<lambda>d pc. at_most input (p_end p) pc \<and> list_all definition_ok (definitions d))"
    unfolding parse_service_document_def
    by (rule triple_map, rule parses_pair [OF parses_document [OF _ _ parses_type_system_definition] p]) auto
qed

lemma parse_schema_ok:
  assumes "pest_conforms pest"
  shows "parse_schema pest rn input \<noteq> Inl Panicked"
    and "parse_schema pest rn input = Inr doc \<Longrightarrow> list_all definition_ok (definitions doc)"
proof -
  show "parse_schema pest rn input \<noteq> Inl Panicked"
    using parsed_root(1) [OF assms _ parses_service_document, of input _ rn]
    by (auto simp: parse_schema_def res_simps split: sum.splits)
  show "parse_schema pest rn input = Inr doc \<Longrightarrow> list_all definition_ok (definitions doc)"
    using parsed_root(2) [OF assms _ parses_service_document, of input _ rn]
    by (auto simp: parse_schema_def res_simps split: sum.splits)
qed

end
