(* ===== verification/Data_Loader.thy ===== *)
theory Data_Loader
  imports Prelude "HOL-Library.Multiset"
begin

text \<open>
  Batch loading, \<open>src/dataloader/mod.rs\<close> and \<open>src/dataloader/cache.rs\<close>.

  \<^item> A cache is the record of the methods of its \<open>CacheStorage\<close>, as behind \<open>Box<dyn CacheStorage>\<close>. The locale
    \<open>cache_storage\<close> is the contract of the trait. \<open>NoCache\<close> and \<open>HashMapCache\<close> are defined here and interpret
    it; \<open>LruCache\<close> calls the methods of the crate \<open>lru\<close>, a parameter.
  \<^item> \<open>data_loader\<close> is the state of a loader for one key type (the loader keeps one \<open>Requests\<close> per type, and
    they share nothing but \<open>disable_cache\<close>). A \<open>HashSet\<close> is a list without repetition.
  \<^item> The loader is not \<open>Send\<close>: its code runs on one thread and is only interrupted where it awaits. So
    \<open>load_many\<close> up to \<open>rx.await\<close>, a fetch task after its delay, and a load task after \<open>Loader::load\<close> returns
    are single steps. A system is a loader, the tasks given to the spawner, and what was sent over the
    channels; \<open>dl_step\<close> interleaves calls and tasks in any order, with any result of \<open>Loader::load\<close>.
\<close>

subsection \<open>Caches\<close>

record ('k, 'v, 'c) cache_ops =
  co_empty :: 'c
  co_get :: "'k \<Rightarrow> 'c \<Rightarrow> 'v option \<times> 'c"
  co_insert :: "'k \<Rightarrow> 'v \<Rightarrow> 'c \<Rightarrow> 'c"
  co_remove :: "'k \<Rightarrow> 'c \<Rightarrow> 'c"
  co_clear :: "'c \<Rightarrow> 'c"
  co_iter :: "'c \<Rightarrow> ('k, 'v) index_map"

definition no_cache :: "('k, 'v, unit) cache_ops" where
  "no_cache =
     \<lparr>co_empty = (), co_get = (\<lambda>_ c. (None, c)), co_insert = (\<lambda>_ _ c. c), co_remove = (\<lambda>_ c. c),
      co_clear = (\<lambda>c. c), co_iter = (\<lambda>_. [])\<rparr>"

definition hash_map_cache :: "('k, 'v, ('k, 'v) index_map) cache_ops" where
  "hash_map_cache =
     \<lparr>co_empty = [], co_get = (\<lambda>key c. (im_get c key, c)), co_insert = (\<lambda>key val c. im_insert key val c),
      co_remove = (\<lambda>key c. AList.delete key c), co_clear = (\<lambda>_. []), co_iter = (\<lambda>c. c)\<rparr>"

text \<open>The methods of \<open>lru::LruCache\<close>, and the cache that uses them: a capacity of zero panics.\<close>

record ('k, 'v, 'l) lru =
  lru_new :: "nat \<Rightarrow> 'l"
  lru_get :: "'k \<Rightarrow> 'l \<Rightarrow> 'v option \<times> 'l"
  lru_put :: "'k \<Rightarrow> 'v \<Rightarrow> 'l \<Rightarrow> 'l"
  lru_pop :: "'k \<Rightarrow> 'l \<Rightarrow> 'l"
  lru_clear :: "'l \<Rightarrow> 'l"
  lru_iter :: "'l \<Rightarrow> ('k, 'v) index_map"

definition lru_cache :: "('k, 'v, 'l) lru \<Rightarrow> nat \<Rightarrow> ('k, 'v, 'l) cache_ops option" where
  "lru_cache lru cap =
     (if cap = 0 then None
      else Some \<lparr>co_empty = lru_new lru cap, co_get = lru_get lru, co_insert = lru_put lru,
                 co_remove = lru_pop lru, co_clear = lru_clear lru, co_iter = lru_iter lru\<rparr>)"

text \<open>What the loader relies on: a cache returns only entries it has, and has only entries that were put
  into it. It may drop entries at any time.\<close>

locale cache_storage =
  fixes ops :: "('k, 'v, 'c) cache_ops" and cache_ok :: "'c \<Rightarrow> bool"
  assumes empty_ok: "cache_ok (co_empty ops)"
    and empty_iter: "co_iter ops (co_empty ops) = []"
    and get_ok: "cache_ok c \<Longrightarrow> cache_ok (snd (co_get ops k c))"
    and get_iter: "cache_ok c \<Longrightarrow> fst (co_get ops k c) = Some v \<Longrightarrow> (k, v) \<in> set (co_iter ops c)"
    and get_keeps: "cache_ok c \<Longrightarrow> set (co_iter ops (snd (co_get ops k c))) \<subseteq> set (co_iter ops c)"
    and insert_ok: "cache_ok c \<Longrightarrow> cache_ok (co_insert ops k v c)"
    and insert_iter: "cache_ok c \<Longrightarrow>
      set (co_iter ops (co_insert ops k v c)) \<subseteq> insert (k, v) {e \<in> set (co_iter ops c). fst e \<noteq> k}"
    and remove_ok: "cache_ok c \<Longrightarrow> cache_ok (co_remove ops k c)"
    and remove_iter: "cache_ok c \<Longrightarrow>
      set (co_iter ops (co_remove ops k c)) \<subseteq> {e \<in> set (co_iter ops c). fst e \<noteq> k}"
    and clear_ok: "cache_ok c \<Longrightarrow> cache_ok (co_clear ops c)"
    and clear_iter: "cache_ok c \<Longrightarrow> co_iter ops (co_clear ops c) = []"

interpretation no_cache_storage: cache_storage no_cache "\<lambda>_. True"
  by unfold_locales (simp_all add: no_cache_def)

lemma fst_in_keys: "(k, v) \<in> set m \<Longrightarrow> k \<in> fst ` set m"
  by force

lemma set_update_distinct:
  "distinct (map fst m) \<Longrightarrow> set (AList.update k v m) \<subseteq> insert (k, v) {e \<in> set m. fst e \<noteq> k}"
  by (induction m) (auto split: if_splits dest: fst_in_keys)

interpretation hash_map_storage: cache_storage hash_map_cache im_ok
proof unfold_locales
  show "im_ok c \<Longrightarrow> set (co_iter hash_map_cache (co_insert hash_map_cache k v c)) \<subseteq>
      insert (k, v) {e \<in> set (co_iter hash_map_cache c). fst e \<noteq> k}" for c k v
    using set_update_distinct [of c k v] by (simp add: hash_map_cache_def im_ok_def)
qed (auto simp: hash_map_cache_def im_ok_def distinct_update distinct_map_filter AList.delete_eq dest: map_of_SomeD)

subsection \<open>The loader\<close>

record ('k, 'v) res_sender =
  rs_use_cache_values :: "('k, 'v) index_map"
  rs_tx :: nat

type_synonym ('k, 'v) senders = "('k list \<times> ('k, 'v) res_sender) list"

record ('k, 'v, 'c) data_requests =
  dr_keys :: "'k list"
  dr_pending :: "('k, 'v) senders"
  dr_cache_storage :: 'c
  dr_disable_cache :: bool

definition requests_new :: "('k, 'v, 'c) cache_ops \<Rightarrow> ('k, 'v, 'c) data_requests" where
  "requests_new ops = \<lparr>dr_keys = [], dr_pending = [], dr_cache_storage = co_empty ops, dr_disable_cache = False\<rparr>"

definition requests_take ::
  "('k, 'v, 'c) data_requests \<Rightarrow> ('k list \<times> ('k, 'v) senders) \<times> ('k, 'v, 'c) data_requests" where
  "requests_take r = ((dr_keys r, dr_pending r), r\<lparr>dr_keys := [], dr_pending := []\<rparr>)"

record ('k, 'v, 'c) data_loader =
  dl_requests :: "('k, 'v, 'c) data_requests option"
  dl_max_batch_size :: nat
  dl_disable_cache :: bool

definition data_loader_new :: "nat \<Rightarrow> ('k, 'v, 'c) data_loader" where
  "data_loader_new max_batch_size =
     \<lparr>dl_requests = None, dl_max_batch_size = max_batch_size, dl_disable_cache = False\<rparr>"

text \<open>\<open>requests.entry(tid).or_insert_with(..)\<close>.\<close>

definition entry_requests :: "('k, 'v, 'c) cache_ops \<Rightarrow> ('k, 'v, 'c) data_loader \<Rightarrow> ('k, 'v, 'c) data_requests" where
  "entry_requests ops dl = (case dl_requests dl of Some r \<Rightarrow> r | None \<Rightarrow> requests_new ops)"

definition set_extend :: "'k list \<Rightarrow> 'k list \<Rightarrow> 'k list" where
  "set_extend s ks = fold (\<lambda>k s. if k \<in> set s then s else s @ [k]) ks s"

datatype ('k, 'v) dl_task =
    FetchTask bool
  | LoadTask bool "'k list \<times> ('k, 'v) senders"

fun cache_lookup ::
  "('k, 'v, 'c) cache_ops \<Rightarrow> 'k list \<Rightarrow> 'c \<times> 'k list \<times> ('k, 'v) index_map \<Rightarrow> 'c \<times> 'k list \<times> ('k, 'v) index_map" where
  "cache_lookup ops [] st = st"
| "cache_lookup ops (key # keys) (cache, keys_set, use_cache_values) =
     (case co_get ops key cache of
        (Some value, cache) \<Rightarrow> cache_lookup ops keys (cache, keys_set, im_insert key value use_cache_values)
      | (None, cache) \<Rightarrow> cache_lookup ops keys (cache, set_extend keys_set [key], use_cache_values))"

text \<open>\<open>load_many\<close> up to the point where it awaits the channel \<open>tx\<close>: the value if it returns at once, the tasks
  it spawns, and the loader.\<close>

definition load_many ::
  "('k, 'v, 'c) cache_ops \<Rightarrow> nat \<Rightarrow> 'k list \<Rightarrow> ('k, 'v, 'c) data_loader \<Rightarrow>
   ('k, 'v) index_map option \<times> ('k, 'v) dl_task list \<times> ('k, 'v, 'c) data_loader" where
  "load_many ops tx keys dl =
     (let r = entry_requests ops dl;
          prev_count = length (dr_keys r);
          (cache, keys_set, use_cache_values) =
            (if dr_disable_cache r \<or> dl_disable_cache dl
             then (dr_cache_storage r, set_extend [] keys, [])
             else cache_lookup ops keys (dr_cache_storage r, [], []));
          r = r\<lparr>dr_cache_storage := cache\<rparr>
      in if use_cache_values \<noteq> [] \<and> keys_set = [] then
           (Some use_cache_values, [], dl\<lparr>dl_requests := Some r\<rparr>)
         else if use_cache_values = [] \<and> keys_set = [] then
           (Some [], [], dl\<lparr>dl_requests := Some r\<rparr>)
         else
           let r = r\<lparr>dr_keys := set_extend (dr_keys r) keys_set,
                     dr_pending := dr_pending r @
                       [(keys_set, \<lparr>rs_use_cache_values = use_cache_values, rs_tx = tx\<rparr>)]\<rparr>
           in if length (dr_keys r) \<ge> dl_max_batch_size dl then
                (case requests_take r of (taken, r) \<Rightarrow>
                  (None, [LoadTask (dl_disable_cache dl) taken], dl\<lparr>dl_requests := Some r\<rparr>))
              else
                (None,
                 if dr_keys r \<noteq> [] \<and> prev_count = 0 then [FetchTask (dl_disable_cache dl)] else [],
                 dl\<lparr>dl_requests := Some r\<rparr>))"

text \<open>The task of \<open>StartFetch\<close> after its delay: the load it goes on with, if any, and the senders it drops. \<open>None\<close>
  is a panic.\<close>

definition start_fetch ::
  "bool \<Rightarrow> ('k, 'v, 'c) data_loader \<Rightarrow>
   (('k, 'v) dl_task list \<times> ('k, 'v) senders \<times> ('k, 'v, 'c) data_loader) option" where
  "start_fetch disable_cache dl =
     map_option (\<lambda>r.
       case requests_take r of (taken, r) \<Rightarrow>
         if fst taken \<noteq> [] then ([LoadTask disable_cache taken], [], dl\<lparr>dl_requests := Some r\<rparr>)
         else ([], snd taken, dl\<lparr>dl_requests := Some r\<rparr>)) (dl_requests dl)"

definition response :: "('k, 'v) index_map \<Rightarrow> 'k list \<times> ('k, 'v) res_sender \<Rightarrow> ('k, 'v) index_map" where
  "response values req =
     fold (\<lambda>key res. case im_get values key of Some v \<Rightarrow> im_insert key v res | None \<Rightarrow> res)
       (fst req) (rs_use_cache_values (snd req))"

definition insert_values ::
  "('k, 'v, 'c) cache_ops \<Rightarrow> ('k, 'v) index_map \<Rightarrow> 'c \<Rightarrow> 'c" where
  "insert_values ops values cache = fold (\<lambda>(key, v). co_insert ops key v) values cache"

text \<open>\<open>do_load\<close> once \<open>Loader::load\<close> has returned \<open>result\<close>: what it sends, and the loader.\<close>

definition do_load ::
  "('k, 'v, 'c) cache_ops \<Rightarrow> bool \<Rightarrow> 'k list \<times> ('k, 'v) senders \<Rightarrow> 'e + ('k, 'v) index_map \<Rightarrow>
   ('k, 'v, 'c) data_loader \<Rightarrow>
   ((nat \<times> ('e + ('k, 'v) index_map)) list \<times> ('k, 'v, 'c) data_loader) option" where
  "do_load ops disable_cache batch result dl =
     (case result of
        Inl err \<Rightarrow> Some (map (\<lambda>(_, sender). (rs_tx sender, Inl err)) (snd batch), dl)
      | Inr values \<Rightarrow>
          map_option (\<lambda>r.
            let r = if dr_disable_cache r \<or> disable_cache then r
                    else r\<lparr>dr_cache_storage := insert_values ops values (dr_cache_storage r)\<rparr>
            in (map (\<lambda>req. (rs_tx (snd req), Inr (response values req))) (snd batch),
                dl\<lparr>dl_requests := Some r\<rparr>)) (dl_requests dl))"

definition load_one :: "'k \<Rightarrow> 'e + ('k, 'v) index_map \<Rightarrow> 'e + 'v option" where
  "load_one key result = map_ok (\<lambda>values. im_get values key) result"

definition feed_many ::
  "('k, 'v, 'c) cache_ops \<Rightarrow> ('k, 'v) index_map \<Rightarrow> ('k, 'v, 'c) data_loader \<Rightarrow> ('k, 'v, 'c) data_loader" where
  "feed_many ops values dl =
     (let r = entry_requests ops dl
      in dl\<lparr>dl_requests := Some (r\<lparr>dr_cache_storage := insert_values ops values (dr_cache_storage r)\<rparr>)\<rparr>)"

definition clear_cache :: "('k, 'v, 'c) cache_ops \<Rightarrow> ('k, 'v, 'c) data_loader \<Rightarrow> ('k, 'v, 'c) data_loader" where
  "clear_cache ops dl =
     (let r = entry_requests ops dl
      in dl\<lparr>dl_requests := Some (r\<lparr>dr_cache_storage := co_clear ops (dr_cache_storage r)\<rparr>)\<rparr>)"

definition get_cached_values :: "('k, 'v, 'c) cache_ops \<Rightarrow> ('k, 'v, 'c) data_loader \<Rightarrow> ('k, 'v) index_map" where
  "get_cached_values ops dl =
     (case dl_requests dl of None \<Rightarrow> [] | Some r \<Rightarrow> co_iter ops (dr_cache_storage r))"

definition enable_all_cache :: "bool \<Rightarrow> ('k, 'v, 'c) data_loader \<Rightarrow> ('k, 'v, 'c) data_loader" where
  "enable_all_cache enable dl = dl\<lparr>dl_disable_cache := \<not> enable\<rparr>"

text \<open>Panics (\<open>None\<close>) for a key type of which nothing was loaded yet.\<close>

definition enable_cache :: "bool \<Rightarrow> ('k, 'v, 'c) data_loader \<Rightarrow> ('k, 'v, 'c) data_loader option" where
  "enable_cache enable dl =
     map_option (\<lambda>r. dl\<lparr>dl_requests := Some (r\<lparr>dr_disable_cache := \<not> enable\<rparr>)\<rparr>) (dl_requests dl)"

subsection \<open>A loader at work\<close>

text \<open>\<open>sy_asked\<close> lists the keys of the calls that wait, by channel; \<open>sy_returned\<close> the calls that returned at once;
  \<open>sy_replies\<close> what the channels got, \<open>None\<close> if the sender was dropped (then \<open>rx.await.unwrap()\<close> panics).\<close>

record ('k, 'v, 'c, 'e) dl_system =
  sy_loader :: "('k, 'v, 'c) data_loader"
  sy_tasks :: "('k, 'v) dl_task list"
  sy_asked :: "'k list list"
  sy_returned :: "('k list \<times> ('k, 'v) index_map) list"
  sy_replies :: "(nat \<times> ('e + ('k, 'v) index_map) option) list"

definition dl_start :: "nat \<Rightarrow> ('k, 'v, 'c, 'e) dl_system" where
  "dl_start max_batch_size =
     \<lparr>sy_loader = data_loader_new max_batch_size, sy_tasks = [], sy_asked = [], sy_returned = [], sy_replies = []\<rparr>"

definition call_load_many ::
  "('k, 'v, 'c) cache_ops \<Rightarrow> 'k list \<Rightarrow> ('k, 'v, 'c, 'e) dl_system \<Rightarrow> ('k, 'v, 'c, 'e) dl_system" where
  "call_load_many ops keys s =
     (case load_many ops (length (sy_asked s)) keys (sy_loader s) of
        (Some values, tasks, dl) \<Rightarrow>
          s\<lparr>sy_loader := dl, sy_tasks := sy_tasks s @ tasks, sy_returned := sy_returned s @ [(keys, values)]\<rparr>
      | (None, tasks, dl) \<Rightarrow>
          s\<lparr>sy_loader := dl, sy_tasks := sy_tasks s @ tasks, sy_asked := sy_asked s @ [keys]\<rparr>)"

text \<open>The step of a task; \<open>result\<close> is what \<open>Loader::load\<close> returns to a load task.\<close>

definition run_task ::
  "('k, 'v, 'c) cache_ops \<Rightarrow> nat \<Rightarrow> 'e + ('k, 'v) index_map \<Rightarrow> ('k, 'v, 'c, 'e) dl_system \<Rightarrow>
   ('k, 'v, 'c, 'e) dl_system option" where
  "run_task ops i result s =
     (let before = take i (sy_tasks s); after = drop (Suc i) (sy_tasks s)
      in case sy_tasks s ! i of
           FetchTask disable_cache \<Rightarrow>
             map_option (\<lambda>(tasks, dropped, dl).
               s\<lparr>sy_loader := dl, sy_tasks := before @ tasks @ after,
                 sy_replies := sy_replies s @ map (\<lambda>(_, sender). (rs_tx sender, None)) dropped\<rparr>)
               (start_fetch disable_cache (sy_loader s))
         | LoadTask disable_cache batch \<Rightarrow>
             map_option (\<lambda>(sent, dl).
               s\<lparr>sy_loader := dl, sy_tasks := before @ after,
                 sy_replies := sy_replies s @ map (\<lambda>(tx, r). (tx, Some r)) sent\<rparr>)
               (do_load ops disable_cache batch result (sy_loader s)))"

text \<open>The results of \<open>Loader::load\<close> and the fed values are restricted to \<open>loads\<close> and \<open>feeds\<close>.\<close>

fun load_ok :: "('k list \<Rightarrow> 'e + ('k, 'v) index_map \<Rightarrow> bool) \<Rightarrow> ('k, 'v) dl_task \<Rightarrow> 'e + ('k, 'v) index_map \<Rightarrow> bool" where
  "load_ok loads (FetchTask d) result \<longleftrightarrow> True"
| "load_ok loads (LoadTask d batch) result \<longleftrightarrow> loads (fst batch) result"

inductive dl_step ::
  "('k, 'v, 'c) cache_ops \<Rightarrow> ('k list \<Rightarrow> 'e + ('k, 'v) index_map \<Rightarrow> bool) \<Rightarrow> ('k \<times> 'v \<Rightarrow> bool) \<Rightarrow>
   ('k, 'v, 'c, 'e) dl_system \<Rightarrow> ('k, 'v, 'c, 'e) dl_system \<Rightarrow> bool"
  for ops loads feeds where
  step_load_many: "dl_step ops loads feeds s (call_load_many ops keys s)"
| step_task: "i < length (sy_tasks s) \<Longrightarrow> load_ok loads (sy_tasks s ! i) result \<Longrightarrow>
    run_task ops i result s = Some s' \<Longrightarrow> dl_step ops loads feeds s s'"
| step_feed: "list_all feeds values \<Longrightarrow>
    dl_step ops loads feeds s (s\<lparr>sy_loader := feed_many ops values (sy_loader s)\<rparr>)"
| step_clear: "dl_step ops loads feeds s (s\<lparr>sy_loader := clear_cache ops (sy_loader s)\<rparr>)"
| step_enable_all: "dl_step ops loads feeds s (s\<lparr>sy_loader := enable_all_cache b (sy_loader s)\<rparr>)"
| step_enable: "enable_cache b (sy_loader s) = Some dl \<Longrightarrow> dl_step ops loads feeds s (s\<lparr>sy_loader := dl\<rparr>)"

inductive dl_reachable ::
  "('k, 'v, 'c) cache_ops \<Rightarrow> ('k list \<Rightarrow> 'e + ('k, 'v) index_map \<Rightarrow> bool) \<Rightarrow> ('k \<times> 'v \<Rightarrow> bool) \<Rightarrow> nat \<Rightarrow>
   ('k, 'v, 'c, 'e) dl_system \<Rightarrow> bool"
  for ops loads feeds max_batch_size where
  reach_start: "dl_reachable ops loads feeds max_batch_size (dl_start max_batch_size)"
| reach_step: "dl_reachable ops loads feeds max_batch_size s \<Longrightarrow> dl_step ops loads feeds s s' \<Longrightarrow>
    dl_reachable ops loads feeds max_batch_size s'"

text \<open>Only tasks run, in the order a scheduler chooses, at most \<open>n\<close> of them; the scheduler names a task and what
  \<open>Loader::load\<close> returns to it.\<close>

fun run_tasks ::
  "('k, 'v, 'c) cache_ops \<Rightarrow> (('k, 'v, 'c, 'e) dl_system \<Rightarrow> nat \<times> ('e + ('k, 'v) index_map)) \<Rightarrow> nat \<Rightarrow>
   ('k, 'v, 'c, 'e) dl_system \<Rightarrow> ('k, 'v, 'c, 'e) dl_system option" where
  "run_tasks ops scheduler 0 s = Some s"
| "run_tasks ops scheduler (Suc n) s =
     (if sy_tasks s = [] then Some s
      else case scheduler s of (i, result) \<Rightarrow>
        Option.bind (run_task ops (i mod length (sy_tasks s)) result s) (run_tasks ops scheduler n))"

subsection \<open>Sets of keys and caches\<close>

lemma set_extend_Cons [simp]:
  "set_extend s (k # ks) = set_extend (if k \<in> set s then s else s @ [k]) ks"
  by (simp add: set_extend_def)

lemma set_extend_Nil [simp]: "set_extend s [] = s"
  by (simp add: set_extend_def)

lemma set_set_extend [simp]: "set (set_extend s ks) = set s \<union> set ks"
  by (induction ks arbitrary: s) auto

lemma distinct_set_extend [simp]: "distinct s \<Longrightarrow> distinct (set_extend s ks)"
  by (induction ks arbitrary: s) auto

lemma set_extend_empty [simp]: "set_extend s ks = [] \<longleftrightarrow> s = [] \<and> ks = []"
  by (metis set_empty set_set_extend Un_empty)

lemma dom_update: "dom (map_of (AList.update k v m)) = insert k (dom (map_of m))"
  by (auto simp: update_conv' split: if_splits)

text \<open>The cache holds only entries that satisfy \<open>P\<close>.\<close>

context cache_storage
begin

definition holds :: "('k \<times> 'v \<Rightarrow> bool) \<Rightarrow> 'c \<Rightarrow> bool" where
  "holds P c \<longleftrightarrow> cache_ok c \<and> (\<forall>e\<in>set (co_iter ops c). P e)"

lemma holds_empty: "holds P (co_empty ops)"
  by (simp add: holds_def empty_ok empty_iter)

lemma holds_clear: "holds P c \<Longrightarrow> holds P (co_clear ops c)"
  by (simp add: holds_def clear_ok clear_iter)

lemma holds_insert: "holds P c \<Longrightarrow> P (k, v) \<Longrightarrow> holds P (co_insert ops k v c)"
  using insert_iter [of c k v] by (auto simp: holds_def insert_ok)

lemma holds_insert_values: "holds P c \<Longrightarrow> list_all P values \<Longrightarrow> holds P (insert_values ops values c)"
  unfolding insert_values_def
  by (induction "values" arbitrary: c) (auto intro: holds_insert)

lemma holds_get: "holds P c \<Longrightarrow> holds P (snd (co_get ops k c))"
  using get_keeps [of c k] by (auto simp: holds_def get_ok)

lemma holds_got: "holds P c \<Longrightarrow> fst (co_get ops k c) = Some v \<Longrightarrow> P (k, v)"
  using get_iter [of c k v] by (auto simp: holds_def)

lemma cache_lookup_ok:
  assumes "holds P c" "distinct ks" "cache_lookup ops keys (c, ks, vals) = (c', ks', vals')"
    and "\<And>k v. map_of vals k = Some v \<Longrightarrow> P (k, v)"
  shows "holds P c' \<and> distinct ks' \<and> set ks' \<union> dom (map_of vals') = set ks \<union> dom (map_of vals) \<union> set keys \<and>
    (\<forall>k v. map_of vals' k = Some v \<longrightarrow> P (k, v))"
  using assms
proof (induction keys arbitrary: c ks vals)
  case (Cons key keys)
  obtain r c1 where get: "co_get ops key c = (r, c1)" by fastforce
  have c1: "holds P c1" using holds_get [OF Cons.prems(1), of key] get by simp
  show ?case
  proof (cases r)
    case None
    then have "cache_lookup ops keys (c1, set_extend ks [key], vals) = (c', ks', vals')"
      using Cons.prems(3) get by (simp del: set_extend_Cons)
    from Cons.IH [OF c1 distinct_set_extend [OF Cons.prems(2)] this Cons.prems(4)]
    show ?thesis by (simp only: set_set_extend list.set) blast
  next
    case (Some v)
    then have rest: "cache_lookup ops keys (c1, ks, AList.update key v vals) = (c', ks', vals')"
      using Cons.prems(3) get by simp
    have "P (key, v)" using holds_got [OF Cons.prems(1), of key v] get Some by simp
    then have vals: "P (k, v')" if "map_of (AList.update key v vals) k = Some v'" for k v'
      using that Cons.prems(4) by (simp add: update_conv' split: if_splits)
    have
      "holds P c' \<and> distinct ks' \<and> set ks' \<union> dom (map_of vals') = set ks \<union> insert key (dom (map_of vals)) \<union> set keys \<and>
        (\<forall>k v. map_of vals' k = Some v \<longrightarrow> P (k, v))"
      using Cons.IH [OF c1 Cons.prems(2) rest vals] unfolding dom_update .
    then show ?thesis by (simp only: list.set) blast
  qed
qed auto

end

subsection \<open>What holds of a loader at work\<close>

text \<open>Every key of a request that is missing in the response satisfies \<open>M\<close>, every entry of it satisfies \<open>P\<close>, and it
  has no other keys.\<close>

definition answers :: "('k \<times> 'v \<Rightarrow> bool) \<Rightarrow> ('k \<Rightarrow> bool) \<Rightarrow> 'k list \<Rightarrow> ('k, 'v) index_map \<Rightarrow> bool" where
  "answers P M ks res \<longleftrightarrow>
     dom (map_of res) \<subseteq> set ks \<and> (\<forall>k v. map_of res k = Some v \<longrightarrow> P (k, v)) \<and>
     (\<forall>k\<in>set ks. map_of res k = None \<longrightarrow> M k)"

definition request_ok ::
  "('k \<times> 'v \<Rightarrow> bool) \<Rightarrow> 'k list list \<Rightarrow> 'k list \<Rightarrow> 'k list \<times> ('k, 'v) res_sender \<Rightarrow> bool" where
  "request_ok P asked keys req \<longleftrightarrow>
     fst req \<noteq> [] \<and> set (fst req) \<subseteq> set keys \<and> rs_tx (snd req) < length asked \<and>
     set (fst req) \<union> dom (map_of (rs_use_cache_values (snd req))) = set (asked ! rs_tx (snd req)) \<and>
     (\<forall>k v. map_of (rs_use_cache_values (snd req)) k = Some v \<longrightarrow> P (k, v))"

fun task_ok :: "('k \<times> 'v \<Rightarrow> bool) \<Rightarrow> 'k list list \<Rightarrow> ('k, 'v) dl_task \<Rightarrow> bool" where
  "task_ok P asked (FetchTask d) \<longleftrightarrow> True"
| "task_ok P asked (LoadTask d batch) \<longleftrightarrow>
     fst batch \<noteq> [] \<and> distinct (fst batch) \<and> list_all (request_ok P asked (fst batch)) (snd batch)"

definition reply_ok ::
  "('k \<times> 'v \<Rightarrow> bool) \<Rightarrow> ('k \<Rightarrow> bool) \<Rightarrow> 'k list list \<Rightarrow> nat \<times> ('e + ('k, 'v) index_map) option \<Rightarrow> bool" where
  "reply_ok P M asked reply \<longleftrightarrow>
     (case snd reply of
        None \<Rightarrow> False
      | Some (Inl err) \<Rightarrow> True
      | Some (Inr res) \<Rightarrow> fst reply < length asked \<and> answers P M (asked ! fst reply) res)"

definition sender_txs :: "('k, 'v) senders \<Rightarrow> nat multiset" where
  "sender_txs senders = mset (map (\<lambda>req. rs_tx (snd req)) senders)"

fun task_txs :: "('k, 'v) dl_task \<Rightarrow> nat multiset" where
  "task_txs (FetchTask d) = {#}"
| "task_txs (LoadTask d batch) = sender_txs (snd batch)"

definition pending :: "('k, 'v, 'c) data_loader \<Rightarrow> ('k, 'v) senders" where
  "pending dl = (case dl_requests dl of Some r \<Rightarrow> dr_pending r | None \<Rightarrow> [])"

text \<open>The channels that were created: those whose request is pending, in a load, or answered.\<close>

definition channels :: "('k, 'v, 'c, 'e) dl_system \<Rightarrow> nat multiset" where
  "channels s =
     sender_txs (pending (sy_loader s)) + sum_list (map task_txs (sy_tasks s)) + mset (map fst (sy_replies s))"

text \<open>The steps that are left to a task.\<close>

fun task_work :: "('k, 'v) dl_task \<Rightarrow> nat" where
  "task_work (FetchTask d) = 2"
| "task_work (LoadTask d batch) = 1"

definition dl_work :: "('k, 'v, 'c, 'e) dl_system \<Rightarrow> nat" where
  "dl_work s = sum_list (map task_work (sy_tasks s))"

definition is_fetch :: "('k, 'v) dl_task \<Rightarrow> bool" where
  "is_fetch t \<longleftrightarrow> (case t of FetchTask _ \<Rightarrow> True | LoadTask _ _ \<Rightarrow> False)"

lemma is_fetch_simps [simp]: "is_fetch (FetchTask d)" "\<not> is_fetch (LoadTask d b)"
  by (simp_all add: is_fetch_def)

lemma sender_txs_simps [simp]:
  "sender_txs [] = {#}" "sender_txs (xs @ ys) = sender_txs xs + sender_txs ys" "sender_txs [(ks, sender)] = {#rs_tx sender#}"
  by (simp_all add: sender_txs_def)

lemma request_ok_asked: "request_ok P asked keys req \<Longrightarrow> request_ok P (asked @ rest) keys req"
  by (simp add: request_ok_def nth_append)

lemma request_ok_keys: "request_ok P asked keys req \<Longrightarrow> set keys \<subseteq> set keys' \<Longrightarrow> request_ok P asked keys' req"
  by (auto simp: request_ok_def)

lemma task_ok_asked: "task_ok P asked t \<Longrightarrow> task_ok P (asked @ rest) t"
  by (cases t) (auto simp: list_all_iff request_ok_asked)

lemma reply_ok_asked: "reply_ok P M asked reply \<Longrightarrow> reply_ok P M (asked @ rest) reply"
  by (auto simp: reply_ok_def nth_append split: option.splits sum.splits)

lemma map_of_response:
  "map_of (response values (ks, sender)) k =
     (if k \<in> set ks \<and> map_of values k \<noteq> None then map_of values k else map_of (rs_use_cache_values sender) k)"
proof -
  have "map_of (fold (\<lambda>key res. case im_get values key of Some v \<Rightarrow> im_insert key v res | None \<Rightarrow> res) ks m) k =
      (if k \<in> set ks \<and> map_of values k \<noteq> None then map_of values k else map_of m k)" for m
    by (induction ks arbitrary: m) (auto simp: update_conv' split: option.splits)
  then show ?thesis unfolding response_def fst_conv snd_conv .
qed

text \<open>A batch answers each of its requests.\<close>

lemma response_answers:
  assumes "request_ok P asked keys req" "list_all P values" "list_all (\<lambda>k. map_of values k = None \<longrightarrow> M k) keys"
  shows "answers P M (asked ! rs_tx (snd req)) (response values req)"
proof -
  obtain ks sender where req: "req = (ks, sender)" by fastforce
  have "P (k, v)" if "map_of values k = Some v" for k v
    using assms(2) map_of_SomeD [OF that] by (auto simp: list_all_iff)
  moreover have "map_of (rs_use_cache_values sender) k \<noteq> None" if "k \<in> set (asked ! rs_tx sender)" "k \<notin> set ks" for k
    using assms(1) that by (auto simp: request_ok_def req)
  ultimately show ?thesis
    using assms(1,3)
    unfolding answers_def req map_of_response request_ok_def
    by (fastforce simp: map_of_response list_all_iff split: if_splits)
qed

lemma answers_cached:
  "dom (map_of vals) = set keys \<Longrightarrow> (\<And>k v. map_of vals k = Some v \<Longrightarrow> P (k, v)) \<Longrightarrow> answers P M keys vals"
  by (auto simp: answers_def)

context cache_storage
begin

definition requests_ok ::
  "('k \<times> 'v \<Rightarrow> bool) \<Rightarrow> nat \<Rightarrow> 'k list list \<Rightarrow> ('k, 'v) dl_task list \<Rightarrow> ('k, 'v, 'c) data_requests \<Rightarrow> bool" where
  "requests_ok P max_size asked tasks r \<longleftrightarrow>
     distinct (dr_keys r) \<and> (dr_keys r = [] \<or> length (dr_keys r) < max_size) \<and> holds P (dr_cache_storage r) \<and>
     list_all (request_ok P asked (dr_keys r)) (dr_pending r) \<and> (dr_keys r = [] \<or> list_ex is_fetch tasks)"

definition dl_inv ::
  "('k \<times> 'v \<Rightarrow> bool) \<Rightarrow> ('k \<Rightarrow> bool) \<Rightarrow> nat \<Rightarrow> ('k, 'v, 'c, 'e) dl_system \<Rightarrow> bool" where
  "dl_inv P M max_size s \<longleftrightarrow>
     dl_max_batch_size (sy_loader s) = max_size \<and>
     (case dl_requests (sy_loader s) of
        None \<Rightarrow> sy_tasks s = []
      | Some r \<Rightarrow> requests_ok P max_size (sy_asked s) (sy_tasks s) r) \<and>
     list_all (task_ok P (sy_asked s)) (sy_tasks s) \<and>
     list_all (reply_ok P M (sy_asked s)) (sy_replies s) \<and>
     list_all (\<lambda>(ks, res). answers P M ks res) (sy_returned s) \<and>
     channels s = mset [0..<length (sy_asked s)]"

lemma dl_inv_start: "dl_inv P M max_size (dl_start max_size)"
  by (simp add: dl_inv_def dl_start_def data_loader_new_def channels_def pending_def)

text \<open>The keys that \<open>load_many\<close> has to load and the values it found.\<close>

lemma lookup_ok:
  assumes "holds P (dr_cache_storage r)"
    and "(if d then (dr_cache_storage r, set_extend [] keys, [])
          else cache_lookup ops keys (dr_cache_storage r, [], [])) = (cache, ks, vals)"
  shows "holds P cache" "distinct ks" "set ks \<union> dom (map_of vals) = set keys"
    "map_of vals k = Some v \<Longrightarrow> P (k, v)"
proof -
  have "holds P cache \<and> distinct ks \<and> set ks \<union> dom (map_of vals) = set keys \<and>
      (\<forall>k v. map_of vals k = Some v \<longrightarrow> P (k, v))"
  proof (cases d)
    case True
    then show ?thesis using assms by (auto simp del: set_extend_Cons)
  next
    case False
    then show ?thesis using cache_lookup_ok [OF assms(1), of "[]" keys "[]" cache ks vals] assms(2) by simp
  qed
  then show "holds P cache" "distinct ks" "set ks \<union> dom (map_of vals) = set keys"
    "map_of vals k = Some v \<Longrightarrow> P (k, v)" by (elim conjE, simp)+
qed

lemma load_many_new:
  assumes "requests_ok P max_size asked tasks r" "holds P cache" "distinct ks" "ks \<noteq> []"
    "set ks \<union> dom (map_of vals) = set keys" "\<And>k v. map_of vals k = Some v \<Longrightarrow> P (k, v)"
  shows "list_all (request_ok P (asked @ [keys]) (set_extend (dr_keys r) ks))
      (dr_pending r @ [(ks, \<lparr>rs_use_cache_values = vals, rs_tx = length asked\<rparr>)])"
proof -
  have "request_ok P (asked @ [keys]) (set_extend (dr_keys r) ks) req" if "req \<in> set (dr_pending r)" for req
  proof -
    have "request_ok P asked (dr_keys r) req" using assms(1) that by (simp add: requests_ok_def list_all_iff)
    then show ?thesis by (rule request_ok_asked [OF request_ok_keys]) simp
  qed
  then show ?thesis using assms(3-6) by (simp add: list_all_iff request_ok_def)
qed

lemma load_many_ok:
  assumes r: "requests_ok P max_size asked tasks (entry_requests ops dl)" and "dl_max_batch_size dl = max_size"
    and "load_many ops (length asked) keys dl = (ret, spawned, dl')"
  shows "dl_max_batch_size dl' = max_size \<and> (\<exists>r'. dl_requests dl' = Some r' \<and>
    (case ret of
       Some vals \<Rightarrow> spawned = [] \<and> requests_ok P max_size asked tasks r' \<and>
         dr_pending r' = dr_pending (entry_requests ops dl) \<and> answers P M keys vals
     | None \<Rightarrow> requests_ok P max_size (asked @ [keys]) (tasks @ spawned) r' \<and>
         list_all (task_ok P (asked @ [keys])) spawned \<and>
         sender_txs (dr_pending r') + sum_list (map task_txs spawned) =
           sender_txs (dr_pending (entry_requests ops dl)) + {#length asked#}))"
proof -
  define r0 where "r0 = entry_requests ops dl"
  note r = r [folded r0_def]
  obtain cache ks vals where lookup:
    "(if dr_disable_cache r0 \<or> dl_disable_cache dl then (dr_cache_storage r0, set_extend [] keys, [])
      else cache_lookup ops keys (dr_cache_storage r0, [], [])) = (cache, ks, vals)"
    by (metis prod_cases3)
  have cache: "holds P (dr_cache_storage r0)" using r by (simp add: requests_ok_def)
  note found = lookup_ok [OF cache lookup]
  show ?thesis
  proof (cases "ks = []")
    case True
    have "answers P M keys vals" using found True by (intro answers_cached) auto
    then show ?thesis
      using assms(2,3) r found(1) lookup True
      by (auto simp: load_many_def r0_def [symmetric] Let_def requests_ok_def split: if_splits)
  next
    case False
    define keys' where "keys' = set_extend (dr_keys r0) ks"
    define new where "new = dr_pending r0 @ [(ks, \<lparr>rs_use_cache_values = vals, rs_tx = length asked\<rparr>)]"
    have new: "list_all (request_ok P (asked @ [keys]) keys') new"
      unfolding keys'_def new_def by (rule load_many_new [OF r found(1,2) False found(3,4)])
    have keys': "distinct keys'" "keys' \<noteq> []" using r False by (simp_all add: keys'_def requests_ok_def)
    have fetch: "dr_keys r0 = [] \<or> list_ex is_fetch tasks" using r by (simp add: requests_ok_def)
    have load: "load_many ops (length asked) keys dl =
        (let r1 = r0\<lparr>dr_cache_storage := cache, dr_keys := keys', dr_pending := new\<rparr>
         in if length keys' \<ge> max_size then
              (None, [LoadTask (dl_disable_cache dl) (keys', new)],
               dl\<lparr>dl_requests := Some (r1\<lparr>dr_keys := [], dr_pending := []\<rparr>)\<rparr>)
            else (None, if dr_keys r0 = [] then [FetchTask (dl_disable_cache dl)] else [], dl\<lparr>dl_requests := Some r1\<rparr>))"
      using False lookup assms(2)
      by (simp add: load_many_def r0_def [symmetric] Let_def requests_take_def keys'_def new_def)
    show ?thesis
      using assms(2,3) new keys' fetch found(1)
      by (auto simp: load Let_def requests_ok_def new_def r0_def [symmetric] split: if_splits)
  qed
qed

lemma requests_ok_new: "requests_ok P max_size asked tasks (requests_new ops)"
  by (simp add: requests_ok_def requests_new_def holds_empty)

lemma requests_ok_tasks:
  "requests_ok P max_size asked tasks r \<Longrightarrow> dr_keys r = [] \<or> list_ex is_fetch tasks' \<Longrightarrow>
   requests_ok P max_size asked tasks' r"
  by (simp add: requests_ok_def)

lemma requests_ok_taken:
  "requests_ok P max_size asked tasks r \<Longrightarrow>
   requests_ok P max_size asked tasks' (r\<lparr>dr_keys := [], dr_pending := []\<rparr>)"
  by (simp add: requests_ok_def)

lemma requests_ok_cache:
  "requests_ok P max_size asked tasks r \<Longrightarrow> holds P c \<Longrightarrow>
   requests_ok P max_size asked tasks (r\<lparr>dr_cache_storage := c\<rparr>)"
  by (simp add: requests_ok_def)

lemma entry_requests_ok:
  assumes "dl_inv P M max_size s"
  shows "requests_ok P max_size (sy_asked s) (sy_tasks s) (entry_requests ops (sy_loader s))"
    and "dr_pending (entry_requests ops (sy_loader s)) = pending (sy_loader s)"
proof -
  show "requests_ok P max_size (sy_asked s) (sy_tasks s) (entry_requests ops (sy_loader s))"
    using assms by (auto simp: dl_inv_def entry_requests_def requests_ok_new split: option.splits)
  show "dr_pending (entry_requests ops (sy_loader s)) = pending (sy_loader s)"
    by (simp add: entry_requests_def pending_def requests_new_def split: option.splits)
qed

lemma add_channel:
  assumes "(a :: nat multiset) + b = c + x" "c + t + r = d"
  shows "a + (t + b) + r = d + x"
proof -
  have "a + (t + b) + r = (a + b) + t + r" by (simp add: ac_simps)
  also have "\<dots> = (c + t + r) + x" by (simp add: assms(1) ac_simps)
  finally show ?thesis by (simp add: assms(2))
qed

lemma dl_inv_call:
  assumes "dl_inv P M max_size s"
  shows "dl_inv P M max_size (call_load_many ops keys s)"
proof -
  obtain ret spawned dl' where load: "load_many ops (length (sy_asked s)) keys (sy_loader s) = (ret, spawned, dl')"
    using prod_cases3 by blast
  have "dl_max_batch_size (sy_loader s) = max_size" using assms by (simp add: dl_inv_def)
  note ok = load_many_ok [OF entry_requests_ok(1) [OF assms] this load, of M, unfolded entry_requests_ok(2) [OF assms]]
  show ?thesis
  proof (cases ret)
    case (Some vals)
    then show ?thesis using ok assms load by (auto simp: dl_inv_def call_load_many_def channels_def pending_def)
  next
    case None
    then obtain r' where r': "dl_max_batch_size dl' = max_size" "dl_requests dl' = Some r'"
        "requests_ok P max_size (sy_asked s @ [keys]) (sy_tasks s @ spawned) r'"
        "list_all (task_ok P (sy_asked s @ [keys])) spawned"
        "sender_txs (dr_pending r') + sum_list (map task_txs spawned) =
           sender_txs (pending (sy_loader s)) + {#length (sy_asked s)#}"
      using ok by auto
    have "list_all (task_ok P (sy_asked s @ [keys])) (sy_tasks s)"
      "list_all (reply_ok P M (sy_asked s @ [keys])) (sy_replies s)"
      using assms by (auto simp: dl_inv_def list_all_iff task_ok_asked reply_ok_asked)
    moreover have "channels s = mset [0..<length (sy_asked s)]" using assms by (simp add: dl_inv_def)
    from add_channel [OF r'(5) this [unfolded channels_def]]
    have "sender_txs (dr_pending r') + sum_list (map task_txs (sy_tasks s @ spawned)) + mset (map fst (sy_replies s)) =
        mset [0..<length (sy_asked s)] + {#length (sy_asked s)#}" by simp
    ultimately show ?thesis
      using None load assms r'
      by (simp add: dl_inv_def call_load_many_def channels_def pending_def)
  qed
qed

lemma dl_inv_loader:
  assumes "dl_inv P M max_size s" "dl_max_batch_size dl = max_size"
    and "dl_requests dl = Some r" "requests_ok P max_size (sy_asked s) (sy_tasks s) r" "dr_pending r = pending (sy_loader s)"
  shows "dl_inv P M max_size (s\<lparr>sy_loader := dl\<rparr>)"
  using assms by (simp add: dl_inv_def channels_def pending_def)

lemma dl_inv_cache:
  assumes "dl_inv P M max_size s" "holds P c"
  shows "dl_inv P M max_size (s\<lparr>sy_loader := (sy_loader s)\<lparr>dl_requests :=
    Some ((entry_requests ops (sy_loader s))\<lparr>dr_cache_storage := c\<rparr>)\<rparr>\<rparr>)"
  by (rule dl_inv_loader [OF assms(1) _ _ requests_ok_cache [OF entry_requests_ok(1) [OF assms(1)] assms(2)]])
     (use assms(1) entry_requests_ok(2) [OF assms(1)] in \<open>simp_all add: dl_inv_def\<close>)

lemma entry_requests_holds: "dl_inv P M max_size s \<Longrightarrow> holds P (dr_cache_storage (entry_requests ops (sy_loader s)))"
  using entry_requests_ok(1) [of P M max_size s] by (simp add: requests_ok_def)

lemma dl_inv_enable:
  assumes "dl_inv P M max_size s" "enable_cache b (sy_loader s) = Some dl"
  shows "dl_inv P M max_size (s\<lparr>sy_loader := dl\<rparr>)"
  using assms by (auto simp: enable_cache_def dl_inv_def channels_def pending_def requests_ok_def)

lemma dl_inv_enable_all: "dl_inv P M max_size s \<Longrightarrow> dl_inv P M max_size (s\<lparr>sy_loader := enable_all_cache b (sy_loader s)\<rparr>)"
  by (auto simp: enable_all_cache_def dl_inv_def channels_def pending_def split: option.splits)

lemma replace_channels:
  assumes "(a :: nat multiset) + ts + rs = p + t" "p + (b + (t + af)) + r = d"
  shows "a + (b + (ts + af)) + (r + rs) = d"
proof -
  have "a + (b + (ts + af)) + (r + rs) = (a + ts + rs) + (b + af + r)" by (simp add: ac_simps)
  also have "\<dots> = p + (b + (t + af)) + r" unfolding assms(1) by (simp add: ac_simps)
  finally show ?thesis by (simp add: assms(2))
qed

lemma dl_inv_replace:
  assumes inv: "dl_inv P M max_size s" and tasks: "sy_tasks s = before @ t # after"
    and dl: "dl_max_batch_size dl = max_size" "dl_requests dl = Some r"
      "requests_ok P max_size (sy_asked s) (before @ ts @ after) r"
    and new: "list_all (task_ok P (sy_asked s)) ts" "list_all (reply_ok P M (sy_asked s)) replies"
    and txs: "sender_txs (dr_pending r) + sum_list (map task_txs ts) + mset (map fst replies) =
      sender_txs (pending (sy_loader s)) + task_txs t"
  shows "dl_inv P M max_size
    (s\<lparr>sy_loader := dl, sy_tasks := before @ ts @ after, sy_replies := sy_replies s @ replies\<rparr>)" (is "dl_inv P M max_size ?s")
proof -
  have "channels ?s = channels s"
    using replace_channels [OF txs refl] by (simp add: channels_def pending_def dl(2) tasks)
  then show ?thesis using inv tasks dl new by (simp add: dl_inv_def)
qed

text \<open>A task that runs does not panic, keeps the invariant, and leaves less to do.\<close>

lemma fetch_task_ok:
  assumes inv: "dl_inv P M max_size s" and tasks: "sy_tasks s = before @ FetchTask d # after"
  shows "\<exists>s'. run_task ops (length before) result s = Some s' \<and> dl_inv P M max_size s' \<and>
    sy_asked s' = sy_asked s \<and> (\<exists>ts. sy_tasks s' = before @ ts @ after \<and> sum_list (map task_work ts) < 2)"
proof -
  obtain r where r: "dl_requests (sy_loader s) = Some r" "requests_ok P max_size (sy_asked s) (sy_tasks s) r"
    using inv tasks by (auto simp: dl_inv_def split: option.splits)
  define ts where "ts = (if dr_keys r = [] then [] else [LoadTask d (dr_keys r, dr_pending r)])"
  define dl where "dl = (sy_loader s)\<lparr>dl_requests := Some (r\<lparr>dr_keys := [], dr_pending := []\<rparr>)\<rparr>"
  have none: "dr_pending r = []" if "dr_keys r = []"
    using r(2) that by (cases "dr_pending r") (auto simp: requests_ok_def request_ok_def)
  have run: "run_task ops (length before) result s =
      Some (s\<lparr>sy_loader := dl, sy_tasks := before @ ts @ after, sy_replies := sy_replies s @ []\<rparr>)"
    using r(1) none by (simp add: run_task_def tasks start_fetch_def requests_take_def ts_def dl_def)
  have "dl_inv P M max_size (s\<lparr>sy_loader := dl, sy_tasks := before @ ts @ after, sy_replies := sy_replies s @ []\<rparr>)"
  proof (rule dl_inv_replace [OF inv tasks])
    show "dl_max_batch_size dl = max_size" using inv by (simp add: dl_def dl_inv_def)
    show "dl_requests dl = Some (r\<lparr>dr_keys := [], dr_pending := []\<rparr>)" by (simp add: dl_def)
    show "requests_ok P max_size (sy_asked s) (before @ ts @ after) (r\<lparr>dr_keys := [], dr_pending := []\<rparr>)"
      by (rule requests_ok_taken [OF r(2)])
    show "list_all (task_ok P (sy_asked s)) ts" using r(2) by (simp add: ts_def requests_ok_def)
  qed (use none in \<open>simp_all add: ts_def pending_def r(1)\<close>)
  then show ?thesis using run by (simp add: ts_def)
qed

lemma load_task_ok:
  assumes inv: "dl_inv P M max_size s" and tasks: "sy_tasks s = before @ LoadTask d batch # after"
    and result: "\<And>values. result = Inr values \<Longrightarrow>
      list_all P values \<and> list_all (\<lambda>k. map_of values k = None \<longrightarrow> M k) (fst batch)"
  shows "\<exists>s'. run_task ops (length before) result s = Some s' \<and> dl_inv P M max_size s' \<and>
    sy_asked s' = sy_asked s \<and> sy_tasks s' = before @ after"
proof -
  obtain r where r: "dl_requests (sy_loader s) = Some r" "requests_ok P max_size (sy_asked s) (sy_tasks s) r"
    using inv tasks by (auto simp: dl_inv_def split: option.splits)
  have reqs: "list_all (request_ok P (sy_asked s) (fst batch)) (snd batch)"
    using inv tasks by (simp add: dl_inv_def)
  have same: "requests_ok P max_size (sy_asked s) (before @ [] @ after) r"
    using r(2) tasks by (auto simp: requests_ok_def)
  obtain dl sent r' where do: "do_load ops d batch result (sy_loader s) = Some (sent, dl)"
      "dl_max_batch_size dl = max_size" "dl_requests dl = Some r'" "dr_pending r' = dr_pending r"
      "requests_ok P max_size (sy_asked s) (before @ [] @ after) r'"
      "map fst sent = map (\<lambda>req. rs_tx (snd req)) (snd batch)"
      "list_all (\<lambda>(tx, x). reply_ok P M (sy_asked s) (tx, Some x)) sent"
  proof (cases result)
    case (Inl err)
    show ?thesis
      by (rule that [of "map (\<lambda>(_, sender). (rs_tx sender, Inl err)) (snd batch)" "sy_loader s" r])
         (use Inl r same inv in \<open>auto simp: do_load_def dl_inv_def list_all_iff reply_ok_def\<close>)
  next
    case (Inr vals)
    define r' where "r' = (if dr_disable_cache r \<or> d then r
      else r\<lparr>dr_cache_storage := insert_values ops vals (dr_cache_storage r)\<rparr>)"
    have "holds P (insert_values ops vals (dr_cache_storage r))"
      using r(2) result [OF Inr] by (intro holds_insert_values) (auto simp: requests_ok_def)
    then have r': "requests_ok P max_size (sy_asked s) (before @ [] @ after) r'" "dr_pending r' = dr_pending r"
      using requests_ok_cache [OF same] same by (simp_all add: r'_def)
    have "\<forall>req\<in>set (snd batch). reply_ok P M (sy_asked s) (rs_tx (snd req), Some (Inr (response vals req)))"
    proof
      fix req assume "req \<in> set (snd batch)"
      then show "reply_ok P M (sy_asked s) (rs_tx (snd req), Some (Inr (response vals req)))"
        using response_answers [of P "sy_asked s" "fst batch" req vals M] reqs result [OF Inr]
        by (simp add: reply_ok_def list_all_iff request_ok_def)
    qed
    then show ?thesis
      by (intro that [of "map (\<lambda>req. (rs_tx (snd req), Inr (response vals req))) (snd batch)"
            "(sy_loader s)\<lparr>dl_requests := Some r'\<rparr>" r'])
         (use Inr r(1) r' inv in \<open>simp_all add: do_load_def r'_def Let_def dl_inv_def list_all_iff\<close>)
  qed
  let ?replies = "map (\<lambda>(tx, x). (tx, Some x)) sent"
  have "map fst ?replies = map fst sent" by (simp add: case_prod_unfold)
  then have txs: "mset (map fst ?replies) = sender_txs (snd batch)" by (simp add: do(6) sender_txs_def)
  have "dl_inv P M max_size (s\<lparr>sy_loader := dl, sy_tasks := before @ [] @ after, sy_replies := sy_replies s @ ?replies\<rparr>)"
    by (rule dl_inv_replace [OF inv tasks do(2,3,5)])
       (use do(4,7) txs r(1) in \<open>auto simp: list_all_iff pending_def\<close>)
  then show ?thesis by (simp add: run_task_def tasks do(1))
qed

lemma task_ok_runs:
  assumes inv: "dl_inv P M max_size s" and i: "i < length (sy_tasks s)" "load_ok loads (sy_tasks s ! i) result"
    and loads: "\<And>ks values. loads ks (Inr values) \<Longrightarrow>
      list_all P values \<and> list_all (\<lambda>k. map_of values k = None \<longrightarrow> M k) ks"
  obtains s' where "run_task ops i result s = Some s'" "dl_inv P M max_size s'" "sy_asked s' = sy_asked s"
    "dl_work s' < dl_work s"
proof -
  obtain before after where tasks: "sy_tasks s = before @ sy_tasks s ! i # after" "length before = i"
    using id_take_nth_drop [OF i(1)] i(1) by (metis length_take min.absorb4)
  show thesis
  proof (cases "sy_tasks s ! i")
    case (FetchTask d)
    with tasks have t: "sy_tasks s = before @ FetchTask d # after" by simp
    obtain s' ts where s': "run_task ops (length before) result s = Some s'" "dl_inv P M max_size s'"
      "sy_asked s' = sy_asked s" "sy_tasks s' = before @ ts @ after" "sum_list (map task_work ts) < 2"
      using fetch_task_ok [OF inv t, of result] by blast
    then show ?thesis using tasks(2) that [of s'] t by (simp add: dl_work_def)
  next
    case (LoadTask d batch)
    with tasks have t: "sy_tasks s = before @ LoadTask d batch # after" by simp
    have "list_all P values \<and> list_all (\<lambda>k. map_of values k = None \<longrightarrow> M k) (fst batch)" if "result = Inr values" for "values"
      using i(2) loads LoadTask that by simp
    from load_task_ok [OF inv t this] obtain s' where s': "run_task ops (length before) result s = Some s'"
      "dl_inv P M max_size s'" "sy_asked s' = sy_asked s" "sy_tasks s' = before @ after"
      by blast
    then show ?thesis using tasks(2) that [of s'] t by (simp add: dl_work_def)
  qed
qed

lemma dl_inv_step:
  assumes "dl_step ops loads P s s'" "dl_inv P M max_size s"
    and loads: "\<And>ks values. loads ks (Inr values) \<Longrightarrow>
      list_all P values \<and> list_all (\<lambda>k. map_of values k = None \<longrightarrow> M k) ks"
  shows "dl_inv P M max_size s'"
  using assms(1)
proof cases
  case (step_load_many keys)
  then show ?thesis using dl_inv_call [OF assms(2)] by simp
next
  case (step_task i result)
  then show ?thesis using task_ok_runs [OF assms(2) _ _ loads] by (metis option.inject)
next
  case (step_feed "values")
  have "holds P (insert_values ops values (dr_cache_storage (entry_requests ops (sy_loader s))))"
    by (rule holds_insert_values [OF entry_requests_holds [OF assms(2)] step_feed(2)])
  then show ?thesis using dl_inv_cache [OF assms(2)] step_feed(1) by (simp add: feed_many_def Let_def)
next
  case step_clear
  have "holds P (co_clear ops (dr_cache_storage (entry_requests ops (sy_loader s))))"
    by (rule holds_clear [OF entry_requests_holds [OF assms(2)]])
  then show ?thesis using dl_inv_cache [OF assms(2)] step_clear by (simp add: clear_cache_def Let_def)
next
  case (step_enable_all b)
  then show ?thesis using dl_inv_enable_all [OF assms(2)] by simp
next
  case (step_enable b dl)
  then show ?thesis using dl_inv_enable [OF assms(2)] by simp
qed

lemma dl_inv_reachable:
  assumes "dl_reachable ops loads P max_size s"
    and "\<And>ks values. loads ks (Inr values) \<Longrightarrow>
      list_all P values \<and> list_all (\<lambda>k. map_of values k = None \<longrightarrow> M k) ks"
  shows "dl_inv P M max_size s"
  using assms(1)
proof induction
  case (reach_step s s')
  show ?case by (rule dl_inv_step [OF reach_step.hyps(2) reach_step.IH assms(2)])
qed (rule dl_inv_start)

lemma run_tasks_ok:
  assumes "dl_inv (\<lambda>_. True) (\<lambda>_. True) max_size s" "dl_work s \<le> n"
  shows "\<exists>s'. run_tasks ops scheduler n s = Some s' \<and> dl_inv (\<lambda>_. True) (\<lambda>_. True) max_size s' \<and>
    sy_tasks s' = [] \<and> sy_asked s' = sy_asked s"
  using assms
proof (induction n arbitrary: s)
  case 0
  have "sy_tasks s = []"
  proof (cases "sy_tasks s")
    case (Cons t ts)
    then show ?thesis using "0.prems"(2) by (cases t) (simp_all add: dl_work_def)
  qed
  then show ?case using "0.prems"(1) by simp
next
  case (Suc n)
  show ?case
  proof (cases "sy_tasks s = []")
    case True
    then show ?thesis using Suc.prems(1) by simp
  next
    case False
    obtain i result where sched: "scheduler s = (i, result)" by fastforce
    define j where "j = i mod length (sy_tasks s)"
    have j: "j < length (sy_tasks s)" using False by (simp add: j_def)
    have "load_ok (\<lambda>_ _. True) t result" for t by (cases t) simp_all
    from task_ok_runs [OF Suc.prems(1) j this]
    obtain s' where "run_task ops j result s = Some s'" "dl_inv (\<lambda>_. True) (\<lambda>_. True) max_size s'"
      "sy_asked s' = sy_asked s" "dl_work s' < dl_work s"
      by (auto simp: list_all_iff)
    then show ?thesis using Suc.IH [of s'] Suc.prems(2) False sched by (simp add: j_def)
  qed
qed

text \<open>When no task is left every channel has been answered, and none was dropped.\<close>

lemma dl_inv_done:
  assumes "dl_inv P M max_size s" "sy_tasks s = []"
  shows "mset (map fst (sy_replies s)) = mset [0..<length (sy_asked s)]"
    and "list_all (\<lambda>(tx, reply). reply \<noteq> None) (sy_replies s)"
proof -
  have "pending (sy_loader s) = []"
  proof (cases "dl_requests (sy_loader s)")
    case (Some r)
    then have "list_all (request_ok P (sy_asked s) []) (dr_pending r)"
      using assms by (auto simp: dl_inv_def requests_ok_def)
    then show ?thesis using Some by (cases "dr_pending r") (auto simp: pending_def request_ok_def)
  qed (simp add: pending_def)
  then show "mset (map fst (sy_replies s)) = mset [0..<length (sy_asked s)]"
    using assms by (simp add: dl_inv_def channels_def)
  have "list_all (reply_ok P M (sy_asked s)) (sy_replies s)" using assms(1) by (simp add: dl_inv_def)
  then show "list_all (\<lambda>(tx, reply). reply \<noteq> None) (sy_replies s)"
    by (rule list.pred_mono_strong) (auto simp: reply_ok_def split: option.splits)
qed

end

text \<open>A backend that the loader consults, and the answer it owes to a call.\<close>

definition consults :: "('k \<Rightarrow> 'v option) \<Rightarrow> 'k list \<Rightarrow> 'e + ('k, 'v) index_map \<Rightarrow> bool" where
  "consults backend ks result \<longleftrightarrow>
     (case result of
        Inl err \<Rightarrow> True
      | Inr values \<Rightarrow>
          list_all (\<lambda>k. map_of values k = backend k) ks \<and> list_all (\<lambda>(k, v). backend k = Some v) values)"

lemma answers_backend:
  "answers (\<lambda>(k, v). backend k = Some v) (\<lambda>k. backend k = None) ks res \<Longrightarrow> map_of res = backend |` set ks"
  by (rule ext) (auto simp: answers_def restrict_map_def subset_iff domIff; metis not_None_eq)

end
