(* ===== verification/Samples.thy ===== *)
theory Samples
  imports Dynamic_Exec Web_Socket Request_Prep Scoped Parser_Service Data_Loader
begin

text \<open>
  A small schema and small documents, for the evaluations that go with the theorems. The schema is

    \<^verbatim>\<open>type Query { id(n: Int): Int  self: Query  any: Node }   union Node = Query | Leaf
          type Leaf { id: Int }   input Point { x: Int!  y: Int }\<close>
\<close>

definition at :: "'a \<Rightarrow> 'a positioned" where
  "at x = Positioned (Pos 1 1) x"

definition sample_input :: "string \<Rightarrow> string \<Rightarrow> meta_input_value" where
  "sample_input n ty =
     \<lparr>miv_name = n, miv_description = None, miv_ty = ty, miv_deprecation = NoDeprecated,
      miv_default_value = None, miv_visible = None, miv_inaccessible = False, miv_tags = [],
      miv_is_secret = False, miv_directive_invocations = []\<rparr>"

definition sample_field ::
  "string \<Rightarrow> (string, meta_input_value) index_map \<Rightarrow> string \<Rightarrow> cache_control \<Rightarrow> string \<times> meta_field" where
  "sample_field n args ty cache =
     (n, \<lparr>mf_name = n, mf_description = None, mf_args = args, mf_ty = ty,
          mf_deprecation = NoDeprecated, mf_cache_control = cache, mf_external = False,
          mf_requires = None, mf_provides = None, mf_visible = None, mf_shareable = False,
          mf_inaccessible = False, mf_tags = [], mf_override_from = None,
          mf_compute_complexity = None, mf_directive_invocations = [], mf_requires_scopes = []\<rparr>)"

definition sample_object :: "string \<Rightarrow> (string \<times> meta_field) list \<Rightarrow> string \<times> meta_type" where
  "sample_object n fs =
     (n, MObject \<lparr>ob_name = n, ob_description = None, ob_fields = fs,
                  ob_cache_control = cache_control_default, ob_extends = False, ob_shareable = False,
                  ob_resolvable = True, ob_keys = None, ob_visible = None, ob_inaccessible = False,
                  ob_interface_object = False, ob_tags = [], ob_is_subscription = False,
                  ob_rust_typename = None, ob_directive_invocations = [], ob_requires_scopes = []\<rparr>)"

fun valid_int :: "const_value \<Rightarrow> bool" where
  "valid_int (CNumber _) = True"
| "valid_int _ = False"

definition sample_scalar :: "string \<Rightarrow> string \<times> meta_type" where
  "sample_scalar n =
     (n, MScalar \<lparr>sc_name = n, sc_description = None, sc_is_valid = Some valid_int, sc_visible = None,
                  sc_inaccessible = False, sc_tags = [], sc_specified_by_url = None,
                  sc_directive_invocations = [], sc_requires_scopes = []\<rparr>)"

definition sample_union :: "string \<Rightarrow> string list \<Rightarrow> string \<times> meta_type" where
  "sample_union n ts =
     (n, MUnion \<lparr>un_name = n, un_description = None, un_possible_types = ts, un_visible = None,
                 un_inaccessible = False, un_tags = [], un_rust_typename = None,
                 un_directive_invocations = []\<rparr>)"

definition sample_input_object :: "string \<Rightarrow> (string \<times> meta_input_value) list \<Rightarrow> string \<times> meta_type" where
  "sample_input_object n fs =
     (n, MInputObject \<lparr>io_name = n, io_description = None, io_input_fields = fs, io_visible = None,
                       io_inaccessible = False, io_tags = [], io_rust_typename = None, io_oneof = False,
                       io_directive_invocations = []\<rparr>)"

definition sample_registry :: registry where
  "sample_registry =
     \<lparr>types =
        [sample_object ''Query''
           [sample_field ''id'' [(''n'', sample_input ''n'' ''Int'')] ''Int'' \<lparr>cc_public = True, cc_max_age = 60\<rparr>,
            sample_field ''self'' [] ''Query'' \<lparr>cc_public = False, cc_max_age = 30\<rparr>,
            sample_field ''any'' [] ''Node'' cache_control_default],
         sample_object ''Leaf'' [sample_field ''id'' [] ''Int'' \<lparr>cc_public = True, cc_max_age = -1\<rparr>],
         sample_union ''Node'' [''Query'', ''Leaf''],
         sample_scalar ''Int'',
         sample_input_object ''Point''
           [(''x'', sample_input ''x'' ''Int!''), (''y'', sample_input ''y'' ''Int'')]],
      directives = [], implements = [], query_type = ''Query'', mutation_type = None,
      subscription_type = None, introspection_mode = IntrospectionEnabled,
      enable_federation = False, federation_subscription = False, ignore_name_conflicts = [],
      enable_suggestions = True\<rparr>"

subsection \<open>Documents\<close>

definition field_sel :: "string \<Rightarrow> selection positioned list \<Rightarrow> selection positioned" where
  "field_sel n sels = at (Field (at (MkField None (at n) [] [] (at (SelectionSet sels)))))"

definition spread_sel :: "string \<Rightarrow> selection positioned" where
  "spread_sel n = at (FragmentSpread (at \<lparr>fs_fragment_name = at n, fs_directives = []\<rparr>))"

definition query_doc ::
  "variable_definition positioned list \<Rightarrow> selection positioned list \<Rightarrow>
   (name \<times> name \<times> selection positioned list) list \<Rightarrow> executable_document" where
  "query_doc defs sels frags =
     \<lparr>doc_operations = Single (at \<lparr>od_ty = Query, od_variable_definitions = defs, od_directives = [],
                                    od_selection_set = at (SelectionSet sels)\<rparr>),
      doc_fragments = map (\<lambda>(n, cond, sels). (n, at \<lparr>fd_type_condition = at \<lparr>tc_on = at cond\<rparr>,
        fd_directives = [], fd_selection_set = at (SelectionSet sels)\<rparr>)) frags\<rparr>"

text \<open>\<^verbatim>\<open>{ self { id ...F } }   fragment F on Query { self { id } }\<close>\<close>

definition nested_doc :: executable_document where
  "nested_doc =
     query_doc [] [field_sel ''self'' [field_sel ''id'' [], spread_sel ''F'']]
       [(''F'', ''Query'', [field_sel ''self'' [field_sel ''id'' []]])]"

text \<open>\<^verbatim>\<open>{ ...F }   fragment F on Query { self { ...G } }   fragment G on Query { ...F }\<close>\<close>

definition cyclic_doc :: executable_document where
  "cyclic_doc =
     query_doc [] [spread_sel ''F'']
       [(''F'', ''Query'', [field_sel ''self'' [spread_sel ''G'']]), (''G'', ''Query'', [spread_sel ''F''])]"


text \<open>\<^verbatim>\<open>{id}\<close>, as it is parsed, against a schema with only this field.\<close>

definition id_field :: meta_field where
  "id_field = snd (sample_field ''id'' [] ''Int'' \<lparr>cc_public = True, cc_max_age = 60\<rparr>)"

definition id_query :: meta_type where
  "id_query = snd (sample_object ''Query'' [(''id'', id_field)])"

definition id_registry :: registry where
  "id_registry = sample_registry\<lparr>types := [(''Query'', id_query)]\<rparr>"

definition inner :: "'a \<Rightarrow> 'a positioned" where
  "inner x = Positioned (Pos 1 2) x"

definition id_selection :: "field positioned" where
  "id_selection = inner (MkField None (inner ''id'') [] [] default_selection_set)"

definition id_operation :: "operation_definition positioned" where
  "id_operation = at \<lparr>od_ty = Query, od_variable_definitions = [], od_directives = [],
     od_selection_set = at (SelectionSet [inner (Field id_selection)])\<rparr>"

definition id_doc :: executable_document where
  "id_doc = \<lparr>doc_operations = Single id_operation, doc_fragments = []\<rparr>"

definition id_ctx :: visitor_ctx where
  "id_ctx = visitor_ctx_new id_registry id_doc None"

lemma id_registry_simps [simp]:
  "map_of (types id_registry) ''Query'' = Some id_query"
  "map_of (types id_registry) ''Int'' = None"
  "query_type id_registry = ''Query''"
  "field_by_name id_query ''id'' = Some id_field"
  "mf_ty id_field = ''Int''" "mf_args id_field = []"
  "is_leaf id_query = False" "is_composite id_query = True" "mt_name id_query = ''Query''"
  "is_subscription_type id_query = False"
  by (simp_all add: id_registry_def id_query_def id_field_def sample_object_def sample_field_def
      sample_registry_def field_by_name_def is_subscription_type_def)

lemma id_doc_simps [simp]:
  "doc_fragments id_doc = []" "operations_iter (doc_operations id_doc) = [(None, id_operation)]"
  "od_ty (node id_operation) = Query" "od_variable_definitions (node id_operation) = []"
  "od_directives (node id_operation) = []"
  "od_selection_set (node id_operation) = at (SelectionSet [inner (Field id_selection)])"
  "f_name (node id_selection) = inner ''id''" "f_arguments (node id_selection) = []"
  "f_directives (node id_selection) = []" "f_selection_set (node id_selection) = default_selection_set"
  "node (at x) = x" "pos (at x) = Pos 1 1" "node (inner x) = x" "pos (inner x) = Pos 1 2"
  "node default_selection_set = SelectionSet []" "f_alias (node id_selection) = None"
  by (simp_all add: id_doc_def id_operation_def id_selection_def at_def inner_def default_selection_set_def)


lemma id_ctx_simps [simp]:
  "vc_registry id_ctx = id_registry" "vc_fragments id_ctx = []" "vc_type_stack id_ctx = []"
  "vc_variables id_ctx = None" "vc_errors id_ctx = []" "clear id_ctx = id_ctx"
  by (simp_all add: id_ctx_def visitor_ctx_new_def clear_def)

lemma pushed_types [simp]:
  "parent_type id_ctx = None" "current_type id_ctx = None"
  "parent_type (push_type a id_ctx) = None" "current_type (push_type a env) = a"
  "parent_type (push_type a (push_type b env)) = b" "vc_registry (push_type a env) = vc_registry env"
  "vc_errors (push_type a env) = vc_errors env"
  by (simp_all add: parent_type_def current_type_def push_type_def)

lemma concrete_typename_Int: "concrete_typename ''Int'' = ''Int''"
  by code_simp

definition id_events :: "event list" where
  "id_events =
    [Call (EnterDocument id_doc) id_ctx,
     Call (EnterOperationDefinition None id_operation) id_ctx,
     Call (EnterSelectionSet (at (SelectionSet [inner (Field id_selection)]))) (push_type (Some id_query) id_ctx),
     Call (EnterSelection (inner (Field id_selection))) (push_type (Some id_query) id_ctx),
     Call (EnterField id_selection) (push_type None (push_type (Some id_query) id_ctx)),
     Call (ExitField id_selection) (push_type None (push_type (Some id_query) id_ctx)),
     Call (ExitSelection (inner (Field id_selection))) (push_type (Some id_query) id_ctx),
     Call (ExitSelectionSet (at (SelectionSet [inner (Field id_selection)]))) (push_type (Some id_query) id_ctx),
     Call (ExitOperationDefinition None id_operation) id_ctx,
     Call (ExitDocument id_doc) id_ctx]"

lemma id_trace: "trace n m id_ctx id_doc = Inr id_events"
  by (simp add: id_events_def trace_def trace_fragment_definition_def trace_operation_definition_def
      Let_def trace_selection_set.simps trace_selection.simps [of _ _ _ "Pos 1 2", folded inner_def]
      trace_field.simps trace_variable_definitions_def trace_directives_def field_type_def
      concrete_typename_Int concrete_type_by_name_def)

lemma id_strict_reports: "concat (strict_reports (seen id_events)) = []"
  unfolding strict_reports_def outcome_seen
  by (simp add: id_events_def emits_def nextst_def rule_defs variable_in_allowed_position_def)
     (simp add: check_leaf_def check_field_exists_def Let_def check_duplicate_directive_def va_init_def
       add_output_def concrete_type_by_name_def concrete_typename_Int nv_init_def nf_init_def nd_init_def
       fc_init_def detect_cycles_def find_undef_vars_def scope_graph_def succs_def)

lemma id_complexity:
  "fst (outcome complexity_calculate id_events complexity_init) = []"
  "cx_complexity (snd (outcome complexity_calculate id_events complexity_init)) = 1"
proof -
  have "custom_complexity (push_type None (push_type (Some id_query) id_ctx)) fld = None" for fld
    by (auto simp: custom_complexity_def id_query_def id_field_def sample_field_def sample_object_def
        split: bind_splits)
  then show "fst (outcome complexity_calculate id_events complexity_init) = []"
    "cx_complexity (snd (outcome complexity_calculate id_events complexity_init)) = 1"
    by (simp_all add: id_events_def emits_def nextst_def complexity_calculate_def complexity_init_def
        exit_field_complexity_def add_to_top_def Let_def)
qed

definition id_result :: validation_result where
  "id_result = \<lparr>vr_cache_control = \<lparr>cc_public = True, cc_max_age = 60\<rparr>, vr_complexity = 1, vr_depth = 1\<rparr>"

lemma id_calculated: "calculated_result id_events = id_result"
proof -
  have "dc_max_depth (snd (outcome depth_calculate id_events depth_init)) = 1"
    by (simp add: id_events_def nextst_def depth_calculate_def depth_init_def)
  moreover have "snd (outcome cache_control_calculate id_events cache_control_default) =
      \<lparr>cc_public = True, cc_max_age = 60\<rparr>"
    unfolding cache_control_outcome
    by (simp add: id_events_def cc_merge_def cache_control_default_def merge_max_age_def id_query_def
        id_field_def sample_field_def sample_object_def field_by_name_def)
  ultimately show ?thesis by (simp add: calculated_result_def id_complexity id_result_def)
qed

lemma id_doc_accepted: "check_rules n id_registry id_doc None Strict None None = Inr (Inr id_result)"
proof -
  have "strict_errors id_events id_events = []"
    by (simp add: strict_errors_def id_strict_reports id_complexity id_events_def [THEN arg_cong, of reports])
  then show ?thesis
    using id_trace [of n] by (auto simp: check_rules_strict_Inr id_calculated within_limits_def id_ctx_def)
qed

lemma id_doc_wf [simp]: "wf_doc id_doc"
  by (simp add: wf_doc_def)

subsection \<open>Parsing\<close>

text \<open>A parser for the texts \<^verbatim>\<open>{id}\<close> and \<^verbatim>\<open>directive @a on FIELD\<close>, with the pairs that \<open>pest\<close> builds for
  them.\<close>

definition id_pair :: pair where
  "id_pair =
     Pair R_executable_document ''{id}'' 0 4
       [Pair R_executable_definition ''{id}'' 0 4
          [Pair R_operation_definition ''{id}'' 0 4
             [Pair R_selection_set ''{id}'' 0 4
                [Pair R_selection ''id'' 1 3 [Pair R_field ''id'' 1 3 [Pair R_name ''id'' 1 3 []]]]]],
        Pair R_EOI [] 4 4 []]"

definition directive_text :: string where
  "directive_text = ''directive @a on FIELD''"

definition directive_pair :: pair where
  "directive_pair =
     Pair R_service_document directive_text 0 21
       [Pair R_type_system_definition directive_text 0 21
          [Pair R_directive_definition directive_text 0 21
             [Pair R_name ''a'' 11 12 [], Pair R_repeatable [] 13 13 [],
              Pair R_directive_locations ''FIELD'' 16 21 [Pair R_directive_location ''FIELD'' 16 21 []]]],
        Pair R_EOI [] 21 21 []]"

definition id_pest :: pest where
  "id_pest rule input =
     (if rule = R_executable_document \<and> input = ''{id}'' then Inr [id_pair]
      else if rule = R_service_document \<and> input = directive_text then Inr [directive_pair]
      else Inl (''unexpected'', LinePos (1, 1)))"

definition no_numbers :: number_reader where
  "no_numbers s = Inl s"

lemma id_pest_conforms: "pest_conforms id_pest"
proof -
  have "conforms_pair ''{id}'' id_pair" "conforms_pair directive_text directive_pair" by code_simp+
  then show ?thesis
    by (auto simp: pest_conforms_def id_pest_def id_pair_def directive_pair_def split: if_splits)
qed

lemma id_parse: "parse_query id_pest no_numbers ''{id}'' = Inr id_doc"
  by code_simp

text \<open>The directive is not declared repeatable, and is parsed as if it were.\<close>

lemma directive_parse:
  "parse_schema id_pest no_numbers directive_text =
     Inr \<lparr>definitions = [DirectiveDef (Positioned (Pos 1 1)
       \<lparr>dd_description = None, dd_name = Positioned (Pos 1 12) ''a'', dd_arguments = [], dd_is_repeatable = True,
        dd_locations = [Positioned (Pos 1 17) DL_Field]\<rparr>)]\<rparr>"
  by code_simp

subsection \<open>Loading\<close>

text \<open>Two calls, for the keys 1, 2 and 1, 12, that a fetch task loads in one batch, and a third call for 1.\<close>

definition digits :: "nat \<Rightarrow> string option" where
  "digits n = (if n < 10 then Some [char_of (48 + n)] else None)"

definition dl_sample :: "(nat, string, (nat, string) index_map, string) dl_system" where
  "dl_sample = call_load_many hash_map_cache [1, 12] (call_load_many hash_map_cache [1, 2] (dl_start 10))"

lemma dl_sample_reachable: "dl_reachable hash_map_cache loads feeds 10 dl_sample"
  unfolding dl_sample_def by (intro reach_step [OF _ step_load_many] reach_start)

definition dl_result :: "string + (nat, string) index_map" where
  "dl_result = Inr [(1, ''1''), (2, ''2'')]"

definition dl_fetched :: "(nat, string, (nat, string) index_map, string) dl_system" where
  "dl_fetched = the (run_task hash_map_cache 0 dl_result dl_sample)"

definition dl_loaded :: "(nat, string, (nat, string) index_map, string) dl_system" where
  "dl_loaded = the (run_task hash_map_cache 0 dl_result dl_fetched)"

lemma dl_loaded_reachable:
  "dl_reachable hash_map_cache (consults digits) (\<lambda>(k, v). digits k = Some v) 10
     (call_load_many hash_map_cache [1] dl_loaded)"
proof -
  have "run_task hash_map_cache 0 dl_result dl_sample = Some dl_fetched" by code_simp
  moreover have "0 < length (sy_tasks dl_sample)" by code_simp
  moreover have "load_ok (consults digits) (sy_tasks dl_sample ! 0) dl_result" by code_simp
  ultimately have fetched: "dl_reachable hash_map_cache (consults digits) (\<lambda>(k, v). digits k = Some v) 10 dl_fetched"
    by (metis reach_step step_task dl_sample_reachable)
  have "run_task hash_map_cache 0 dl_result dl_fetched = Some dl_loaded" by code_simp
  moreover have "0 < length (sy_tasks dl_fetched)" by code_simp
  moreover have "load_ok (consults digits) (sy_tasks dl_fetched ! 0) dl_result" by code_simp
  ultimately have "dl_reachable hash_map_cache (consults digits) (\<lambda>(k, v). digits k = Some v) 10 dl_loaded"
    using reach_step [OF fetched step_task] by blast
  then show ?thesis using reach_step step_load_many by metis
qed

lemma dl_loaded_value:
  "sy_returned (call_load_many hash_map_cache [1] dl_loaded) = [([1], [(1, ''1'')])]"
  "sy_replies (call_load_many hash_map_cache [1] dl_loaded) =
     [(0, Some (Inr [(1, ''1''), (2, ''2'')])), (1, Some (Inr [(1, ''1'')]))]"
  by code_simp+

subsection \<open>A dynamic schema\<close>

text \<open>\<^verbatim>\<open>type Query { id: Int! }   input Filter { not: Filter }\<close>, without the types that generated code registers.\<close>

definition dyn_id :: dyn_field where
  "dyn_id =
     \<lparr>df_name = ''id'', df_description = None, df_arguments = [], df_ty = RNonNull (RNamed ''Int''),
      df_deprecation = NoDeprecated, df_external = False, df_requires = None, df_provides = None,
      df_shareable = False, df_inaccessible = False, df_tags = [], df_override_from = None, df_directives = [],
      df_requires_scopes = [], df_resolver_fn = (\<lambda>_ _ _ _. Inr (Some (FValue (CNumber (NInt 1)))))\<rparr>"

definition dyn_query :: dyn_object where
  "dyn_query =
     \<lparr>dob_name = ''Query'', dob_description = None, dob_fields = [(''id'', dyn_id)], dob_implements = [],
      dob_keys = [], dob_extends = False, dob_shareable = False, dob_resolvable = True, dob_inaccessible = False,
      dob_interface_object = False, dob_tags = [], dob_directives = [], dob_requires_scopes = []\<rparr>"

definition dyn_filter :: dyn_input_object where
  "dyn_filter =
     \<lparr>dio_name = ''Filter'', dio_description = None,
      dio_fields = [(''not'', \<lparr>div_name = ''not'', div_description = None, div_ty = RNamed ''Filter'',
        div_default_value = None, div_inaccessible = False, div_tags = [], div_directives = [],
        div_deprecation = NoDeprecated\<rparr>)],
      dio_oneof = False, dio_inaccessible = False, dio_tags = [], dio_directives = []\<rparr>"

definition dyn_builder :: schema_builder where
  "dyn_builder = register (DInputObject dyn_filter) (register (DObject dyn_query) (build ''Query'' None None))"

definition no_generated :: generated where
  "no_generated = \<lparr>create_system_scalars = Inr, create_schema_type_info = Inr, create_any_type_info = Inr\<rparr>"

definition dyn_schema :: schema_inner where
  "dyn_schema = projr (finish no_generated (\<lambda>_. []) dyn_builder)"

lemma dyn_schema_finished: "finish no_generated (\<lambda>_. []) dyn_builder = Inr dyn_schema"
proof -
  have "\<not> isl (finish no_generated (\<lambda>_. []) dyn_builder)" by code_simp
  then show ?thesis by (simp add: dyn_schema_def)
qed

lemma no_generated_adds_types: "adds_types no_generated"
proof -
  have "only_types Inr" unfolding only_types_def by (metis registry.surjective registry.update_convs(1) sum.inject(2))
  then show ?thesis by (simp add: adds_types_def no_generated_def)
qed

lemma dyn_builder_named: "named_types (sb_types dyn_builder)"
  by (simp add: dyn_builder_def)

definition no_introspection :: generated_fn where
  "no_introspection g path field = exec_ok CNull"

lemma no_introspection_returns: "returns (no_introspection g path field)"
  by (simp add: no_introspection_def)

definition id_env :: "(unit, unit) query_env" where
  "id_env =
     \<lparr>qe_variables = [], qe_operation_name = None, qe_operation = id_operation, qe_fragments = [], qe_uploads = [],
      qe_session_data = (), qe_query_data = (), qe_introspection_mode = IntrospectionEnabled, qe_errors = []\<rparr>"

lemma dyn_executed:
  "resolve_container 0 no_introspection dyn_schema id_env dyn_query (node (od_selection_set (node id_operation))) []
     (FValue CNull) = Inr (Inr (Some (CObject [(''id'', CNumber (NInt 1))])), [])"
  by code_simp

subsection \<open>A connection\<close>

text \<open>The client initialises the connection and subscribes; the subscription yields one response.\<close>

definition ws_answers :: "(nat, nat, nat) polled" where
  "ws_answers =
     \<lparr>po_timer = False, po_init = Some (Inr []), po_ping = None, po_streams = (\<lambda>_. Some (Some 7))\<rparr>"

definition ws_client ::
  "(nat, nat) client_message \<Rightarrow> (nat, nat, nat, nat) ws_system \<Rightarrow> (nat, nat, nat, nat) ws_system" where
  "ws_client m sy = sy\<lparr>wy_socket := (wy_socket sy)\<lparr>ws_stream := ws_stream (wy_socket sy) @ [Msg m]\<rparr>\<rparr>"

definition ws_sample :: "(nat, nat, nat, nat) ws_system" where
  "ws_sample =
     ws_poll ws_answers (ws_poll ws_answers (ws_client (Start ''1'' 0) (ws_client (ConnectionInit None)
       \<lparr>wy_socket = keepalive_timeout False ((from_message_stream GraphQLWS)\<lparr>ws_connection_data := None\<rparr>),
        wy_events = [], wy_finished = False\<rparr>)))"

lemma ws_sample_reachable: "ws_reachable GraphQLWS ws_sample"
  unfolding ws_sample_def ws_client_def
  by (intro ws_reachable.poll ws_reachable.client ws_reachable.start refl) code_simp+

lemma ws_sample_events:
  "wy_events ws_sample =
     [Received (Msg (ConnectionInit None)), Sent (WsText ConnectionAck), Received (Msg (Start ''1'' 0)),
      Sent (WsText (Next ''1'' 7))]"
  by code_simp

end
