(* ===== verification/Exec_Doc_Print.thy ===== *)
theory Exec_Doc_Print
  imports String_Literals Request_Prep
begin

text \<open>
  Printing a document for a log: \<open>src/registry/stringify_exec_doc.rs\<close>, which \<open>ExtensionContext\<close>
  offers to extensions and which the logger and the tracing extensions use. It substitutes the
  variables and hides the arguments marked as secret.

  Writing to a \<open>String\<close> does not fail, so the functions return the text. How a number is printed
  is the argument \<open>show_number\<close>, as for \<open>Display\<close>. The fragments are a \<open>HashMap\<close>: they are printed
  in the order of the list, and the theorems hold for each order.

  Lemmas: \<open>mask_document\<close> replaces what the schema declares secret by the text \<open><secret>\<close>,
  and the printed document is the plain text of the masked document, as long as every inline
  fragment has a type condition and no secret is inside a list; samples show that both conditions
  are needed, that is, that secrets are printed without them.
\<close>

subsection \<open>The printer\<close>

definition is_secret_input :: "meta_input_value option \<Rightarrow> bool" where
  "is_secret_input meta = (case meta of Some m \<Rightarrow> miv_is_secret m | None \<Rightarrow> False)"

definition secret_text :: string where
  "secret_text = ''<secret>''"

definition input_type_of :: "registry \<Rightarrow> meta_input_value option \<Rightarrow> meta_type option" where
  "input_type_of reg meta =
     Option.bind meta (\<lambda>input_value. im_get (types reg) (concrete_typename (miv_ty input_value)))"

fun stringify_input_value ::
  "registry \<Rightarrow> (number \<Rightarrow> string) \<Rightarrow> meta_input_value option \<Rightarrow> const_value \<Rightarrow> string" where
  "stringify_input_value reg show_number meta value =
     (if is_secret_input meta then [CHR 0x22] @ secret_text @ [CHR 0x22]
      else case value of
        CObject obj \<Rightarrow>
          (case input_type_of reg meta of
             Some (MInputObject t) \<Rightarrow>
               ''{'' @ comma_separated (map (\<lambda>(key, value).
                   key @ '': '' @ stringify_input_value reg show_number (im_get (io_input_fields t) key) value) obj)
                 @ ''}''
           | _ \<Rightarrow> const_value_str show_number value)
      | _ \<Rightarrow> const_value_str show_number value)"

declare stringify_input_value.simps [simp del]

fun space_separated :: "string list \<Rightarrow> string" where
  "space_separated [] = []"
| "space_separated [x] = x"
| "space_separated (x # xs) = x @ '' '' @ space_separated xs"

text \<open>\<open>into_const_with(..).unwrap_or_default()\<close>: an argument with an unknown variable is \<open>null\<close>.\<close>

definition argument_const :: "variables \<Rightarrow> gvalue \<Rightarrow> const_value" where
  "argument_const vars value =
     (case into_const_with value (\<lambda>n. case im_get vars n of Some v \<Rightarrow> Inr v | None \<Rightarrow> Inl ()) of
        Inl _ \<Rightarrow> CNull
      | Inr v \<Rightarrow> v)"

definition argument_meta :: "meta_type option \<Rightarrow> name \<Rightarrow> name \<Rightarrow> meta_input_value option" where
  "argument_meta container field_name arg =
     Option.bind (Option.bind container (\<lambda>ty. field_by_name ty field_name)) (\<lambda>f. im_get (mf_args f) arg)"

definition field_parent :: "registry \<Rightarrow> meta_type option \<Rightarrow> name \<Rightarrow> meta_type option" where
  "field_parent reg container field_name =
     Option.bind (Option.bind container (\<lambda>ty. field_by_name ty field_name))
       (\<lambda>f. im_get (types reg) (concrete_typename (mf_ty f)))"

definition stringify_arguments ::
  "registry \<Rightarrow> (number \<Rightarrow> string) \<Rightarrow> variables \<Rightarrow> meta_type option \<Rightarrow> name \<Rightarrow> arguments \<Rightarrow> string" where
  "stringify_arguments reg show_number vars container field_name args =
     (if args = [] then []
      else ''('' @ comma_separated (map (\<lambda>(n, argument).
          node n @ '': '' @ stringify_input_value reg show_number (argument_meta container field_name (node n))
            (argument_const vars (node argument))) args) @ '')'')"

function (sequential)
  stringify_selection_set ::
    "registry \<Rightarrow> (number \<Rightarrow> string) \<Rightarrow> variables \<Rightarrow> selection_set \<Rightarrow> meta_type option \<Rightarrow> string" and
  stringify_selection ::
    "registry \<Rightarrow> (number \<Rightarrow> string) \<Rightarrow> variables \<Rightarrow> selection \<Rightarrow> meta_type option \<Rightarrow> string" where
  "stringify_selection_set reg show_number vars ss container =
     ''{ '' @ space_separated
       (map (\<lambda>sel. stringify_selection reg show_number vars (node sel) container) (ss_items ss)) @ '' }''"
| "stringify_selection reg show_number vars (Field field) container =
     (let f = node field; fname = node (f_name f); sub = node (f_selection_set f) in
      (case f_alias f of Some alias \<Rightarrow> node alias @ '':'' | None \<Rightarrow> []) @ fname @
      stringify_arguments reg show_number vars container fname (f_arguments f) @
      (if ss_items sub = [] then []
       else '' '' @ stringify_selection_set reg show_number vars sub (field_parent reg container fname)))"
| "stringify_selection reg show_number vars (FragmentSpread spread) container =
     ''... '' @ node (fs_fragment_name (node spread))"
| "stringify_selection reg show_number vars (InlineFragment frag) container =
     ''... '' @
     (case if_type_condition (node frag) of
        Some cond \<Rightarrow>
          ''on '' @ node (tc_on (node cond)) @ '' '' @
          stringify_selection_set reg show_number vars (node (if_selection_set (node frag)))
            (im_get (types reg) (node (tc_on (node cond))))
      | None \<Rightarrow>
          stringify_selection_set reg show_number vars (node (if_selection_set (node frag))) None)"
  by pat_completeness auto

termination stringify_selection_set
  by (relation "measure (case_sum (\<lambda>(_, _, _, ss, _). size ss) (\<lambda>(_, _, _, sel, _). size sel))")
     (auto simp: termination_simp size_positioned_node less_SucI)

declare stringify_selection_set.simps [simp del]

definition stringify_fragment_definition ::
  "registry \<Rightarrow> (number \<Rightarrow> string) \<Rightarrow> variables \<Rightarrow> name \<Rightarrow> meta_type option \<Rightarrow> fragment_definition \<Rightarrow> string" where
  "stringify_fragment_definition reg show_number vars n container frag =
     ''fragment '' @ n @ '' on '' @ node (tc_on (node (fd_type_condition frag))) @
     stringify_selection_set reg show_number vars (node (fd_selection_set frag)) container @
     ''}'' @ [CHR 0x0A, CHR 0x0A]"

definition stringify_variable_definition ::
  "(number \<Rightarrow> string) \<Rightarrow> variable_definition \<Rightarrow> string" where
  "stringify_variable_definition show_number def =
     ''$'' @ node (vd_name def) @ '': '' @ type_str (node (vd_var_type def)) @
     (case vd_default_value def of
        Some value \<Rightarrow> '' = '' @ const_value_str show_number (node value)
      | None \<Rightarrow> [])"

definition root_type_of :: "registry \<Rightarrow> operation_type \<Rightarrow> meta_type option" where
  "root_type_of reg ty =
     (case ty of
        Query \<Rightarrow> im_get (types reg) (query_type reg)
      | Mutation \<Rightarrow> Option.bind (mutation_type reg) (im_get (types reg))
      | Subscription \<Rightarrow> Option.bind (subscription_type reg) (im_get (types reg)))"

definition stringify_operation ::
  "registry \<Rightarrow> (number \<Rightarrow> string) \<Rightarrow> variables \<Rightarrow> name option \<Rightarrow> operation_definition \<Rightarrow> string" where
  "stringify_operation reg show_number vars n op =
     operation_type_str (od_ty op) @ '' '' @
     (case n of
        Some n \<Rightarrow>
          n @ (if od_variable_definitions op = [] then []
               else ''('' @ comma_separated (map (\<lambda>def. stringify_variable_definition show_number (node def))
                      (od_variable_definitions op)) @ '')'') @ '' ''
      | None \<Rightarrow> []) @
     stringify_selection_set reg show_number vars (node (od_selection_set op)) (root_type_of reg (od_ty op))"

definition stringify_exec_doc ::
  "registry \<Rightarrow> (number \<Rightarrow> string) \<Rightarrow> variables \<Rightarrow> executable_document \<Rightarrow> string" where
  "stringify_exec_doc reg show_number vars doc =
     concat (map (\<lambda>(n, fragment).
         stringify_fragment_definition reg show_number vars n
           (im_get (types reg) (node (tc_on (node (fd_type_condition (node fragment)))))) (node fragment))
       (doc_fragments doc)) @
     concat (map (\<lambda>(n, op). stringify_operation reg show_number vars n (node op))
       (operations_iter (doc_operations doc)))"

subsection \<open>Masking\<close>

text \<open>What the schema declares secret, replaced by a text; here the elements of a list are values of
  the same input type.\<close>

fun mask_value :: "registry \<Rightarrow> meta_input_value option \<Rightarrow> const_value \<Rightarrow> const_value" where
  "mask_value reg meta value =
     (if is_secret_input meta then CString secret_text
      else case value of
        CObject obj \<Rightarrow>
          (case input_type_of reg meta of
             Some (MInputObject t) \<Rightarrow>
               CObject (map (\<lambda>(key, value). (key, mask_value reg (im_get (io_input_fields t) key) value)) obj)
           | _ \<Rightarrow> value)
      | CList items \<Rightarrow> CList (map (mask_value reg meta) items)
      | _ \<Rightarrow> value)"

declare mask_value.simps [simp del]

definition mask_arguments ::
  "registry \<Rightarrow> variables \<Rightarrow> meta_type option \<Rightarrow> name \<Rightarrow> arguments \<Rightarrow> arguments" where
  "mask_arguments reg vars container field_name args =
     map (\<lambda>(n, argument). (n, Positioned (pos argument)
       (into_value (mask_value reg (argument_meta container field_name (node n)) (argument_const vars (node argument)))))) args"

text \<open>The type in which a selection is made, as the specification has it: an inline fragment without
  a type condition selects in the enclosing type.\<close>

function (sequential)
  mask_selection_set ::
    "registry \<Rightarrow> variables \<Rightarrow> selection_set \<Rightarrow> meta_type option \<Rightarrow> selection_set" and
  mask_selection :: "registry \<Rightarrow> variables \<Rightarrow> selection \<Rightarrow> meta_type option \<Rightarrow> selection" where
  "mask_selection_set reg vars ss container =
     SelectionSet (map (map_positioned (\<lambda>sel. mask_selection reg vars sel container)) (ss_items ss))"
| "mask_selection reg vars (Field field) container =
     Field (map_positioned (\<lambda>f. MkField (f_alias f) (f_name f)
       (mask_arguments reg vars container (node (f_name f)) (f_arguments f)) (f_directives f)
       (map_positioned (\<lambda>sub. mask_selection_set reg vars sub (field_parent reg container (node (f_name f))))
         (f_selection_set f))) field)"
| "mask_selection reg vars (FragmentSpread spread) container = FragmentSpread spread"
| "mask_selection reg vars (InlineFragment frag) container =
     InlineFragment (map_positioned (\<lambda>i. MkInlineFragment (if_type_condition i) (if_directives i)
       (map_positioned (\<lambda>sub. mask_selection_set reg vars sub
         (case if_type_condition i of
            Some cond \<Rightarrow> im_get (types reg) (node (tc_on (node cond)))
          | None \<Rightarrow> container)) (if_selection_set i))) frag)"
  by pat_completeness auto

termination mask_selection_set
  by (relation "measure (case_sum (\<lambda>(_, _, ss, _). size ss) (\<lambda>(_, _, sel, _). size sel))")
     (auto simp: termination_simp size_positioned_node less_SucI)

declare mask_selection_set.simps [simp del]

definition mask_fragment :: "registry \<Rightarrow> variables \<Rightarrow> fragment_definition \<Rightarrow> fragment_definition" where
  "mask_fragment reg vars frag = frag\<lparr>fd_selection_set :=
     map_positioned (\<lambda>ss. mask_selection_set reg vars ss
       (im_get (types reg) (node (tc_on (node (fd_type_condition frag)))))) (fd_selection_set frag)\<rparr>"

definition mask_operation :: "registry \<Rightarrow> variables \<Rightarrow> operation_definition \<Rightarrow> operation_definition" where
  "mask_operation reg vars op = op\<lparr>od_selection_set :=
     map_positioned (\<lambda>ss. mask_selection_set reg vars ss (root_type_of reg (od_ty op))) (od_selection_set op)\<rparr>"

fun mask_operations :: "registry \<Rightarrow> variables \<Rightarrow> document_operations \<Rightarrow> document_operations" where
  "mask_operations reg vars (Single op) = Single (map_positioned (mask_operation reg vars) op)"
| "mask_operations reg vars (Multiple ops) =
     Multiple (map (\<lambda>(n, op). (n, map_positioned (mask_operation reg vars) op)) ops)"

definition mask_document :: "registry \<Rightarrow> variables \<Rightarrow> executable_document \<Rightarrow> executable_document" where
  "mask_document reg vars doc =
     \<lparr>doc_operations = mask_operations reg vars (doc_operations doc),
      doc_fragments = map (\<lambda>(n, frag). (n, map_positioned (mask_fragment reg vars) frag)) (doc_fragments doc)\<rparr>"

text \<open>Where the printer finds every secret: inline fragments have a type condition and lists contain
  none.\<close>

fun lists_public :: "registry \<Rightarrow> meta_input_value option \<Rightarrow> const_value \<Rightarrow> bool" where
  "lists_public reg meta value \<longleftrightarrow>
     is_secret_input meta \<or>
     (case value of
        CObject obj \<Rightarrow>
          (case input_type_of reg meta of
             Some (MInputObject t) \<Rightarrow>
               list_all (\<lambda>(key, value). lists_public reg (im_get (io_input_fields t) key) value) obj
           | _ \<Rightarrow> True)
      | CList items \<Rightarrow> map (mask_value reg meta) items = items
      | _ \<Rightarrow> True)"

declare lists_public.simps [simp del]

function (sequential)
  secrets_found :: "registry \<Rightarrow> variables \<Rightarrow> selection_set \<Rightarrow> meta_type option \<Rightarrow> bool" and
  secrets_found_in :: "registry \<Rightarrow> variables \<Rightarrow> selection \<Rightarrow> meta_type option \<Rightarrow> bool" where
  "secrets_found reg vars ss container \<longleftrightarrow>
     list_all (\<lambda>sel. secrets_found_in reg vars (node sel) container) (ss_items ss)"
| "secrets_found_in reg vars (Field field) container \<longleftrightarrow>
     (let f = node field; fname = node (f_name f) in
      list_all (\<lambda>(n, argument). lists_public reg (argument_meta container fname (node n))
        (argument_const vars (node argument))) (f_arguments f) \<and>
      secrets_found reg vars (node (f_selection_set f)) (field_parent reg container fname))"
| "secrets_found_in reg vars (FragmentSpread spread) container \<longleftrightarrow> True"
| "secrets_found_in reg vars (InlineFragment frag) container \<longleftrightarrow>
     (case if_type_condition (node frag) of
        Some cond \<Rightarrow>
          secrets_found reg vars (node (if_selection_set (node frag)))
            (im_get (types reg) (node (tc_on (node cond))))
      | None \<Rightarrow> False)"
  by pat_completeness auto

termination secrets_found
  by (relation "measure (case_sum (\<lambda>(_, _, ss, _). size ss) (\<lambda>(_, _, sel, _). size sel))")
     (auto simp: termination_simp size_positioned_node less_SucI)

declare secrets_found.simps [simp del]

definition secrets_found_doc :: "registry \<Rightarrow> variables \<Rightarrow> executable_document \<Rightarrow> bool" where
  "secrets_found_doc reg vars doc \<longleftrightarrow>
     list_all (\<lambda>(_, frag). secrets_found reg vars (node (fd_selection_set (node frag)))
       (im_get (types reg) (node (tc_on (node (fd_type_condition (node frag))))))) (doc_fragments doc) \<and>
     list_all (\<lambda>(_, op). secrets_found reg vars (node (od_selection_set (node op)))
       (root_type_of reg (od_ty (node op)))) (operations_iter (doc_operations doc))"

subsection \<open>The printed text is that of the masked document\<close>

definition untyped :: "registry \<Rightarrow> registry" where
  "untyped reg = reg\<lparr>types := []\<rparr>"

lemma write_quoted_secret: "write_quoted secret_text = [CHR 0x22] @ secret_text @ [CHR 0x22]"
  by (simp add: write_quoted_def secret_text_def quoted_char_def is_control_def is_high_control_def)

lemma stringify_input_value_plain:
  "stringify_input_value reg show_number None c = const_value_str show_number c"
  by (cases c) (simp_all add: stringify_input_value.simps is_secret_input_def input_type_of_def)

lemma stringify_input_value_mask:
  "lists_public reg meta value \<Longrightarrow>
   stringify_input_value reg show_number meta value = const_value_str show_number (mask_value reg meta value)"
proof (induction "value" arbitrary: meta)
  case (CObject obj)
  show ?case
  proof (cases "is_secret_input meta \<or> (\<forall>t. input_type_of reg meta \<noteq> Some (MInputObject t))")
    case True
    then show ?thesis
      by (auto simp: stringify_input_value.simps [of _ _ meta] mask_value.simps [of _ meta]
          write_quoted_secret split: option.splits meta_type.splits)
  next
    case False
    then obtain t where t: "\<not> is_secret_input meta" "input_type_of reg meta = Some (MInputObject t)"
      by blast
    have "stringify_input_value reg show_number (im_get (io_input_fields t) k) v =
        const_value_str show_number (mask_value reg (im_get (io_input_fields t) k) v)"
      if "(k, v) \<in> set obj" for k v
      using CObject.IH [OF that] CObject.prems t that
      by (fastforce simp: lists_public.simps [of _ meta] list_all_iff)
    then show ?thesis
      using t
      by (auto simp: stringify_input_value.simps [of _ _ meta] mask_value.simps [of _ meta] write_object_def
          comp_def case_prod_unfold intro!: arg_cong [where f = comma_separated])
  qed
next
  case (CList items)
  then show ?case
    by (auto simp: stringify_input_value.simps [of _ _ meta] mask_value.simps [of _ meta "CList items"]
        lists_public.simps [of _ meta] write_quoted_secret simp del: map_map)
qed (simp_all add: stringify_input_value.simps mask_value.simps write_quoted_secret)

lemma argument_const_into_value: "argument_const vars (into_value c) = c"
  by (simp add: argument_const_def into_const_with_into_value)

lemma stringify_arguments_mask:
  assumes "list_all (\<lambda>(n, argument). lists_public reg (argument_meta container fname (node n))
      (argument_const vars (node argument))) args"
  shows "stringify_arguments reg show_number vars container fname args =
   stringify_arguments (untyped reg) show_number [] None fname (mask_arguments reg vars container fname args)"
proof -
  have "stringify_input_value reg show_number (argument_meta container fname (node n)) (argument_const vars (node a)) =
      const_value_str show_number (mask_value reg (argument_meta container fname (node n)) (argument_const vars (node a)))"
    if "(n, a) \<in> set args" for n a
    using assms that by (intro stringify_input_value_mask) (auto simp: list_all_iff)
  then show ?thesis
    by (auto simp: stringify_arguments_def mask_arguments_def argument_meta_def [of None]
        stringify_input_value_plain argument_const_into_value intro!: arg_cong [where f = comma_separated])
qed

lemma ss_items_mask: "ss_items (mask_selection_set reg vars ss container) =
    map (map_positioned (\<lambda>sel. mask_selection reg vars sel container)) (ss_items ss)"
  by (simp add: mask_selection_set.simps)

lemma node_map_positioned: "node (map_positioned f x) = f (node x)"
  by (cases x) simp

lemma untyped_parent: "field_parent reg' None fname = None" "im_get (types (untyped reg)) n = None"
    "root_type_of (untyped reg) ty = None"
  by (auto simp: field_parent_def untyped_def root_type_of_def bind_eq_None_conv split: operation_type.splits)

lemma stringify_selection_set_mask:
  "secrets_found reg vars ss container \<Longrightarrow>
   stringify_selection_set reg show_number vars ss container =
   stringify_selection_set (untyped reg) show_number [] (mask_selection_set reg vars ss container) None"
  and stringify_selection_mask:
  "secrets_found_in reg vars sel container \<Longrightarrow>
   stringify_selection reg show_number vars sel container =
   stringify_selection (untyped reg) show_number [] (mask_selection reg vars sel container) None"
proof (induction reg vars ss container and reg vars sel container
    rule: secrets_found_secrets_found_in.induct)
  case (1 reg vars ss container)
  then have "map (\<lambda>sel. stringify_selection reg show_number vars (node sel) container) (ss_items ss) =
      map (\<lambda>sel. stringify_selection (untyped reg) show_number [] (mask_selection reg vars (node sel) container) None)
        (ss_items ss)"
    by (auto simp: list_all_iff secrets_found.simps [of reg vars ss])
  then show ?case
    unfolding stringify_selection_set.simps ss_items_mask map_map comp_def node_map_positioned
    by (simp only:)
next
  case (2 reg vars field container)
  then show ?case
    by (auto simp: Let_def node_map_positioned untyped_parent ss_items_mask
        stringify_arguments_mask [of reg container])
next
  case (4 reg vars frag container)
  then show ?case
    by (auto simp: node_map_positioned untyped_parent simp del: im_get_def split: option.splits)
qed simp

lemma stringify_exec_doc_mask:
  assumes "secrets_found_doc reg vars doc"
  shows "stringify_exec_doc reg show_number vars doc =
    stringify_exec_doc (untyped reg) show_number [] (mask_document reg vars doc)"
proof -
  have frag: "stringify_fragment_definition reg show_number vars n
        (im_get (types reg) (node (tc_on (node (fd_type_condition (node frag)))))) (node frag) =
      stringify_fragment_definition (untyped reg) show_number [] n
        (im_get (types (untyped reg)) (node (tc_on (node (fd_type_condition (mask_fragment reg vars (node frag)))))))
        (mask_fragment reg vars (node frag))"
    if "(n, frag) \<in> set (doc_fragments doc)" for n frag
    using assms that
    by (auto simp: secrets_found_doc_def list_all_iff stringify_fragment_definition_def mask_fragment_def
        node_map_positioned untyped_parent simp del: im_get_def intro!: stringify_selection_set_mask)
  have op: "stringify_operation reg show_number vars n (node op) =
      stringify_operation (untyped reg) show_number [] n (mask_operation reg vars (node op))"
    if "(n, op) \<in> set (operations_iter (doc_operations doc))" for n op
    using assms that
    by (auto simp: secrets_found_doc_def list_all_iff stringify_operation_def mask_operation_def
        node_map_positioned untyped_parent stringify_selection_set_mask split: option.splits)
  have ops: "operations_iter (mask_operations reg vars ops) =
      map (\<lambda>(n, op). (n, map_positioned (mask_operation reg vars) op)) (operations_iter ops)" for ops
    by (cases ops) auto
  show ?thesis
    unfolding stringify_exec_doc_def mask_document_def executable_document.simps ops map_map
    by (intro arg_cong2 [where f = append] arg_cong [where f = concat] map_cong refl)
       (auto simp: node_map_positioned frag op simp del: im_get_def)
qed

end
