(* ===== verification/Persisted_Queries.thy ===== *)
theory Persisted_Queries
  imports Request_Prep Data_Loader
begin

text \<open>
  Automatic persisted queries: \<open>src/extensions/apollo_persisted_queries.rs\<close>.

  \<^item> A request carries its protocol extensions: \<open>extended_request\<close> adds the field to the requests of
    \<open>Request_Prep\<close>.
  \<^item> The storage is used through \<open>get\<close> and \<open>set\<close>: it is the record of the methods of a cache, and what the
    extension relies on is the contract \<open>cache_storage\<close> of \<open>Data_Loader\<close>. \<open>LruCacheStorage\<close> calls the
    crate \<open>lru\<close>.
  \<^item> SHA-256 (\<open>sha256\<close>, giving the hexadecimal text), the parser and the derived deserialization of
    \<open>PersistedQuery\<close> (\<open>read_config\<close>) are arguments.
  \<^item> A request calls the storage once at most, and a call is atomic (it holds the lock): so requests that run
    concurrently behave like the sequence of the requests in the order of these calls, which is what
    \<open>serve\<close> folds over.
\<close>

record ('upload, 'data) extended_request = "('upload, 'data) request" +
  rq_extensions :: "(string, const_value) index_map"

record persisted_query =
  pq_version :: int
  pq_sha256_hash :: string

definition lru_cache_storage ::
  "(string, executable_document, 'l) lru \<Rightarrow> nat \<Rightarrow> (string, executable_document, 'l) cache_ops option" where
  "lru_cache_storage lru cap = lru_cache lru cap"

definition unsupported_version :: "int \<Rightarrow> string" where
  "unsupported_version v =
     ''Only the '' @ [CHR 0x22] @ ''PersistedQuery'' @ [CHR 0x22] @ '' extension of version '' @
     [CHR 0x22] @ ''1'' @ [CHR 0x22] @ '' is supported, and the current version is '' @
     [CHR 0x22] @ show_int v @ [CHR 0x22] @ ''.''"

definition invalid_config :: string where
  "invalid_config = ''Invalid '' @ [CHR 0x22] @ ''PersistedQuery'' @ [CHR 0x22] @ '' extension configuration.''"

definition lookup_persisted ::
  "(string \<Rightarrow> string) \<Rightarrow> (string \<Rightarrow> server_error + executable_document) \<Rightarrow>
   (const_value \<Rightarrow> persisted_query option) \<Rightarrow> (string, executable_document, 'c) cache_ops \<Rightarrow>
   ('upload, 'data) extended_request \<Rightarrow> 'c \<Rightarrow>
   (server_error + ('upload, 'data) extended_request) \<times> 'c" where
  "lookup_persisted sha256 parse_query read_config ops request storage =
     (case im_get (rq_extensions request) ''persistedQuery'' of
        None \<Rightarrow> (Inr request, storage)
      | Some config \<Rightarrow>
          let request = request\<lparr>rq_extensions := AList.delete ''persistedQuery'' (rq_extensions request)\<rparr>
          in case read_config config of
            None \<Rightarrow> (Inl (server_error_new invalid_config None), storage)
          | Some persisted \<Rightarrow>
              if pq_version persisted \<noteq> 1 then
                (Inl (server_error_new (unsupported_version (pq_version persisted)) None), storage)
              else if rq_query request = [] then
                let (found, storage) = co_get ops (pq_sha256_hash persisted) storage
                in (case found of
                      Some doc \<Rightarrow> Inr (request\<lparr>rq_parsed_query := Some doc\<rparr>)
                    | None \<Rightarrow> Inl (server_error_new ''PersistedQueryNotFound'' None), storage)
              else let sha256_hash = sha256 (rq_query request)
                in if pq_sha256_hash persisted \<noteq> sha256_hash then
                     (Inl (server_error_new ''provided sha does not match query'' None), storage)
                   else case parse_query (rq_query request) of
                     Inl e \<Rightarrow> (Inl e, storage)
                   | Inr doc \<Rightarrow>
                       (Inr (request\<lparr>rq_query := [], rq_parsed_query := Some doc\<rparr>),
                        co_insert ops sha256_hash doc storage))"

text \<open>\<open>prepare_request\<close> of the extension: the next hook runs on the request that was found.\<close>

definition apq_prepare_request ::
  "(string \<Rightarrow> string) \<Rightarrow> (string \<Rightarrow> server_error + executable_document) \<Rightarrow>
   (const_value \<Rightarrow> persisted_query option) \<Rightarrow> (string, executable_document, 'c) cache_ops \<Rightarrow>
   (('upload, 'data) extended_request \<Rightarrow> server_error + 'r) \<Rightarrow>
   ('upload, 'data) extended_request \<Rightarrow> 'c \<Rightarrow> (server_error + 'r) \<times> 'c" where
  "apq_prepare_request sha256 parse_query read_config ops next_run request storage =
     (let (res, storage) = lookup_persisted sha256 parse_query read_config ops request storage
      in (bind_result res next_run, storage))"

primrec serve ::
  "(('upload, 'data) extended_request \<Rightarrow> 'c \<Rightarrow> 'r \<times> 'c) \<Rightarrow> ('upload, 'data) extended_request list \<Rightarrow>
   'c \<Rightarrow> 'r list \<times> 'c" where
  "serve handle [] storage = ([], storage)"
| "serve handle (request # requests) storage =
     (let (r, storage) = handle request storage; (rs, storage) = serve handle requests storage
      in (r # rs, storage))"

subsection \<open>What the storage holds\<close>

text \<open>Every document of the storage is the parse of the text of an earlier request that hashes to its key.\<close>

definition stored_text ::
  "(string \<Rightarrow> 'k) \<Rightarrow> (string \<Rightarrow> 'e + 'v) \<Rightarrow> string set \<Rightarrow> 'k \<times> 'v \<Rightarrow> bool" where
  "stored_text sha256 parse_query texts entry \<longleftrightarrow>
     (\<exists>q\<in>texts. q \<noteq> [] \<and> sha256 q = fst entry \<and> parse_query q = Inr (snd entry))"

definition stored_from ::
  "(string \<Rightarrow> 'k) \<Rightarrow> (string \<Rightarrow> 'e + 'v) \<Rightarrow> string set \<Rightarrow> ('k, 'v) index_map \<Rightarrow> bool" where
  "stored_from sha256 parse_query texts entries \<longleftrightarrow> (\<forall>e\<in>set entries. stored_text sha256 parse_query texts e)"

lemma stored_text_mono: "stored_text sha256 parse_query T e \<Longrightarrow> T \<subseteq> T' \<Longrightarrow> stored_text sha256 parse_query T' e"
  unfolding stored_text_def by blast

lemma stored_from_mono:
  "stored_from sha256 parse_query T es \<Longrightarrow> T \<subseteq> T' \<Longrightarrow> set es' \<subseteq> set es \<Longrightarrow> stored_from sha256 parse_query T' es'"
  unfolding stored_from_def by (blast intro: stored_text_mono)

context cache_storage
begin

lemma stored_from_get:
  assumes "stored_from sha256 parse_query T (co_iter ops c)" "cache_ok c"
    "co_get ops k c = (Some doc, c')"
  shows "\<exists>q\<in>T. q \<noteq> [] \<and> sha256 q = k \<and> parse_query q = Inr doc"
proof -
  have "stored_text sha256 parse_query T (k, doc)"
    using get_iter [OF assms(2), of k doc] assms(1,3) by (simp add: stored_from_def)
  then show ?thesis by (simp add: stored_text_def)
qed

lemma stored_from_insert:
  assumes "stored_from sha256 parse_query T (co_iter ops c)" "cache_ok c"
    "q \<in> T" "q \<noteq> []" "parse_query q = Inr doc"
  shows "stored_from sha256 parse_query T (co_iter ops (co_insert ops (sha256 q) doc c))"
proof -
  have "stored_text sha256 parse_query T (sha256 q, doc)"
    using assms(3-5) by (auto simp: stored_text_def)
  then show ?thesis
    using insert_iter [OF assms(2), of "sha256 q" doc] assms(1) by (auto simp: stored_from_def)
qed

end

lemma lookup_persisted_storage:
  assumes "cache_storage ops cache_ok" "cache_ok c" "stored_from sha256 parse_query T (co_iter ops c)"
    "lookup_persisted sha256 parse_query read_config ops req c = (r, c')"
  shows "cache_ok c' \<and> stored_from sha256 parse_query (insert (rq_query req) T) (co_iter ops c')"
proof -
  note cs = assms(1)
  have T: "stored_from sha256 parse_query (insert (rq_query req) T) (co_iter ops c)"
    by (rule stored_from_mono [OF assms(3)]) auto
  have get: "cache_ok (snd (co_get ops k c)) \<and>
      stored_from sha256 parse_query (insert (rq_query req) T) (co_iter ops (snd (co_get ops k c)))" for k
    using cache_storage.get_ok [OF cs assms(2)] cache_storage.get_keeps [OF cs assms(2)]
      stored_from_mono [OF T subset_refl] by blast
  have set: "cache_ok (co_insert ops (sha256 (rq_query req)) doc c) \<and>
      stored_from sha256 parse_query (insert (rq_query req) T)
        (co_iter ops (co_insert ops (sha256 (rq_query req)) doc c))"
    if "rq_query req \<noteq> []" "parse_query (rq_query req) = Inr doc" for doc
    using cache_storage.insert_ok [OF cs assms(2)]
      cache_storage.stored_from_insert [OF cs T assms(2) insertI1 that] by blast
  show ?thesis
    using assms(2,4) T get set
    by (auto simp: lookup_persisted_def Let_def case_prod_unfold split: option.splits if_splits sum.splits)
qed

lemma lookup_persisted_Inr:
  assumes "cache_storage ops cache_ok" "cache_ok c" "stored_from sha256 parse_query T (co_iter ops c)"
    "lookup_persisted sha256 parse_query read_config ops req c = (Inr out, c')"
    "map_of (rq_extensions req) ''persistedQuery'' = Some config"
  shows "\<exists>persisted doc q. read_config config = Some persisted \<and> pq_version persisted = 1 \<and>
    rq_parsed_query out = Some doc \<and> q \<noteq> [] \<and> sha256 q = pq_sha256_hash persisted \<and>
    parse_query q = Inr doc \<and> (if rq_query req = [] then q \<in> T else q = rq_query req)"
proof (cases "rq_query req = []")
  case True
  with assms(4,5) obtain persisted doc c'' where
    "read_config config = Some persisted" "pq_version persisted = 1" "rq_parsed_query out = Some doc"
    "co_get ops (pq_sha256_hash persisted) c = (Some doc, c'')"
    by (auto simp: lookup_persisted_def Let_def case_prod_unfold prod_eq_iff
        split: option.splits if_splits)
  with cache_storage.stored_from_get [OF assms(1,3,2) this(4)] True show ?thesis by auto
next
  case False
  with assms(4,5) show ?thesis
    by (auto simp: lookup_persisted_def Let_def split: option.splits if_splits sum.splits)
qed

lemma serve_storage:
  assumes "cache_storage ops cache_ok" "cache_ok c" "stored_from sha256 parse_query T (co_iter ops c)"
    "serve (lookup_persisted sha256 parse_query read_config ops) reqs c = (rs, c')"
    "i < length reqs" "rs ! i = Inr out"
    "map_of (rq_extensions (reqs ! i)) ''persistedQuery'' = Some config"
  shows "\<exists>persisted doc q. read_config config = Some persisted \<and> pq_version persisted = 1 \<and>
    rq_parsed_query out = Some doc \<and> q \<noteq> [] \<and> sha256 q = pq_sha256_hash persisted \<and>
    parse_query q = Inr doc \<and>
    (if rq_query (reqs ! i) = [] then q \<in> T \<union> rq_query ` set (take i reqs) else q = rq_query (reqs ! i))"
  using assms(2-)
proof (induction reqs arbitrary: c rs i T)
  case (Cons req reqs)
  obtain r c1 rs' where
    step: "lookup_persisted sha256 parse_query read_config ops req c = (r, c1)" and
    rest: "serve (lookup_persisted sha256 parse_query read_config ops) reqs c1 = (rs', c')" and rs: "rs = r # rs'"
    using Cons.prems(3) by (auto simp: case_prod_unfold Let_def prod_eq_iff)
  note inv = lookup_persisted_storage [OF assms(1) Cons.prems(1,2) step]
  show ?case
  proof (cases i)
    case 0
    then have r: "r = Inr out" and config: "map_of (rq_extensions req) ''persistedQuery'' = Some config"
      using rs Cons.prems(5,6) by simp_all
    show ?thesis
      using lookup_persisted_Inr [OF assms(1) Cons.prems(1,2) step [unfolded r] config]
      unfolding 0 by (simp only: nth_Cons_0 take_0 list.set(1) image_empty Un_empty_right)
  next
    case (Suc j)
    have "\<exists>persisted doc q. read_config config = Some persisted \<and> pq_version persisted = 1 \<and>
        rq_parsed_query out = Some doc \<and> q \<noteq> [] \<and> sha256 q = pq_sha256_hash persisted \<and>
        parse_query q = Inr doc \<and>
        (if rq_query (reqs ! j) = [] then q \<in> insert (rq_query req) T \<union> rq_query ` set (take j reqs)
         else q = rq_query (reqs ! j))"
      using Cons.IH [OF conjunct1 [OF inv] conjunct2 [OF inv] rest, of j] Cons.prems(4-6) rs Suc by simp
    then show ?thesis
      unfolding Suc by (simp only: nth_Cons_Suc take_Suc_Cons list.set(2) image_insert
          Un_insert_left Un_insert_right)
  qed
qed simp

text \<open>With a storage that forgets nothing, a text that was accepted is found by its hash.\<close>

lemma registered_text_found:
  assumes "lookup_persisted sha256 parse_query read_config hash_map_cache req c = (Inr out, c')"
    "map_of (rq_extensions req) ''persistedQuery'' = Some config" "rq_query req \<noteq> []"
    "map_of (rq_extensions req') ''persistedQuery'' = Some config" "rq_query req' = []"
  shows "\<exists>out'. fst (lookup_persisted sha256 parse_query read_config hash_map_cache req' c') = Inr out' \<and>
    rq_parsed_query out' = rq_parsed_query out"
proof -
  from assms(1-3) obtain persisted doc where "read_config config = Some persisted" "pq_version persisted = 1"
    "pq_sha256_hash persisted = sha256 (rq_query req)" "rq_parsed_query out = Some doc"
    "c' = AList.update (sha256 (rq_query req)) doc c"
    by (auto simp: lookup_persisted_def Let_def hash_map_cache_def split: option.splits if_splits sum.splits)
  then show ?thesis
    using assms(4,5) by (simp add: lookup_persisted_def Let_def hash_map_cache_def update_conv')
qed

end
