(* ===== verification/Export_Sdl.thy ===== *)
theory Export_Sdl
  imports String_Literals Suggestion Meta_Registry "HOL-Library.Char_ord" "HOL-Library.List_Lexorder"
    "HOL-Library.Multiset"
begin

text \<open>
  Export of the registry as a schema definition: \<open>src/registry/export_sdl.rs\<close>, and \<open>MetaDirective::sdl\<close> and
  \<open>MetaDirectiveInvocation::sdl\<close> of \<open>src/registry/mod.rs\<close>.

  The functions that write into \<open>sdl\<close> return what they append. A sort is \<open>sort_key\<close> in the order of
  the bytes of the names, and stable like \<open>sort_by_key\<close>. The directives with a \<open>composable\<close> url are
  grouped in a \<open>HashMap\<close>: \<open>order\<close> is the order in which it is iterated.

  Lemmas: the reason of a deprecation is read back by the parser exactly when it has no double quote; without
  the federation option the text does not depend on what the registry says for federation; with sorted
  fields it does not depend on the order in which the fields were registered.
\<close>

subsection \<open>Options\<close>

record sdl_options =
  so_sorted_fields :: bool
  so_sorted_arguments :: bool
  so_sorted_enum_values :: bool
  so_federation :: bool
  so_prefer_single_line_descriptions :: bool
  so_include_specified_by :: bool
  so_compose_directive :: bool
  so_use_space_ident :: bool
  so_indent_width :: "8 word"

definition sdl_options_default :: sdl_options where
  "sdl_options_default =
     \<lparr>so_sorted_fields = False, so_sorted_arguments = False, so_sorted_enum_values = False,
      so_federation = False, so_prefer_single_line_descriptions = False,
      so_include_specified_by = False, so_compose_directive = False, so_use_space_ident = False,
      so_indent_width = 2\<rparr>"

definition tab :: "sdl_options \<Rightarrow> string" where
  "tab options =
     (if so_use_space_ident options then replicate (unat (so_indent_width options)) (CHR '' '')
      else [CHR 0x09])"

subsection \<open>Pieces of text\<close>

abbreviation newline :: string where
  "newline \<equiv> [CHR 0x0A]"

definition in_quotes :: "string \<Rightarrow> string" where
  "in_quotes s = [CHR 0x22] @ s @ [CHR 0x22]"

definition replace_char :: "char \<Rightarrow> string \<Rightarrow> string \<Rightarrow> string" where
  "replace_char c r s = concat (map (\<lambda>x. if x = c then r else [x]) s)"

definition escape_quotes :: "string \<Rightarrow> string" where
  "escape_quotes s = replace_char (CHR 0x22) [CHR 0x5C, CHR 0x22] s"

definition write_description :: "sdl_options \<Rightarrow> nat \<Rightarrow> string \<Rightarrow> string" where
  "write_description options level description =
     (let tabs = concat (replicate level (tab options)) in
      if so_prefer_single_line_descriptions options \<and> CHR 0x0A \<notin> set description then
        tabs @ in_quotes (escape_quotes description) @ newline
      else
        tabs @ [CHR 0x22, CHR 0x22, CHR 0x22] @ newline @
        tabs @ replace_char (CHR 0x0A) (newline @ tabs) description @ newline @
        tabs @ [CHR 0x22, CHR 0x22, CHR 0x22] @ newline)"

definition describe :: "sdl_options \<Rightarrow> nat \<Rightarrow> string option \<Rightarrow> string" where
  "describe options level description =
     (case description of Some d \<Rightarrow> write_description options level d | None \<Rightarrow> [])"

definition escape_char :: "char \<Rightarrow> string" where
  "escape_char c =
     (if c = CHR 0x5C then [CHR 0x5C, CHR 0x5C]
      else if c = CHR 0x08 then [CHR 0x5C, CHR ''b'']
      else if c = CHR 0x0C then [CHR 0x5C, CHR ''f'']
      else if c = CHR 0x0A then [CHR 0x5C, CHR ''n'']
      else if c = CHR 0x0D then [CHR 0x5C, CHR ''r'']
      else if c = CHR 0x09 then [CHR 0x5C, CHR ''t'']
      else [c])"

definition escape_string :: "string \<Rightarrow> string" where
  "escape_string s = concat (map escape_char s)"

definition write_deprecated :: "deprecation \<Rightarrow> string" where
  "write_deprecated deprecation =
     (case deprecation of
        NoDeprecated \<Rightarrow> []
      | Deprecated (Some reason) \<Rightarrow> '' @deprecated(reason: '' @ in_quotes (escape_string reason) @ '')''
      | Deprecated None \<Rightarrow> '' @deprecated'')"

definition write_input_value :: "meta_input_value \<Rightarrow> string" where
  "write_input_value input_value =
     (case miv_default_value input_value of
        Some default_value \<Rightarrow>
          miv_name input_value @ '': '' @ miv_ty input_value @ '' = '' @ default_value
      | None \<Rightarrow> miv_name input_value @ '': '' @ miv_ty input_value) @
     write_deprecated (miv_deprecation input_value)"

text \<open>\<open>split_whitespace\<close>: the maximal runs without a character of Unicode's \<open>White_Space\<close>; the length in bytes
  of such a character at the head of a text, or zero.\<close>

fun whitespace_len :: "string \<Rightarrow> nat" where
  "whitespace_len s =
     (let b = map of_char (take 3 s) :: nat list in
      if b \<noteq> [] \<and> (hd b = 32 \<or> 9 \<le> hd b \<and> hd b \<le> 13) then 1
      else if take 2 b = [0xC2, 0x85] \<or> take 2 b = [0xC2, 0xA0] then 2
      else if b = [0xE1, 0x9A, 0x80] \<or> b = [0xE2, 0x80, 0xA8] \<or> b = [0xE2, 0x80, 0xA9] \<or>
        b = [0xE2, 0x80, 0xAF] \<or> b = [0xE2, 0x81, 0x9F] \<or> b = [0xE3, 0x80, 0x80] \<or>
        take 2 b = [0xE2, 0x80] \<and> length b = 3 \<and> 0x80 \<le> b ! 2 \<and> b ! 2 \<le> 0x8A then 3
      else 0)"

function split_whitespace_from :: "string \<Rightarrow> string \<Rightarrow> string list" where
  "split_whitespace_from word_so_far s =
     (case s of
        [] \<Rightarrow> (if word_so_far = [] then [] else [word_so_far])
      | c # rest \<Rightarrow>
          (if whitespace_len s = 0 then split_whitespace_from (word_so_far @ [c]) rest
           else (if word_so_far = [] then [] else [word_so_far]) @
                split_whitespace_from [] (drop (whitespace_len s) s)))"
  by pat_completeness auto

termination
  by (relation "measure (\<lambda>(_, s). length s)") (auto simp del: whitespace_len.simps)

declare whitespace_len.simps [simp del] split_whitespace_from.simps [simp del]

definition split_whitespace :: "string \<Rightarrow> string list" where
  "split_whitespace s = split_whitespace_from [] s"

definition write_requires_scopes :: "string list \<Rightarrow> string" where
  "write_requires_scopes requires_scopes =
     '' @requiresScopes(scopes: ['' @
     join '', '' (map (\<lambda>x. ''['' @ join '', '' (map in_quotes (split_whitespace x)) @ '']'') requires_scopes) @
     ''])''"

definition directive_invocation_sdl :: "(number \<Rightarrow> string) \<Rightarrow> meta_directive_invocation \<Rightarrow> string" where
  "directive_invocation_sdl show_number invocation =
     ''@'' @ mdi_name invocation @
     (if mdi_args invocation = [] then []
      else ''('' @ join '', '' (map (\<lambda>(n, v). n @ '': '' @ const_value_str show_number v) (mdi_args invocation)) @ '')'')"

definition write_invocations :: "(number \<Rightarrow> string) \<Rightarrow> meta_directive_invocation list \<Rightarrow> string" where
  "write_invocations show_number invocations =
     concat (map (\<lambda>d. '' '' @ directive_invocation_sdl show_number d) invocations)"

definition write_tags :: "string list \<Rightarrow> string" where
  "write_tags tags = concat (map (\<lambda>tag. '' @tag(name: '' @ in_quotes (escape_quotes tag) @ '')'') tags)"

definition write_flag :: "bool \<Rightarrow> string \<Rightarrow> string" where
  "write_flag b s = (if b then s else [])"

definition write_scopes :: "string list \<Rightarrow> string" where
  "write_scopes scopes = (if scopes \<noteq> [] then write_requires_scopes scopes else [])"

subsection \<open>Directives\<close>

definition argument_sdl :: "meta_input_value \<Rightarrow> string" where
  "argument_sdl argument =
     miv_name argument @ '': '' @ miv_ty argument @
     (case miv_default_value argument of Some d \<Rightarrow> '' = '' @ d | None \<Rightarrow> [])"

definition directive_sdl :: "sdl_options \<Rightarrow> meta_directive \<Rightarrow> string" where
  "directive_sdl options directive =
     describe options 0 (md_description directive) @
     ''directive @'' @ md_name directive @
     (if md_args directive = [] then []
      else ''('' @ join '', '' (map (\<lambda>(_, arg). argument_sdl arg) (md_args directive)) @ '')'') @
     '' on '' @ join '' | '' (map directive_location_str (md_locations directive))"

subsection \<open>Fields and types\<close>

definition export_argument ::
  "sdl_options \<Rightarrow> (number \<Rightarrow> string) \<Rightarrow> bool \<Rightarrow> nat \<times> meta_input_value \<Rightarrow> string" where
  "export_argument options show_number need_multiline = (\<lambda>(i, arg).
     write_flag (i \<noteq> 0) '','' @
     (case miv_description arg of
        Some description \<Rightarrow> newline @ write_description options 2 description
      | None \<Rightarrow> []) @
     (if need_multiline then tab options @ tab options else write_flag (i \<noteq> 0) '' '') @
     write_input_value arg @
     (if so_federation options then
        write_flag (miv_inaccessible arg) '' @inaccessible'' @ write_tags (miv_tags arg)
      else []) @
     write_invocations show_number (miv_directive_invocations arg))"

definition sort_if :: "bool \<Rightarrow> ('a \<Rightarrow> string) \<Rightarrow> 'a list \<Rightarrow> 'a list" where
  "sort_if b key xs = (if b then sort_key key xs else xs)"

definition hidden_field :: "sdl_options \<Rightarrow> meta_field \<Rightarrow> bool" where
  "hidden_field options f \<longleftrightarrow> starts_with (mf_name f) ''__'' \<or>
     so_federation options \<and> (mf_name f = ''_service'' \<or> mf_name f = ''_entities'')"

definition write_quoted_option :: "string \<Rightarrow> string option \<Rightarrow> string" where
  "write_quoted_option lead v =
     (case v of Some s \<Rightarrow> lead @ in_quotes s @ '')'' | None \<Rightarrow> [])"

definition export_field :: "sdl_options \<Rightarrow> (number \<Rightarrow> string) \<Rightarrow> meta_field \<Rightarrow> string" where
  "export_field options show_number f =
     (if hidden_field options f then []
      else
        describe options 1 (mf_description f) @
        (if mf_args f \<noteq> [] then
           let args = sort_if (so_sorted_arguments options) miv_name (map snd (mf_args f));
               need_multiline = list_ex (\<lambda>x. miv_description x \<noteq> None) args
           in tab options @ mf_name f @ ''('' @
              concat (map (export_argument options show_number need_multiline) (enumerate 0 args)) @
              (if need_multiline then newline @ tab options else []) @ ''): '' @ mf_ty f
         else tab options @ mf_name f @ '': '' @ mf_ty f) @
        write_deprecated (mf_deprecation f) @
        write_invocations show_number (mf_directive_invocations f) @
        (if so_federation options then
           write_flag (mf_external f) '' @external'' @
           write_quoted_option '' @requires(fields: '' (mf_requires f) @
           write_quoted_option '' @provides(fields: '' (mf_provides f) @
           write_flag (mf_shareable f) '' @shareable'' @
           write_flag (mf_inaccessible f) '' @inaccessible'' @
           write_tags (mf_tags f) @
           write_quoted_option '' @override(from: '' (mf_override_from f) @
           write_scopes (mf_requires_scopes f)
         else []) @
        newline)"

definition export_fields ::
  "sdl_options \<Rightarrow> (number \<Rightarrow> string) \<Rightarrow> (string, meta_field) index_map \<Rightarrow> string" where
  "export_fields options show_number fs =
     concat (map (export_field options show_number) (sort_if (so_sorted_fields options) mf_name (map snd fs)))"

definition write_implements :: "registry \<Rightarrow> string \<Rightarrow> string" where
  "write_implements reg n =
     (case im_get (implements reg) n of
        Some interfaces \<Rightarrow> (if interfaces \<noteq> [] then '' implements '' @ join '' & '' interfaces else [])
      | None \<Rightarrow> [])"

definition export_scalar :: "sdl_options \<Rightarrow> (number \<Rightarrow> string) \<Rightarrow> scalar_type \<Rightarrow> string" where
  "export_scalar options show_number t =
     (if sc_name t \<in> set [''Int'', ''Float'', ''String'', ''Boolean'', ''ID''] \<or>
         so_federation options \<and> sc_name t = ''Any'' then []
      else
        describe options 0 (sc_description t) @ ''scalar '' @ sc_name t @
        (if so_include_specified_by options then
           (case sc_specified_by_url t of
              Some url \<Rightarrow> '' @specifiedBy(url: '' @ in_quotes (escape_quotes url) @ '')''
            | None \<Rightarrow> [])
         else []) @
        (if so_federation options then
           write_flag (sc_inaccessible t) '' @inaccessible'' @ write_tags (sc_tags t) @
           write_scopes (sc_requires_scopes t)
         else []) @
        write_invocations show_number (sc_directive_invocations t) @ newline @ newline)"

definition write_object_keys :: "bool \<Rightarrow> string list option \<Rightarrow> string" where
  "write_object_keys resolvable keys =
     (case keys of
        Some keys \<Rightarrow> concat (map (\<lambda>key. '' @key(fields: '' @ in_quotes key @
            write_flag (\<not> resolvable) '', resolvable: false'' @ '')'') keys)
      | None \<Rightarrow> [])"

definition export_object :: "registry \<Rightarrow> sdl_options \<Rightarrow> (number \<Rightarrow> string) \<Rightarrow> object_type \<Rightarrow> string" where
  "export_object reg options show_number t =
     (if Some (ob_name t) = subscription_type reg \<and> so_federation options \<and>
         \<not> federation_subscription reg then []
      else if ob_name t = query_type reg \<and> so_federation options \<and>
         filter (\<lambda>(_, f). \<not> hidden_field options f) (ob_fields t) = [] then []
      else
        describe options 0 (ob_description t) @
        write_flag (so_federation options \<and> ob_extends t) ''extend '' @
        ''type '' @ ob_name t @ write_implements reg (ob_name t) @
        write_invocations show_number (ob_directive_invocations t) @
        (if so_federation options then
           write_object_keys (ob_resolvable t) (ob_keys t) @
           write_flag (ob_shareable t) '' @shareable'' @
           write_flag (ob_inaccessible t) '' @inaccessible'' @
           write_flag (ob_interface_object t) '' @interfaceObject'' @
           write_tags (ob_tags t) @ write_scopes (ob_requires_scopes t)
         else []) @
        '' {'' @ newline @ export_fields options show_number (ob_fields t) @ ''}'' @ newline @ newline)"

definition export_interface :: "registry \<Rightarrow> sdl_options \<Rightarrow> (number \<Rightarrow> string) \<Rightarrow> interface_type \<Rightarrow> string" where
  "export_interface reg options show_number t =
     describe options 0 (it_description t) @
     write_flag (so_federation options \<and> it_extends t) ''extend '' @
     ''interface '' @ it_name t @
     (if so_federation options then
        write_object_keys True (it_keys t) @
        write_flag (it_inaccessible t) '' @inaccessible'' @
        write_tags (it_tags t) @ write_scopes (it_requires_scopes t)
      else []) @
     write_invocations show_number (it_directive_invocations t) @ write_implements reg (it_name t) @
     '' {'' @ newline @ export_fields options show_number (it_fields t) @ ''}'' @ newline @ newline"

definition export_enum_value :: "sdl_options \<Rightarrow> (number \<Rightarrow> string) \<Rightarrow> meta_enum_value \<Rightarrow> string" where
  "export_enum_value options show_number v =
     describe options 1 (mev_description v) @ tab options @ mev_name v @
     write_deprecated (mev_deprecation v) @
     (if so_federation options then
        write_flag (mev_inaccessible v) '' @inaccessible'' @ write_tags (mev_tags v)
      else []) @
     write_invocations show_number (mev_directive_invocations v) @ newline"

definition export_enum :: "sdl_options \<Rightarrow> (number \<Rightarrow> string) \<Rightarrow> enum_type \<Rightarrow> string" where
  "export_enum options show_number t =
     describe options 0 (en_description t) @ ''enum '' @ en_name t @
     (if so_federation options then
        write_flag (en_inaccessible t) '' @inaccessible'' @ write_tags (en_tags t) @
        write_scopes (en_requires_scopes t)
      else []) @
     write_invocations show_number (en_directive_invocations t) @ '' {'' @ newline @
     concat (map (export_enum_value options show_number)
       (sort_if (so_sorted_enum_values options) mev_name (map snd (en_enum_values t)))) @
     ''}'' @ newline @ newline"

definition export_input_field :: "sdl_options \<Rightarrow> (number \<Rightarrow> string) \<Rightarrow> meta_input_value \<Rightarrow> string" where
  "export_input_field options show_number f =
     describe options 1 (miv_description f) @ tab options @ write_input_value f @
     (if so_federation options then
        write_flag (miv_inaccessible f) '' @inaccessible'' @ write_tags (miv_tags f)
      else []) @
     write_invocations show_number (miv_directive_invocations f) @ newline"

definition export_input_object :: "sdl_options \<Rightarrow> (number \<Rightarrow> string) \<Rightarrow> input_object_type \<Rightarrow> string" where
  "export_input_object options show_number t =
     describe options 0 (io_description t) @ ''input '' @ io_name t @
     write_flag (io_oneof t) '' @oneOf'' @
     (if so_federation options then
        write_flag (io_inaccessible t) '' @inaccessible'' @ write_tags (io_tags t)
      else []) @
     write_invocations show_number (io_directive_invocations t) @ '' {'' @ newline @
     concat (map (export_input_field options show_number)
       (sort_if (so_sorted_fields options) miv_name (map snd (io_input_fields t)))) @
     ''}'' @ newline @ newline"

definition export_union :: "sdl_options \<Rightarrow> (number \<Rightarrow> string) \<Rightarrow> union_type \<Rightarrow> string" where
  "export_union options show_number t =
     describe options 0 (un_description t) @ ''union '' @ un_name t @
     (if so_federation options then
        write_flag (un_inaccessible t) '' @inaccessible'' @ write_tags (un_tags t)
      else []) @
     write_invocations show_number (un_directive_invocations t) @ '' ='' @
     concat (map (\<lambda>(idx, ty). if idx = 0 then '' '' @ ty else '' | '' @ ty) (enumerate 0 (un_possible_types t))) @
     newline @ newline"

fun export_type :: "registry \<Rightarrow> sdl_options \<Rightarrow> (number \<Rightarrow> string) \<Rightarrow> meta_type \<Rightarrow> string" where
  "export_type reg options show_number (MScalar t) = export_scalar options show_number t"
| "export_type reg options show_number (MObject t) = export_object reg options show_number t"
| "export_type reg options show_number (MInterface t) = export_interface reg options show_number t"
| "export_type reg options show_number (MEnum t) = export_enum options show_number t"
| "export_type reg options show_number (MInputObject t) = export_input_object options show_number t"
| "export_type reg options show_number (MUnion t) = export_union options show_number t"

subsection \<open>The schema definition\<close>

fun has_deprecated :: "meta_type \<Rightarrow> bool" where
  "has_deprecated (MObject t) = list_ex (\<lambda>(_, f). mf_deprecation f \<noteq> NoDeprecated) (ob_fields t)"
| "has_deprecated (MEnum t) = list_ex (\<lambda>(_, v). mev_deprecation v \<noteq> NoDeprecated) (en_enum_values t)"
| "has_deprecated _ = False"

fun has_specified_by :: "meta_type \<Rightarrow> bool" where
  "has_specified_by (MScalar t) = (sc_specified_by_url t \<noteq> None)"
| "has_specified_by _ = False"

fun is_one_of :: "meta_type \<Rightarrow> bool" where
  "is_one_of (MInputObject t) = io_oneof t"
| "is_one_of _ = False"

definition used_by_type :: "(meta_type \<Rightarrow> bool) \<Rightarrow> registry \<Rightarrow> bool" where
  "used_by_type P reg = list_ex (\<lambda>(_, ty). P ty) (types reg)"

definition export_directive :: "registry \<Rightarrow> sdl_options \<Rightarrow> meta_directive \<Rightarrow> string" where
  "export_directive reg options directive =
     (if md_name directive = ''deprecated'' \<and> \<not> used_by_type has_deprecated reg then []
      else if md_name directive = ''specifiedBy'' \<and> \<not> used_by_type has_specified_by reg then []
      else if md_name directive = ''oneOf'' \<and> \<not> used_by_type is_one_of reg then []
      else directive_sdl options directive @ newline)"

definition export_registry_type ::
  "registry \<Rightarrow> sdl_options \<Rightarrow> (number \<Rightarrow> string) \<Rightarrow> meta_type \<Rightarrow> string" where
  "export_registry_type reg options show_number ty =
     (if starts_with (mt_name ty) ''__'' then []
      else if so_federation options \<and> mt_name ty \<in> set [''_Any'', ''_Entity'', ''_Service''] then []
      else export_type reg options show_number ty)"

definition compose_directives :: "registry \<Rightarrow> (string, string list) index_map" where
  "compose_directives reg =
     fold (\<lambda>(_, d) m.
         case md_composable d of
           Some ext_url \<Rightarrow>
             im_insert ext_url
               ((case im_get m ext_url of Some names \<Rightarrow> names | None \<Rightarrow> []) @ [in_quotes (''@'' @ md_name d)]) m
         | None \<Rightarrow> m) (directives reg) []"

definition export_compose :: "sdl_options \<Rightarrow> string \<times> string list \<Rightarrow> string" where
  "export_compose options = (\<lambda>(url, names).
     ''extend schema @link('' @ newline @
     tab options @ ''url: '' @ in_quotes url @ newline @
     tab options @ ''import: ['' @ join '','' names @ '']'' @ newline @
     '')'' @ newline @
     concat (map (\<lambda>n. tab options @ ''@composeDirective(name: '' @ n @ '')'' @ newline) names) @
     newline)"

definition federation_imports :: "string list" where
  "federation_imports =
     [''@key'', ''@tag'', ''@shareable'', ''@inaccessible'', ''@override'', ''@external'', ''@provides'',
      ''@requires'', ''@composeDirective'', ''@interfaceObject'', ''@requiresScopes'']"

definition export_federation_schema ::
  "((string, string list) index_map \<Rightarrow> (string, string list) index_map) \<Rightarrow> registry \<Rightarrow> sdl_options \<Rightarrow> string" where
  "export_federation_schema order reg options =
     ''extend schema @link('' @ newline @
     tab options @ ''url: '' @ in_quotes ''https://specs.apollo.dev/federation/v2.5'' @ '','' @ newline @
     tab options @ ''import: ['' @ join '', '' (map in_quotes federation_imports) @ '']'' @ newline @
     '')'' @ newline @
     (if so_compose_directive options then
        newline @ concat (map (export_compose options) (order (compose_directives reg)))
      else [])"

definition export_schema :: "registry \<Rightarrow> sdl_options \<Rightarrow> string" where
  "export_schema reg options =
     ''schema {'' @ newline @
     tab options @ ''query: '' @ query_type reg @ newline @
     (case mutation_type reg of Some n \<Rightarrow> tab options @ ''mutation: '' @ n @ newline | None \<Rightarrow> []) @
     (case subscription_type reg of Some n \<Rightarrow> tab options @ ''subscription: '' @ n @ newline | None \<Rightarrow> []) @
     ''}'' @ newline"

definition export_sdl ::
  "((string, string list) index_map \<Rightarrow> (string, string list) index_map) \<Rightarrow> (number \<Rightarrow> string) \<Rightarrow>
   registry \<Rightarrow> sdl_options \<Rightarrow> string" where
  "export_sdl order show_number reg options =
     concat (map (\<lambda>(_, ty). export_registry_type reg options show_number ty) (types reg)) @
     concat (map (\<lambda>(_, d). export_directive reg options d) (directives reg)) @
     (if so_federation options then export_federation_schema order reg options
      else export_schema reg options)"

subsection \<open>Reasons of deprecations\<close>

lemma string_text_escape_char:
  "string_text (escape_char c @ s) \<longleftrightarrow> c \<noteq> CHR 0x22 \<and> string_text s"
  by (simp add: escape_char_def)

lemma string_text_escape: "string_text (escape_string s) \<longleftrightarrow> CHR 0x22 \<notin> set s"
  by (induction s) (auto simp: escape_string_def string_text_escape_char)

lemma string_value_escape_char: "string_value (escape_char c @ s) = map_ok (\<lambda>r. c # r) (string_value s)"
  by (simp add: escape_char_def simple_escape_def)

lemma string_value_escape: "string_value (escape_string s) = Inr s"
  by (induction s) (simp_all add: escape_string_def string_value_escape_char)

subsection \<open>What federation adds\<close>

text \<open>The registry without what it says for federation only.\<close>

definition plain_input_value :: "meta_input_value \<Rightarrow> meta_input_value" where
  "plain_input_value v = v\<lparr>miv_inaccessible := False, miv_tags := []\<rparr>"

definition plain_field :: "meta_field \<Rightarrow> meta_field" where
  "plain_field f = f\<lparr>mf_args := map (\<lambda>(n, v). (n, plain_input_value v)) (mf_args f), mf_external := False,
     mf_requires := None, mf_provides := None, mf_shareable := False, mf_inaccessible := False, mf_tags := [],
     mf_override_from := None, mf_requires_scopes := []\<rparr>"

definition plain_enum_value :: "meta_enum_value \<Rightarrow> meta_enum_value" where
  "plain_enum_value v = v\<lparr>mev_inaccessible := False, mev_tags := []\<rparr>"

fun plain_type :: "meta_type \<Rightarrow> meta_type" where
  "plain_type (MScalar t) = MScalar (t\<lparr>sc_inaccessible := False, sc_tags := [], sc_requires_scopes := []\<rparr>)"
| "plain_type (MObject t) = MObject (t\<lparr>ob_fields := map (\<lambda>(n, f). (n, plain_field f)) (ob_fields t),
     ob_extends := False, ob_shareable := False, ob_resolvable := True, ob_keys := None,
     ob_inaccessible := False, ob_interface_object := False, ob_tags := [], ob_requires_scopes := []\<rparr>)"
| "plain_type (MInterface t) = MInterface (t\<lparr>it_fields := map (\<lambda>(n, f). (n, plain_field f)) (it_fields t),
     it_extends := False, it_keys := None, it_inaccessible := False, it_tags := [], it_requires_scopes := []\<rparr>)"
| "plain_type (MUnion t) = MUnion (t\<lparr>un_inaccessible := False, un_tags := []\<rparr>)"
| "plain_type (MEnum t) = MEnum (t\<lparr>en_enum_values := map (\<lambda>(n, v). (n, plain_enum_value v)) (en_enum_values t),
     en_inaccessible := False, en_tags := [], en_requires_scopes := []\<rparr>)"
| "plain_type (MInputObject t) = MInputObject
     (t\<lparr>io_input_fields := map (\<lambda>(n, v). (n, plain_input_value v)) (io_input_fields t),
        io_inaccessible := False, io_tags := []\<rparr>)"

definition plain_registry :: "registry \<Rightarrow> registry" where
  "plain_registry reg = reg\<lparr>types := map (\<lambda>(n, ty). (n, plain_type ty)) (types reg),
     directives := map (\<lambda>(n, d). (n, d\<lparr>md_composable := None\<rparr>)) (directives reg),
     federation_subscription := False\<rparr>"

lemma sort_if_map: "(\<And>x. key (g x) = key x) \<Longrightarrow> sort_if b key (map g xs) = map g (sort_if b key xs)"
proof -
  assume key: "\<And>x. key (g x) = key x"
  have "insort_key key (g x) (map g ys) = map g (insort_key key x ys)" for x ys
    by (induction ys) (simp_all add: key)
  then have "sort_key key (map g xs) = map g (sort_key key xs)" by (induction xs) simp_all
  then show ?thesis by (simp add: sort_if_def)
qed

lemma sort_if_map_snd:
  "(\<And>x. key (g x) = key x) \<Longrightarrow>
   sort_if b key (map snd (map (\<lambda>(n, x). (n, g x)) xs)) = map g (sort_if b key (map snd xs))"
  using sort_if_map [of key g b "map snd xs"] by (simp add: comp_def case_prod_unfold)

lemma export_sorted_map:
  assumes "\<And>x. key (g x) = key x" "\<And>x. h (g x) = h x"
  shows "map h (sort_if b key (map snd (map (\<lambda>(n, x). (n, g x)) xs))) = map h (sort_if b key (map snd xs))"
  by (simp only: sort_if_map_snd [of key g, OF assms(1)]) (simp add: assms(2))

lemma plain_input_value_simps [simp]:
  "miv_name (plain_input_value v) = miv_name v" "miv_description (plain_input_value v) = miv_description v"
  "write_input_value (plain_input_value v) = write_input_value v"
  "miv_directive_invocations (plain_input_value v) = miv_directive_invocations v"
  by (simp_all add: plain_input_value_def write_input_value_def split: option.splits)

lemma export_argument_plain:
  "\<not> so_federation options \<Longrightarrow>
   export_argument options show_number m (i, plain_input_value v) = export_argument options show_number m (i, v)"
  by (simp add: export_argument_def)

lemma enumerate_map: "enumerate n (map g xs) = map (\<lambda>(i, x). (i, g x)) (enumerate n xs)"
  by (induction xs arbitrary: n) simp_all

lemma export_field_plain:
  assumes "\<not> so_federation options"
  shows "export_field options show_number (plain_field f) = export_field options show_number f"
proof -
  have args: "sort_if b miv_name (map snd (mf_args (plain_field f))) =
      map plain_input_value (sort_if b miv_name (map snd (mf_args f)))" for b
    unfolding plain_field_def by (simp add: sort_if_map_snd del: map_map)
  have eq: "hidden_field options (plain_field f) = hidden_field options f"
    "mf_args (plain_field f) = [] \<longleftrightarrow> mf_args f = []"
    "mf_name (plain_field f) = mf_name f" "mf_description (plain_field f) = mf_description f"
    "mf_ty (plain_field f) = mf_ty f" "mf_deprecation (plain_field f) = mf_deprecation f"
    "mf_directive_invocations (plain_field f) = mf_directive_invocations f"
    by (simp_all add: plain_field_def hidden_field_def)
  have exp: "map (export_argument options show_number m) (enumerate 0 (map plain_input_value xs)) =
      map (export_argument options show_number m) (enumerate 0 xs)" for m xs
    by (auto simp: enumerate_map export_argument_plain [OF assms])
  have ex: "list_ex (\<lambda>x. miv_description x \<noteq> None) (map plain_input_value xs) =
      list_ex (\<lambda>x. miv_description x \<noteq> None) xs" for xs
    by (simp add: list_ex_iff)
  show ?thesis
    unfolding export_field_def args eq Let_def exp ex using assms by simp
qed

lemma export_fields_plain:
  assumes "\<not> so_federation options"
  shows "export_fields options show_number (map (\<lambda>(n, f). (n, plain_field f)) fs) = export_fields options show_number fs"
proof -
  have "mf_name (plain_field f) = mf_name f" for f by (simp add: plain_field_def)
  then show ?thesis
    unfolding export_fields_def
    by (intro arg_cong [where f = concat] export_sorted_map export_field_plain [OF assms])
qed

lemma export_type_plain:
  assumes "\<not> so_federation options"
  shows "export_type (plain_registry reg) options show_number (plain_type ty) = export_type reg options show_number ty"
proof (cases ty)
  case (MEnum t)
  have "mev_name (plain_enum_value v) = mev_name v"
    "export_enum_value options show_number (plain_enum_value v) = export_enum_value options show_number v" for v
    using assms by (simp_all add: plain_enum_value_def export_enum_value_def)
  then show ?thesis
    using assms MEnum by (simp add: export_enum_def export_sorted_map del: map_map)
next
  case (MInputObject t)
  have "export_input_field options show_number (plain_input_value v) = export_input_field options show_number v" for v
    using assms by (simp add: export_input_field_def)
  then show ?thesis
    using assms MInputObject by (simp add: export_input_object_def export_sorted_map del: map_map)
qed (use assms in \<open>simp_all add: export_scalar_def export_object_def export_interface_def export_union_def
    export_fields_plain write_implements_def plain_registry_def write_flag_def\<close>)

lemma export_sdl_plain:
  assumes "\<not> so_federation options"
  shows "export_sdl order show_number (plain_registry reg) options = export_sdl order show_number reg options"
proof -
  have name: "mt_name (plain_type ty) = mt_name ty" for ty by (cases ty) simp_all
  have ty: "export_registry_type (plain_registry reg) options show_number (plain_type ty) =
      export_registry_type reg options show_number ty" for ty
    using assms by (simp add: export_registry_type_def name export_type_plain)
  have dep: "mf_deprecation (plain_field f) = mf_deprecation f"
    "mev_deprecation (plain_enum_value v) = mev_deprecation v" for f v
    by (simp_all add: plain_field_def plain_enum_value_def)
  have ex: "list_ex (\<lambda>(_, x). P x) (map (\<lambda>(n, x). (n, g x)) xs) = list_ex (\<lambda>(_, x). P (g x)) xs"
    for P :: "'x \<Rightarrow> bool" and g :: "'y \<Rightarrow> 'x" and xs :: "(string \<times> 'y) list"
    by (induction xs) auto
  have "has_deprecated (plain_type ty) = has_deprecated ty" "has_specified_by (plain_type ty) = has_specified_by ty"
    "is_one_of (plain_type ty) = is_one_of ty" for ty
    by (cases ty; simp add: ex dep)+
  then have used: "used_by_type has_deprecated (plain_registry reg) = used_by_type has_deprecated reg"
    "used_by_type has_specified_by (plain_registry reg) = used_by_type has_specified_by reg"
    "used_by_type is_one_of (plain_registry reg) = used_by_type is_one_of reg"
    by (simp_all add: used_by_type_def plain_registry_def ex)
  have dir: "export_directive (plain_registry reg) options (d\<lparr>md_composable := None\<rparr>) = export_directive reg options d" for d
    by (simp add: export_directive_def used directive_sdl_def)
  have types: "types (plain_registry reg) = map (\<lambda>(n, ty). (n, plain_type ty)) (types reg)"
    "directives (plain_registry reg) = map (\<lambda>(n, d). (n, d\<lparr>md_composable := None\<rparr>)) (directives reg)"
    "export_schema (plain_registry reg) options = export_schema reg options"
    by (simp_all add: plain_registry_def export_schema_def)
  show ?thesis
    unfolding export_sdl_def types using assms
    by (simp add: comp_def case_prod_unfold ty dir)
qed

subsection \<open>Sorted exports\<close>

lemma sort_if_unique:
  assumes "mset xs = mset ys" "distinct (map key xs)"
  shows "sort_if True key xs = sort_if True key ys"
proof -
  have "sort_key key xs = sort_key key ys"
    using assms by (intro sort_key_inj_key_eq) (simp_all add: distinct_map)
  then show ?thesis by (simp add: sort_if_def)
qed

lemma export_fields_sorted:
  assumes "so_sorted_fields options" "mset fs = mset fs'" "distinct (map (\<lambda>(_, f). mf_name f) fs)"
  shows "export_fields options show_number fs = export_fields options show_number fs'"
proof -
  have "sort_if True mf_name (map snd fs) = sort_if True mf_name (map snd fs')"
    using assms(2,3) by (intro sort_if_unique) (simp_all add: comp_def case_prod_unfold)
  then show ?thesis using assms(1) by (simp add: export_fields_def)
qed

end
