(* ===== verification/Input_Types.thy ===== *)
theory Input_Types
  imports String_Literals Input_Value Suggestion
begin

text \<open>
  Input types: the parsing of argument values into Rust values.

  \<^item> \<open>InputValueError\<close> of \<open>src/error.rs\<close>; the trait \<open>InputType\<close> of \<open>src/base.rs\<close> as the record of its
    methods, and what \<open>#[Scalar]\<close> (\<open>src/derive/src/scalar.rs\<close>) makes of a \<open>ScalarType\<close>.
  \<^item> The scalars of \<open>src/types/external/\<close>: the integers, at their width, the non-zero integers, \<open>bool\<close>,
    \<open>String\<close>, \<open>char\<close>, and \<open>ID\<close>. A \<open>usize\<close> has 64 bits.
  \<^item> \<open>Option\<close>, \<open>MaybeUndefined\<close>, the lists and arrays of another input type.
  \<^item> The validators of \<open>src/validators/\<close>.

  The contract of an input type is a locale: what it prints it parses, and, for some types, it never prints
  \<open>null\<close>. The integers satisfy it, and \<open>Option\<close>, lists, arrays and \<open>MaybeUndefined\<close> inherit it.
\<close>

subsection \<open>Errors\<close>

record input_value_error =
  ive_message :: string
  ive_extensions :: "(string, const_value) index_map option"

definition expected_type :: "(number \<Rightarrow> string) \<Rightarrow> string \<Rightarrow> const_value \<Rightarrow> input_value_error" where
  "expected_type show_number type_name actual =
     \<lparr>ive_message = ''Expected input type '' @ quote type_name @ '', found '' @
        const_value_str show_number actual @ ''.'',
      ive_extensions = None\<rparr>"

definition custom_error :: "string \<Rightarrow> string \<Rightarrow> input_value_error" where
  "custom_error type_name msg =
     \<lparr>ive_message = ''Failed to parse '' @ quote type_name @ '': '' @ msg, ive_extensions = None\<rparr>"

text \<open>\<open>propagate\<close> from an input type named \<open>from_name\<close> to one named \<open>to_name\<close>.\<close>

definition propagate :: "string \<Rightarrow> string \<Rightarrow> input_value_error \<Rightarrow> input_value_error" where
  "propagate from_name to_name e =
     (if from_name \<noteq> to_name then
        \<lparr>ive_message = ive_message e @ '' (occurred while parsing '' @ quote to_name @ '')'',
         ive_extensions = ive_extensions e\<rparr>
      else e)"

definition with_extension :: "string \<Rightarrow> const_value \<Rightarrow> input_value_error \<Rightarrow> input_value_error" where
  "with_extension n v e =
     e\<lparr>ive_extensions := Some (im_insert n v (case ive_extensions e of Some m \<Rightarrow> m | None \<Rightarrow> []))\<rparr>"

definition input_server_error :: "input_value_error \<Rightarrow> pos \<Rightarrow> server_error" where
  "input_server_error e p = (server_error_new (ive_message e) (Some p))\<lparr>se_extensions := ive_extensions e\<rparr>"

definition map_err :: "('e \<Rightarrow> 'f) \<Rightarrow> 'e + 'a \<Rightarrow> 'f + 'a" where
  "map_err g r = (case r of Inl e \<Rightarrow> Inl (g e) | Inr x \<Rightarrow> Inr x)"

lemma map_err_simps [simp]: "map_err g (Inl e) = Inl (g e)" "map_err g (Inr x) = Inr x"
  by (simp_all add: map_err_def)

lemma map_err_Inr_iff [simp]: "map_err g r = Inr y \<longleftrightarrow> r = Inr y"
  by (cases r) simp_all

subsection \<open>Input types\<close>

record 'a input_type =
  ty_name :: string
  ty_qualified_name :: string
  ty_parse :: "const_value option \<Rightarrow> input_value_error + 'a"
  ty_to_value :: "'a \<Rightarrow> const_value"

definition unwrap_value :: "const_value option \<Rightarrow> const_value" where
  "unwrap_value v = (case v of Some v \<Rightarrow> v | None \<Rightarrow> CNull)"

lemma unwrap_value_Some [simp]: "unwrap_value (Some v) = v"
  by (simp add: unwrap_value_def)

definition scalar_input ::
  "string \<Rightarrow> (const_value \<Rightarrow> input_value_error + 'a) \<Rightarrow> ('a \<Rightarrow> const_value) \<Rightarrow> 'a input_type" where
  "scalar_input n parse to_value =
     \<lparr>ty_name = n, ty_qualified_name = n @ ''!'', ty_parse = (\<lambda>v. parse (unwrap_value v)),
      ty_to_value = to_value\<rparr>"

subsection \<open>Integers\<close>

text \<open>\<open>serde_json::Number\<close>: \<open>as_i64\<close> and \<open>as_u64\<close> of a number that is not an integer are \<open>None\<close>.\<close>

definition as_i64 :: "number \<Rightarrow> int option" where
  "as_i64 n = (case n of NInt k \<Rightarrow> if - (2 ^ 63) \<le> k \<and> k < 2 ^ 63 then Some k else None | NFloat _ \<Rightarrow> None)"

definition as_u64 :: "number \<Rightarrow> int option" where
  "as_u64 n = (case n of NInt k \<Rightarrow> if 0 \<le> k \<and> k < 2 ^ 64 then Some k else None | NFloat _ \<Rightarrow> None)"

definition is_i64_value :: "const_value \<Rightarrow> bool" where
  "is_i64_value v = (case v of CNumber n \<Rightarrow> as_i64 n \<noteq> None | _ \<Rightarrow> False)"

definition is_u64_value :: "const_value \<Rightarrow> bool" where
  "is_u64_value v = (case v of CNumber n \<Rightarrow> as_u64 n \<noteq> None | _ \<Rightarrow> False)"

text \<open>\<open>MIN\<close> and \<open>MAX\<close> of a signed and of an unsigned type of \<open>w\<close> bits.\<close>

definition smin :: "nat \<Rightarrow> int" where "smin w = - (2 ^ (w - 1))"
definition smax :: "nat \<Rightarrow> int" where "smax w = 2 ^ (w - 1) - 1"
definition umax :: "nat \<Rightarrow> int" where "umax w = 2 ^ w - 1"

definition only_integers :: "int \<Rightarrow> int \<Rightarrow> string \<Rightarrow> input_value_error" where
  "only_integers lo hi rest =
     custom_error ''Int'' (''Only integers from '' @ show_int lo @ '' to '' @ show_int hi @ rest @ '' are accepted.'')"

definition parse_signed :: "(number \<Rightarrow> string) \<Rightarrow> const_value \<Rightarrow> input_value_error + 'w::len word" where
  "parse_signed show_number v =
     (case v of
        CNumber n \<Rightarrow>
          (case as_i64 n of
             None \<Rightarrow> Inl (custom_error ''Int'' ''Invalid number'')
           | Some n \<Rightarrow>
               if n < smin LENGTH('w) \<or> n > smax LENGTH('w) then
                 Inl (only_integers (smin LENGTH('w)) (smax LENGTH('w)) '''')
               else Inr (word_of_int n))
      | _ \<Rightarrow> Inl (expected_type show_number ''Int'' v))"

definition parse_i64 :: "(number \<Rightarrow> string) \<Rightarrow> const_value \<Rightarrow> input_value_error + 64 word" where
  "parse_i64 show_number v =
     (case v of
        CNumber n \<Rightarrow>
          (case as_i64 n of
             None \<Rightarrow> Inl (custom_error ''Int'' ''Invalid number'')
           | Some n \<Rightarrow> Inr (word_of_int n))
      | _ \<Rightarrow> Inl (expected_type show_number ''Int'' v))"

definition parse_unsigned :: "(number \<Rightarrow> string) \<Rightarrow> const_value \<Rightarrow> input_value_error + 'w::len word" where
  "parse_unsigned show_number v =
     (case v of
        CNumber n \<Rightarrow>
          (case as_u64 n of
             None \<Rightarrow> Inl (custom_error ''Int'' ''Invalid number'')
           | Some n \<Rightarrow>
               if n > umax LENGTH('w) then Inl (only_integers 0 (umax LENGTH('w)) '''')
               else Inr (word_of_int n))
      | _ \<Rightarrow> Inl (expected_type show_number ''Int'' v))"

definition parse_u64 :: "(number \<Rightarrow> string) \<Rightarrow> const_value \<Rightarrow> input_value_error + 64 word" where
  "parse_u64 show_number v =
     (case v of
        CNumber n \<Rightarrow>
          (case as_u64 n of
             None \<Rightarrow> Inl (custom_error ''Int'' ''Invalid number'')
           | Some n \<Rightarrow> Inr (word_of_int n))
      | _ \<Rightarrow> Inl (expected_type show_number ''Int'' v))"

definition signed_value :: "'w::len word \<Rightarrow> const_value" where
  "signed_value x = CNumber (NInt (sint x))"

definition unsigned_value :: "'w::len word \<Rightarrow> const_value" where
  "unsigned_value x = CNumber (NInt (uint x))"

definition i8_input :: "(number \<Rightarrow> string) \<Rightarrow> 8 word input_type" where
  "i8_input show_number = scalar_input ''Int'' (parse_signed show_number) signed_value"
definition i16_input :: "(number \<Rightarrow> string) \<Rightarrow> 16 word input_type" where
  "i16_input show_number = scalar_input ''Int'' (parse_signed show_number) signed_value"
definition i32_input :: "(number \<Rightarrow> string) \<Rightarrow> 32 word input_type" where
  "i32_input show_number = scalar_input ''Int'' (parse_signed show_number) signed_value"
definition i64_input :: "(number \<Rightarrow> string) \<Rightarrow> 64 word input_type" where
  "i64_input show_number = scalar_input ''Int'' (parse_i64 show_number) signed_value"
definition u8_input :: "(number \<Rightarrow> string) \<Rightarrow> 8 word input_type" where
  "u8_input show_number = scalar_input ''Int'' (parse_unsigned show_number) unsigned_value"
definition u16_input :: "(number \<Rightarrow> string) \<Rightarrow> 16 word input_type" where
  "u16_input show_number = scalar_input ''Int'' (parse_unsigned show_number) unsigned_value"
definition u32_input :: "(number \<Rightarrow> string) \<Rightarrow> 32 word input_type" where
  "u32_input show_number = scalar_input ''Int'' (parse_unsigned show_number) unsigned_value"
definition u64_input :: "(number \<Rightarrow> string) \<Rightarrow> 64 word input_type" where
  "u64_input show_number = scalar_input ''Int'' (parse_u64 show_number) unsigned_value"
definition usize_input :: "(number \<Rightarrow> string) \<Rightarrow> 64 word input_type" where
  "usize_input show_number = scalar_input ''Int'' (parse_unsigned show_number) unsigned_value"
definition isize_input :: "(number \<Rightarrow> string) \<Rightarrow> 64 word input_type" where
  "isize_input show_number = scalar_input ''Int'' (parse_signed show_number) signed_value"

text \<open>The non-zero integers: \<open>new(n).unwrap()\<close> would panic on zero, which the test before excludes.\<close>

definition parse_nonzero_signed :: "(number \<Rightarrow> string) \<Rightarrow> const_value \<Rightarrow> input_value_error + 'w::len word" where
  "parse_nonzero_signed show_number v =
     (case v of
        CNumber n \<Rightarrow>
          (case as_i64 n of
             None \<Rightarrow> Inl (custom_error ''Int'' ''Invalid number'')
           | Some n \<Rightarrow>
               if n < smin LENGTH('w) \<or> n > smax LENGTH('w) \<or> n = 0 then
                 Inl (only_integers (smin LENGTH('w)) (smax LENGTH('w)) '' or non zero'')
               else Inr (word_of_int n))
      | _ \<Rightarrow> Inl (expected_type show_number ''Int'' v))"

definition parse_nonzero_unsigned :: "(number \<Rightarrow> string) \<Rightarrow> const_value \<Rightarrow> input_value_error + 'w::len word" where
  "parse_nonzero_unsigned show_number v =
     (case v of
        CNumber n \<Rightarrow>
          (case as_u64 n of
             None \<Rightarrow> Inl (custom_error ''Int'' ''Invalid number'')
           | Some n \<Rightarrow>
               if n > umax LENGTH('w) \<or> n = 0 then
                 Inl (only_integers 1 (umax LENGTH('w)) '' or non zero'')
               else Inr (word_of_int n))
      | _ \<Rightarrow> Inl (expected_type show_number ''Int'' v))"

definition parse_nonzero_i64 :: "(number \<Rightarrow> string) \<Rightarrow> const_value \<Rightarrow> input_value_error + 64 word" where
  "parse_nonzero_i64 show_number v =
     (case v of
        CNumber n \<Rightarrow>
          (case as_i64 n of
             None \<Rightarrow> Inl (custom_error ''Int'' ''Invalid number'')
           | Some n \<Rightarrow>
               if n = 0 then Inl (custom_error ''Int'' ''Only non zero are accepted.'')
               else Inr (word_of_int n))
      | _ \<Rightarrow> Inl (expected_type show_number ''Int'' v))"

definition parse_nonzero_u64 :: "(number \<Rightarrow> string) \<Rightarrow> const_value \<Rightarrow> input_value_error + 64 word" where
  "parse_nonzero_u64 show_number v =
     (case v of
        CNumber n \<Rightarrow>
          (case as_u64 n of
             None \<Rightarrow> Inl (custom_error ''Int'' ''Invalid number'')
           | Some n \<Rightarrow>
               if n = 0 then Inl (custom_error ''Int'' ''Only non zero are accepted.'')
               else Inr (word_of_int n))
      | _ \<Rightarrow> Inl (expected_type show_number ''Int'' v))"

subsection \<open>Other scalars\<close>

definition parse_bool :: "(number \<Rightarrow> string) \<Rightarrow> const_value \<Rightarrow> input_value_error + bool" where
  "parse_bool show_number v =
     (case v of CBoolean b \<Rightarrow> Inr b | _ \<Rightarrow> Inl (expected_type show_number ''Boolean'' v))"

definition bool_input :: "(number \<Rightarrow> string) \<Rightarrow> bool input_type" where
  "bool_input show_number = scalar_input ''Boolean'' (parse_bool show_number) CBoolean"

definition string_parse :: "(number \<Rightarrow> string) \<Rightarrow> const_value \<Rightarrow> input_value_error + string" where
  "string_parse show_number v =
     (case v of CString s \<Rightarrow> Inr s | _ \<Rightarrow> Inl (expected_type show_number ''String'' v))"

definition string_input :: "(number \<Rightarrow> string) \<Rightarrow> string input_type" where
  "string_input show_number = scalar_input ''String'' (string_parse show_number) CString"

text \<open>The characters of a UTF-8 text, each as its bytes.\<close>

fun chars :: "string \<Rightarrow> string list" where
  "chars [] = []"
| "chars (c # s) =
     (case chars s of
        [] \<Rightarrow> [[c]]
      | ch # rest \<Rightarrow> if is_continuation (hd ch) then (c # ch) # rest else [c] # ch # rest)"

definition parse_char :: "(number \<Rightarrow> string) \<Rightarrow> const_value \<Rightarrow> input_value_error + string" where
  "parse_char show_number v =
     (case v of
        CString s \<Rightarrow>
          (case chars s of
             [ch] \<Rightarrow> Inr ch
           | _ # _ \<Rightarrow> Inl (custom_error ''Char'' ''There can only be one unicode character in the string.'')
           | [] \<Rightarrow> Inl (custom_error ''Char'' ''A unicode character is required.''))
      | _ \<Rightarrow> Inl (expected_type show_number ''Char'' v))"

definition char_input :: "(number \<Rightarrow> string) \<Rightarrow> string input_type" where
  "char_input show_number = scalar_input ''Char'' (parse_char show_number) CString"

definition parse_id :: "(number \<Rightarrow> string) \<Rightarrow> const_value \<Rightarrow> input_value_error + string" where
  "parse_id show_number v =
     (case v of
        CNumber n \<Rightarrow>
          (if as_i64 n \<noteq> None then Inr (show_number n) else Inl (expected_type show_number ''ID'' v))
      | CString s \<Rightarrow> Inr s
      | _ \<Rightarrow> Inl (expected_type show_number ''ID'' v))"

definition id_is_valid :: "const_value \<Rightarrow> bool" where
  "id_is_valid v = (case v of CNumber n \<Rightarrow> as_i64 n \<noteq> None | CString _ \<Rightarrow> True | _ \<Rightarrow> False)"

definition id_input :: "(number \<Rightarrow> string) \<Rightarrow> string input_type" where
  "id_input show_number = scalar_input ''ID'' (parse_id show_number) CString"

subsection \<open>Options and lists\<close>

definition option_input :: "'a input_type \<Rightarrow> 'a option input_type" where
  "option_input ty =
     \<lparr>ty_name = ty_name ty, ty_qualified_name = ty_name ty,
      ty_parse = (\<lambda>v. case unwrap_value v of
          CNull \<Rightarrow> Inr None
        | v \<Rightarrow> map_ok Some (ty_parse ty (Some v))),
      ty_to_value = (\<lambda>x. case x of Some x \<Rightarrow> ty_to_value ty x | None \<Rightarrow> CNull)\<rparr>"

datatype 'a maybe_undefined = MUndefined | MNull | MValue 'a

definition maybe_undefined_input :: "'a input_type \<Rightarrow> 'a maybe_undefined input_type" where
  "maybe_undefined_input ty =
     \<lparr>ty_name = ty_name ty, ty_qualified_name = ty_name ty,
      ty_parse = (\<lambda>v. case v of
          None \<Rightarrow> Inr MUndefined
        | Some CNull \<Rightarrow> Inr MNull
        | Some v \<Rightarrow> map_ok MValue (ty_parse ty (Some v))),
      ty_to_value = (\<lambda>x. case x of MValue x \<Rightarrow> ty_to_value ty x | _ \<Rightarrow> CNull)\<rparr>"

fun mu_value :: "'a maybe_undefined \<Rightarrow> 'a option" where
  "mu_value (MValue x) = Some x"
| "mu_value _ = None"

fun mu_as_opt :: "'a maybe_undefined \<Rightarrow> 'a option option" where
  "mu_as_opt MUndefined = None"
| "mu_as_opt MNull = Some None"
| "mu_as_opt (MValue x) = Some (Some x)"

fun mu_contains_value :: "'a maybe_undefined \<Rightarrow> 'a \<Rightarrow> bool" where
  "mu_contains_value (MValue y) x \<longleftrightarrow> x = y"
| "mu_contains_value _ x \<longleftrightarrow> False"

fun mu_contains :: "'a maybe_undefined \<Rightarrow> 'a option \<Rightarrow> bool" where
  "mu_contains (MValue y) x \<longleftrightarrow> x = Some y"
| "mu_contains MNull x \<longleftrightarrow> x = None"
| "mu_contains MUndefined x \<longleftrightarrow> False"

fun mu_from_opt :: "'a option \<Rightarrow> 'a maybe_undefined" where
  "mu_from_opt (Some x) = MValue x"
| "mu_from_opt None = MNull"

fun mu_map :: "('a option \<Rightarrow> 'b option) \<Rightarrow> 'a maybe_undefined \<Rightarrow> 'b maybe_undefined" where
  "mu_map f (MValue x) = mu_from_opt (f (Some x))"
| "mu_map f MNull = mu_from_opt (f None)"
| "mu_map f MUndefined = MUndefined"

fun mu_map_value :: "('a \<Rightarrow> 'b) \<Rightarrow> 'a maybe_undefined \<Rightarrow> 'b maybe_undefined" where
  "mu_map_value f (MValue x) = MValue (f x)"
| "mu_map_value f MNull = MNull"
| "mu_map_value f MUndefined = MUndefined"

fun mu_update_to :: "'a maybe_undefined \<Rightarrow> 'a option \<Rightarrow> 'a option" where
  "mu_update_to (MValue new) old = Some new"
| "mu_update_to MNull old = None"
| "mu_update_to MUndefined old = old"

fun mu_transpose :: "('e + 'a) maybe_undefined \<Rightarrow> 'e + 'a maybe_undefined" where
  "mu_transpose MUndefined = Inr MUndefined"
| "mu_transpose MNull = Inr MNull"
| "mu_transpose (MValue (Inr v)) = Inr (MValue v)"
| "mu_transpose (MValue (Inl e)) = Inl e"

fun mu_from_nested :: "'a option option \<Rightarrow> 'a maybe_undefined" where
  "mu_from_nested (Some (Some x)) = MValue x"
| "mu_from_nested (Some None) = MNull"
| "mu_from_nested None = MUndefined"

text \<open>A list type: a value that is not a list is the list of that value.\<close>

definition list_name :: "'a input_type \<Rightarrow> string" where
  "list_name ty = ''['' @ ty_qualified_name ty @ '']''"

definition vec_input :: "'a input_type \<Rightarrow> 'a list input_type" where
  "vec_input ty =
     \<lparr>ty_name = list_name ty, ty_qualified_name = list_name ty @ ''!'',
      ty_parse = (\<lambda>v. case unwrap_value v of
          CList items \<Rightarrow>
            map_err (propagate (ty_name ty) (list_name ty)) (map_result (\<lambda>v. ty_parse ty (Some v)) items)
        | v \<Rightarrow> map_ok (\<lambda>x. [x]) (map_err (propagate (ty_name ty) (list_name ty)) (ty_parse ty (Some v)))),
      ty_to_value = (\<lambda>xs. CList (map (ty_to_value ty) xs))\<rparr>"

definition array_input :: "(number \<Rightarrow> string) \<Rightarrow> nat \<Rightarrow> 'a input_type \<Rightarrow> 'a list input_type" where
  "array_input show_number n ty =
     \<lparr>ty_name = list_name ty, ty_qualified_name = list_name ty @ ''!'',
      ty_parse = (\<lambda>v. case v of
          Some (CList items) \<Rightarrow>
            bind_result (map_err (propagate (ty_name ty) (list_name ty))
                (map_result (\<lambda>v. ty_parse ty (Some v)) items)) (\<lambda>xs.
              if length xs = n then Inr xs
              else Inl (custom_error (list_name ty)
                (''Expected input type '' @ quote (''['' @ ty_name ty @ ''; '' @ show_nat n @ '']'') @
                 '', found ['' @ ty_name ty @ ''; '' @ show_nat (length xs) @ ''].'')))
        | _ \<Rightarrow> Inl (expected_type show_number (list_name ty) (unwrap_value v))),
      ty_to_value = (\<lambda>xs. CList (map (ty_to_value ty) xs))\<rparr>"

subsection \<open>The contract\<close>

locale input_type_laws =
  fixes ty :: "'a input_type" and good :: "'a \<Rightarrow> bool"
  assumes parse_value: "good x \<Longrightarrow> ty_parse ty (Some (ty_to_value ty x)) = Inr x"
begin

lemma parse_values: "list_all good xs \<Longrightarrow> map_result (\<lambda>v. ty_parse ty (Some v)) (map (ty_to_value ty) xs) = Inr xs"
  by (induction xs) (simp_all add: parse_value)

lemma values_differ: "good x \<Longrightarrow> good y \<Longrightarrow> ty_to_value ty x = ty_to_value ty y \<Longrightarrow> x = y"
  by (metis parse_value sum.inject(2))

end

locale nonnull_input_laws = input_type_laws +
  assumes value_not_null: "good x \<Longrightarrow> ty_to_value ty x \<noteq> CNull"
begin

lemma parse_option: "pred_option good x \<Longrightarrow> ty_parse (option_input ty) (Some (ty_to_value (option_input ty) x)) = Inr x"
  using parse_value [of "the x"] value_not_null [of "the x"]
  by (cases x; cases "ty_to_value ty (the x)") (simp_all add: option_input_def)

lemma parse_maybe_undefined:
  "x \<noteq> MUndefined \<Longrightarrow> pred_maybe_undefined good x \<Longrightarrow>
   ty_parse (maybe_undefined_input ty) (Some (ty_to_value (maybe_undefined_input ty) x)) = Inr x"
  using parse_value [of "the (mu_value x)"] value_not_null [of "the (mu_value x)"]
  by (cases x; cases "ty_to_value ty (the (mu_value x))") (simp_all add: maybe_undefined_input_def)

end

lemma vec_laws: "input_type_laws ty good \<Longrightarrow> nonnull_input_laws (vec_input ty) (list_all good)"
  by unfold_locales (simp_all add: vec_input_def input_type_laws.parse_values del: map_result_map)

lemma array_laws:
  "input_type_laws ty good \<Longrightarrow> nonnull_input_laws (array_input show_number n ty) (\<lambda>xs. length xs = n \<and> list_all good xs)"
  by unfold_locales (auto simp: array_input_def input_type_laws.parse_values simp del: map_result_map)

lemma option_laws: "nonnull_input_laws ty good \<Longrightarrow> input_type_laws (option_input ty) (pred_option good)"
  by unfold_locales (rule nonnull_input_laws.parse_option)

lemma maybe_undefined_laws:
  "nonnull_input_laws ty good \<Longrightarrow>
   input_type_laws (maybe_undefined_input ty) (\<lambda>x. x \<noteq> MUndefined \<and> pred_maybe_undefined good x)"
  by unfold_locales (blast intro: nonnull_input_laws.parse_maybe_undefined)

lemma mu_nested_inverse: "mu_from_nested (mu_as_opt x) = x" "mu_as_opt (mu_from_nested y) = y"
  by (cases x; simp) (cases y rule: mu_from_nested.cases; simp)

lemma mu_map_value: "mu_map (map_option f) x = mu_map_value f x"
  by (cases x) simp_all

subsection \<open>Integers are read back exactly\<close>

lemma sint_word_of_int_range:
  "smin LENGTH('w) \<le> k \<Longrightarrow> k \<le> smax LENGTH('w) \<Longrightarrow> sint (word_of_int k :: 'w::len word) = k"
  by (simp add: sint_sbintrunc' signed_take_bit_int_eq_self smin_def smax_def)

lemma sint_range: "smin LENGTH('w) \<le> sint x" "sint x \<le> smax LENGTH('w)" for x :: "'w::len word"
  using sint_ge [of x] sint_lt [of x] by (simp_all add: smin_def smax_def)

lemma smin_smax_64: "w \<le> 64 \<Longrightarrow> - (2 ^ 63) \<le> smin w" "w \<le> 64 \<Longrightarrow> smax w < 2 ^ 63"
proof -
  assume "w \<le> 64"
  then have "(2 :: int) ^ (w - 1) \<le> 2 ^ 63" by (intro power_increasing) simp_all
  then show "- (2 ^ 63) \<le> smin w" "smax w < 2 ^ 63" by (simp_all add: smin_def smax_def)
qed

lemma as_i64_iff: "as_i64 n = Some k \<longleftrightarrow> n = NInt k \<and> - (2 ^ 63) \<le> k \<and> k < 2 ^ 63"
  by (auto simp: as_i64_def split: number.splits)

lemma as_u64_iff: "as_u64 n = Some k \<longleftrightarrow> n = NInt k \<and> 0 \<le> k \<and> k < 2 ^ 64"
  by (auto simp: as_u64_def split: number.splits)

lemma sint_zero_iff: "sint x = 0 \<longleftrightarrow> x = 0" and uint_zero_iff: "uint x = 0 \<longleftrightarrow> x = 0"
  for x :: "'w::len word"
proof -
  have "x = 0" if "sint x = 0"
  proof -
    have "x = word_of_int (sint x)" by simp
    then show ?thesis using that by simp
  qed
  then show "sint x = 0 \<longleftrightarrow> x = 0" by auto
  have "x = 0" if "uint x = 0"
  proof -
    have "x = word_of_int (uint x)" by simp
    then show ?thesis using that by simp
  qed
  then show "uint x = 0 \<longleftrightarrow> x = 0" by auto
qed

lemma parse_signed_iff:
  fixes x :: "'w::len word"
  assumes "LENGTH('w) \<le> 64"
  shows "parse_signed show_number v = Inr x \<longleftrightarrow> v = signed_value x"
    and "parse_nonzero_signed show_number v = Inr x \<longleftrightarrow> x \<noteq> 0 \<and> v = signed_value x"
proof -
  have inv: "sint (word_of_int k :: 'w word) = k" if "\<not> k < smin LENGTH('w)" "\<not> smax LENGTH('w) < k" for k
    using that by (intro sint_word_of_int_range) simp_all
  have range: "\<not> sint x < smin LENGTH('w)" "\<not> smax LENGTH('w) < sint x" "- (2 ^ 63) \<le> sint x" "sint x < 2 ^ 63"
    using sint_range [of x] smin_smax_64 [OF assms] by simp_all
  show "parse_signed show_number v = Inr x \<longleftrightarrow> v = signed_value x"
  proof
    assume "parse_signed show_number v = Inr x"
    then obtain k where "v = CNumber (NInt k)" "\<not> k < smin LENGTH('w)" "\<not> smax LENGTH('w) < k" "word_of_int k = x"
      by (auto simp: parse_signed_def as_i64_def split: const_value.splits number.splits if_splits)
    then show "v = signed_value x" using inv [of k] by (simp add: signed_value_def)
  qed (use range in \<open>simp add: parse_signed_def signed_value_def as_i64_def\<close>)
  show "parse_nonzero_signed show_number v = Inr x \<longleftrightarrow> x \<noteq> 0 \<and> v = signed_value x"
  proof
    assume "parse_nonzero_signed show_number v = Inr x"
    then obtain k where "v = CNumber (NInt k)" "\<not> k < smin LENGTH('w)" "\<not> smax LENGTH('w) < k" "k \<noteq> 0"
      "word_of_int k = x"
      by (auto simp: parse_nonzero_signed_def as_i64_def split: const_value.splits number.splits if_splits)
    then show "x \<noteq> 0 \<and> v = signed_value x" using inv [of k] by (auto simp: signed_value_def)
  next
    assume "x \<noteq> 0 \<and> v = signed_value x"
    moreover from this have "sint x \<noteq> 0" by (auto simp: sint_zero_iff)
    ultimately show "parse_nonzero_signed show_number v = Inr x"
      using range by (simp add: parse_nonzero_signed_def signed_value_def as_i64_def)
  qed
qed

lemma parse_unsigned_iff:
  fixes x :: "'w::len word"
  assumes "LENGTH('w) \<le> 64"
  shows "parse_unsigned show_number v = Inr x \<longleftrightarrow> v = unsigned_value x"
    and "parse_nonzero_unsigned show_number v = Inr x \<longleftrightarrow> x \<noteq> 0 \<and> v = unsigned_value x"
proof -
  have inv: "uint (word_of_int k :: 'w word) = k" if "0 \<le> k" "\<not> umax LENGTH('w) < k" for k
    using that by (simp add: uint_word_of_int umax_def)
  have range: "\<not> umax LENGTH('w) < uint x" "uint x < 2 ^ 64"
  proof -
    have "(2 :: int) ^ LENGTH('w) \<le> 2 ^ 64" using assms by (intro power_increasing) simp_all
    then show "uint x < 2 ^ 64" using uint_lt2p [of x] by linarith
    show "\<not> umax LENGTH('w) < uint x" using uint_lt2p [of x] unfolding umax_def by linarith
  qed
  show "parse_unsigned show_number v = Inr x \<longleftrightarrow> v = unsigned_value x"
  proof
    assume "parse_unsigned show_number v = Inr x"
    then obtain k where "v = CNumber (NInt k)" "0 \<le> k" "\<not> umax LENGTH('w) < k" "word_of_int k = x"
      by (auto simp: parse_unsigned_def as_u64_def split: const_value.splits number.splits if_splits)
    then show "v = unsigned_value x" using inv [of k] by (simp add: unsigned_value_def)
  qed (use range in \<open>simp add: parse_unsigned_def unsigned_value_def as_u64_def\<close>)
  show "parse_nonzero_unsigned show_number v = Inr x \<longleftrightarrow> x \<noteq> 0 \<and> v = unsigned_value x"
  proof
    assume "parse_nonzero_unsigned show_number v = Inr x"
    then obtain k where "v = CNumber (NInt k)" "0 \<le> k" "\<not> umax LENGTH('w) < k" "k \<noteq> 0" "word_of_int k = x"
      by (auto simp: parse_nonzero_unsigned_def as_u64_def split: const_value.splits number.splits if_splits)
    then show "x \<noteq> 0 \<and> v = unsigned_value x" using inv [of k] by (auto simp: unsigned_value_def)
  next
    assume "x \<noteq> 0 \<and> v = unsigned_value x"
    moreover from this have "uint x \<noteq> 0" by (auto simp: uint_zero_iff)
    ultimately show "parse_nonzero_unsigned show_number v = Inr x"
      using range by (simp add: parse_nonzero_unsigned_def unsigned_value_def as_u64_def)
  qed
qed

lemma parse_i64_signed: "parse_i64 show_number v = (parse_signed show_number v :: _ + 64 word)"
  by (auto simp: parse_i64_def parse_signed_def as_i64_def smin_def smax_def split: const_value.splits number.splits)

lemma parse_u64_unsigned: "parse_u64 show_number v = (parse_unsigned show_number v :: _ + 64 word)"
  by (auto simp: parse_u64_def parse_unsigned_def as_u64_def umax_def split: const_value.splits number.splits)

lemma parse_nonzero_64_iff:
  "parse_nonzero_i64 show_number v = Inr x \<longleftrightarrow> x \<noteq> 0 \<and> v = signed_value x"
  "parse_nonzero_u64 show_number v = Inr x \<longleftrightarrow> x \<noteq> 0 \<and> v = unsigned_value x"
proof -
  have "parse_nonzero_i64 show_number v = Inr x \<longleftrightarrow> parse_nonzero_signed show_number v = Inr x"
    by (auto simp: parse_nonzero_i64_def parse_nonzero_signed_def as_i64_def smin_def smax_def
        split: const_value.splits number.splits)
  then show "parse_nonzero_i64 show_number v = Inr x \<longleftrightarrow> x \<noteq> 0 \<and> v = signed_value x"
    by (simp add: parse_signed_iff)
  have "parse_nonzero_u64 show_number v = Inr x \<longleftrightarrow> parse_nonzero_unsigned show_number v = Inr x"
    by (auto simp: parse_nonzero_u64_def parse_nonzero_unsigned_def as_u64_def umax_def
        split: const_value.splits number.splits)
  then show "parse_nonzero_u64 show_number v = Inr x \<longleftrightarrow> x \<noteq> 0 \<and> v = unsigned_value x"
    by (simp add: parse_unsigned_iff)
qed

lemmas int_input_defs =
  i8_input_def i16_input_def i32_input_def i64_input_def isize_input_def
  u8_input_def u16_input_def u32_input_def u64_input_def usize_input_def

lemmas int_input_iffs = parse_signed_iff parse_unsigned_iff parse_i64_signed parse_u64_unsigned

interpretation i32: nonnull_input_laws "i32_input show_number" "\<lambda>_. True" for show_number
  by unfold_locales (simp_all add: int_input_defs scalar_input_def int_input_iffs, simp add: signed_value_def)

interpretation u64: nonnull_input_laws "u64_input show_number" "\<lambda>_. True" for show_number
  by unfold_locales (simp_all add: int_input_defs scalar_input_def int_input_iffs, simp add: unsigned_value_def)

interpretation bool_laws: nonnull_input_laws "bool_input show_number" "\<lambda>_. True" for show_number
  by unfold_locales (simp_all add: bool_input_def scalar_input_def parse_bool_def)

interpretation string_laws: nonnull_input_laws "string_input show_number" "\<lambda>_. True" for show_number
  by unfold_locales (simp_all add: string_input_def scalar_input_def string_parse_def)

interpretation id_laws: nonnull_input_laws "id_input show_number" "\<lambda>_. True" for show_number
  by unfold_locales (simp_all add: id_input_def scalar_input_def parse_id_def)

interpretation char_laws: nonnull_input_laws "char_input show_number" "\<lambda>ch. chars ch = [ch]" for show_number
  by unfold_locales (simp_all add: char_input_def scalar_input_def parse_char_def)

interpretation option_i32: input_type_laws "option_input (i32_input show_number)" "pred_option (\<lambda>_. True)" for show_number
  by (rule option_laws [OF i32.nonnull_input_laws_axioms])

interpretation vec_option_i32: nonnull_input_laws "vec_input (option_input (i32_input show_number))"
    "list_all (pred_option (\<lambda>_. True))" for show_number
  by (rule vec_laws [OF option_i32.input_type_laws_axioms])

text \<open>The type \<open>Int\<close> of a registry is the one of \<open>i32\<close>, which is registered first, for every integer type:
  a value of \<open>u64\<close> that its own \<open>is_valid\<close> and \<open>parse\<close> accept is not always valid for \<open>Int\<close>.\<close>

lemma int_valid_u64:
  "is_i64_value (unsigned_value x) \<longleftrightarrow> uint x < 2 ^ 63" "is_u64_value (unsigned_value x)" for x :: "64 word"
  using uint_lt2p [of x] order_trans [OF _ unsigned_greater_eq [of x], of "- (2 ^ 63) :: int"]
  by (auto simp: is_i64_value_def is_u64_value_def unsigned_value_def as_i64_def as_u64_def)

subsection \<open>Validators\<close>

text \<open>A validator gets the value and its parameter and returns the text of its error, which the type's name
  completes (\<open>custom_error\<close>). Regular expressions, addresses and passwords are judged by other crates, which
  are arguments.\<close>

definition limit_text :: "string \<Rightarrow> string \<Rightarrow> string \<Rightarrow> string \<Rightarrow> string" where
  "limit_text subject actual relation bound =
     ''the '' @ subject @ '' is '' @ actual @ '', must be '' @ relation @ '' than or equal to '' @ bound"

definition v_max_length :: "string \<Rightarrow> nat \<Rightarrow> string + unit" where
  "v_max_length s n =
     (if length s \<le> n then Inr ()
      else Inl (limit_text ''string length'' (show_nat (length s)) ''less'' (show_nat n)))"

definition v_min_length :: "string \<Rightarrow> nat \<Rightarrow> string + unit" where
  "v_min_length s n =
     (if length s \<ge> n then Inr ()
      else Inl (limit_text ''string length'' (show_nat (length s)) ''greater'' (show_nat n)))"

definition v_chars_max_length :: "string \<Rightarrow> nat \<Rightarrow> string + unit" where
  "v_chars_max_length s n =
     (if length (chars s) \<le> n then Inr ()
      else Inl (limit_text ''chars length'' (show_nat (length (chars s))) ''less'' (show_nat n)))"

definition v_chars_min_length :: "string \<Rightarrow> nat \<Rightarrow> string + unit" where
  "v_chars_min_length s n =
     (if length (chars s) \<ge> n then Inr ()
      else Inl (limit_text ''chars length'' (show_nat (length (chars s))) ''greater'' (show_nat n)))"

definition v_max_items :: "'a list \<Rightarrow> nat \<Rightarrow> string + unit" where
  "v_max_items xs n =
     (if length xs \<le> n then Inr ()
      else Inl (limit_text ''value length'' (show_nat (length xs)) ''less'' (show_nat n)))"

definition v_min_items :: "'a list \<Rightarrow> nat \<Rightarrow> string + unit" where
  "v_min_items xs n =
     (if length xs \<ge> n then Inr ()
      else Inl (limit_text ''value length'' (show_nat (length xs)) ''greater'' (show_nat n)))"

definition v_maximum :: "('n::ord \<Rightarrow> string) \<Rightarrow> ('t \<Rightarrow> 'n) \<Rightarrow> 't \<Rightarrow> 'n \<Rightarrow> string + unit" where
  "v_maximum show as_n x n =
     (if as_n x \<le> n then Inr () else Inl (limit_text ''value'' (show (as_n x)) ''less'' (show n)))"

definition v_minimum :: "('n::ord \<Rightarrow> string) \<Rightarrow> ('t \<Rightarrow> 'n) \<Rightarrow> 't \<Rightarrow> 'n \<Rightarrow> string + unit" where
  "v_minimum show as_n x n =
     (if n \<le> as_n x then Inr () else Inl (limit_text ''value'' (show (as_n x)) ''greater'' (show n)))"

text \<open>\<open>multiple_of\<close> on integers: \<open>None\<close> is the panic of a remainder by zero, which the test for a zero value
  precedes.\<close>

definition v_multiple_of :: "int \<Rightarrow> int \<Rightarrow> (string + unit) option" where
  "v_multiple_of x n =
     (let err = Inl (''the value must be a multiple of '' @ show_int n @ ''.'') in
      if x = 0 then Some err
      else if n = 0 then None
      else Some (if n dvd x then Inr () else err))"

definition v_email :: "(string \<Rightarrow> bool) \<Rightarrow> string \<Rightarrow> string + unit" where
  "v_email is_valid_email s = (if is_valid_email s then Inr () else Inl ''invalid email'')"

definition v_ip :: "(string \<Rightarrow> bool) \<Rightarrow> string \<Rightarrow> string + unit" where
  "v_ip is_ip_addr s = (if is_ip_addr s then Inr () else Inl ''invalid ip'')"

definition v_url :: "(string \<Rightarrow> (bool \<times> bool) option) \<Rightarrow> string \<Rightarrow> string + unit" where
  "v_url uri s =
     (case uri s of
        Some (has_scheme, has_authority) \<Rightarrow>
          (if has_scheme \<and> has_authority then Inr () else Inl ''invalid url'')
      | None \<Rightarrow> Inl ''invalid url'')"

definition v_regex :: "(string \<Rightarrow> (string \<Rightarrow> bool) option) \<Rightarrow> string \<Rightarrow> string \<Rightarrow> string + unit" where
  "v_regex regex_new s regex =
     (case map_option (\<lambda>re. re s) (regex_new regex) of
        Some True \<Rightarrow> Inr ()
      | _ \<Rightarrow> Inl (''value doesn'' @ [CHR 0x27] @ ''t match expected format '' @
                [CHR 0x27] @ regex @ [CHR 0x27]))"

definition v_uuid :: "(string \<Rightarrow> nat option) \<Rightarrow> string \<Rightarrow> nat option \<Rightarrow> string + unit" where
  "v_uuid uuid_version s version_option =
     (case uuid_version s of
        Some n \<Rightarrow>
          (case version_option of
             Some version \<Rightarrow> (if n \<noteq> version then Inl ''UUID version mismatch'' else Inr ())
           | None \<Rightarrow> Inr ())
      | None \<Rightarrow> Inl ''Invalid UUID'')"

definition v_min_password_strength :: "(string \<Rightarrow> nat) \<Rightarrow> string \<Rightarrow> 8 word \<Rightarrow> string + unit" where
  "v_min_password_strength zxcvbn s min_score =
     (let min_score = (if min_score < 4 then unat min_score else 4) in
      if zxcvbn s < min_score then Inl ''password is too weak'' else Inr ())"

text \<open>The validator of characters counts what \<open>char\<close> takes one of.\<close>

lemma hd_chars: "chars s = ch # rest \<Longrightarrow> ch \<noteq> []"
  by (cases s) (auto split: list.splits if_splits)

lemma concat_chars: "concat (chars s) = s"
  by (induction s) (auto split: list.splits dest: hd_chars)

lemma parse_char_iff:
  "parse_char show_number v = Inr ch \<longleftrightarrow> (v = CString ch \<and> length (chars ch) = 1)"
proof -
  have "chars s = [ch] \<longleftrightarrow> s = ch \<and> length (chars ch) = 1" for s
  proof
    assume "chars s = [ch]"
    then show "s = ch \<and> length (chars ch) = 1" using concat_chars [of s] by auto
  next
    assume "s = ch \<and> length (chars ch) = 1"
    then show "chars s = [ch]" using concat_chars [of ch] by (auto simp: length_Suc_conv)
  qed
  moreover have "parse_char show_number v = Inr ch \<longleftrightarrow> (\<exists>s. v = CString s \<and> chars s = [ch])"
    by (cases v) (auto simp: parse_char_def split: list.splits)
  ultimately show ?thesis by blast
qed

end
