(* ===== verification/Uploads.thy ===== *)
theory Uploads
  imports Request_Prep Input_Types
begin

text \<open>
  Requests over HTTP and file uploads: \<open>src/request.rs\<close>, \<open>src/http/mod.rs\<close>, \<open>src/http/multipart.rs\<close> and
  \<open>src/types/upload.rs\<close>.

  \<^item> The crate \<open>multer\<close> splits a multipart body; its output is the list of the parts, each with its body or an
    error. The crate \<open>mime\<close> and the derived JSON deserialization are arguments; the feature \<open>cbor\<close> is off.
  \<^item> A file replaces the value at each of its paths in the variables by a text with the index of the file;
    \<open>Upload::parse\<close> reads that text. What panics returns \<open>Panics\<close> with its reason.

  Lemmas: \<open>set_upload\<close> keeps that each such text is an index of the uploads, so a request whose variables
  had none before does not make \<open>Upload::parse\<close> panic, and the index is within bounds.
\<close>

subsection \<open>Numbers and paths in texts\<close>

text \<open>\<open>str::parse\<close> of an unsigned integer of \<open>w\<close> bits: an optional plus sign and at least one digit.\<close>

definition is_digit :: "char \<Rightarrow> bool" where
  "is_digit c \<longleftrightarrow> 48 \<le> (of_char c :: nat) \<and> (of_char c :: nat) \<le> 57"

definition digits_value :: "string \<Rightarrow> nat" where
  "digits_value s = fold (\<lambda>c n. 10 * n + (of_char c - 48)) s 0"

definition parse_unsigned_text :: "nat \<Rightarrow> string \<Rightarrow> nat option" where
  "parse_unsigned_text w s =
     (let ds = (case s of c # rest \<Rightarrow> if c = CHR ''+'' then rest else s | [] \<Rightarrow> []) in
      if ds \<noteq> [] \<and> list_all is_digit ds \<and> digits_value ds < 2 ^ w then Some (digits_value ds) else None)"

fun split_dots :: "string \<Rightarrow> string list" where
  "split_dots [] = [[]]"
| "split_dots (c # s) =
     (case split_dots s of
        part # parts \<Rightarrow> if c = CHR ''.'' then [] # part # parts else (c # part) # parts
      | [] \<Rightarrow> [[c]])"

definition strip_text :: "string \<Rightarrow> string \<Rightarrow> string option" where
  "strip_text pre s = (if starts_with s pre then Some (drop (length pre) s) else None)"

text \<open>The value that a path leads to is replaced; \<open>None\<close> when it leads nowhere.\<close>

fun replace_in :: "string list \<Rightarrow> const_value \<Rightarrow> const_value \<Rightarrow> const_value option" where
  "replace_in [] new current = Some new"
| "replace_in (part # parts) new current =
     (case current of
        CList items \<Rightarrow>
          (case parse_unsigned_text 32 part of
             Some idx \<Rightarrow>
               (if idx < length items then
                  map_option (\<lambda>v. CList (items[idx := v])) (replace_in parts new (items ! idx))
                else None)
           | None \<Rightarrow> None)
      | CObject obj \<Rightarrow>
          (case im_get obj part of
             Some v \<Rightarrow> map_option (\<lambda>v. CObject (im_insert part v obj)) (replace_in parts new v)
           | None \<Rightarrow> None)
      | _ \<Rightarrow> None)"

definition replace_variable :: "variables \<Rightarrow> string \<Rightarrow> const_value \<Rightarrow> variables option" where
  "replace_variable vars path new =
     (case strip_text ''variables.'' path of
        None \<Rightarrow> None
      | Some rest \<Rightarrow>
          (case split_dots rest of
             [] \<Rightarrow> None
           | n # parts \<Rightarrow>
               (case im_get vars n of
                  None \<Rightarrow> None
                | Some v \<Rightarrow> map_option (\<lambda>v. im_insert n v vars) (replace_in parts new v))))"

subsection \<open>Uploads\<close>

record upload_value =
  up_filename :: string
  up_content_type :: "string option"
  up_content :: string

definition upload_prefix :: string where
  "upload_prefix = ''#__graphql_file__:''"

definition set_upload ::
  "string \<Rightarrow> upload_value \<Rightarrow> (upload_value, 'data) request \<Rightarrow> (upload_value, 'data) request" where
  "set_upload var_path upload request =
     (case replace_variable (rq_variables request) var_path
             (CString (upload_prefix @ show_nat (length (rq_uploads request)))) of
        None \<Rightarrow> request
      | Some vars \<Rightarrow> request\<lparr>rq_uploads := rq_uploads request @ [upload], rq_variables := vars\<rparr>)"

datatype 'a or_panic = Panics string | Returns 'a

text \<open>\<open>Upload::parse\<close> unwraps the index that follows the prefix.\<close>

definition upload_parse ::
  "(number \<Rightarrow> string) \<Rightarrow> const_value option \<Rightarrow> (input_value_error + nat) or_panic" where
  "upload_parse show_number v =
     (case unwrap_value v of
        CString s \<Rightarrow>
          (case strip_text upload_prefix s of
             Some filename \<Rightarrow>
               (case parse_unsigned_text 64 filename of
                  Some idx \<Rightarrow> Returns (Inr idx)
                | None \<Rightarrow> Panics ''called `Result::unwrap()` on an `Err` value'')
           | None \<Rightarrow> Returns (Inl (expected_type show_number ''Upload'' (CString s))))
      | v \<Rightarrow> Returns (Inl (expected_type show_number ''Upload'' v)))"

definition upload_content :: "upload_value list \<Rightarrow> nat \<Rightarrow> upload_value or_panic" where
  "upload_content uploads idx =
     (if idx < length uploads then Returns (uploads ! idx) else Panics ''index out of bounds'')"

subsection \<open>Batches\<close>

datatype 'data batch_request =
    BatchSingle "(upload_value, 'data) request"
  | BatchMany "(upload_value, 'data) request list"

datatype parse_request_error =
    InvalidRequest | InvalidFilesMap | InvalidMultipart | MissingOperatorsPart | MissingMapPart
  | MissingFiles | PayloadTooLarge | UnsupportedBatch

datatype http_failure = HttpPanic string | HttpError parse_request_error

fun into_single :: "'data batch_request \<Rightarrow> http_failure + (upload_value, 'data) request" where
  "into_single (BatchSingle req) = Inr req"
| "into_single (BatchMany _) = Inl (HttpError UnsupportedBatch)"

fun batch_requests :: "'data batch_request \<Rightarrow> (upload_value, 'data) request list" where
  "batch_requests (BatchSingle request) = [request]"
| "batch_requests (BatchMany requests) = requests"

fun map_batch ::
  "((upload_value, 'data) request \<Rightarrow> (upload_value, 'data) request) \<Rightarrow> 'data batch_request \<Rightarrow>
   'data batch_request" where
  "map_batch f (BatchSingle request) = BatchSingle (f request)"
| "map_batch f (BatchMany requests) = BatchMany (map f requests)"

definition batch_variables :: "variables \<Rightarrow> 'data batch_request \<Rightarrow> 'data batch_request" where
  "batch_variables vars = map_batch (\<lambda>request. request\<lparr>rq_variables := vars\<rparr>)"

definition batch_introspection :: "introspection_mode \<Rightarrow> 'data batch_request \<Rightarrow> 'data batch_request" where
  "batch_introspection mode = map_batch (\<lambda>request. request\<lparr>rq_introspection_mode := mode\<rparr>)"

text \<open>\<open>splitn(2, '.')\<close>: the index of a request of the batch and the path in it.\<close>

definition split_once :: "string \<Rightarrow> string \<times> string option" where
  "split_once path =
     (let front = takeWhile (\<lambda>c. c \<noteq> CHR ''.'') path in
      (front, if length front < length path then Some (drop (Suc (length front)) path) else None))"

fun place_upload :: "upload_value \<Rightarrow> string \<Rightarrow> 'data batch_request \<Rightarrow> 'data batch_request" where
  "place_upload upload var_path (BatchSingle request) = BatchSingle (set_upload var_path upload request)"
| "place_upload upload var_path (BatchMany requests) =
     (case split_once var_path of
        (front, Some path) \<Rightarrow>
          (case parse_unsigned_text 64 front of
             Some idx \<Rightarrow>
               (if idx < length requests then
                  BatchMany (requests[idx := set_upload path upload (requests ! idx)])
                else BatchMany requests)
           | None \<Rightarrow> BatchMany requests)
      | (front, None) \<Rightarrow> BatchMany requests)"

subsection \<open>Multipart bodies\<close>

type_synonym mime = "string \<times> string"

datatype multer_error = SizeExceeded | OtherMultipart

fun from_multer :: "multer_error \<Rightarrow> http_failure" where
  "from_multer SizeExceeded = HttpError PayloadTooLarge"
| "from_multer OtherMultipart = HttpError InvalidMultipart"

record multipart_part =
  mp_name :: "string option"
  mp_file_name :: "string option"
  mp_content_type :: "mime option"
  mp_body :: "multer_error + string"

definition mime_str :: "mime \<Rightarrow> string" where
  "mime_str m = fst m @ ''/'' @ snd m"

definition receive_no_multipart ::
  "(string \<Rightarrow> 'data batch_request option) \<Rightarrow> mime \<Rightarrow> string \<Rightarrow> http_failure + 'data batch_request" where
  "receive_no_multipart read_json content_type body =
     (if fst content_type = ''multipart'' then Inl (HttpPanic ''received multipart'')
      else case read_json body of
        Some batch \<Rightarrow> Inr batch
      | None \<Rightarrow> Inl (HttpError InvalidRequest))"

record 'data multipart_state =
  ms_request :: "'data batch_request option"
  ms_map :: "(string, string list) index_map option"
  ms_files :: "(string \<times> upload_value) list"

definition read_body :: "multer_error + string \<Rightarrow> http_failure + string" where
  "read_body b = (case b of Inl e \<Rightarrow> Inl (from_multer e) | Inr s \<Rightarrow> Inr s)"

definition receive_part ::
  "(string \<Rightarrow> 'data batch_request option) \<Rightarrow> (string \<Rightarrow> (string, string list) index_map option) \<Rightarrow>
   multipart_part \<Rightarrow> 'data multipart_state \<Rightarrow> http_failure + 'data multipart_state" where
  "receive_part read_json read_map part st =
     (let content_type = (case mp_content_type part of Some m \<Rightarrow> m | None \<Rightarrow> (''application'', ''json'')) in
      case mp_name part of
        None \<Rightarrow> Inr st
      | Some n \<Rightarrow>
          if n = ''operations'' then
            bind_result (read_body (mp_body part)) (\<lambda>body.
            bind_result (receive_no_multipart read_json content_type body) (\<lambda>request.
            Inr (st\<lparr>ms_request := Some request\<rparr>)))
          else if n = ''map'' then
            bind_result (read_body (mp_body part)) (\<lambda>body.
            case read_map body of
              Some m \<Rightarrow> Inr (st\<lparr>ms_map := Some m\<rparr>)
            | None \<Rightarrow> Inl (HttpError InvalidFilesMap))
          else
            case mp_file_name part of
              None \<Rightarrow> Inr st
            | Some filename \<Rightarrow>
                bind_result (read_body (mp_body part)) (\<lambda>body.
                Inr (st\<lparr>ms_files := ms_files st @
                  [(n, \<lparr>up_filename = filename, up_content_type = map_option mime_str (mp_content_type part),
                        up_content = body\<rparr>)]\<rparr>)))"

fun receive_parts ::
  "(string \<Rightarrow> 'data batch_request option) \<Rightarrow> (string \<Rightarrow> (string, string list) index_map option) \<Rightarrow>
   (multer_error + multipart_part) list \<Rightarrow> 'data multipart_state \<Rightarrow> http_failure + 'data multipart_state" where
  "receive_parts read_json read_map [] st = Inr st"
| "receive_parts read_json read_map (Inl e # parts) st = Inl (from_multer e)"
| "receive_parts read_json read_map (Inr part # parts) st =
     bind_result (receive_part read_json read_map part st) (receive_parts read_json read_map parts)"

fun place_files ::
  "(string \<times> upload_value) list \<Rightarrow> (string, string list) index_map \<Rightarrow> 'data batch_request \<Rightarrow>
   (string, string list) index_map \<times> 'data batch_request" where
  "place_files [] m request = (m, request)"
| "place_files ((n, upload) # files) m request =
     (case im_get m n of
        Some var_paths \<Rightarrow> place_files files (AList.delete n m) (fold (place_upload upload) var_paths request)
      | None \<Rightarrow> place_files files m request)"

definition receive_batch_multipart ::
  "(string \<Rightarrow> 'data batch_request option) \<Rightarrow> (string \<Rightarrow> (string, string list) index_map option) \<Rightarrow>
   (multer_error + multipart_part) list \<Rightarrow> http_failure + 'data batch_request" where
  "receive_batch_multipart read_json read_map parts =
     bind_result (receive_parts read_json read_map parts
         \<lparr>ms_request = None, ms_map = None, ms_files = []\<rparr>) (\<lambda>st.
     case ms_request st of
       None \<Rightarrow> Inl (HttpError MissingOperatorsPart)
     | Some request \<Rightarrow>
         (case ms_map st of
            None \<Rightarrow> Inl (HttpError MissingMapPart)
          | Some m \<Rightarrow>
              let (m, request) = place_files (ms_files st) m request
              in if m \<noteq> [] then Inl (HttpError MissingFiles) else Inr request))"

text \<open>The whole body: \<open>parse_mime\<close> gives the type and the boundary; \<open>multer\<close> splits by the boundary.\<close>

definition receive_batch_body ::
  "(string \<Rightarrow> 'data batch_request option) \<Rightarrow> (string \<Rightarrow> (string, string list) index_map option) \<Rightarrow>
   (string \<Rightarrow> (mime \<times> string option) option) \<Rightarrow> (string \<Rightarrow> string \<Rightarrow> (multer_error + multipart_part) list) \<Rightarrow>
   string option \<Rightarrow> string \<Rightarrow> http_failure + 'data batch_request" where
  "receive_batch_body read_json read_map parse_mime multer content_type body =
     (case parse_mime (case content_type of Some c \<Rightarrow> c | None \<Rightarrow> ''application/graphql-response+json'') of
        None \<Rightarrow> Inl (HttpError InvalidRequest)
      | Some (content_type, boundary) \<Rightarrow>
          if fst content_type = ''multipart'' then
            (case boundary of
               Some boundary \<Rightarrow> receive_batch_multipart read_json read_map (multer boundary body)
             | None \<Rightarrow> Inl (HttpError InvalidMultipart))
          else receive_no_multipart read_json content_type body)"

definition receive_body ::
  "(string \<Rightarrow> 'data batch_request option) \<Rightarrow> (string \<Rightarrow> (string, string list) index_map option) \<Rightarrow>
   (string \<Rightarrow> (mime \<times> string option) option) \<Rightarrow> (string \<Rightarrow> string \<Rightarrow> (multer_error + multipart_part) list) \<Rightarrow>
   string option \<Rightarrow> string \<Rightarrow> http_failure + (upload_value, 'data) request" where
  "receive_body read_json read_map parse_mime multer content_type body =
     bind_result (receive_batch_body read_json read_map parse_mime multer content_type body) into_single"

subsection \<open>References to uploads\<close>

lemma is_digit_char: "d < 10 \<Longrightarrow> is_digit (char_of (48 + d))" "d < 10 \<Longrightarrow> of_char (char_of (48 + d) :: char) - (48 :: nat) = d"
  by (simp_all add: is_digit_def)

lemma show_nat_digits:
  "list_all is_digit (show_nat n) \<and> show_nat n \<noteq> [] \<and> digits_value (show_nat n) = n"
proof (induction n rule: show_nat.induct)
  case (1 n)
  show ?case
  proof (cases "n < 10")
    case True
    then show ?thesis by (simp add: show_nat.simps [of n] is_digit_char digits_value_def)
  next
    case False
    have "n mod 10 < 10" by simp
    with 1 [OF False] False show ?thesis
      by (simp add: show_nat.simps [of n] is_digit_char digits_value_def)
  qed
qed

lemma parse_show_nat: "n < 2 ^ w \<Longrightarrow> parse_unsigned_text w (show_nat n) = Some n"
proof -
  assume n: "n < 2 ^ w"
  obtain c cs where s: "show_nat n = c # cs" using show_nat_digits [of n] by (cases "show_nat n") auto
  then have "is_digit c" using show_nat_digits [of n] by simp
  then have "c \<noteq> CHR ''+''" by (auto simp: is_digit_def)
  then show ?thesis using s show_nat_digits [of n] n by (simp add: parse_unsigned_text_def)
qed

fun texts :: "const_value \<Rightarrow> string set" where
  "texts (CString s) = {s}"
| "texts (CList items) = (\<Union>v\<in>set items. texts v)"
| "texts (CObject obj) = (\<Union>(k, v)\<in>set obj. texts v)"
| "texts _ = {}"

definition variable_texts :: "variables \<Rightarrow> string set" where
  "variable_texts vars = (\<Union>(k, v)\<in>set vars. texts v)"

lemma texts_update: "(\<Union>(k, v)\<in>set (AList.update n x m). texts v) \<subseteq> texts x \<union> (\<Union>(k, v)\<in>set m. texts v)"
  by (induction m) (auto split: if_splits)

lemma texts_get: "map_of m n = Some v \<Longrightarrow> texts v \<subseteq> (\<Union>(k, v)\<in>set m. texts v)"
  by (auto dest!: map_of_SomeD)

lemma texts_replace_in: "replace_in parts new cur = Some v \<Longrightarrow> texts v \<subseteq> texts new \<union> texts cur"
proof (induction parts new cur arbitrary: v rule: replace_in.induct)
  case (2 part parts new cur)
  show ?case
  proof (cases cur)
    case (CList items)
    with 2(3) obtain idx w where idx: "idx < length items" "replace_in parts new (items ! idx) = Some w"
      "v = CList (items[idx := w])" "parse_unsigned_text 32 part = Some idx"
      by (auto split: option.splits if_splits)
    have "texts w \<subseteq> texts new \<union> texts (items ! idx)" using 2(1) [OF CList idx(4,1,2)] .
    then show ?thesis
      using idx(1,3) CList set_update_subset_insert [of items idx w] nth_mem [OF idx(1)] by fastforce
  next
    case (CObject obj)
    with 2(3) obtain u w where u: "map_of obj part = Some u" "replace_in parts new u = Some w"
      "v = CObject (AList.update part w obj)"
      by (auto split: option.splits)
    have "texts w \<subseteq> texts new \<union> texts u" using 2(2) [OF CObject _ u(2)] u(1) by simp
    then show ?thesis
      using texts_update [of part w obj] texts_get [OF u(1)] CObject u(3) by fastforce
  qed (use 2(3) in auto)
qed simp

lemma texts_replace_variable:
  assumes "replace_variable vars path new = Some vars'"
  shows "variable_texts vars' \<subseteq> texts new \<union> variable_texts vars"
proof -
  from assms obtain n u parts w where "map_of vars n = Some u" "replace_in parts new u = Some w"
    "vars' = AList.update n w vars"
    by (auto simp: replace_variable_def split: option.splits list.splits)
  then show ?thesis
    using texts_update [of n w vars] texts_get [of vars n u] texts_replace_in [of parts new u w]
    unfolding variable_texts_def by blast
qed

text \<open>Every text of the variables that looks like a reference is the index of an upload.\<close>

definition upload_ref :: "nat \<Rightarrow> string \<Rightarrow> bool" where
  "upload_ref n s \<longleftrightarrow> (starts_with s upload_prefix \<longrightarrow> (\<exists>i<n. s = upload_prefix @ show_nat i))"

definition refs_ok :: "(upload_value, 'data) request \<Rightarrow> bool" where
  "refs_ok request \<longleftrightarrow> (\<forall>s\<in>variable_texts (rq_variables request). upload_ref (length (rq_uploads request)) s)"

lemma upload_ref_mono: "upload_ref n s \<Longrightarrow> n \<le> m \<Longrightarrow> upload_ref m s"
  unfolding upload_ref_def by (blast intro: less_le_trans)

lemma refs_ok_set_upload:
  assumes "refs_ok request"
  shows "refs_ok (set_upload path upload request)"
proof (cases "replace_variable (rq_variables request) path
    (CString (upload_prefix @ show_nat (length (rq_uploads request))))")
  case (Some vars)
  let ?n = "length (rq_uploads request)"
  have "upload_ref (Suc ?n) (upload_prefix @ show_nat ?n)" by (auto simp: upload_ref_def)
  moreover have "upload_ref (Suc ?n) s" if "s \<in> variable_texts (rq_variables request)" for s
    using assms that by (auto simp: refs_ok_def intro: upload_ref_mono)
  ultimately have "\<forall>s\<in>variable_texts vars. upload_ref (Suc ?n) s"
    using texts_replace_variable [OF Some] by auto
  then show ?thesis using Some by (simp add: set_upload_def refs_ok_def)
qed (use assms in \<open>simp add: set_upload_def\<close>)

definition batch_ok :: "'data batch_request \<Rightarrow> bool" where
  "batch_ok batch \<longleftrightarrow> list_all refs_ok (batch_requests batch)"

lemma batch_ok_place: "batch_ok batch \<Longrightarrow> batch_ok (place_upload upload path batch)"
  by (cases batch)
     (auto simp: batch_ok_def refs_ok_set_upload list_all_length nth_list_update split: option.splits prod.splits)

lemma batch_ok_place_files: "batch_ok batch \<Longrightarrow> batch_ok (snd (place_files files m batch))"
proof (induction files m batch rule: place_files.induct)
  case (2 n upload files m batch)
  have "batch_ok (fold (place_upload upload) paths batch)" for paths
    using 2(3) by (induction paths arbitrary: batch) (simp_all add: batch_ok_place)
  then show ?case using 2 by (auto split: option.splits)
qed simp

lemma receive_part_request:
  assumes "receive_part read_json read_map part st = Inr st'" "ms_request st' = Some batch"
  shows "ms_request st = Some batch \<or> (\<exists>body. read_json body = Some batch)"
  using assms
  by (auto simp: receive_part_def receive_no_multipart_def Let_def res_simps split: option.splits if_splits)

lemma receive_parts_request:
  "receive_parts read_json read_map parts st = Inr st' \<Longrightarrow> ms_request st' = Some batch \<Longrightarrow>
   ms_request st = Some batch \<or> (\<exists>body. read_json body = Some batch)"
proof (induction read_json read_map parts st rule: receive_parts.induct)
  case (3 read_json read_map part parts st)
  then obtain st1 where st1: "receive_part read_json read_map part st = Inr st1"
    "receive_parts read_json read_map parts st1 = Inr st'"
    by (auto simp: res_simps)
  from 3(1) [OF st1 3(3)] receive_part_request [OF st1(1)] show ?case by blast
qed simp_all

lemma receive_batch_multipart_ok:
  assumes "receive_batch_multipart read_json read_map parts = Inr batch"
    "\<And>body b. read_json body = Some b \<Longrightarrow> batch_ok b"
  shows "batch_ok batch"
proof -
  from assms(1) obtain st where parts:
    "receive_parts read_json read_map parts \<lparr>ms_request = None, ms_map = None, ms_files = []\<rparr> = Inr st" and
    rest: "(case ms_request st of
       None \<Rightarrow> Inl (HttpError MissingOperatorsPart)
     | Some request \<Rightarrow>
         (case ms_map st of
            None \<Rightarrow> Inl (HttpError MissingMapPart)
          | Some m \<Rightarrow>
              let (m, request) = place_files (ms_files st) m request
              in if m \<noteq> [] then Inl (HttpError MissingFiles) else Inr request)) = Inr batch"
    unfolding receive_batch_multipart_def res_simps by blast
  obtain request m where st: "ms_request st = Some request" "batch = snd (place_files (ms_files st) m request)"
    using rest by (cases "ms_request st"; cases "ms_map st") (auto simp: Let_def case_prod_unfold split: if_splits)
  have "batch_ok request" using receive_parts_request [OF parts st(1)] assms(2) by auto
  then show ?thesis unfolding st(2) by (rule batch_ok_place_files)
qed

lemma refs_ok_parse:
  assumes "refs_ok request" "s \<in> variable_texts (rq_variables request)" "starts_with s upload_prefix"
    "length (rq_uploads request) \<le> 2 ^ 64"
  shows "\<exists>i. upload_parse show_number (Some (CString s)) = Returns (Inr i) \<and>
    upload_content (rq_uploads request) i = Returns (rq_uploads request ! i)"
proof -
  from assms(1-3) obtain i where i: "i < length (rq_uploads request)" "s = upload_prefix @ show_nat i"
    by (auto simp: refs_ok_def upload_ref_def)
  then have "parse_unsigned_text 64 (show_nat i) = Some i" using assms(4) by (intro parse_show_nat) linarith
  then show ?thesis
    using i by (auto simp: upload_parse_def upload_content_def strip_text_def starts_with_def)
qed

end
