(* ===== verification/Registry_Usage.thy ===== *)
theory Registry_Usage
  imports Meta_Registry Graph_Search
begin

text \<open>
  Which types of the registry are used, and which of them a request may see:
  \<open>Registry::names\<close>, \<open>set_description\<close>, \<open>remove_unused_types\<close> and \<open>find_visible_types\<close> of
  \<open>src/registry/mod.rs\<close>.

  \<open>remove_unused_types\<close> and \<open>find_visible_types\<close> contain the same three nested functions, up to
  the tests of visibility: \<open>traverse_type\<close> returns when the type is in the set or is not
  registered, otherwise inserts it and calls \<open>traverse_field\<close>, \<open>traverse_input_value\<close> or itself for
  what the type mentions. \<open>traverse_types\<close> is that recursion over the list of the names still to be
  traversed; \<open>enter\<close> gives the names a type mentions, in the order of the calls, or \<open>None\<close> when the
  type is not to be entered. The sets are lists without repetition.

  Lemmas: the recursion is the depth-first search of \<open>Graph_Search\<close>, hence it reaches exactly the
  least set of types that contains the roots and what its members mention.
\<close>

subsection \<open>Names and descriptions\<close>

definition arg_names :: "(string, meta_input_value) index_map \<Rightarrow> string list" where
  "arg_names args = map (\<lambda>(_, arg). miv_name arg) args"

definition field_names :: "(string, meta_field) index_map \<Rightarrow> string list" where
  "field_names fs = concat (map (\<lambda>(_, f). mf_name f # arg_names (mf_args f)) fs)"

fun type_names :: "meta_type \<Rightarrow> string list" where
  "type_names (MScalar t) = [sc_name t]"
| "type_names (MUnion t) = [un_name t]"
| "type_names (MObject t) = ob_name t # field_names (ob_fields t)"
| "type_names (MInterface t) = it_name t # field_names (it_fields t)"
| "type_names (MEnum t) = en_name t # map (\<lambda>(_, v). mev_name v) (en_enum_values t)"
| "type_names (MInputObject t) = io_name t # arg_names (io_input_fields t)"

text \<open>The \<open>HashSet\<close> of names iterates in no specified order; \<open>remdups\<close> fixes one.\<close>

definition registry_names :: "registry \<Rightarrow> string list" where
  "registry_names reg =
     remdups (concat (map (\<lambda>(_, d). md_name d # arg_names (md_args d)) (directives reg)) @
              concat (map (\<lambda>(_, ty). type_names ty) (types reg)))"

fun describe_type :: "string \<Rightarrow> meta_type \<Rightarrow> meta_type" where
  "describe_type desc (MScalar t) = MScalar (t\<lparr>sc_description := Some desc\<rparr>)"
| "describe_type desc (MObject t) = MObject (t\<lparr>ob_description := Some desc\<rparr>)"
| "describe_type desc (MInterface t) = MInterface (t\<lparr>it_description := Some desc\<rparr>)"
| "describe_type desc (MUnion t) = MUnion (t\<lparr>un_description := Some desc\<rparr>)"
| "describe_type desc (MEnum t) = MEnum (t\<lparr>en_description := Some desc\<rparr>)"
| "describe_type desc (MInputObject t) = MInputObject (t\<lparr>io_description := Some desc\<rparr>)"

definition set_description :: "string \<Rightarrow> string \<Rightarrow> registry \<Rightarrow> registry" where
  "set_description n desc reg =
     (case im_get (types reg) n of
        Some ty \<Rightarrow> reg\<lparr>types := im_insert n (describe_type desc ty) (types reg)\<rparr>
      | None \<Rightarrow> reg)"

subsection \<open>The traversal\<close>

function (sequential) traverse_types ::
  "(string, meta_type) index_map \<Rightarrow> (meta_type \<Rightarrow> string list option) \<Rightarrow> string list \<Rightarrow>
   string list \<Rightarrow> string list" where
  "traverse_types tys enter [] found = found"
| "traverse_types tys enter (n # ns) found =
     (if n \<in> set found then traverse_types tys enter ns found
      else case im_get tys n of
        None \<Rightarrow> traverse_types tys enter ns found
      | Some ty \<Rightarrow>
          (case enter ty of
             None \<Rightarrow> traverse_types tys enter ns found
           | Some ms \<Rightarrow>
               traverse_types tys enter ns (traverse_types tys enter ms (found @ [n]))))"
  by pat_completeness auto

lemma traverse_types_mono_dom:
  "traverse_types_dom (tys, enter, ns, found) \<Longrightarrow>
   set found \<subseteq> set (traverse_types tys enter ns found)"
proof (induction rule: traverse_types.pinduct)
  case (2 tys enter n ns found)
  show ?case
  proof (cases "n \<in> set found \<or> Option.bind (map_of tys n) enter = None")
    case True
    then show ?thesis
      using 2 by (cases "map_of tys n") (auto simp: traverse_types.psimps)
  next
    case False
    then obtain ty ms where "n \<notin> set found" "map_of tys n = Some ty" "enter ty = Some ms"
      by (auto simp: bind_eq_None_conv)
    then show ?thesis
      using 2(1) 2(5) [of ty ms] 2(6) [of ty ms] by (auto simp: traverse_types.psimps)
  qed
qed (simp add: traverse_types.psimps)

definition pending_types :: "(string, meta_type) index_map \<Rightarrow> string list \<Rightarrow> string set" where
  "pending_types tys found = fst ` set tys - set found"

lemma pending_types_mono:
  "set v \<subseteq> set w \<Longrightarrow> card (pending_types tys w) \<le> card (pending_types tys v)"
  unfolding pending_types_def by (rule card_mono) auto

lemma pending_types_insert:
  "n \<notin> set v \<Longrightarrow> map_of tys n = Some ty \<Longrightarrow>
   card (pending_types tys (v @ [n])) < card (pending_types tys v)"
  unfolding pending_types_def
  using domI [of "map_of tys" n ty] by (intro psubset_card_mono) (auto simp: dom_map_of_conv_image_fst)

termination traverse_types
proof (relation "measures [\<lambda>(tys, enter, ns, found). card (pending_types tys found),
    \<lambda>(tys, enter, ns, found). length ns]", goal_cases)
  case (5 tys enter n ns found ty ms)
  then show ?case by (simp add: pending_types_insert)
next
  case (6 tys enter n ns found ty ms)
  from traverse_types_mono_dom [OF 6(4)]
  have "set found \<subseteq> set (traverse_types tys enter ms (found @ [n]))" by auto
  from pending_types_mono [OF this, of tys] show ?case by auto
qed auto

text \<open>The types a search may enter, and the graph it walks on.\<close>

definition entered ::
  "(string, meta_type) index_map \<Rightarrow> (meta_type \<Rightarrow> string list option) \<Rightarrow> string \<Rightarrow>
   string list option" where
  "entered tys enter n = Option.bind (map_of tys n) enter"

inductive traversed ::
  "(string, meta_type) index_map \<Rightarrow> (meta_type \<Rightarrow> string list option) \<Rightarrow> string set \<Rightarrow> string \<Rightarrow> bool"
  for tys enter roots where
  root: "n \<in> roots \<Longrightarrow> entered tys enter n \<noteq> None \<Longrightarrow> traversed tys enter roots n"
| mention: "traversed tys enter roots m \<Longrightarrow> entered tys enter m = Some ns \<Longrightarrow> n \<in> set ns \<Longrightarrow>
     entered tys enter n \<noteq> None \<Longrightarrow> traversed tys enter roots n"

definition mention_graph ::
  "(string, meta_type) index_map \<Rightarrow> (meta_type \<Rightarrow> string list option) \<Rightarrow>
   (string, string list) index_map" where
  "mention_graph tys enter =
     map (\<lambda>(n, ty). (n, case enter ty of
         None \<Rightarrow> []
       | Some ms \<Rightarrow> filter (\<lambda>m. entered tys enter m \<noteq> None) ms)) tys"

lemma succs_mention_graph:
  "succs (mention_graph tys enter) n =
     (case entered tys enter n of
        None \<Rightarrow> []
      | Some ms \<Rightarrow> filter (\<lambda>m. entered tys enter m \<noteq> None) ms)"
  by (simp add: succs_def mention_graph_def entered_def map_of_map split: option.splits bind_splits)

lemma visits_simps:
  "visits g [] v = v"
  "visits g (x # xs) v =
     (if x \<in> set v then visits g xs v else visits g xs (visits g (succs g x) (v @ [x])))"
proof -
  have "dfs g (\<lambda>_ u. u) ys st = (visits g ys (fst st), ())" for ys st
    by (cases st, cases "dfs g (\<lambda>_ u. u) ys st") (simp add: visits_def)
  then show "visits g (x # xs) v =
      (if x \<in> set v then visits g xs v else visits g xs (visits g (succs g x) (v @ [x])))"
    by (simp add: visits_def [of g "x # xs"])
qed (simp add: visits_def)

lemma traverse_types_visits:
  "traverse_types tys enter ns found =
     visits (mention_graph tys enter) (filter (\<lambda>n. entered tys enter n \<noteq> None) ns) found"
  by (induction tys enter ns found rule: traverse_types.induct)
     (auto simp: visits_simps succs_mention_graph entered_def split: option.splits)

lemma traverse_types_append:
  "traverse_types tys enter (ns @ ms) found =
     traverse_types tys enter ms (traverse_types tys enter ns found)"
  by (induction tys enter ns found arbitrary: ms rule: traverse_types.induct)
     (auto split: option.splits)

lemma reach_traversed:
  "x \<in> roots \<Longrightarrow> entered tys enter x \<noteq> None \<Longrightarrow>
   (x, y) \<in> (edges (mention_graph tys enter))\<^sup>* \<Longrightarrow> traversed tys enter roots y"
  by (rotate_tac 2, induction rule: rtrancl_induct)
     (auto simp: edges_def succs_mention_graph intro: traversed.intros dest!: sym [of "Some _"]
       split: option.splits)

lemma traversed_reach:
  "traversed tys enter roots y \<Longrightarrow>
   \<exists>x\<in>roots. entered tys enter x \<noteq> None \<and> (x, y) \<in> (edges (mention_graph tys enter))\<^sup>*"
proof (induction rule: traversed.induct)
  case (mention m ns n)
  then have "(m, n) \<in> edges (mention_graph tys enter)"
    by (simp add: edges_def succs_mention_graph)
  with mention.IH show ?case by (blast intro: rtrancl_into_rtrancl)
qed auto

text \<open>A set closed under what its members mention; every search keeps it closed.\<close>

definition search_closed ::
  "(string, meta_type) index_map \<Rightarrow> (meta_type \<Rightarrow> string list option) \<Rightarrow> string list \<Rightarrow> bool" where
  "search_closed tys enter found \<longleftrightarrow> closed_except (mention_graph tys enter) {} (set found)"

lemma search_closed_Nil [simp]: "search_closed tys enter []"
  by (simp add: search_closed_def)

lemma search_closed_traverse:
  "search_closed tys enter found \<Longrightarrow> search_closed tys enter (traverse_types tys enter ns found)"
  by (simp add: search_closed_def traverse_types_visits visits_closed)

lemma search_closedD:
  "search_closed tys enter found \<Longrightarrow> m \<in> set found \<Longrightarrow> entered tys enter m = Some ns \<Longrightarrow>
   n \<in> set ns \<Longrightarrow> entered tys enter n \<noteq> None \<Longrightarrow> n \<in> set found"
  by (fastforce simp: search_closed_def closed_except_def succs_mention_graph)

lemma set_traverse_types:
  "search_closed tys enter found \<Longrightarrow>
   set (traverse_types tys enter ns found) = set found \<union> {y. traversed tys enter (set ns) y}"
  using reach_traversed [of _ "set ns" tys enter] traversed_reach [of tys enter "set ns"]
  by (fastforce simp: traverse_types_visits search_closed_def set_visits)

subsection \<open>Removing unused types\<close>

definition input_value_mention :: "meta_input_value \<Rightarrow> string" where
  "input_value_mention v = concrete_typename (miv_ty v)"

definition field_mentions :: "meta_field \<Rightarrow> string list" where
  "field_mentions f =
     concrete_typename (mf_ty f) # map (\<lambda>(_, arg). input_value_mention arg) (mf_args f)"

fun type_mentions :: "meta_type \<Rightarrow> string list" where
  "type_mentions (MObject t) = concat (map (\<lambda>(_, f). field_mentions f) (ob_fields t))"
| "type_mentions (MInterface t) =
     concat (map (\<lambda>(_, f). field_mentions f) (it_fields t)) @ it_possible_types t"
| "type_mentions (MUnion t) = un_possible_types t"
| "type_mentions (MInputObject t) = map (\<lambda>(_, v). input_value_mention v) (io_input_fields t)"
| "type_mentions _ = []"

definition operation_roots :: "registry \<Rightarrow> string list" where
  "operation_roots reg =
     query_type reg # (case mutation_type reg of Some n \<Rightarrow> [n] | None \<Rightarrow> []) @
     (case subscription_type reg of Some n \<Rightarrow> [n] | None \<Rightarrow> [])"

fun has_keys :: "meta_type \<Rightarrow> bool" where
  "has_keys (MObject t) = (case ob_keys t of Some keys \<Rightarrow> keys \<noteq> [] | None \<Rightarrow> False)"
| "has_keys (MInterface t) = (case it_keys t of Some keys \<Rightarrow> keys \<noteq> [] | None \<Rightarrow> False)"
| "has_keys _ = False"

definition keyed_types :: "registry \<Rightarrow> string list" where
  "keyed_types reg = map mt_name (filter has_keys (map snd (types reg)))"

definition used_types :: "registry \<Rightarrow> string list" where
  "used_types reg =
     (let traverse = traverse_types (types reg) (\<lambda>ty. Some (type_mentions ty));
          args = concat (map (\<lambda>(_, d). map (\<lambda>(_, arg). input_value_mention arg) (md_args d))
                   (directives reg));
          used = traverse args [];
          used = traverse (operation_roots reg) used
      in traverse (keyed_types reg) used)"

definition remove_unused_types :: "registry \<Rightarrow> registry" where
  "remove_unused_types reg =
     (let used = used_types reg;
          unused = filter (\<lambda>n. \<not> is_system_type n \<and> n \<notin> set used) (map (\<lambda>(_, ty). mt_name ty) (types reg))
      in reg\<lparr>types := filter (\<lambda>(n, _). n \<notin> set unused) (types reg)\<rparr>)"

text \<open>What a schema uses: the types of directive arguments, the roots of the operations, the
  entities, and whatever a used type mentions.\<close>

inductive type_used :: "registry \<Rightarrow> string \<Rightarrow> bool" for reg where
  directive_arg: "(dn, d) \<in> set (directives reg) \<Longrightarrow> (an, arg) \<in> set (md_args d) \<Longrightarrow>
     concrete_typename (miv_ty arg) = n \<Longrightarrow> map_of (types reg) n = Some ty \<Longrightarrow> type_used reg n"
| operation: "n = query_type reg \<or> mutation_type reg = Some n \<or> subscription_type reg = Some n \<Longrightarrow>
     map_of (types reg) n = Some ty \<Longrightarrow> type_used reg n"
| entity: "map_of (types reg) n = Some ty \<Longrightarrow> has_keys ty \<Longrightarrow> type_used reg n"
| mentioned: "type_used reg m \<Longrightarrow> map_of (types reg) m = Some ty \<Longrightarrow> n \<in> set (type_mentions ty) \<Longrightarrow>
     map_of (types reg) n = Some ty' \<Longrightarrow> type_used reg n"

definition used_roots :: "registry \<Rightarrow> string list" where
  "used_roots reg =
     concat (map (\<lambda>(_, d). map (\<lambda>(_, arg). input_value_mention arg) (md_args d)) (directives reg)) @
     operation_roots reg @ keyed_types reg"

lemma set_operation_roots:
  "n \<in> set (operation_roots reg) \<longleftrightarrow>
   n = query_type reg \<or> mutation_type reg = Some n \<or> subscription_type reg = Some n"
  by (auto simp: operation_roots_def split: option.splits)

lemma set_keyed_types:
  "wf_registry reg \<Longrightarrow> n \<in> set (keyed_types reg) \<longleftrightarrow> (\<exists>ty. map_of (types reg) n = Some ty \<and> has_keys ty)"
  by (force simp: keyed_types_def wf_registry_def im_ok_def list_all_iff
      intro: map_of_is_SomeI dest: map_of_SomeD)

lemma set_argument_mentions:
  "n \<in> set (concat (map (\<lambda>(_, d). map (\<lambda>(_, arg). input_value_mention arg) (md_args d)) ds)) \<longleftrightarrow>
   (\<exists>dn d an arg. (dn, d) \<in> set ds \<and> (an, arg) \<in> set (md_args d) \<and>
      concrete_typename (miv_ty arg) = n)"
proof (induction ds)
  case (Cons x ds)
  obtain dn d where x: "x = (dn, d)" by fastforce
  have "n \<in> set (map (\<lambda>(_, arg). input_value_mention arg) (md_args d)) \<longleftrightarrow>
      (\<exists>an arg. (an, arg) \<in> set (md_args d) \<and> concrete_typename (miv_ty arg) = n)"
    by (force simp: input_value_mention_def)
  then show ?case
    unfolding x list.map concat.simps set_append Un_iff prod.case Cons.IH set_simps insert_iff
    by blast
qed simp

lemma set_used_roots:
  "wf_registry reg \<Longrightarrow> n \<in> set (used_roots reg) \<longleftrightarrow>
     (\<exists>dn d an arg. (dn, d) \<in> set (directives reg) \<and> (an, arg) \<in> set (md_args d) \<and>
        concrete_typename (miv_ty arg) = n) \<or>
     n = query_type reg \<or> mutation_type reg = Some n \<or> subscription_type reg = Some n \<or>
     (\<exists>ty. map_of (types reg) n = Some ty \<and> has_keys ty)"
  by (simp only: used_roots_def set_append Un_iff set_operation_roots set_keyed_types
      set_argument_mentions disj_assoc)

lemma traversed_type_used:
  assumes "wf_registry reg"
  shows "traversed (types reg) (\<lambda>ty. Some (type_mentions ty)) (set (used_roots reg)) n \<longleftrightarrow> type_used reg n"
    (is "?T n \<longleftrightarrow> _")
proof
  show "?T n \<Longrightarrow> type_used reg n"
  proof (induction rule: traversed.induct)
    case (root n)
    then obtain ty where "map_of (types reg) n = Some ty"
      by (cases "map_of (types reg) n") (auto simp: entered_def)
    with root(1) show ?case
      unfolding set_used_roots [OF assms] by (blast intro: type_used.intros)
  next
    case (mention m ns n)
    then show ?case by (auto simp: entered_def bind_eq_Some_conv intro: type_used.mentioned)
  qed
  show "type_used reg n \<Longrightarrow> ?T n"
  proof (induction rule: type_used.induct)
    case (mentioned m ty n ty')
    then show ?case by (auto simp: entered_def intro: traversed.mention)
  next
    case (directive_arg dn d an arg n ty)
    then have "n \<in> set (used_roots reg)" unfolding set_used_roots [OF assms] by blast
    then show ?case by (rule traversed.root) (simp add: entered_def directive_arg)
  qed (auto simp: entered_def set_used_roots [OF assms] intro!: traversed.root)
qed

lemma set_used_types: "wf_registry reg \<Longrightarrow> set (used_types reg) = {n. type_used reg n}"
  unfolding used_types_def Let_def traverse_types_append [symmetric]
  by (simp add: set_traverse_types traversed_type_used [symmetric] used_roots_def)

lemma map_of_filter_key: "map_of (filter (\<lambda>(k, _). P k) xs) k = (if P k then map_of xs k else None)"
  by (induction xs) auto

lemma remove_unused_types_get:
  assumes "wf_registry reg"
  shows "map_of (types (remove_unused_types reg)) n =
    (if is_system_type n \<or> type_used reg n then map_of (types reg) n else None)"
proof -
  have eq: "types (remove_unused_types reg) =
      filter (\<lambda>(n, _). is_system_type n \<or> type_used reg n) (types reg)"
    using assms by (auto simp: remove_unused_types_def Let_def set_used_types wf_registry_def list_all_iff
        intro!: filter_cong)
  show ?thesis
    unfolding eq by (rule map_of_filter_key)
qed

subsection \<open>The types a request may see\<close>

definition visible_arg_mentions ::
  "request_context \<Rightarrow> (string, meta_input_value) index_map \<Rightarrow> string list" where
  "visible_arg_mentions ctx args =
     concat (map (\<lambda>(_, v). if \<not> is_visible ctx (miv_visible v) then [] else [input_value_mention v]) args)"

definition visible_field_mentions :: "request_context \<Rightarrow> meta_field \<Rightarrow> string list" where
  "visible_field_mentions ctx f =
     (if \<not> is_visible ctx (mf_visible f) then []
      else concrete_typename (mf_ty f) # visible_arg_mentions ctx (mf_args f))"

fun visible_type_mentions :: "request_context \<Rightarrow> meta_type \<Rightarrow> string list" where
  "visible_type_mentions ctx (MObject t) =
     concat (map (\<lambda>(_, f). visible_field_mentions ctx f) (ob_fields t))"
| "visible_type_mentions ctx (MInterface t) =
     concat (map (\<lambda>(_, f). visible_field_mentions ctx f) (it_fields t)) @ it_possible_types t"
| "visible_type_mentions ctx (MUnion t) = un_possible_types t"
| "visible_type_mentions ctx (MInputObject t) = visible_arg_mentions ctx (io_input_fields t)"
| "visible_type_mentions ctx _ = []"

definition enter_visible :: "request_context \<Rightarrow> meta_type \<Rightarrow> string list option" where
  "enter_visible ctx ty =
     (if \<not> mt_is_visible ty ctx then None else Some (visible_type_mentions ctx ty))"

definition visible_directive_args :: "request_context \<Rightarrow> registry \<Rightarrow> string list" where
  "visible_directive_args ctx reg =
     concat (map (\<lambda>(_, d). if is_visible ctx (md_visible d) then visible_arg_mentions ctx (md_args d) else [])
       (directives reg))"

text \<open>One iteration of the pass over the interfaces: an interface that is not yet found is traversed
  when one of its possible types is found.\<close>

definition reveal_interface ::
  "request_context \<Rightarrow> (string, meta_type) index_map \<Rightarrow> meta_type \<Rightarrow> string list \<Rightarrow> string list" where
  "reveal_interface ctx tys ty found =
     (case ty of
        MInterface t \<Rightarrow>
          if mt_is_visible ty ctx \<and> mt_name ty \<notin> set found \<and>
             list_ex (\<lambda>type_name. type_name \<in> set found) (it_possible_types t)
          then traverse_types tys (enter_visible ctx) [mt_name ty] found
          else found
      | _ \<Rightarrow> found)"

definition linked_types :: "request_context \<Rightarrow> registry \<Rightarrow> string list" where
  "linked_types ctx reg =
     (let traverse = traverse_types (types reg) (enter_visible ctx);
          found = traverse (visible_directive_args ctx reg) [];
          found = traverse (operation_roots reg) found
      in traverse (keyed_types reg) found)"

definition find_visible_types :: "registry \<Rightarrow> request_context \<Rightarrow> string list" where
  "find_visible_types reg ctx =
     (let found = fold (\<lambda>(_, ty). reveal_interface ctx (types reg) ty) (types reg) (linked_types ctx reg)
      in filter (\<lambda>n. is_system_type n \<or> n \<in> set found) (map (\<lambda>(_, ty). mt_name ty) (types reg)))"

definition visible_roots :: "request_context \<Rightarrow> registry \<Rightarrow> string list" where
  "visible_roots ctx reg = visible_directive_args ctx reg @ operation_roots reg @ keyed_types reg"

text \<open>The types a request may be shown: visible types that are a root, that a visible part of a
  shown type mentions, or that are an interface of a shown type.\<close>

inductive type_shown :: "request_context \<Rightarrow> registry \<Rightarrow> string \<Rightarrow> bool" for ctx reg where
  root: "n \<in> set (visible_roots ctx reg) \<Longrightarrow> map_of (types reg) n = Some ty \<Longrightarrow>
     mt_is_visible ty ctx \<Longrightarrow> type_shown ctx reg n"
| mentioned: "type_shown ctx reg m \<Longrightarrow> map_of (types reg) m = Some ty \<Longrightarrow>
     n \<in> set (visible_type_mentions ctx ty) \<Longrightarrow> map_of (types reg) n = Some ty' \<Longrightarrow>
     mt_is_visible ty' ctx \<Longrightarrow> type_shown ctx reg n"
| implemented: "type_shown ctx reg m \<Longrightarrow> map_of (types reg) n = Some (MInterface t) \<Longrightarrow>
     m \<in> set (it_possible_types t) \<Longrightarrow> mt_is_visible (MInterface t) ctx \<Longrightarrow> type_shown ctx reg n"

lemma shown_visible:
  assumes "type_shown ctx reg n"
  obtains ty where "map_of (types reg) n = Some ty" "mt_is_visible ty ctx"
  using assms by cases auto

lemma entered_visible:
  "entered tys (enter_visible ctx) n = Some ns \<longleftrightarrow>
   (\<exists>ty. map_of tys n = Some ty \<and> mt_is_visible ty ctx \<and> ns = visible_type_mentions ctx ty)"
  by (auto simp: entered_def enter_visible_def bind_eq_Some_conv)

lemma traversed_shown:
  "traversed (types reg) (enter_visible ctx) R n \<Longrightarrow>
   (\<And>r. r \<in> R \<Longrightarrow> entered (types reg) (enter_visible ctx) r \<noteq> None \<Longrightarrow> type_shown ctx reg r) \<Longrightarrow>
   type_shown ctx reg n"
proof (induction rule: traversed.induct)
  case (mention m ns n)
  then show ?case by (auto simp: entered_visible intro: type_shown.mentioned)
qed simp

lemma linked_types_traverse:
  "linked_types ctx reg = traverse_types (types reg) (enter_visible ctx) (visible_roots ctx reg) []"
  by (simp add: linked_types_def visible_roots_def Let_def traverse_types_append)

lemma set_linked_types:
  "set (linked_types ctx reg) = {n. traversed (types reg) (enter_visible ctx) (set (visible_roots ctx reg)) n}"
  by (simp add: linked_types_traverse set_traverse_types)

text \<open>What every step of the pass over the interfaces keeps.\<close>

definition visible_inv :: "request_context \<Rightarrow> registry \<Rightarrow> string list \<Rightarrow> bool" where
  "visible_inv ctx reg found \<longleftrightarrow> search_closed (types reg) (enter_visible ctx) found \<and>
     (\<forall>n\<in>set found. type_shown ctx reg n) \<and> set (linked_types ctx reg) \<subseteq> set found"

lemma visible_inv_linked: "visible_inv ctx reg (linked_types ctx reg)"
proof -
  have "type_shown ctx reg n" if "n \<in> set (linked_types ctx reg)" for n
    using that unfolding set_linked_types mem_Collect_eq
    by (rule traversed_shown) (auto simp: entered_visible intro: type_shown.root)
  moreover have "search_closed (types reg) (enter_visible ctx) (linked_types ctx reg)"
    unfolding linked_types_traverse by (rule search_closed_traverse) simp
  ultimately show ?thesis by (simp add: visible_inv_def)
qed

lemma visible_inv_reveal:
  assumes "wf_registry reg" "(n, ty) \<in> set (types reg)" "visible_inv ctx reg found"
  shows "visible_inv ctx reg (reveal_interface ctx (types reg) ty found)"
proof (cases "\<exists>t. ty = MInterface t \<and> mt_is_visible ty ctx \<and> mt_name ty \<notin> set found \<and>
    list_ex (\<lambda>type_name. type_name \<in> set found) (it_possible_types t)")
  case True
  then obtain t m where t: "ty = MInterface t" "mt_is_visible ty ctx" "mt_name ty \<notin> set found"
    "m \<in> set found" "m \<in> set (it_possible_types t)"
    by (auto simp: list_ex_iff)
  have "map_of (types reg) (mt_name ty) = Some ty"
    using assms(1,2) by (auto simp: wf_registry_def im_ok_def list_all_iff intro: map_of_is_SomeI)
  moreover have "type_shown ctx reg m" using t(4) assms(3) by (simp add: visible_inv_def)
  ultimately have "type_shown ctx reg (mt_name ty)"
    using t(2,5) unfolding t(1) by (blast intro: type_shown.implemented)
  then have shown: "type_shown ctx reg n"
    if "traversed (types reg) (enter_visible ctx) (set [mt_name ty]) n" for n
    using traversed_shown [OF that] by simp
  have "reveal_interface ctx (types reg) ty found =
      traverse_types (types reg) (enter_visible ctx) [mt_name ty] found"
    using True by (auto simp: reveal_interface_def simp del: traverse_types.simps)
  then show ?thesis
    using assms(3) shown
    by (auto simp: visible_inv_def set_traverse_types search_closed_traverse simp del: traverse_types.simps)
next
  case False
  then have "reveal_interface ctx (types reg) ty found = found"
    by (cases ty) (auto simp: reveal_interface_def)
  then show ?thesis using assms(3) by simp
qed

lemma visible_inv_fold:
  "wf_registry reg \<Longrightarrow> set tys \<subseteq> set (types reg) \<Longrightarrow> visible_inv ctx reg found \<Longrightarrow>
   visible_inv ctx reg (fold (\<lambda>(_, ty). reveal_interface ctx (types reg) ty) tys found)"
  by (induction tys arbitrary: found) (auto intro: visible_inv_reveal)

lemma find_visible_types_obtain:
  assumes "wf_registry reg"
  obtains found where "visible_inv ctx reg found"
    "\<And>n. n \<in> set (find_visible_types reg ctx) \<longleftrightarrow>
      map_of (types reg) n \<noteq> None \<and> (is_system_type n \<or> n \<in> set found)"
proof
  let ?found = "fold (\<lambda>(_, ty). reveal_interface ctx (types reg) ty) (types reg) (linked_types ctx reg)"
  show "visible_inv ctx reg ?found"
    using visible_inv_fold [OF assms order_refl visible_inv_linked] .
  have "n \<in> set (map (\<lambda>(_, ty). mt_name ty) (types reg)) \<longleftrightarrow> map_of (types reg) n \<noteq> None" for n
    using assms by (force simp: wf_registry_def list_all_iff map_of_eq_None_iff)
  then show "n \<in> set (find_visible_types reg ctx) \<longleftrightarrow>
      map_of (types reg) n \<noteq> None \<and> (is_system_type n \<or> n \<in> set ?found)" for n
    by (auto simp: find_visible_types_def Let_def)
qed

lemma find_visible_types_sound:
  "wf_registry reg \<Longrightarrow> n \<in> set (find_visible_types reg ctx) \<Longrightarrow> is_system_type n \<or> type_shown ctx reg n"
  by (rule find_visible_types_obtain [of reg ctx]) (auto simp: visible_inv_def)

lemma find_visible_types_linked:
  assumes "wf_registry reg" "traversed (types reg) (enter_visible ctx) (set (visible_roots ctx reg)) n"
  shows "n \<in> set (find_visible_types reg ctx)"
proof -
  have "map_of (types reg) n \<noteq> None"
    using assms(2) by (cases rule: traversed.cases) (auto simp: entered_visible)
  moreover obtain found where "visible_inv ctx reg found"
    "\<And>n. n \<in> set (find_visible_types reg ctx) \<longleftrightarrow>
      map_of (types reg) n \<noteq> None \<and> (is_system_type n \<or> n \<in> set found)"
    using find_visible_types_obtain [OF assms(1)] by blast
  moreover from this(1) have "n \<in> set found"
    using assms(2) by (auto simp: visible_inv_def set_linked_types)
  ultimately show ?thesis by simp
qed

lemma find_visible_types_closed:
  assumes "wf_registry reg" "m \<in> set (find_visible_types reg ctx)" "\<not> is_system_type m"
    "map_of (types reg) m = Some ty" "n \<in> set (visible_type_mentions ctx ty)"
    "map_of (types reg) n = Some ty'" "mt_is_visible ty' ctx"
  shows "n \<in> set (find_visible_types reg ctx)"
proof -
  obtain found where f: "visible_inv ctx reg found"
    "\<And>n. n \<in> set (find_visible_types reg ctx) \<longleftrightarrow>
      map_of (types reg) n \<noteq> None \<and> (is_system_type n \<or> n \<in> set found)"
    using find_visible_types_obtain [OF assms(1)] by blast
  with assms have m: "m \<in> set found" by simp
  then have "type_shown ctx reg m" using f(1) by (simp add: visible_inv_def)
  then obtain ty'' where "map_of (types reg) m = Some ty''" "mt_is_visible ty'' ctx"
    by (rule shown_visible)
  with assms(4) have "entered (types reg) (enter_visible ctx) m = Some (visible_type_mentions ctx ty)"
    by (simp add: entered_visible)
  moreover have "entered (types reg) (enter_visible ctx) n \<noteq> None"
    using assms(6,7) by (auto simp: entered_visible)
  ultimately have "n \<in> set found"
    using f(1) m assms(5) unfolding visible_inv_def by (blast intro: search_closedD)
  then show ?thesis using f(2) assms(6) by simp
qed

end
