(* ===== verification/Introspection.thy ===== *)
theory Introspection
  imports Registry_Usage "HOL-Library.Char_ord" "HOL-Library.List_Lexorder"
begin

text \<open>
  Introspection: the objects of \<open>src/model/\<close> and the fields \<open>__schema\<close> and \<open>__type\<close> of
  \<open>src/types/query_root.rs\<close>.

  \<open>type_detail\<close> is a \<open>__Type\<close>; its registry and its visible types are arguments of the methods. \<open>type_ref\<close>
  (\<open>__Type::new\<close>) panics on a name that is not registered: \<open>None\<close>. The execution of a selection on
  these objects calls their methods in the order the query asks for; \<open>introspected\<close> collects every \<open>__Type\<close> that
  some query can reach.

  Lemmas: if what the visible parts of a registry mention is registered and visible, no query makes introspection
  panic, and every type it reaches is one of \<open>find_visible_types\<close>.
\<close>

datatype type_detail = TDNamed meta_type | TDNonNull string | TDList string

datatype meta_kind =
    KScalar | KObject | KInterface | KUnion | KEnum | KInputObject | KList | KNonNull

definition type_ref_detail :: "registry \<Rightarrow> string \<Rightarrow> type_detail option" where
  "type_ref_detail reg type_name =
     (case create type_name of
        TNonNull ty \<Rightarrow> Some (TDNonNull ty)
      | TList ty \<Rightarrow> Some (TDList ty)
      | TNamed ty \<Rightarrow> map_option TDNamed (im_get (types reg) ty))"

fun detail_kind :: "type_detail \<Rightarrow> meta_kind" where
  "detail_kind (TDNamed ty) =
     (case ty of
        MScalar _ \<Rightarrow> KScalar
      | MObject _ \<Rightarrow> KObject
      | MInterface _ \<Rightarrow> KInterface
      | MUnion _ \<Rightarrow> KUnion
      | MEnum _ \<Rightarrow> KEnum
      | MInputObject _ \<Rightarrow> KInputObject)"
| "detail_kind (TDNonNull _) = KNonNull"
| "detail_kind (TDList _) = KList"

fun detail_name :: "type_detail \<Rightarrow> string option" where
  "detail_name (TDNamed ty) = Some (mt_name ty)"
| "detail_name _ = None"

fun mt_description :: "meta_type \<Rightarrow> string option" where
  "mt_description (MScalar t) = sc_description t"
| "mt_description (MObject t) = ob_description t"
| "mt_description (MInterface t) = it_description t"
| "mt_description (MUnion t) = un_description t"
| "mt_description (MEnum t) = en_description t"
| "mt_description (MInputObject t) = io_description t"

fun detail_description :: "type_detail \<Rightarrow> string option" where
  "detail_description (TDNamed ty) = mt_description ty"
| "detail_description _ = None"

fun is_deprecated :: "deprecation \<Rightarrow> bool" where
  "is_deprecated (Deprecated _) = True"
| "is_deprecated NoDeprecated = False"

fun deprecation_reason :: "deprecation \<Rightarrow> string option" where
  "deprecation_reason (Deprecated reason) = reason"
| "deprecation_reason NoDeprecated = None"

fun detail_fields :: "request_context \<Rightarrow> bool \<Rightarrow> type_detail \<Rightarrow> meta_field list option" where
  "detail_fields ctx include_deprecated (TDNamed ty) =
     map_option (\<lambda>fs.
         filter (\<lambda>f. (include_deprecated \<or> \<not> is_deprecated (mf_deprecation f)) \<and>
             \<not> starts_with (mf_name f) ''__'')
           (filter (\<lambda>f. is_visible ctx (mf_visible f)) (map snd fs)))
       (mt_fields ty)"
| "detail_fields ctx include_deprecated _ = None"

definition visible_refs :: "registry \<Rightarrow> string list \<Rightarrow> string list \<Rightarrow> type_detail option list" where
  "visible_refs reg visible_types names = map (type_ref_detail reg) (filter (\<lambda>ty. ty \<in> set visible_types) names)"

fun detail_interfaces :: "registry \<Rightarrow> string list \<Rightarrow> type_detail \<Rightarrow> type_detail option list option" where
  "detail_interfaces reg visible_types (TDNamed (MObject t)) =
     Some (visible_refs reg visible_types
       (case im_get (implements reg) (ob_name t) of Some names \<Rightarrow> names | None \<Rightarrow> []))"
| "detail_interfaces reg visible_types _ = None"

fun detail_possible_types :: "registry \<Rightarrow> string list \<Rightarrow> type_detail \<Rightarrow> type_detail option list option" where
  "detail_possible_types reg visible_types (TDNamed (MInterface t)) =
     Some (visible_refs reg visible_types (it_possible_types t))"
| "detail_possible_types reg visible_types (TDNamed (MUnion t)) =
     Some (visible_refs reg visible_types (un_possible_types t))"
| "detail_possible_types reg visible_types _ = None"

fun detail_enum_values :: "request_context \<Rightarrow> bool \<Rightarrow> type_detail \<Rightarrow> meta_enum_value list option" where
  "detail_enum_values ctx include_deprecated (TDNamed (MEnum t)) =
     Some (filter (\<lambda>v. include_deprecated \<or> \<not> is_deprecated (mev_deprecation v))
       (filter (\<lambda>v. is_visible ctx (mev_visible v)) (map snd (en_enum_values t))))"
| "detail_enum_values ctx include_deprecated _ = None"

definition shown_inputs ::
  "request_context \<Rightarrow> bool \<Rightarrow> (string, meta_input_value) index_map \<Rightarrow> meta_input_value list" where
  "shown_inputs ctx include_deprecated m =
     filter (\<lambda>v. is_visible ctx (miv_visible v))
       (filter (\<lambda>v. include_deprecated \<or> \<not> is_deprecated (miv_deprecation v)) (map snd m))"

fun detail_input_fields :: "request_context \<Rightarrow> bool \<Rightarrow> type_detail \<Rightarrow> meta_input_value list option" where
  "detail_input_fields ctx include_deprecated (TDNamed (MInputObject t)) =
     Some (shown_inputs ctx include_deprecated (io_input_fields t))"
| "detail_input_fields ctx include_deprecated _ = None"

fun detail_of_type :: "registry \<Rightarrow> type_detail \<Rightarrow> type_detail option option" where
  "detail_of_type reg (TDList ty) = Some (type_ref_detail reg ty)"
| "detail_of_type reg (TDNonNull ty) = Some (type_ref_detail reg ty)"
| "detail_of_type reg (TDNamed _) = None"

fun detail_specified_by_url :: "type_detail \<Rightarrow> string option" where
  "detail_specified_by_url (TDNamed (MScalar t)) = sc_specified_by_url t"
| "detail_specified_by_url _ = None"

fun detail_is_one_of :: "type_detail \<Rightarrow> bool option" where
  "detail_is_one_of (TDNamed (MInputObject t)) = Some (io_oneof t)"
| "detail_is_one_of _ = None"

definition field_args_shown :: "request_context \<Rightarrow> bool \<Rightarrow> meta_field \<Rightarrow> meta_input_value list" where
  "field_args_shown ctx include_deprecated f = shown_inputs ctx include_deprecated (mf_args f)"

text \<open>The arguments of a directive are not filtered by visibility, nor are the directives.\<close>

definition directive_args_shown :: "bool \<Rightarrow> meta_directive \<Rightarrow> meta_input_value list" where
  "directive_args_shown include_deprecated d =
     filter (\<lambda>v. include_deprecated \<or> \<not> is_deprecated (miv_deprecation v)) (map snd (md_args d))"

subsection \<open>The schema\<close>

definition schema_types :: "registry \<Rightarrow> string list \<Rightarrow> type_detail list" where
  "schema_types reg visible_types =
     map TDNamed (sort_key mt_name (filter (\<lambda>ty. mt_name ty \<in> set visible_types) (map snd (types reg))))"

text \<open>\<open>types[&name]\<close> panics when the name is not registered.\<close>

definition schema_query_type :: "registry \<Rightarrow> type_detail option" where
  "schema_query_type reg = map_option TDNamed (im_get (types reg) (query_type reg))"

definition schema_root_type :: "registry \<Rightarrow> string list \<Rightarrow> string option \<Rightarrow> type_detail option option" where
  "schema_root_type reg visible_types n =
     Option.bind n (\<lambda>n.
       if n \<in> set visible_types then Some (map_option TDNamed (im_get (types reg) n)) else None)"

definition schema_directives :: "registry \<Rightarrow> meta_directive list" where
  "schema_directives reg = sort_key md_name (map snd (directives reg))"

text \<open>The field \<open>__type(name:)\<close>.\<close>

definition type_by_name :: "registry \<Rightarrow> string list \<Rightarrow> string \<Rightarrow> type_detail option" where
  "type_by_name reg visible_types type_name =
     (case im_get (types reg) type_name of
        Some ty \<Rightarrow> if type_name \<in> set visible_types then Some (TDNamed ty) else None
      | None \<Rightarrow> None)"

text \<open>\<open>QueryRoot::resolve_field\<close>: what answers a field of the query root. Both the schema and the request
  set an introspection mode.\<close>

datatype root_field =
    SchemaObject "string list" | TypeObject "string list" | NoRootField | EntitiesField | ServiceSdl | InnerField

definition introspection_on :: "introspection_mode \<Rightarrow> bool" where
  "introspection_on m \<longleftrightarrow> m = IntrospectionEnabled \<or> m = IntrospectionOnly"

definition query_root_field ::
  "registry \<Rightarrow> introspection_mode \<Rightarrow> request_context \<Rightarrow> string \<Rightarrow> root_field" where
  "query_root_field reg mode ctx n =
     (let on = introspection_on (introspection_mode reg) \<and> introspection_on mode in
      if on \<and> n = ''__schema'' then SchemaObject (find_visible_types reg ctx)
      else if on \<and> n = ''__type'' then TypeObject (find_visible_types reg ctx)
      else if introspection_mode reg = IntrospectionOnly \<or> mode = IntrospectionOnly then NoRootField
      else if enable_federation reg \<or> has_entities reg then
        (if n = ''_entities'' then EntitiesField
         else if n = ''_service'' then ServiceSdl
         else InnerField)
      else InnerField)"

lemma introspection_on_simps [simp]:
  "introspection_on IntrospectionEnabled" "introspection_on IntrospectionOnly"
  "\<not> introspection_on IntrospectionDisabled"
  by (simp_all add: introspection_on_def)

lemma query_root_field_disabled:
  "introspection_mode reg = IntrospectionDisabled \<or> mode = IntrospectionDisabled \<Longrightarrow>
   query_root_field reg mode ctx n \<noteq> SchemaObject vis \<and> query_root_field reg mode ctx n \<noteq> TypeObject vis"
  unfolding query_root_field_def Let_def by (elim disjE; simp split: if_split)

lemma query_root_field_only:
  "introspection_mode reg = IntrospectionOnly \<or> mode = IntrospectionOnly \<Longrightarrow>
   query_root_field reg mode ctx n \<notin> {EntitiesField, ServiceSdl, InnerField}"
  unfolding query_root_field_def Let_def by (elim disjE; simp split: if_split)

lemma query_root_field_visible:
  "query_root_field reg mode ctx n = SchemaObject vis \<or> query_root_field reg mode ctx n = TypeObject vis \<Longrightarrow>
   vis = find_visible_types reg ctx"
  unfolding query_root_field_def Let_def
  by (elim disjE; simp only: root_field.simps root_field.distinct split: if_split_asm)

subsection \<open>What a query can reach\<close>

text \<open>\<open>introspected .. None\<close>: some query panics.\<close>

inductive introspected ::
  "request_context \<Rightarrow> registry \<Rightarrow> string list \<Rightarrow> type_detail option \<Rightarrow> bool" for ctx reg vis where
  schema_types: "d \<in> set (schema_types reg vis) \<Longrightarrow> introspected ctx reg vis (Some d)"
| query: "introspected ctx reg vis (schema_query_type reg)"
| mutation: "schema_root_type reg vis (mutation_type reg) = Some d \<Longrightarrow> introspected ctx reg vis d"
| subscription: "schema_root_type reg vis (subscription_type reg) = Some d \<Longrightarrow> introspected ctx reg vis d"
| by_name: "type_by_name reg vis n = Some d \<Longrightarrow> introspected ctx reg vis (Some d)"
| directive_arg: "dir \<in> set (schema_directives reg) \<Longrightarrow> v \<in> set (directive_args_shown b dir) \<Longrightarrow>
     introspected ctx reg vis (type_ref_detail reg (miv_ty v))"
| field: "introspected ctx reg vis (Some d) \<Longrightarrow> detail_fields ctx b d = Some fs \<Longrightarrow> f \<in> set fs \<Longrightarrow>
     introspected ctx reg vis (type_ref_detail reg (mf_ty f))"
| field_arg: "introspected ctx reg vis (Some d) \<Longrightarrow> detail_fields ctx b d = Some fs \<Longrightarrow> f \<in> set fs \<Longrightarrow>
     v \<in> set (field_args_shown ctx b' f) \<Longrightarrow> introspected ctx reg vis (type_ref_detail reg (miv_ty v))"
| input_field: "introspected ctx reg vis (Some d) \<Longrightarrow> detail_input_fields ctx b d = Some vs \<Longrightarrow> v \<in> set vs \<Longrightarrow>
     introspected ctx reg vis (type_ref_detail reg (miv_ty v))"
| interface: "introspected ctx reg vis (Some d) \<Longrightarrow> detail_interfaces reg vis d = Some ds \<Longrightarrow> d' \<in> set ds \<Longrightarrow>
     introspected ctx reg vis d'"
| possible: "introspected ctx reg vis (Some d) \<Longrightarrow> detail_possible_types reg vis d = Some ds \<Longrightarrow> d' \<in> set ds \<Longrightarrow>
     introspected ctx reg vis d'"
| of_type: "introspected ctx reg vis (Some d) \<Longrightarrow> detail_of_type reg d = Some d' \<Longrightarrow> introspected ctx reg vis d'"

text \<open>The registered type that a \<open>__Type\<close> is, or wraps.\<close>

fun detail_base :: "type_detail \<Rightarrow> string" where
  "detail_base (TDNamed ty) = mt_name ty"
| "detail_base (TDNonNull ty) = concrete_typename ty"
| "detail_base (TDList ty) = concrete_typename ty"

definition detail_ok :: "registry \<Rightarrow> string list \<Rightarrow> type_detail \<Rightarrow> bool" where
  "detail_ok reg vis d \<longleftrightarrow> detail_base d \<in> set vis \<and>
     (case d of TDNamed ty \<Rightarrow> map_of (types reg) (mt_name ty) = Some ty | _ \<Rightarrow> True)"

lemma type_ref_detail_ok:
  assumes "wf_registry reg" "\<And>n. n \<in> set vis \<Longrightarrow> map_of (types reg) n \<noteq> None" "concrete_typename s \<in> set vis"
  shows "\<exists>d. type_ref_detail reg s = Some d \<and> detail_ok reg vis d"
  using assms(2) [OF assms(3)] assms(3) wf_registry_mt_name [OF assms(1)]
  by (cases "create s")
     (auto simp: type_ref_detail_def detail_ok_def concrete_typename.simps [of s])

text \<open>What the visible fields, arguments and input fields of a type refer to. \<open>possibleTypes\<close> and
  \<open>interfaces\<close> are filtered by the methods themselves.\<close>

fun detail_mentions :: "request_context \<Rightarrow> meta_type \<Rightarrow> string list" where
  "detail_mentions ctx (MInterface t) = concat (map (\<lambda>(_, f). visible_field_mentions ctx f) (it_fields t))"
| "detail_mentions ctx (MUnion t) = []"
| "detail_mentions ctx ty = visible_type_mentions ctx ty"

definition presentable :: "request_context \<Rightarrow> registry \<Rightarrow> string \<Rightarrow> bool" where
  "presentable ctx reg n \<longleftrightarrow>
     (case map_of (types reg) n of Some ty \<Rightarrow> is_system_type n \<or> mt_is_visible ty ctx | None \<Rightarrow> False)"

text \<open>Type names have no list or non-null modifier; the visible parts of the visible types refer to registered and visible types only, and system types to
  system types. As the code filters neither the directives nor their arguments, all of them must be visible.\<close>

definition introspectable :: "request_context \<Rightarrow> registry \<Rightarrow> bool" where
  "introspectable ctx reg \<longleftrightarrow>
     list_all (\<lambda>(n, ty). concrete_typename n = n) (types reg) \<and>
     list_all (\<lambda>(n, ty). presentable ctx reg n \<longrightarrow>
       list_all (\<lambda>m. presentable ctx reg m \<and> (is_system_type n \<longrightarrow> is_system_type m))
         (detail_mentions ctx ty)) (types reg) \<and>
     presentable ctx reg (query_type reg) \<and>
     list_all (\<lambda>(_, d). is_visible ctx (md_visible d) \<and>
       list_all (\<lambda>(_, v). is_visible ctx (miv_visible v) \<and>
         presentable ctx reg (concrete_typename (miv_ty v))) (md_args d)) (directives reg)"

lemma detail_mentions_visible: "n \<in> set (detail_mentions ctx ty) \<Longrightarrow> n \<in> set (visible_type_mentions ctx ty)"
  by (cases ty) auto

lemma arg_mentionsI:
  "v \<in> set (shown_inputs ctx b m) \<Longrightarrow> concrete_typename (miv_ty v) \<in> set (visible_arg_mentions ctx m)"
  by (force simp: shown_inputs_def visible_arg_mentions_def input_value_mention_def)

lemma field_mentionsI:
  assumes "detail_fields ctx b (TDNamed ty) = Some fs" "f \<in> set fs"
    "n = concrete_typename (mf_ty f) \<or> n \<in> set (visible_arg_mentions ctx (mf_args f))"
  shows "n \<in> set (detail_mentions ctx ty)"
proof -
  have *: "n \<in> set (concat (map (\<lambda>(_, f). visible_field_mentions ctx f) m))"
    if "(k, f) \<in> set m" "is_visible ctx (mf_visible f)" for k m
    using that assms(3) by (force simp: visible_field_mentions_def)
  have "detail_mentions ctx ty = concat (map (\<lambda>(_, f). visible_field_mentions ctx f) m)"
    if "mt_fields ty = Some m" for m
    using that by (cases ty) auto
  moreover obtain m k where "mt_fields ty = Some m" "(k, f) \<in> set m" "is_visible ctx (mf_visible f)"
    using assms(1,2) by auto
  ultimately show ?thesis using * by metis
qed

lemma input_field_mentionsI:
  "detail_input_fields ctx b (TDNamed ty) = Some vs \<Longrightarrow> v \<in> set vs \<Longrightarrow>
   concrete_typename (miv_ty v) \<in> set (detail_mentions ctx ty)"
  by (cases ty) (auto intro: arg_mentionsI)

lemma find_visible_types_presentable:
  assumes "wf_registry reg" "n \<in> set (find_visible_types reg ctx)"
  shows "presentable ctx reg n"
proof -
  obtain found where "visible_inv ctx reg found"
    "\<And>n. n \<in> set (find_visible_types reg ctx) \<longleftrightarrow>
      map_of (types reg) n \<noteq> None \<and> (is_system_type n \<or> n \<in> set found)"
    using find_visible_types_obtain [OF assms(1)] by blast
  with assms(2) have "map_of (types reg) n \<noteq> None" by blast
  moreover have "is_system_type n \<or> type_shown ctx reg n"
    by (rule find_visible_types_sound [OF assms])
  ultimately show ?thesis by (auto simp: presentable_def elim: shown_visible)
qed

lemma presentable_mention:
  assumes "wf_registry reg" "introspectable ctx reg" "n \<in> set (find_visible_types reg ctx)"
    "map_of (types reg) n = Some ty" "m \<in> set (detail_mentions ctx ty)"
  shows "m \<in> set (find_visible_types reg ctx)"
proof -
  have "(n, ty) \<in> set (types reg)" using assms(4) by (rule map_of_SomeD)
  then have m: "presentable ctx reg m" "is_system_type n \<longrightarrow> is_system_type m"
    using assms(2,5) find_visible_types_presentable [OF assms(1,3)]
    by (auto simp: introspectable_def list_all_iff)
  obtain found where f: "visible_inv ctx reg found"
    "\<And>n. n \<in> set (find_visible_types reg ctx) \<longleftrightarrow>
      map_of (types reg) n \<noteq> None \<and> (is_system_type n \<or> n \<in> set found)"
    using find_visible_types_obtain [OF assms(1)] by blast
  show ?thesis
  proof (cases "is_system_type m")
    case True
    then show ?thesis using f(2) m(1) by (auto simp: presentable_def split: option.splits)
  next
    case False
    then obtain ty' where "map_of (types reg) m = Some ty'" "mt_is_visible ty' ctx"
      using m(1) by (auto simp: presentable_def split: option.splits)
    moreover have "\<not> is_system_type n" using False m(2) by blast
    ultimately show ?thesis
      using find_visible_types_closed [OF assms(1,3) _ assms(4)] detail_mentions_visible [OF assms(5)]
      by blast
  qed
qed

lemma visible_root:
  assumes "wf_registry reg" "presentable ctx reg n" "n \<in> set (visible_roots ctx reg)"
  shows "n \<in> set (find_visible_types reg ctx)"
proof (cases "is_system_type n")
  case True
  obtain found where f: "visible_inv ctx reg found"
    "\<And>n. n \<in> set (find_visible_types reg ctx) \<longleftrightarrow>
      map_of (types reg) n \<noteq> None \<and> (is_system_type n \<or> n \<in> set found)"
    using find_visible_types_obtain [OF assms(1)] by blast
  then show ?thesis using True assms(2) by (auto simp: presentable_def split: option.splits)
next
  case False
  then have "traversed (types reg) (enter_visible ctx) (set (visible_roots ctx reg)) n"
    using assms(2,3)
    by (intro traversed.root) (auto simp: presentable_def entered_visible split: option.splits)
  then show ?thesis by (rule find_visible_types_linked [OF assms(1)])
qed

lemma directive_arg_root:
  assumes "wf_registry reg" "introspectable ctx reg" "dir \<in> set (schema_directives reg)"
    "v \<in> set (directive_args_shown b dir)"
  shows "concrete_typename (miv_ty v) \<in> set (find_visible_types reg ctx)"
proof -
  obtain dn an where d: "(dn, dir) \<in> set (directives reg)" "(an, v) \<in> set (md_args dir)"
    using assms(3,4) by (auto simp: schema_directives_def directive_args_shown_def)
  then have "presentable ctx reg (concrete_typename (miv_ty v))" "is_visible ctx (md_visible dir)"
    "is_visible ctx (miv_visible v)"
    using assms(2) by (fastforce simp: introspectable_def list_all_iff)+
  moreover from this d have "concrete_typename (miv_ty v) \<in> set (visible_roots ctx reg)"
    by (force simp: visible_roots_def visible_directive_args_def visible_arg_mentions_def input_value_mention_def)
  ultimately show ?thesis by (intro visible_root [OF assms(1)])
qed

lemma visible_registered:
  "wf_registry reg \<Longrightarrow> n \<in> set (find_visible_types reg ctx) \<Longrightarrow> map_of (types reg) n \<noteq> None"
  using find_visible_types_presentable [of reg n ctx] by (auto simp: presentable_def split: option.splits)

lemma detail_ok_named:
  "wf_registry reg \<Longrightarrow> map_of (types reg) n = Some ty \<Longrightarrow> n \<in> set vis \<Longrightarrow> detail_ok reg vis (TDNamed ty)"
  using wf_registry_mt_name [of reg n ty] by (simp add: detail_ok_def)

lemma detail_ok_mentions:
  assumes "wf_registry reg" "introspectable ctx reg" "detail_ok reg (find_visible_types reg ctx) (TDNamed ty)"
    "n \<in> set (detail_mentions ctx ty)"
  shows "n \<in> set (find_visible_types reg ctx)"
  using assms presentable_mention by (auto simp: detail_ok_def)

lemma introspected_detail_ok:
  assumes "wf_registry reg" "introspectable ctx reg"
  shows "introspected ctx reg (find_visible_types reg ctx) d \<Longrightarrow>
    \<exists>t. d = Some t \<and> detail_ok reg (find_visible_types reg ctx) t"
proof (induction rule: introspected.induct)
  have ref: "\<exists>t. type_ref_detail reg s = Some t \<and> detail_ok reg (find_visible_types reg ctx) t"
    if "concrete_typename s \<in> set (find_visible_types reg ctx)" for s
    using type_ref_detail_ok [OF assms(1) visible_registered [OF assms(1)] that] .
  have named: "concrete_typename n = n" if "n \<in> set (find_visible_types reg ctx)" for n
    using visible_registered [OF assms(1) that] assms(2)
    by (fastforce simp: introspectable_def list_all_iff dest: map_of_SomeD)
  have root_type_ok: "\<exists>t. d = Some t \<and> detail_ok reg (find_visible_types reg ctx) t"
    if "schema_root_type reg (find_visible_types reg ctx) r = Some d" for r d
  proof -
    from that obtain n where n: "n \<in> set (find_visible_types reg ctx)"
      "d = map_option TDNamed (im_get (types reg) n)"
      by (cases r) (auto simp: schema_root_type_def split: if_splits)
    then show ?thesis
      using visible_registered [OF assms(1) n(1)] by (auto intro: detail_ok_named [OF assms(1)])
  qed
  {
    case (schema_types d)
    then show ?case
      using assms(1)
      by (auto simp: schema_types_def wf_registry_def im_ok_def list_all_iff
          intro!: detail_ok_named [OF assms(1) map_of_is_SomeI])
  next
    case query
    have "presentable ctx reg (query_type reg)" using assms(2) by (simp add: introspectable_def)
    moreover from this have "query_type reg \<in> set (find_visible_types reg ctx)"
      by (rule visible_root [OF assms(1)]) (simp add: visible_roots_def operation_roots_def)
    ultimately show ?case
      by (auto simp: schema_query_type_def presentable_def split: option.splits
          intro: detail_ok_named [OF assms(1)])
  next
    case (mutation d)
    then show ?case
      by (intro root_type_ok)
  next
    case (subscription d)
    then show ?case
      by (intro root_type_ok)
  next
    case (by_name n d)
    then show ?case
      by (auto simp: type_by_name_def split: option.splits if_splits
          intro: detail_ok_named [OF assms(1)])
  next
    case (directive_arg dir v b)
    then show ?case by (intro ref directive_arg_root [OF assms])
  next
    case (field d b fs f)
    then obtain ty where "d = TDNamed ty" by (cases d) auto
    with field show ?case by (intro ref detail_ok_mentions [OF assms]) (auto intro: field_mentionsI)
  next
    case (field_arg d b fs f v b')
    then obtain ty where "d = TDNamed ty" by (cases d) auto
    with field_arg show ?case
      by (intro ref detail_ok_mentions [OF assms])
         (auto simp: field_args_shown_def intro!: field_mentionsI arg_mentionsI)
  next
    case (input_field d b vs v)
    then obtain ty where "d = TDNamed ty" by (cases d) auto
    with input_field show ?case
      by (intro ref detail_ok_mentions [OF assms]) (auto intro: input_field_mentionsI)
  next
    case (interface d ds d')
    then show ?case
      by (cases "(reg, find_visible_types reg ctx, d)" rule: detail_interfaces.cases)
         (auto simp: visible_refs_def named split: option.splits intro!: ref)
  next
    case (possible d ds d')
    then show ?case
      by (cases "(reg, find_visible_types reg ctx, d)" rule: detail_possible_types.cases)
         (auto simp: visible_refs_def named intro!: ref)
  next
    case (of_type d d')
    then have "concrete_typename s \<in> set (find_visible_types reg ctx)" if "d = TDList s \<or> d = TDNonNull s" for s
      using that by (auto simp: detail_ok_def)
    with of_type(2) show ?case by (cases d) (auto simp only: detail_of_type.simps option.inject option.simps
        type_detail.simps intro!: ref)
  }
qed

end
