(* ===== verification/Serde.thy ===== *)
theory Serde
  imports Values
begin

text \<open>
  Conversion between GraphQL values and the data model of serde: \<open>value/src/serializer.rs\<close>,
  \<open>deserializer.rs\<close> and \<open>value_serde.rs\<close>.

  \<^item> \<open>ser\<close> is the tree of the calls that an implementation of \<open>Serialize\<close> makes on its serializer;
    \<open>serialize\<close> is the crate's \<open>Serializer\<close>, \<open>serialize_key\<close> its \<open>MapKeySerializer\<close>.
    \<open>const_calls\<close> and \<open>value_calls\<close> are the implementations of \<open>Serialize\<close> for values.
  \<^item> \<open>visitor\<close> is serde's \<open>Visitor\<close>: what a target type does with what the deserializer finds. A
    \<open>SeqAccess\<close> or \<open>MapAccess\<close> is the list of what it has still to give; \<open>visit_seq\<close> and \<open>visit_map\<close>
    return what they leave. \<open>deserialize_any\<close> and the others are the methods of \<open>Deserializer\<close> for
    \<open>ConstValue\<close>; \<open>const_deserialize\<close> and \<open>value_deserialize\<close> are \<open>Deserialize\<close> for values, from a
    \<open>ConstValue\<close>.
  \<^item> The widening of a 32-bit float is an argument. The feature \<open>raw_value\<close> is off.

  Lemmas: \<open>from_value\<close> gives back what \<open>to_value\<close> wrote, up to enums, which become strings; what
  \<open>to_value\<close> makes of an enum variant is shown to a visitor as this variant with its content.
\<close>

subsection \<open>Serializing\<close>

datatype ser =
    SBool bool
  | SI8 "8 word" | SI16 "16 word" | SI32 "32 word" | SI64 "64 word"
  | SU8 "8 word" | SU16 "16 word" | SU32 "32 word" | SU64 "64 word"
  | SF32 "32 word" | SF64 "64 word"
  | SChar string | SStr string | SBytes "8 word list"
  | SNone | SSome ser | SUnit | SUnitStruct string | SUnitVariant string name
  | SNewtypeStruct string ser | SNewtypeVariant string name ser
  | SSeq "ser list" | STuple "ser list" | STupleStruct string "ser list" | STupleVariant string name "ser list"
  | SMap "(ser \<times> ser) list" | SStruct string "(name \<times> ser) list"
  | SStructVariant string name "(name \<times> ser) list"

text \<open>\<open>Number::from_f64\<close>: a number is finite.\<close>

definition finite_f64 :: "64 word \<Rightarrow> bool" where
  "finite_f64 v \<longleftrightarrow> uint v div 2 ^ 52 mod 2 ^ 11 \<noteq> 2 ^ 11 - 1"

definition from_f64 :: "64 word \<Rightarrow> number option" where
  "from_f64 v = (if finite_f64 v then Some (NFloat v) else None)"

definition float_value :: "64 word \<Rightarrow> const_value" where
  "float_value v = (case from_f64 v of Some num \<Rightarrow> CNumber num | None \<Rightarrow> CNull)"

definition key_must_be_a_string :: string where
  "key_must_be_a_string = ''Key must be a string''"

fun serialize_key :: "ser \<Rightarrow> string + name" where
  "serialize_key (SStr v) = Inr v"
| "serialize_key (SUnitVariant _ variant) = Inr variant"
| "serialize_key _ = Inl key_must_be_a_string"

definition insert_entries :: "(name \<times> const_value) list \<Rightarrow> (name, const_value) index_map" where
  "insert_entries es = fold (\<lambda>(key, value) m. im_insert key value m) es []"

fun serialize :: "(32 word \<Rightarrow> 64 word) \<Rightarrow> ser \<Rightarrow> string + const_value" where
  "serialize widen (SBool v) = Inr (CBoolean v)"
| "serialize widen (SI8 v) = Inr (CNumber (NInt (sint v)))"
| "serialize widen (SI16 v) = Inr (CNumber (NInt (sint v)))"
| "serialize widen (SI32 v) = Inr (CNumber (NInt (sint v)))"
| "serialize widen (SI64 v) = Inr (CNumber (NInt (sint v)))"
| "serialize widen (SU8 v) = Inr (CNumber (NInt (uint v)))"
| "serialize widen (SU16 v) = Inr (CNumber (NInt (uint v)))"
| "serialize widen (SU32 v) = Inr (CNumber (NInt (uint v)))"
| "serialize widen (SU64 v) = Inr (CNumber (NInt (uint v)))"
| "serialize widen (SF32 v) = Inr (float_value (widen v))"
| "serialize widen (SF64 v) = Inr (float_value v)"
| "serialize widen (SChar _) = Inl ''char is not supported.''"
| "serialize widen (SStr v) = Inr (CString v)"
| "serialize widen (SBytes v) = Inr (CBinary v)"
| "serialize widen SNone = Inr CNull"
| "serialize widen (SSome t) = serialize widen t"
| "serialize widen SUnit = Inr CNull"
| "serialize widen (SUnitStruct _) = Inr CNull"
| "serialize widen (SUnitVariant _ variant) = Inr (CString variant)"
| "serialize widen (SNewtypeStruct _ t) = serialize widen t"
| "serialize widen (SNewtypeVariant _ variant t) = map_ok (\<lambda>v. CObject [(variant, v)]) (serialize widen t)"
| "serialize widen (SSeq ts) = map_ok CList (map_result (serialize widen) ts)"
| "serialize widen (STuple ts) = map_ok CList (map_result (serialize widen) ts)"
| "serialize widen (STupleStruct _ ts) = map_ok CList (map_result (serialize widen) ts)"
| "serialize widen (STupleVariant _ variant ts) =
     map_ok (\<lambda>vs. CObject [(variant, CList vs)]) (map_result (serialize widen) ts)"
| "serialize widen (SMap es) =
     map_ok (\<lambda>es. CObject (insert_entries es))
       (map_result (\<lambda>(key, t). bind_result (serialize_key key) (\<lambda>key. map_ok (\<lambda>v. (key, v)) (serialize widen t))) es)"
| "serialize widen (SStruct _ fs) =
     map_ok (\<lambda>es. CObject (insert_entries es))
       (map_result (\<lambda>(key, t). map_ok (\<lambda>v. (key, v)) (serialize widen t)) fs)"
| "serialize widen (SStructVariant _ variant fs) =
     map_ok (\<lambda>es. CObject [(variant, CObject (insert_entries es))])
       (map_result (\<lambda>(key, t). map_ok (\<lambda>v. (key, v)) (serialize widen t)) fs)"

text \<open>\<open>Serialize\<close> for numbers, constants and values. A number of \<open>serde_json\<close> is unsigned if it is not negative.\<close>

fun number_calls :: "number \<Rightarrow> ser" where
  "number_calls (NInt i) = (if 0 \<le> i then SU64 (word_of_int i) else SI64 (word_of_int i))"
| "number_calls (NFloat v) = SF64 v"

fun const_calls :: "const_value \<Rightarrow> ser" where
  "const_calls CNull = SNone"
| "const_calls (CNumber v) = number_calls v"
| "const_calls (CString v) = SStr v"
| "const_calls (CBoolean v) = SBool v"
| "const_calls (CBinary v) = SBytes v"
| "const_calls (CEnum v) = SStr v"
| "const_calls (CList v) = SSeq (map const_calls v)"
| "const_calls (CObject v) = SMap (map (\<lambda>(key, value). (SStr key, const_calls value)) v)"

fun value_calls :: "gvalue \<Rightarrow> ser" where
  "value_calls (VVariable n) = SMap [(SStr ''$var'', SStr n)]"
| "value_calls VNull = SNone"
| "value_calls (VNumber v) = number_calls v"
| "value_calls (VString v) = SStr v"
| "value_calls (VBoolean v) = SBool v"
| "value_calls (VBinary v) = SBytes v"
| "value_calls (VEnum v) = SStr v"
| "value_calls (VList v) = SSeq (map value_calls v)"
| "value_calls (VObject v) = SMap (map (\<lambda>(key, value). (SStr key, value_calls value)) v)"

subsection \<open>Deserializing\<close>

datatype unexpected =
    UUnit | UOther string | UStr string | UBool bool | UBytes "8 word list" | USeq | UMap | UUnitVariant

datatype de_error =
    InvalidType unexpected string | InvalidValue unexpected string | InvalidLength nat string | DeCustom string

fun unexpected_of :: "const_value \<Rightarrow> unexpected" where
  "unexpected_of CNull = UUnit"
| "unexpected_of (CNumber _) = UOther ''number''"
| "unexpected_of (CString v) = UStr v"
| "unexpected_of (CBoolean v) = UBool v"
| "unexpected_of (CBinary v) = UBytes v"
| "unexpected_of (CEnum v) = UStr v"
| "unexpected_of (CList _) = USeq"
| "unexpected_of (CObject _) = UMap"

record 'a visitor =
  visit_unit :: "de_error + 'a"
  visit_bool :: "bool \<Rightarrow> de_error + 'a"
  visit_i64 :: "64 word \<Rightarrow> de_error + 'a"
  visit_u64 :: "64 word \<Rightarrow> de_error + 'a"
  visit_f64 :: "64 word \<Rightarrow> de_error + 'a"
  visit_str :: "string \<Rightarrow> de_error + 'a"
  visit_bytes :: "8 word list \<Rightarrow> de_error + 'a"
  visit_none :: "de_error + 'a"
  visit_some :: "const_value \<Rightarrow> de_error + 'a"
  visit_newtype_struct :: "const_value \<Rightarrow> de_error + 'a"
  visit_seq :: "const_value list \<Rightarrow> de_error + 'a \<times> const_value list"
  visit_map :: "(name \<times> const_value) list \<Rightarrow> de_error + 'a \<times> (name \<times> const_value) list"
  visit_enum :: "name \<Rightarrow> const_value option \<Rightarrow> de_error + 'a"

definition visit_array :: "const_value list \<Rightarrow> 'a visitor \<Rightarrow> de_error + 'a" where
  "visit_array items vis =
     bind_result (visit_seq vis items) (\<lambda>(v, remaining).
       if length remaining = 0 then Inr v else Inl (InvalidLength (length items) ''fewer elements in array''))"

definition visit_object :: "(name, const_value) index_map \<Rightarrow> 'a visitor \<Rightarrow> de_error + 'a" where
  "visit_object obj vis =
     bind_result (visit_map vis obj) (\<lambda>(v, remaining).
       if length remaining = 0 then Inr v else Inl (InvalidLength (length obj) ''fewer elements in map''))"

fun number_visit :: "number \<Rightarrow> 'a visitor \<Rightarrow> de_error + 'a" where
  "number_visit (NInt i) vis = (if 0 \<le> i then visit_u64 vis (word_of_int i) else visit_i64 vis (word_of_int i))"
| "number_visit (NFloat v) vis = visit_f64 vis v"

fun deserialize_any :: "const_value \<Rightarrow> 'a visitor \<Rightarrow> de_error + 'a" where
  "deserialize_any CNull vis = visit_unit vis"
| "deserialize_any (CNumber v) vis = number_visit v vis"
| "deserialize_any (CString v) vis = visit_str vis v"
| "deserialize_any (CBoolean v) vis = visit_bool vis v"
| "deserialize_any (CBinary v) vis = visit_bytes vis v"
| "deserialize_any (CEnum v) vis = visit_str vis v"
| "deserialize_any (CList v) vis = visit_array v vis"
| "deserialize_any (CObject v) vis = visit_object v vis"

definition deserialize_option :: "const_value \<Rightarrow> 'a visitor \<Rightarrow> de_error + 'a" where
  "deserialize_option v vis = (case v of CNull \<Rightarrow> visit_none vis | _ \<Rightarrow> visit_some vis v)"

definition deserialize_newtype_struct :: "const_value \<Rightarrow> 'a visitor \<Rightarrow> de_error + 'a" where
  "deserialize_newtype_struct v vis = visit_newtype_struct vis v"

definition deserialize_enum :: "const_value \<Rightarrow> 'a visitor \<Rightarrow> de_error + 'a" where
  "deserialize_enum v vis =
     (case v of
        CObject obj \<Rightarrow>
          (case obj of
             [(variant, content)] \<Rightarrow> visit_enum vis variant (Some content)
           | _ \<Rightarrow> Inl (InvalidValue UMap ''map with a single key''))
      | CString variant \<Rightarrow> visit_enum vis variant None
      | CEnum variant \<Rightarrow> visit_enum vis variant None
      | other \<Rightarrow> Inl (InvalidType (unexpected_of other) ''string or map''))"

text \<open>The content of a variant (\<open>VariantDeserializer\<close>), for the kind of variant that the target expects.\<close>

definition unit_variant :: "const_value option \<Rightarrow> de_error + unit" where
  "unit_variant content =
     (case content of
        Some CNull \<Rightarrow> Inr ()
      | Some other \<Rightarrow> Inl (InvalidType (unexpected_of other) ''unit'')
      | None \<Rightarrow> Inr ())"

definition newtype_variant :: "(const_value \<Rightarrow> de_error + 'a) \<Rightarrow> const_value option \<Rightarrow> de_error + 'a" where
  "newtype_variant seed content =
     (case content of
        Some v \<Rightarrow> seed v
      | None \<Rightarrow> Inl (InvalidType UUnitVariant ''newtype variant''))"

definition tuple_variant :: "const_value option \<Rightarrow> 'a visitor \<Rightarrow> de_error + 'a" where
  "tuple_variant content vis =
     (case content of
        Some (CList v) \<Rightarrow> if length v = 0 then visit_unit vis else visit_array v vis
      | Some other \<Rightarrow> Inl (InvalidType (unexpected_of other) ''tuple variant'')
      | None \<Rightarrow> Inl (InvalidType UUnitVariant ''tuple variant''))"

text \<open>Unlike \<open>visit_object\<close>, a struct variant may leave entries.\<close>

definition struct_variant :: "const_value option \<Rightarrow> 'a visitor \<Rightarrow> de_error + 'a" where
  "struct_variant content vis =
     (case content of
        Some (CObject v) \<Rightarrow> map_ok fst (visit_map vis v)
      | Some other \<Rightarrow> Inl (InvalidType (unexpected_of other) ''struct variant'')
      | None \<Rightarrow> Inl (InvalidType UUnitVariant ''struct variant''))"

subsection \<open>Values as targets\<close>

text \<open>The visitors of \<open>ConstValue\<close> and \<open>Value\<close>; \<open>des\<close> deserializes an element.\<close>

definition const_visitor :: "(const_value \<Rightarrow> de_error + const_value) \<Rightarrow> const_value visitor" where
  "const_visitor des =
     \<lparr>visit_unit = Inr CNull, visit_bool = (\<lambda>v. Inr (CBoolean v)), visit_i64 = (\<lambda>v. Inr (CNumber (NInt (sint v)))),
      visit_u64 = (\<lambda>v. Inr (CNumber (NInt (uint v)))), visit_f64 = (\<lambda>v. Inr (float_value v)),
      visit_str = (\<lambda>v. Inr (CString v)), visit_bytes = (\<lambda>v. Inr (CBinary v)), visit_none = Inr CNull,
      visit_some = des, visit_newtype_struct = (\<lambda>_. Inl (InvalidType (UOther ''Newtype'') ''any valid value'')),
      visit_seq = (\<lambda>items. map_ok (\<lambda>vs. (CList vs, [])) (map_result des items)),
      visit_map = (\<lambda>es. map_ok (\<lambda>es. (CObject (insert_entries es), []))
        (map_result (\<lambda>(key, v). map_ok (\<lambda>v. (key, v)) (des v)) es)),
      visit_enum = (\<lambda>_ _. Inl (InvalidType (UOther ''Enum'') ''any valid value''))\<rparr>"

definition const_from :: "const_value \<Rightarrow> (const_value \<Rightarrow> de_error + const_value) \<Rightarrow> de_error + const_value" where
  "const_from v des = deserialize_any v (const_visitor des)"

lemma object_value_size: "(k, v) \<in> set obj \<Longrightarrow> size v < size (CObject obj)"
  by (induction obj) auto

lemma list_value_size: "v \<in> set items \<Longrightarrow> size v < size (CList items)"
  by (induction items) auto

text \<open>Only the elements of a value are deserialized by the visitor, so the recursion ends.\<close>

lemma const_from_cong [fundef_cong]:
  assumes "v = v'" "\<And>w. size w < size v' \<Longrightarrow> des w = des' w"
  shows "const_from v des = const_from v' des'"
proof (cases v')
  case (CList items)
  then have "map_result des items = map_result des' items"
    using assms(2) by (intro map_result_cong) (auto intro: list_value_size simp del: const_value.size)
  then show ?thesis by (simp add: const_from_def const_visitor_def visit_array_def assms(1) CList)
next
  case (CObject obj)
  have "des w = des' w" if "(k, w) \<in> set obj" for k w
    using assms(2) [of w] object_value_size [OF that] CObject by blast
  then have "map_result (\<lambda>(key, v). map_ok (\<lambda>v. (key, v)) (des v)) obj =
      map_result (\<lambda>(key, v). map_ok (\<lambda>v. (key, v)) (des' v)) obj"
    by (intro map_result_cong) auto
  then show ?thesis by (simp add: const_from_def const_visitor_def visit_object_def assms(1) CObject)
next
  case (CNumber num)
  then show ?thesis by (cases num) (simp_all add: const_from_def const_visitor_def assms(1))
qed (simp_all add: const_from_def const_visitor_def assms(1))

function const_deserialize :: "const_value \<Rightarrow> de_error + const_value" where
  "const_deserialize v = const_from v const_deserialize"
  by pat_completeness auto
termination
  by (relation "measure size") auto

declare const_deserialize.simps [simp del]

text \<open>The loop of \<open>visit_map\<close> for \<open>Value\<close>: an entry \<open>$var\<close> with a string ends it with a variable.\<close>

primrec value_entries ::
  "(const_value \<Rightarrow> de_error + gvalue) \<Rightarrow> (name \<times> const_value) list \<Rightarrow> (name, gvalue) index_map \<Rightarrow>
   de_error + gvalue \<times> (name \<times> const_value) list" where
  "value_entries des [] m = Inr (VObject m, [])"
| "value_entries des (e # es) m =
     bind_result (des (snd e)) (\<lambda>v.
       case v of
         VString s \<Rightarrow> if fst e = ''$var'' then Inr (VVariable s, es) else value_entries des es (im_insert (fst e) v m)
       | _ \<Rightarrow> value_entries des es (im_insert (fst e) v m))"

lemma value_entries_cong:
  "es = es' \<Longrightarrow> m = m' \<Longrightarrow> (\<And>e. e \<in> set es' \<Longrightarrow> des (snd e) = des' (snd e)) \<Longrightarrow>
   value_entries des es m = value_entries des' es' m'"
proof (induction es arbitrary: es' m m')
  case (Cons e es)
  have "value_entries des es n = value_entries des' es n" for n
    using Cons.prems by (intro Cons.IH [OF refl refl]) (metis list.set_intros(2))
  moreover have "des (snd e) = des' (snd e)" using Cons.prems(1,3) by (metis list.set_intros(1))
  ultimately show ?case using Cons.prems(1,2) [symmetric] by (simp cong: gvalue.case_cong if_cong)
qed simp

definition float_gvalue :: "64 word \<Rightarrow> gvalue" where
  "float_gvalue v = (case from_f64 v of Some num \<Rightarrow> VNumber num | None \<Rightarrow> VNull)"

definition value_visitor :: "(const_value \<Rightarrow> de_error + gvalue) \<Rightarrow> gvalue visitor" where
  "value_visitor des =
     \<lparr>visit_unit = Inr VNull, visit_bool = (\<lambda>v. Inr (VBoolean v)), visit_i64 = (\<lambda>v. Inr (VNumber (NInt (sint v)))),
      visit_u64 = (\<lambda>v. Inr (VNumber (NInt (uint v)))), visit_f64 = (\<lambda>v. Inr (float_gvalue v)),
      visit_str = (\<lambda>v. Inr (VString v)), visit_bytes = (\<lambda>v. Inr (VBinary v)), visit_none = Inr VNull,
      visit_some = des, visit_newtype_struct = (\<lambda>_. Inl (InvalidType (UOther ''Newtype'') ''any valid value'')),
      visit_seq = (\<lambda>items. map_ok (\<lambda>vs. (VList vs, [])) (map_result des items)),
      visit_map = (\<lambda>es. value_entries des es []),
      visit_enum = (\<lambda>_ _. Inl (InvalidType (UOther ''Enum'') ''any valid value''))\<rparr>"

definition value_from :: "const_value \<Rightarrow> (const_value \<Rightarrow> de_error + gvalue) \<Rightarrow> de_error + gvalue" where
  "value_from v des = deserialize_any v (value_visitor des)"

lemma value_from_cong [fundef_cong]:
  assumes "v = v'" "\<And>w. size w < size v' \<Longrightarrow> des w = des' w"
  shows "value_from v des = value_from v' des'"
proof (cases v')
  case (CList items)
  then have "map_result des items = map_result des' items"
    using assms(2) by (intro map_result_cong) (auto intro: list_value_size simp del: const_value.size)
  then show ?thesis by (simp add: value_from_def value_visitor_def visit_array_def assms(1) CList)
next
  case (CObject obj)
  have "des w = des' w" if "(k, w) \<in> set obj" for k w
    using assms(2) [of w] object_value_size [OF that] CObject by blast
  then have "value_entries des obj [] = value_entries des' obj []"
    by (intro value_entries_cong) auto
  then show ?thesis by (simp add: value_from_def value_visitor_def visit_object_def assms(1) CObject)
next
  case (CNumber num)
  then show ?thesis by (cases num) (simp_all add: value_from_def value_visitor_def assms(1))
qed (simp_all add: value_from_def value_visitor_def assms(1))

function value_deserialize :: "const_value \<Rightarrow> de_error + gvalue" where
  "value_deserialize v = value_from v value_deserialize"
  by pat_completeness auto
termination
  by (relation "measure size") auto

declare value_deserialize.simps [simp del]

subsection \<open>Writing and reading\<close>

fun number_ok :: "number \<Rightarrow> bool" where
  "number_ok (NInt i) \<longleftrightarrow> - (2 ^ 63) \<le> i \<and> i < 2 ^ 64"
| "number_ok (NFloat v) \<longleftrightarrow> finite_f64 v"

fun numbers_ok :: "const_value \<Rightarrow> bool" where
  "numbers_ok (CNumber num) \<longleftrightarrow> number_ok num"
| "numbers_ok (CList items) \<longleftrightarrow> list_all numbers_ok items"
| "numbers_ok (CObject m) \<longleftrightarrow> list_all (\<lambda>(k, v). numbers_ok v) m"
| "numbers_ok _ \<longleftrightarrow> True"

fun enums_as_strings :: "const_value \<Rightarrow> const_value" where
  "enums_as_strings (CEnum v) = CString v"
| "enums_as_strings (CList items) = CList (map enums_as_strings items)"
| "enums_as_strings (CObject m) = CObject (map (\<lambda>(k, v). (k, enums_as_strings v)) m)"
| "enums_as_strings v = v"

lemma insert_entries_distinct: "im_ok es \<Longrightarrow> insert_entries es = es"
proof -
  have "distinct (map fst (m @ es)) \<Longrightarrow> fold (\<lambda>(key, v) m. im_insert key v m) es m = m @ es" for m
  proof (induction es arbitrary: m)
    case (Cons e es)
    obtain k v where e: "e = (k, v)" by (cases e)
    have "AList.update k v m = m @ [(k, v)]"
      using Cons.prems e by (induction m) auto
    then show ?case using Cons.IH [of "m @ [(k, v)]"] Cons.prems e by simp
  qed simp
  from this [of "[]"] show "im_ok es \<Longrightarrow> insert_entries es = es"
    by (simp add: insert_entries_def im_ok_def)
qed

lemma int_of_word:
  "0 \<le> i \<Longrightarrow> i < 2 ^ 64 \<Longrightarrow> uint (word_of_int i :: 64 word) = i"
  "i < 0 \<Longrightarrow> - (2 ^ 63) \<le> i \<Longrightarrow> sint (word_of_int i :: 64 word) = i"
  by (simp_all add: uint_word_of_int sint_sbintrunc' signed_take_bit_int_eq_self)

lemma serialize_number: "number_ok num \<Longrightarrow> serialize widen (number_calls num) = Inr (CNumber num)"
  by (cases num) (auto simp: int_of_word float_value_def from_f64_def)

lemma number_visit_const: "number_ok num \<Longrightarrow> number_visit num (const_visitor des) = Inr (CNumber num)"
  by (cases num) (auto simp: int_of_word float_value_def from_f64_def const_visitor_def)

lemma number_visit_value: "number_ok num \<Longrightarrow> number_visit num (value_visitor des) = Inr (VNumber num)"
  by (cases num) (auto simp: int_of_word float_gvalue_def from_f64_def value_visitor_def)

lemma im_ok_map_snd: "im_ok (map (\<lambda>(k, v). (k, f v)) m) \<longleftrightarrow> im_ok m"
  by (simp add: im_ok_def comp_def case_prod_unfold)

lemma const_deserialize_simps:
  "const_deserialize CNull = Inr CNull" "const_deserialize (CString s) = Inr (CString s)"
  "const_deserialize (CBoolean b) = Inr (CBoolean b)" "const_deserialize (CBinary bs) = Inr (CBinary bs)"
  "const_deserialize (CEnum s) = Inr (CString s)"
  "const_deserialize (CNumber num) = number_visit num (const_visitor const_deserialize)"
  "const_deserialize (CList items) = map_ok CList (map_result const_deserialize items)"
  "const_deserialize (CObject es) = map_ok (\<lambda>es. CObject (insert_entries es))
     (map_result (\<lambda>(key, v). map_ok (\<lambda>v. (key, v)) (const_deserialize v)) es)"
  by (subst const_deserialize.simps,
      simp add: const_from_def const_visitor_def visit_array_def visit_object_def bind_result_def map_ok_def
        split: sum.splits)+

lemma serialize_const:
  "numbers_ok v \<Longrightarrow> wf_const v \<Longrightarrow> serialize widen (const_calls v) = Inr (enums_as_strings v)"
proof (induction v)
  case (CNumber num)
  then show ?case by (simp add: serialize_number)
next
  case (CList items)
  then have "map_result (\<lambda>v. serialize widen (const_calls v)) items = Inr (map enums_as_strings items)"
    by (intro map_result_Inr_set) (auto simp: list_all_iff)
  then show ?case by simp
next
  case (CObject m)
  then have "map_result (\<lambda>(k, v). map_ok (\<lambda>v. (k, v)) (serialize widen (const_calls v))) m =
      Inr (map (\<lambda>(k, v). (k, enums_as_strings v)) m)"
    by (intro map_result_Inr_set) (fastforce simp: list_all_iff)
  moreover have "im_ok (map (\<lambda>(k, v). (k, enums_as_strings v)) m)"
    using CObject.prems(2) by (simp add: im_ok_map_snd)
  ultimately show ?case by (simp add: insert_entries_distinct case_prod_unfold)
qed simp_all

lemma const_deserialize_ok: "numbers_ok v \<Longrightarrow> wf_const v \<Longrightarrow> const_deserialize v = Inr (enums_as_strings v)"
proof (induction v)
  case (CNumber num)
  then show ?case by (simp add: const_deserialize_simps number_visit_const)
next
  case (CList items)
  then have "map_result const_deserialize items = Inr (map enums_as_strings items)"
    by (intro map_result_Inr_set) (auto simp: list_all_iff)
  then show ?case by (simp add: const_deserialize_simps)
next
  case (CObject m)
  then have "map_result (\<lambda>(k, v). map_ok (\<lambda>v. (k, v)) (const_deserialize v)) m =
      Inr (map (\<lambda>(k, v). (k, enums_as_strings v)) m)"
    by (intro map_result_Inr_set) (fastforce simp: list_all_iff)
  moreover have "im_ok (map (\<lambda>(k, v). (k, enums_as_strings v)) m)"
    using CObject.prems(2) by (simp add: im_ok_map_snd)
  ultimately show ?case by (simp add: const_deserialize_simps insert_entries_distinct)
qed (simp_all add: const_deserialize_simps)

lemma enums_as_strings_ok:
  "numbers_ok (enums_as_strings v) \<longleftrightarrow> numbers_ok v" "wf_const (enums_as_strings v) \<longleftrightarrow> wf_const v"
  "enums_as_strings (enums_as_strings v) = enums_as_strings v"
proof -
  show "numbers_ok (enums_as_strings v) \<longleftrightarrow> numbers_ok v"
    by (induction v) (auto simp: list_all_iff split_beta)
  show "wf_const (enums_as_strings v) \<longleftrightarrow> wf_const v"
    by (induction v) (auto simp: list_all_iff split_beta im_ok_def comp_def)
  show "enums_as_strings (enums_as_strings v) = enums_as_strings v"
    by (induction v) auto
qed

lemma const_eq_enums_as_strings: "wf_const v \<Longrightarrow> const_eq v (enums_as_strings v)"
proof (induction v)
  case (CList items)
  then show ?case by (auto simp: const_eq_CList list_all2_map2 list.rel_refl_strong list_all_iff intro!: list.rel_refl_strong)
next
  case (CObject m)
  have "\<exists>w. map_of (map (\<lambda>(k, v). (k, enums_as_strings v)) m) k = Some w \<and> const_eq w v" if "(k, v) \<in> set m" for k v
  proof -
    have "map_of m k = Some v" using that CObject.prems by (simp add: im_ok_def)
    moreover have "const_eq v (enums_as_strings v)" "wf_const v" using that CObject by (fastforce simp: list_all_iff)+
    ultimately show ?thesis using enums_as_strings_ok(2) [of v] by (auto simp: map_of_map intro: const_eq_sym)
  qed
  then show ?case by (simp add: const_eq_CObject split_beta)
qed simp_all

text \<open>\<open>Value\<close>: a variable is written as an object with the one key \<open>$var\<close>.\<close>

fun value_ok :: "gvalue \<Rightarrow> bool" where
  "value_ok (VNumber num) \<longleftrightarrow> number_ok num"
| "value_ok (VList items) \<longleftrightarrow> list_all value_ok items"
| "value_ok (VObject m) \<longleftrightarrow> im_ok m \<and> list_all (\<lambda>(k, v). value_ok v) m \<and>
     list_all (\<lambda>(k, v). k = ''$var'' \<longrightarrow> (case v of VString _ \<Rightarrow> False | VEnum _ \<Rightarrow> False | _ \<Rightarrow> True)) m"
| "value_ok _ \<longleftrightarrow> True"

fun written_value :: "gvalue \<Rightarrow> const_value" where
  "written_value (VVariable n) = CObject [(''$var'', CString n)]"
| "written_value VNull = CNull"
| "written_value (VNumber num) = CNumber num"
| "written_value (VString s) = CString s"
| "written_value (VBoolean b) = CBoolean b"
| "written_value (VBinary bs) = CBinary bs"
| "written_value (VEnum s) = CString s"
| "written_value (VList items) = CList (map written_value items)"
| "written_value (VObject m) = CObject (map (\<lambda>(k, v). (k, written_value v)) m)"

fun value_enums_as_strings :: "gvalue \<Rightarrow> gvalue" where
  "value_enums_as_strings (VEnum v) = VString v"
| "value_enums_as_strings (VList items) = VList (map value_enums_as_strings items)"
| "value_enums_as_strings (VObject m) = VObject (map (\<lambda>(k, v). (k, value_enums_as_strings v)) m)"
| "value_enums_as_strings v = v"

lemma serialize_value: "value_ok v \<Longrightarrow> serialize widen (value_calls v) = Inr (written_value v)"
proof (induction v)
  case (VNumber num)
  then show ?case by (simp add: serialize_number)
next
  case (VList items)
  then have "map_result (\<lambda>v. serialize widen (value_calls v)) items = Inr (map written_value items)"
    by (intro map_result_Inr_set) (auto simp: list_all_iff)
  then show ?case by simp
next
  case (VObject m)
  then have "map_result (\<lambda>(k, v). map_ok (\<lambda>v. (k, v)) (serialize widen (value_calls v))) m =
      Inr (map (\<lambda>(k, v). (k, written_value v)) m)"
    by (intro map_result_Inr_set) (fastforce simp: list_all_iff)
  moreover have "im_ok (map (\<lambda>(k, v). (k, written_value v)) m)"
    using VObject.prems by (simp add: im_ok_map_snd)
  ultimately show ?case by (simp add: insert_entries_distinct case_prod_unfold)
qed (simp_all add: insert_entries_def)

lemma value_deserialize_simps:
  "value_deserialize CNull = Inr VNull" "value_deserialize (CString s) = Inr (VString s)"
  "value_deserialize (CBoolean b) = Inr (VBoolean b)" "value_deserialize (CBinary bs) = Inr (VBinary bs)"
  "value_deserialize (CEnum s) = Inr (VString s)"
  "value_deserialize (CNumber num) = number_visit num (value_visitor value_deserialize)"
  "value_deserialize (CList items) = map_ok VList (map_result value_deserialize items)"
  "value_deserialize (CObject es) = bind_result (value_entries value_deserialize es []) (\<lambda>(v, remaining).
     if length remaining = 0 then Inr v else Inl (InvalidLength (length es) ''fewer elements in map''))"
  by (subst value_deserialize.simps,
      simp add: value_from_def value_visitor_def visit_array_def visit_object_def bind_result_def map_ok_def
        split: sum.splits)+

lemma value_entries_written:
  assumes "list_all (\<lambda>(k, v). value_deserialize (written_value v) = Inr (value_enums_as_strings v)) es"
    "list_all (\<lambda>(k, v). k = ''$var'' \<longrightarrow> (case v of VString _ \<Rightarrow> False | VEnum _ \<Rightarrow> False | _ \<Rightarrow> True)) es"
    "distinct (map fst (m @ es))"
  shows "value_entries value_deserialize (map (\<lambda>(k, v). (k, written_value v)) es) m =
    Inr (VObject (m @ map (\<lambda>(k, v). (k, value_enums_as_strings v)) es), [])"
  using assms
proof (induction es arbitrary: m)
  case (Cons e es)
  obtain k v where e: "e = (k, v)" by (cases e)
  have new: "AList.update k w m = m @ [(k, w)]" for w
    using Cons.prems(3) e by (induction m) auto
  have "value_entries value_deserialize (map (\<lambda>(k, v). (k, written_value v)) es) (m @ [(k, w)]) =
      Inr (VObject ((m @ [(k, w)]) @ map (\<lambda>(k, v). (k, value_enums_as_strings v)) es), [])" for w
    using Cons.prems e by (intro Cons.IH) auto
  with Cons.prems(1,2) new show ?case by (cases v) (auto simp: e)
qed simp

lemma value_deserialize_written:
  "value_ok v \<Longrightarrow> value_deserialize (written_value v) = Inr (value_enums_as_strings v)"
proof (induction v)
  case (VNumber num)
  then show ?case by (simp add: value_deserialize_simps number_visit_value)
next
  case (VList items)
  then have "map_result (\<lambda>v. value_deserialize (written_value v)) items = Inr (map value_enums_as_strings items)"
    by (intro map_result_Inr_set) (auto simp: list_all_iff)
  then show ?case by (simp add: value_deserialize_simps)
next
  case (VObject m)
  then have "list_all (\<lambda>(k, v). value_deserialize (written_value v) = Inr (value_enums_as_strings v)) m"
    by (fastforce simp: list_all_iff)
  from value_entries_written [OF this, of "[]"] VObject.prems show ?case
    by (simp add: value_deserialize_simps im_ok_def)
qed (simp_all add: value_deserialize_simps)

text \<open>Entries of an object are lost, or the object is refused, when one is named \<open>$var\<close> and holds a string.\<close>

lemma var_entry_last: "value_deserialize (CObject [(''a'', CNull), (''$var'', CString s)]) = Inr (VVariable s)"
  by (simp add: value_deserialize_simps)

lemma var_entry_first:
  "value_deserialize (CObject [(''$var'', CString s), (''a'', CNull)]) = Inl (InvalidLength 2 ''fewer elements in map'')"
  by (simp add: value_deserialize_simps)

subsection \<open>Enums\<close>

lemma serialized_variant_shown:
  "serialize widen (SUnitVariant n variant) = Inr v \<Longrightarrow> deserialize_enum v vis = visit_enum vis variant None"
  "serialize widen t = Inr c \<Longrightarrow> serialize widen (SNewtypeVariant n variant t) = Inr v \<Longrightarrow>
   deserialize_enum v vis = visit_enum vis variant (Some c)"
  "serialize widen (STuple ts) = Inr c \<Longrightarrow> serialize widen (STupleVariant n variant ts) = Inr v \<Longrightarrow>
   deserialize_enum v vis = visit_enum vis variant (Some c)"
  "serialize widen (SStruct n fs) = Inr c \<Longrightarrow> serialize widen (SStructVariant n variant fs) = Inr v \<Longrightarrow>
   deserialize_enum v vis = visit_enum vis variant (Some c)"
  by (auto simp: deserialize_enum_def res_simps)

end
