(* ===== verification/Query_Context.thy ===== *)
theory Query_Context
  imports Dynamic_Exec Input_Types
begin

text \<open>
  What a resolver can ask of its context: \<open>src/context.rs\<close> and \<open>src/look_ahead.rs\<close>.

  \<^item> \<open>data_layers\<close> are the four maps in which \<open>data_opt\<close> looks for a type; a \<open>TypeId\<close> is a name.
  \<^item> \<open>get_param_value\<close> gives an argument to its \<open>InputType\<close>. The environment of the query is that of
    \<open>Dynamic_Exec\<close>, with \<open>var_value\<close> and \<open>resolve_input_value\<close>.
  \<^item> The iterator \<open>SelectionFieldsIter\<close> is a stack of the selections still to be visited; \<open>next_selection_field\<close> is
    its \<open>next\<close> and \<open>selection_fields\<close> what it yields until it ends. A cycle of fragment spreads keeps it
    running for ever, which is \<open>None\<close>.
  \<^item> \<open>look_filter\<close> (\<open>filter\<close>) recurses through spreads, with a bound \<open>n\<close> on their nesting; \<open>None\<close> when it does not
    suffice.

  Lemmas: where spreads fit into a bound, in particular in every prepared request, both end and agree: a look-ahead
  for a name gives the fields of this name among those that the iterator yields.
\<close>

subsection \<open>Data\<close>

record 'd data_layers =
  execute_data :: "(string, 'd) index_map option"
  query_data :: "(string, 'd) index_map"
  session_data :: "(string, 'd) index_map"
  schema_data :: "(string, 'd) index_map"

definition data_insert :: "string \<Rightarrow> 'd \<Rightarrow> (string, 'd) index_map \<Rightarrow> (string, 'd) index_map" where
  "data_insert ty d m = im_insert ty d m"

definition or_else :: "'a option \<Rightarrow> 'a option \<Rightarrow> 'a option" where
  "or_else x y = (case x of Some v \<Rightarrow> Some v | None \<Rightarrow> y)"

definition data_opt :: "'d data_layers \<Rightarrow> string \<Rightarrow> 'd option" where
  "data_opt env ty =
     or_else (or_else (or_else (Option.bind (execute_data env) (\<lambda>data. im_get data ty))
       (im_get (query_data env) ty)) (im_get (session_data env) ty)) (im_get (schema_data env) ty)"

definition missing_data :: "string \<Rightarrow> string" where
  "missing_data ty = ''Data `'' @ ty @ ''` does not exist.''"

definition data_get :: "'d data_layers \<Rightarrow> string \<Rightarrow> string + 'd" where
  "data_get env ty = (case data_opt env ty of Some d \<Rightarrow> Inr d | None \<Rightarrow> Inl (missing_data ty))"

text \<open>The innermost layer wins.\<close>

lemma data_opt_layers:
  "data_opt env ty =
     (map_of (schema_data env) ++ map_of (session_data env) ++ map_of (query_data env) ++
      (case execute_data env of Some m \<Rightarrow> map_of m | None \<Rightarrow> Map.empty)) ty"
  by (auto simp: data_opt_def or_else_def map_add_def split: option.splits bind_splits)

subsection \<open>Paths\<close>

definition with_field_path :: "query_path_node option \<Rightarrow> field \<Rightarrow> query_path_node" where
  "with_field_path path field = QueryPathNode path (SegName (node (response_key field)))"

definition with_index_path :: "query_path_node option \<Rightarrow> nat \<Rightarrow> query_path_node" where
  "with_index_path path idx = QueryPathNode path (SegIndex idx)"

text \<open>\<open>field_name\<close> unwraps the nearest name above the node: \<open>None\<close> is its panic.\<close>

fun field_name :: "query_path_node \<Rightarrow> string option" where
  "field_name (QueryPathNode p (SegName n)) = Some n"
| "field_name (QueryPathNode (Some p) (SegIndex _)) = field_name p"
| "field_name (QueryPathNode None (SegIndex _)) = None"

fun parents :: "query_path_node \<Rightarrow> query_path_node list" where
  "parents (QueryPathNode (Some p) _) = p # parents p"
| "parents (QueryPathNode None _) = []"

definition to_string_vec :: "query_path_node \<Rightarrow> string list" where
  "to_string_vec p = map segment_str (path_segments p)"

fun error_segment :: "query_path_segment \<Rightarrow> path_segment" where
  "error_segment (SegName n) = PField n"
| "error_segment (SegIndex idx) = PIndex idx"

definition set_error_path :: "query_path_node option \<Rightarrow> server_error \<Rightarrow> server_error" where
  "set_error_path path e =
     (case path of
        Some p \<Rightarrow> e\<lparr>se_path := map error_segment (path_segments p)\<rparr>
      | None \<Rightarrow> e)"

text \<open>The paths that occur during execution start at a field of the root.\<close>

inductive context_path :: "query_path_node \<Rightarrow> bool" where
  root: "context_path (with_field_path None field)"
| field: "context_path p \<Longrightarrow> context_path (with_field_path (Some p) field)"
| index: "context_path p \<Longrightarrow> context_path (with_index_path (Some p) idx)"

lemma path_segments_parents: "path_segments p = map segment (rev (p # parents p))"
  by (induction p rule: parents.induct) simp_all

lemma field_name_find:
  "field_name p = Option.bind (List.find (\<lambda>s. \<exists>n. s = SegName n) (rev (path_segments p)))
     (\<lambda>s. case s of SegName n \<Rightarrow> Some n | _ \<Rightarrow> None)"
proof (induction p rule: field_name.induct)
  case (1 p n)
  then show ?case by (cases p) simp_all
qed (simp_all split: option.splits)

lemma context_path_named: "context_path p \<Longrightarrow> field_name p \<noteq> None"
  by (induction rule: context_path.induct) (simp_all add: with_field_path_def with_index_path_def)

subsection \<open>Arguments\<close>

definition param_of :: "arguments \<Rightarrow> string \<Rightarrow> gvalue positioned option" where
  "param_of args n = map_option snd (List.find (\<lambda>(k, _). node k = n) args)"

definition get_param_value ::
  "variables \<Rightarrow> operation_definition \<Rightarrow> 'a input_type \<Rightarrow> arguments \<Rightarrow> string \<Rightarrow> 'a option \<Rightarrow>
   server_error + pos \<times> 'a" where
  "get_param_value vars operation ty args n default_value =
     (let param = param_of args n in
      case (param, default_value) of
        (None, Some d) \<Rightarrow> Inr (Pos 0 0, d)
      | _ \<Rightarrow>
          bind_result
            (case param of
               Some val \<Rightarrow> map_ok (\<lambda>v. (pos val, Some v)) (resolve_input_value vars operation val)
             | None \<Rightarrow> Inr (Pos 0 0, None))
            (\<lambda>(p, v). map_ok (\<lambda>x. (p, x)) (map_err (\<lambda>e. input_server_error e p) (ty_parse ty v))))"

definition oneof_param_value ::
  "variables \<Rightarrow> operation_definition \<Rightarrow> 'a input_type \<Rightarrow> field positioned \<Rightarrow> server_error + pos \<times> 'a" where
  "oneof_param_value vars operation ty item =
     bind_result (resolve_arguments vars operation (node item)) (\<lambda>m.
     map_ok (\<lambda>x. (pos item, x))
       (map_err (\<lambda>e. input_server_error e (pos item)) (ty_parse ty (Some (CObject m)))))"

text \<open>A variable that the operation declares nullable and the request does not give is the argument null, not a
  missing argument: its default does not apply, and \<open>MaybeUndefined\<close> is null.\<close>

lemma get_param_missing:
  "param_of args n = None \<Longrightarrow> get_param_value vars operation ty args n (Some d) = Inr (Pos 0 0, d)"
  "param_of args n = None \<Longrightarrow> get_param_value vars operation (maybe_undefined_input ty) args n None =
     Inr (Pos 0 0, MUndefined)"
  by (simp_all add: get_param_value_def maybe_undefined_input_def)

lemma get_param_constant:
  "param_of args n = Some (Positioned p (into_value c)) \<Longrightarrow> ty_parse ty (Some c) = Inr x \<Longrightarrow>
   get_param_value vars operation ty args n default_value = Inr (p, x)"
  by (simp add: get_param_value_def resolve_input_value_def into_const_with_into_value split: option.splits)

lemma get_param_variable_absent:
  assumes "param_of args n = Some (Positioned p (VVariable x))" "im_get vars x = None"
    "List.find (\<lambda>def. node (vd_name (node def)) = x) (od_variable_definitions operation) = Some def"
    "vd_default (node def) = Some CNull"
  shows "get_param_value vars operation (maybe_undefined_input ty) args n default_value = Inr (p, MNull)"
  using assms
  by (auto simp: get_param_value_def resolve_input_value_def var_value_def maybe_undefined_input_def
      dest!: find_Some_iff [THEN iffD1] split: option.splits)

subsection \<open>Selections\<close>

definition field_directives :: "variables \<Rightarrow> operation_definition \<Rightarrow> field \<Rightarrow> server_error + const_directive list" where
  "field_directives vars operation field =
     map_result (\<lambda>d.
       map_ok (\<lambda>args. \<lparr>cd_name = d_name (node d), cd_arguments = args\<rparr>)
         (map_result (\<lambda>(n, val). map_ok (\<lambda>v. (n, Positioned (pos val) v))
           (into_const_with (node val) (\<lambda>x. var_value vars operation x (pos n)))) (d_arguments (node d))))
       (f_directives field)"

definition field_arguments :: "variables \<Rightarrow> operation_definition \<Rightarrow> field \<Rightarrow> server_error + (name \<times> const_value) list" where
  "field_arguments vars operation field =
     map_result (\<lambda>(n, val). map_ok (\<lambda>v. (node n, v))
       (into_const_with (node val) (\<lambda>x. var_value vars operation x (pos n)))) (f_arguments field)"

text \<open>\<open>SelectionFieldsIter::next\<close>: the next field and the stack after it; no field when the stack is empty. The
  last element of the vector is the head of the list.\<close>

partial_function (option) next_selection_field ::
  "fragments \<Rightarrow> selection positioned list list \<Rightarrow> (field \<times> selection positioned list list) option option" where
  "next_selection_field frags stack =
     (case stack of
        [] \<Rightarrow> Some None
      | [] # rest \<Rightarrow> next_selection_field frags rest
      | (sel # items) # rest \<Rightarrow>
          (case node sel of
             Field field \<Rightarrow> Some (Some (node field, items # rest))
           | FragmentSpread spread \<Rightarrow>
               (case im_get frags (node (fs_fragment_name (node spread))) of
                  Some fragment \<Rightarrow>
                    next_selection_field frags (ss_items (node (fd_selection_set (node fragment))) # items # rest)
                | None \<Rightarrow> next_selection_field frags (items # rest))
           | InlineFragment frag \<Rightarrow>
               next_selection_field frags (ss_items (node (if_selection_set (node frag))) # items # rest)))"

partial_function (option) selection_fields :: "fragments \<Rightarrow> selection positioned list list \<Rightarrow> field list option" where
  "selection_fields frags stack =
     Option.bind (next_selection_field frags stack) (\<lambda>r.
       case r of
         None \<Rightarrow> Some []
       | Some (field, stack) \<Rightarrow> Option.bind (selection_fields frags stack) (\<lambda>fs. Some (field # fs)))"

definition field_selection_set :: "fragments \<Rightarrow> field \<Rightarrow> field list option" where
  "field_selection_set frags field = selection_fields frags [ss_items (node (f_selection_set field))]"

primrec concat_options :: "'a list option list \<Rightarrow> 'a list option" where
  "concat_options [] = Some []"
| "concat_options (x # xs) = Option.bind x (\<lambda>a. Option.bind (concat_options xs) (\<lambda>b. Some (a @ b)))"

function look_filter :: "nat \<Rightarrow> fragments \<Rightarrow> selection_set \<Rightarrow> string \<Rightarrow> field list option" where
  "look_filter n frags ss fname =
     concat_options (map (\<lambda>sel. case node sel of
         Field field \<Rightarrow> Some (if node (f_name (node field)) = fname then [node field] else [])
       | InlineFragment frag \<Rightarrow> look_filter n frags (node (if_selection_set (node frag))) fname
       | FragmentSpread spread \<Rightarrow>
           (case im_get frags (node (fs_fragment_name (node spread))) of
              Some fragment \<Rightarrow>
                (case n of
                   0 \<Rightarrow> None
                 | Suc n \<Rightarrow> look_filter n frags (node (fd_selection_set (node fragment))) fname)
            | None \<Rightarrow> Some [])) (ss_items ss))"
  by pat_completeness auto
termination
  by (relation "measures [fst, \<lambda>(_, _, ss, _). size ss]") (auto simp: termination_simp)

declare look_filter.simps [simp del]

text \<open>A \<open>Lookahead\<close> is the list of its fields.\<close>

definition look_ahead :: "field \<Rightarrow> field list" where
  "look_ahead field = [field]"

definition look_field :: "nat \<Rightarrow> fragments \<Rightarrow> field list \<Rightarrow> string \<Rightarrow> field list option" where
  "look_field n frags fs fname =
     concat_options (map (\<lambda>field. look_filter n frags (node (f_selection_set field)) fname) fs)"

definition look_exists :: "field list \<Rightarrow> bool" where
  "look_exists fs \<longleftrightarrow> fs \<noteq> []"

subsection \<open>The two ways to read a selection\<close>

lemma selection_fields_simps:
  "selection_fields frags [] = Some []"
  "selection_fields frags ([] # rest) = selection_fields frags rest"
  "node sel = Field field \<Longrightarrow> selection_fields frags ((sel # items) # rest) =
     Option.bind (selection_fields frags (items # rest)) (\<lambda>fs. Some (node field # fs))"
  "node sel = InlineFragment frag \<Longrightarrow> selection_fields frags ((sel # items) # rest) =
     selection_fields frags (ss_items (node (if_selection_set (node frag))) # items # rest)"
  "node sel = FragmentSpread spread \<Longrightarrow> im_get frags (node (fs_fragment_name (node spread))) = None \<Longrightarrow>
   selection_fields frags ((sel # items) # rest) = selection_fields frags (items # rest)"
  "node sel = FragmentSpread spread \<Longrightarrow> im_get frags (node (fs_fragment_name (node spread))) = Some fragment \<Longrightarrow>
   selection_fields frags ((sel # items) # rest) =
     selection_fields frags (ss_items (node (fd_selection_set (node fragment))) # items # rest)"
  by (subst selection_fields.simps, subst next_selection_field.simps,
      (simp, fail | simp add: selection_fields.simps [symmetric] | simp, subst selection_fields.simps, rule refl))+

definition look_item :: "nat \<Rightarrow> fragments \<Rightarrow> string \<Rightarrow> selection \<Rightarrow> field list option" where
  "look_item n frags fname sel =
     (case sel of
         Field field \<Rightarrow> Some (if node (f_name (node field)) = fname then [node field] else [])
       | InlineFragment frag \<Rightarrow> look_filter n frags (node (if_selection_set (node frag))) fname
       | FragmentSpread spread \<Rightarrow>
           (case im_get frags (node (fs_fragment_name (node spread))) of
              Some fragment \<Rightarrow>
                (case n of
                   0 \<Rightarrow> None
                 | Suc n \<Rightarrow> look_filter n frags (node (fd_selection_set (node fragment))) fname)
            | None \<Rightarrow> Some []))"

lemma look_filter_items:
  "look_filter n frags ss fname = concat_options (map (\<lambda>sel. look_item n frags fname (node sel)) (ss_items ss))"
  unfolding look_filter.simps [of n frags ss fname] look_item_def by (rule refl)

text \<open>Reading the selections \<open>items\<close> gives the fields \<open>fs\<close>, by the iterator and by the look-ahead.\<close>

definition yields :: "nat \<Rightarrow> fragments \<Rightarrow> selection positioned list \<Rightarrow> field list \<Rightarrow> bool" where
  "yields n frags items fs \<longleftrightarrow>
     (\<forall>more_items rest res. selection_fields frags (more_items # rest) = Some res \<longrightarrow>
        selection_fields frags ((items @ more_items) # rest) = Some (fs @ res)) \<and>
     (\<forall>fname. concat_options (map (\<lambda>sel. look_item n frags fname (node sel)) items) =
        Some (filter (\<lambda>f. node (f_name f) = fname) fs))"

lemma yields_Nil: "yields n frags [] []"
  by (simp add: yields_def)

lemma yields_Cons: "yields n frags [sel] fs \<Longrightarrow> yields n frags items gs \<Longrightarrow> yields n frags (sel # items) (fs @ gs)"
  by (fastforce simp: yields_def bind_eq_Some_conv)

lemma yields_pushed:
  assumes "yields m frags inner fs"
    and "\<And>more_items rest. selection_fields frags ((sel # more_items) # rest) = selection_fields frags (inner # more_items # rest)"
    and "\<And>fname. look_item n frags fname (node sel) = concat_options (map (\<lambda>sel. look_item m frags fname (node sel)) inner)"
  shows "yields n frags [sel] fs"
  using assms(1) spec [of _ "[]"] unfolding yields_def
  by (auto simp: assms(2,3) selection_fields_simps(2) bind_eq_Some_conv)
     (metis append_Nil2 selection_fields_simps(2))

lemma yields_selection_set:
  "spreads_fit n frags ss \<Longrightarrow> \<exists>fs. yields n frags (ss_items ss) fs"
proof (induction n frags ss rule: spreads_fit.induct)
  case (1 n frags ss)
  have item: "\<exists>fs. yields n frags [sel] fs" if sel: "sel \<in> set (ss_items ss)" for sel
  proof -
    have fit: "spreads_fit_item n frags (node sel)" using "1.prems" sel by (simp add: spreads_fit_iff)
    show ?thesis
    proof (cases "node sel")
      case (Field field)
      then have "yields n frags [sel] [node field]"
        by (auto simp: yields_def selection_fields_simps look_item_def)
      then show ?thesis by blast
    next
      case (InlineFragment frag)
      then have "spreads_fit n frags (node (if_selection_set (node frag)))" using fit by (simp add: spreads_fit_item_simps)
      with "1.IH"(3) [OF sel InlineFragment] obtain fs
        where "yields n frags (ss_items (node (if_selection_set (node frag)))) fs" by blast
      then have "yields n frags [sel] fs"
        by (rule yields_pushed) (simp_all add: InlineFragment selection_fields_simps look_item_def look_filter_items)
      then show ?thesis by blast
    next
      case (FragmentSpread spread)
      show ?thesis
      proof (cases "im_get frags (node (fs_fragment_name (node spread)))")
        case None
        with FragmentSpread have "yields n frags [sel] []"
          by (simp add: yields_def selection_fields_simps look_item_def)
        then show ?thesis by blast
      next
        case (Some fragment)
        with fit FragmentSpread obtain m where m: "n = Suc m" "spreads_fit m frags (node (fd_selection_set (node fragment)))"
          by (auto simp: spreads_fit_item_simps)
        with "1.IH"(2) [OF sel FragmentSpread Some] obtain fs
          where "yields m frags (ss_items (node (fd_selection_set (node fragment)))) fs" by blast
        then have "yields n frags [sel] fs"
          by (rule yields_pushed)
             (use FragmentSpread Some m(1) in \<open>simp_all add: selection_fields_simps look_item_def look_filter_items del: im_get_def\<close>)
        then show ?thesis by blast
      qed
    qed
  qed
  have "\<exists>fs. yields n frags items fs" if "set items \<subseteq> set (ss_items ss)" for items
    using that by (induction items) (use item yields_Nil yields_Cons in \<open>fastforce+\<close>)
  then show ?case by blast
qed

lemma look_ahead_reads:
  assumes "spreads_fit n frags (node (f_selection_set field))"
  shows "\<exists>fs. field_selection_set frags field = Some fs \<and>
    (\<forall>fname. look_field n frags (look_ahead field) fname = Some (filter (\<lambda>f. node (f_name f) = fname) fs))"
proof -
  obtain fs where fs: "yields n frags (ss_items (node (f_selection_set field))) fs"
    using yields_selection_set [OF assms] by blast
  have "selection_fields frags ([] # []) = Some []" by (simp add: selection_fields_simps)
  then have "field_selection_set frags field = Some fs"
    using fs unfolding yields_def field_selection_set_def by (metis append_Nil2)
  moreover have "look_field n frags (look_ahead field) fname = Some (filter (\<lambda>f. node (f_name f) = fname) fs)" for fname
    using fs by (simp add: yields_def look_field_def look_ahead_def look_filter_items)
  ultimately show ?thesis by blast
qed

text \<open>The fields that a look-ahead finds can be looked into again.\<close>

lemma spreads_fit_mono: "spreads_fit n frags ss \<Longrightarrow> n \<le> m \<Longrightarrow> spreads_fit m frags ss"
proof (induction n frags ss arbitrary: m rule: spreads_fit.induct)
  case (1 n frags ss)
  have "spreads_fit_item m frags (node sel)" if sel: "sel \<in> set (ss_items ss)" for sel
  proof -
    have fit: "spreads_fit_item n frags (node sel)" using "1.prems"(1) sel by (simp add: spreads_fit_iff)
    show ?thesis
    proof (cases "node sel")
      case (Field field)
      with fit "1.IH"(1) [OF sel Field] "1.prems"(2) show ?thesis by (simp add: spreads_fit_item_simps)
    next
      case (InlineFragment frag)
      with fit "1.IH"(3) [OF sel InlineFragment] "1.prems"(2) show ?thesis by (simp add: spreads_fit_item_simps)
    next
      case (FragmentSpread spread)
      have "\<exists>k. m = Suc k \<and> spreads_fit k frags (node (fd_selection_set (node fragment)))"
        if some: "map_of frags (node (fs_fragment_name (node spread))) = Some fragment" for fragment
      proof -
        obtain k where k: "n = Suc k" "spreads_fit k frags (node (fd_selection_set (node fragment)))"
          using fit FragmentSpread some by (auto simp: spreads_fit_item_simps)
        then show ?thesis
          using "1.IH"(2) [OF sel FragmentSpread _ k(1), of fragment "m - 1"] some "1.prems"(2)
          by (cases m) simp_all
      qed
      then show ?thesis by (simp add: FragmentSpread spreads_fit_item_simps)
    qed
  qed
  then show ?case by (simp add: spreads_fit_iff)
qed

lemma look_filter_fits:
  "spreads_fit n frags ss \<Longrightarrow> look_filter n frags ss fname = Some fs \<Longrightarrow> f \<in> set fs \<Longrightarrow>
   spreads_fit n frags (node (f_selection_set f))"
proof (induction n frags ss arbitrary: fs rule: spreads_fit.induct)
  case (1 n frags ss)
  have part: "\<exists>x\<in>set xs. \<exists>gs. g x = Some gs \<and> f \<in> set gs"
    if "concat_options (map g xs) = Some fs" "f \<in> set fs" for g :: "selection positioned \<Rightarrow> field list option" and xs fs
    using that by (induction xs arbitrary: fs) (auto simp: bind_eq_Some_conv)
  from "1.prems"(2,3) obtain sel gs where sel: "sel \<in> set (ss_items ss)" "look_item n frags fname (node sel) = Some gs"
    "f \<in> set gs"
    unfolding look_filter_items using part by blast
  have fit: "spreads_fit_item n frags (node sel)" using "1.prems"(1) sel(1) by (simp add: spreads_fit_iff)
  show ?case
  proof (cases "node sel")
    case (Field field)
    with sel fit show ?thesis by (auto simp: look_item_def spreads_fit_item_simps split: if_splits)
  next
    case (InlineFragment frag)
    with sel fit "1.IH"(3) [OF sel(1) InlineFragment] show ?thesis
      by (auto simp: look_item_def spreads_fit_item_simps)
  next
    case (FragmentSpread spread)
    show ?thesis
    proof (cases "im_get frags (node (fs_fragment_name (node spread)))")
      case None
      then show ?thesis using sel FragmentSpread by (simp add: look_item_def)
    next
      case (Some fragment)
      with fit FragmentSpread obtain m where m: "n = Suc m" "spreads_fit m frags (node (fd_selection_set (node fragment)))"
        by (auto simp: spreads_fit_item_simps)
      have "look_filter m frags (node (fd_selection_set (node fragment))) fname = Some gs"
        using sel(2) FragmentSpread Some m(1) by (simp add: look_item_def)
      with "1.IH"(2) [OF sel(1) FragmentSpread Some m(1) m(2)] sel(3)
      have "spreads_fit m frags (node (f_selection_set f))" by blast
      then show ?thesis by (rule spreads_fit_mono) (simp add: m(1))
    qed
  qed
qed

lemma look_field_fits:
  assumes "list_all (\<lambda>f. spreads_fit n frags (node (f_selection_set f))) fs"
  shows "\<exists>gs. look_field n frags fs fname = Some gs \<and> list_all (\<lambda>f. spreads_fit n frags (node (f_selection_set f))) gs"
  using assms
proof (induction fs)
  case (Cons f fs)
  obtain hs where hs: "look_filter n frags (node (f_selection_set f)) fname = Some hs"
    using look_ahead_reads [of n frags f] Cons.prems
    by (auto simp: look_field_def look_ahead_def bind_eq_Some_conv)
  moreover have "list_all (\<lambda>f. spreads_fit n frags (node (f_selection_set f))) hs"
    using look_filter_fits [OF _ hs] Cons.prems by (simp add: list_all_iff)
  ultimately show ?case using Cons.IH Cons.prems by (auto simp: look_field_def)
qed (simp add: look_field_def)

text \<open>The fields that the iterator reaches from a selection set, at any depth.\<close>

inductive selected :: "fragments \<Rightarrow> selection_set \<Rightarrow> field \<Rightarrow> bool" for frags ss where
  root: "selection_fields frags [ss_items ss] = Some fs \<Longrightarrow> field \<in> set fs \<Longrightarrow> selected frags ss field"
| sub: "selected frags ss parent_field \<Longrightarrow> field_selection_set frags parent_field = Some fs \<Longrightarrow> field \<in> set fs \<Longrightarrow>
     selected frags ss field"

lemma selection_fields_fit:
  assumes "spreads_fit n frags ss" "selection_fields frags [ss_items ss] = Some fs" "f \<in> set fs"
  shows "spreads_fit n frags (node (f_selection_set f))"
proof -
  obtain gs where gs: "yields n frags (ss_items ss) gs" using yields_selection_set [OF assms(1)] by blast
  have "selection_fields frags ([] # []) = Some []" by (simp add: selection_fields_simps)
  then have "selection_fields frags [ss_items ss] = Some gs"
    using gs unfolding yields_def by (metis append_Nil2)
  moreover have "look_filter n frags ss (node (f_name f)) = Some (filter (\<lambda>g. node (f_name g) = node (f_name f)) gs)"
    using gs by (simp add: yields_def look_filter_items)
  ultimately show ?thesis using look_filter_fits [OF assms(1)] assms(2,3) by fastforce
qed

lemma selected_fits:
  "selected frags ss field \<Longrightarrow> spreads_fit n frags ss \<Longrightarrow> spreads_fit n frags (node (f_selection_set field))"
proof (induction rule: selected.induct)
  case (root fs field)
  then show ?case using selection_fields_fit by blast
next
  case (sub parent_field fs field)
  then show ?case using selection_fields_fit unfolding field_selection_set_def by blast
qed

lemma selection_fields_returns:
  "spreads_fit n frags ss \<Longrightarrow> \<exists>fs. selection_fields frags [ss_items ss] = Some fs"
  using yields_selection_set [of n frags ss] selection_fields_simps(1,2)
  unfolding yields_def by (metis append_Nil2)

end
