(* ===== verification/Connections.thy ===== *)
theory Connections
  imports Uploads
begin

text \<open>
  Relay connections: \<open>src/types/connection/\<close>.

  A \<open>CursorType\<close> is a record of its two functions; the contract \<open>cursor_laws\<close> says that a cursor that was
  encoded is decoded to itself. Integers are parsed and printed as the standard library does. \<open>base64\<close> and
  \<open>serde_json\<close> of an opaque cursor are arguments. \<open>query_with\<close> calls the resolver with decoded arguments.

  Lemmas: the end cursor of a page, given back as \<open>after\<close>, reaches the resolver as the cursor of the last edge.
\<close>

subsection \<open>Cursors\<close>

datatype cursor_error = ParseIntError | ParseCharError | ParseBoolError | OpaqueError

record 'c cursor_type =
  decode_cursor :: "string \<Rightarrow> cursor_error + 'c"
  encode_cursor :: "'c \<Rightarrow> string"

definition parse_or :: "cursor_error \<Rightarrow> 'a option \<Rightarrow> cursor_error + 'a" where
  "parse_or e r = (case r of Some x \<Rightarrow> Inr x | None \<Rightarrow> Inl e)"

text \<open>\<open>from_str\<close> of a signed integer of \<open>w\<close> bits: a sign and digits.\<close>

definition parse_signed_text :: "nat \<Rightarrow> string \<Rightarrow> int option" where
  "parse_signed_text w s =
     (case s of
        c # digits \<Rightarrow>
          if c = CHR ''-'' then
            (if digits \<noteq> [] \<and> list_all is_digit digits \<and> int (digits_value digits) \<le> 2 ^ (w - 1)
             then Some (- int (digits_value digits)) else None)
          else map_option int (parse_unsigned_text (w - 1) s)
      | [] \<Rightarrow> None)"

definition unsigned_cursor :: "'w::len word cursor_type" where
  "unsigned_cursor =
     \<lparr>decode_cursor = (\<lambda>s. parse_or ParseIntError (map_option of_nat (parse_unsigned_text LENGTH('w) s))),
      encode_cursor = (\<lambda>x. show_nat (unat x))\<rparr>"

definition signed_cursor :: "'w::len word cursor_type" where
  "signed_cursor =
     \<lparr>decode_cursor = (\<lambda>s. parse_or ParseIntError (map_option of_int (parse_signed_text LENGTH('w) s))),
      encode_cursor = (\<lambda>x. show_int (sint x))\<rparr>"

definition bool_cursor :: "bool cursor_type" where
  "bool_cursor =
     \<lparr>decode_cursor = (\<lambda>s. if s = ''true'' then Inr True else if s = ''false'' then Inr False else Inl ParseBoolError),
      encode_cursor = (\<lambda>b. if b then ''true'' else ''false'')\<rparr>"

text \<open>A character is its UTF-8 bytes.\<close>

definition char_cursor :: "string cursor_type" where
  "char_cursor =
     \<lparr>decode_cursor = (\<lambda>s. case chars s of [ch] \<Rightarrow> Inr ch | _ \<Rightarrow> Inl ParseCharError), encode_cursor = (\<lambda>s. s)\<rparr>"

definition string_cursor :: "string cursor_type" where
  "string_cursor = \<lparr>decode_cursor = Inr, encode_cursor = (\<lambda>s. s)\<rparr>"

text \<open>An \<open>ID\<close> is its string.\<close>

definition id_cursor :: "string cursor_type" where
  "id_cursor = \<lparr>decode_cursor = Inr, encode_cursor = (\<lambda>s. s)\<rparr>"

definition opaque_cursor ::
  "(string \<Rightarrow> 'b option) \<Rightarrow> ('b \<Rightarrow> string) \<Rightarrow> ('b \<Rightarrow> 'c option) \<Rightarrow> ('c \<Rightarrow> 'b option) \<Rightarrow> 'b \<Rightarrow> 'c cursor_type" where
  "opaque_cursor base64_decode base64_encode from_slice to_vec no_bytes =
     \<lparr>decode_cursor = (\<lambda>s. parse_or OpaqueError (Option.bind (base64_decode s) from_slice)),
      encode_cursor = (\<lambda>x. base64_encode (case to_vec x of Some bytes \<Rightarrow> bytes | None \<Rightarrow> no_bytes))\<rparr>"

subsection \<open>Connections\<close>

record ('c, 'n, 'e) edge =
  e_cursor :: 'c
  e_node :: 'n
  e_additional_fields :: 'e

record ('c, 'n, 'e, 'x) connection =
  cn_edges :: "('c, 'n, 'e) edge list"
  cn_additional_fields :: 'x
  cn_has_previous_page :: bool
  cn_has_next_page :: bool

definition connection_with_additional_fields :: "bool \<Rightarrow> bool \<Rightarrow> 'x \<Rightarrow> ('c, 'n, 'e, 'x) connection" where
  "connection_with_additional_fields has_previous_page has_next_page additional =
     \<lparr>cn_edges = [], cn_additional_fields = additional, cn_has_previous_page = has_previous_page,
      cn_has_next_page = has_next_page\<rparr>"

record page_info =
  pi_has_previous_page :: bool
  pi_has_next_page :: bool
  pi_start_cursor :: "string option"
  pi_end_cursor :: "string option"

definition first_of :: "'a list \<Rightarrow> 'a option" where
  "first_of xs = (case xs of [] \<Rightarrow> None | x # _ \<Rightarrow> Some x)"

definition last_of :: "'a list \<Rightarrow> 'a option" where
  "last_of xs = (if xs = [] then None else Some (last xs))"

definition page_info_of :: "'c cursor_type \<Rightarrow> ('c, 'n, 'e, 'x) connection \<Rightarrow> page_info" where
  "page_info_of ct c =
     \<lparr>pi_has_previous_page = cn_has_previous_page c, pi_has_next_page = cn_has_next_page c,
      pi_start_cursor = map_option (\<lambda>e. encode_cursor ct (e_cursor e)) (first_of (cn_edges c)),
      pi_end_cursor = map_option (\<lambda>e. encode_cursor ct (e_cursor e)) (last_of (cn_edges c))\<rparr>"

definition connection_nodes :: "('c, 'n, 'e, 'x) connection \<Rightarrow> 'n list" where
  "connection_nodes c = map e_node (cn_edges c)"

datatype query_error = NegativeParameter string | CursorError cursor_error | ResolverError string

definition negative_parameter :: "string \<Rightarrow> string" where
  "negative_parameter n = ''The '' @ [CHR 0x22] @ n @ [CHR 0x22] @ '' parameter must be a non-negative number''"

definition page_size :: "string \<Rightarrow> 32 word option \<Rightarrow> query_error + 64 word option" where
  "page_size n limit =
     (case limit of
        Some x \<Rightarrow> if sint x < 0 then Inl (NegativeParameter (negative_parameter n)) else Inr (Some (scast x))
      | None \<Rightarrow> Inr None)"

definition decode_option :: "'c cursor_type \<Rightarrow> string option \<Rightarrow> query_error + 'c option" where
  "decode_option ct c =
     (case c of
        Some s \<Rightarrow> map_ok Some (map_err CursorError (decode_cursor ct s))
      | None \<Rightarrow> Inr None)"

definition query_with ::
  "'c cursor_type \<Rightarrow> string option \<Rightarrow> string option \<Rightarrow> 32 word option \<Rightarrow> 32 word option \<Rightarrow>
   ('c option \<Rightarrow> 'c option \<Rightarrow> 64 word option \<Rightarrow> 64 word option \<Rightarrow> string + 't) \<Rightarrow> query_error + 't" where
  "query_with ct after before first_n last_n f =
     bind_result (page_size ''first'' first_n) (\<lambda>first_n.
     bind_result (page_size ''last'' last_n) (\<lambda>last_n.
     bind_result (decode_option ct before) (\<lambda>before.
     bind_result (decode_option ct after) (\<lambda>after.
       map_err ResolverError (f after before first_n last_n)))))"

subsection \<open>The contract of cursors\<close>

locale cursor_laws =
  fixes ct :: "'c cursor_type"
  assumes decode_encode: "decode_cursor ct (encode_cursor ct c) = Inr c"
begin

lemma resume_after:
  assumes "cn_edges c \<noteq> []" "sint limit \<ge> 0"
  shows "query_with ct (pi_end_cursor (page_info_of ct c)) None (Some limit) None f =
    map_err ResolverError (f (Some (e_cursor (last (cn_edges c)))) None (Some (scast limit)) None)"
  using assms by (simp add: query_with_def page_size_def decode_option_def page_info_of_def last_of_def decode_encode)

lemma resume_before:
  assumes "cn_edges c \<noteq> []" "sint limit \<ge> 0"
  shows "query_with ct None (pi_start_cursor (page_info_of ct c)) None (Some limit) f =
    map_err ResolverError (f None (Some (e_cursor (hd (cn_edges c)))) None (Some (scast limit)))"
  using assms
  by (cases "cn_edges c")
     (simp_all add: query_with_def page_size_def decode_option_def page_info_of_def first_of_def decode_encode)

end

interpretation string_cursor: cursor_laws string_cursor
  by unfold_locales (simp add: string_cursor_def)

interpretation id_cursor: cursor_laws id_cursor
  by unfold_locales (simp add: id_cursor_def)

interpretation bool_cursor: cursor_laws bool_cursor
  by unfold_locales (simp add: bool_cursor_def)

lemma unsigned_cursor_laws: "cursor_laws (unsigned_cursor :: 'w::len word cursor_type)"
  by unfold_locales (simp add: unsigned_cursor_def parse_or_def parse_show_nat)

interpretation usize_cursor: cursor_laws "unsigned_cursor :: 64 word cursor_type"
  by (rule unsigned_cursor_laws)

lemma show_nat_head: "\<exists>d ds. show_nat n = d # ds \<and> is_digit d"
  using show_nat_digits [of n] by (cases "show_nat n") simp_all

lemma parse_show_int:
  assumes "0 < w" "- (2 ^ (w - 1)) \<le> i" "i < 2 ^ (w - 1)"
  shows "parse_signed_text w (show_int i) = Some i"
proof (cases "i < 0")
  case True
  then show ?thesis
    using show_nat_digits [of "nat (- i)"] assms by (simp add: show_int_def parse_signed_text_def)
next
  case False
  then obtain d ds where d: "show_nat (nat i) = d # ds" "is_digit d" using show_nat_head by blast
  then have "d \<noteq> CHR ''-''" by (auto simp: is_digit_def)
  then have "parse_signed_text w (show_nat (nat i)) = map_option int (parse_unsigned_text (w - 1) (show_nat (nat i)))"
    using d(1) by (simp add: parse_signed_text_def)
  moreover have "nat i < 2 ^ (w - 1)" using False assms(3) by (simp add: nat_less_iff)
  ultimately show ?thesis using False by (simp add: show_int_def parse_show_nat)
qed

lemma signed_cursor_laws: "cursor_laws (signed_cursor :: 'w::len word cursor_type)"
proof
  fix x :: "'w word"
  have "parse_signed_text LENGTH('w) (show_int (sint x)) = Some (sint x)"
    using sint_ge [of x] sint_lt [of x] by (intro parse_show_int) simp_all
  then show "decode_cursor signed_cursor (encode_cursor signed_cursor x) = Inr x"
    by (simp add: signed_cursor_def parse_or_def)
qed

interpretation i32_cursor: cursor_laws "signed_cursor :: 32 word cursor_type"
  by (rule signed_cursor_laws)

lemma opaque_cursor_laws:
  assumes "\<And>bytes. base64_decode (base64_encode bytes) = Some bytes"
    and "\<And>x. Option.bind (to_vec x) from_slice = Some x"
  shows "cursor_laws (opaque_cursor base64_decode base64_encode from_slice to_vec no_bytes)"
proof
  fix x
  obtain bytes where "to_vec x = Some bytes" "from_slice bytes = Some x"
    using assms(2) [of x] by (cases "to_vec x") auto
  then show "decode_cursor (opaque_cursor base64_decode base64_encode from_slice to_vec no_bytes)
      (encode_cursor (opaque_cursor base64_decode base64_encode from_slice to_vec no_bytes) x) = Inr x"
    by (simp add: opaque_cursor_def parse_or_def assms(1))
qed

text \<open>Negative sizes and texts that are no cursor are refused before the resolver is called.\<close>

lemma query_with_Inr:
  "query_with ct after before first_n last_n f = Inr t \<Longrightarrow>
   (\<forall>x. first_n = Some x \<longrightarrow> 0 \<le> sint x) \<and> (\<forall>x. last_n = Some x \<longrightarrow> 0 \<le> sint x) \<and>
   (\<exists>a b. f a b (map_option scast first_n) (map_option scast last_n) = Inr t \<and>
      (case after of None \<Rightarrow> a = None | Some s \<Rightarrow> \<exists>c. decode_cursor ct s = Inr c \<and> a = Some c) \<and>
      (case before of None \<Rightarrow> b = None | Some s \<Rightarrow> \<exists>c. decode_cursor ct s = Inr c \<and> b = Some c))"
  by (auto simp: query_with_def page_size_def decode_option_def res_simps
      split: option.splits if_splits)

end
