(* ===== verification/Samples_Schema.thy ===== *)
theory Samples_Schema
  imports Samples Exec_Doc_Print Persisted_Queries Export_Sdl Uploads Introspection Serde Query_Context Connections
begin

text \<open>
  Evaluations for the parts around the execution of a request: the registry and what introspection shows of
  it, the printing of documents, persisted queries and uploads.
\<close>

subsection \<open>A registry with a secret argument\<close>

text \<open>\<^verbatim>\<open>type Query { id(n: Int): Int }   scalar Int   type Leaf { id: Int }\<close>, where \<open>n\<close> is secret and no
  type mentions \<open>Leaf\<close>.\<close>

definition secret_registry :: registry where
  "secret_registry = sample_registry\<lparr>types :=
     [sample_object ''Query''
        [sample_field ''id'' [(''n'', (sample_input ''n'' ''Int'')\<lparr>miv_is_secret := True\<rparr>)] ''Int''
           cache_control_default],
      sample_object ''Leaf'' [sample_field ''id'' [] ''Int'' cache_control_default],
      sample_scalar ''Int'']\<rparr>"

lemma secret_registry_wf: "wf_registry secret_registry"
  unfolding wf_registry_def by code_simp

lemma leaf_unused: "\<not> type_used secret_registry ''Leaf''"
proof -
  have "map_of (types (remove_unused_types secret_registry)) ''Leaf'' = None" by code_simp
  moreover have "map_of (types secret_registry) ''Leaf'' \<noteq> None" by code_simp
  ultimately show ?thesis by (metis remove_unused_types_get [OF secret_registry_wf])
qed

definition id_argument :: "gvalue \<Rightarrow> selection positioned" where
  "id_argument v = at (Field (at (MkField None (at ''id'') [(at ''n'', at v)] [] (at (SelectionSet [])))))"

definition untyped_fragment :: "selection positioned list \<Rightarrow> selection positioned" where
  "untyped_fragment sels = at (InlineFragment (at (MkInlineFragment None [] (at (SelectionSet sels)))))"

text \<open>\<^verbatim>\<open>{ id(n: 5) }\<close> is printed without the five, \<^verbatim>\<open>{ ... { id(n: 5) } }\<close> with it.\<close>

definition secret_doc :: executable_document where
  "secret_doc = query_doc [] [id_argument (VNumber (NInt 5))] []"

lemma secret_doc_found: "secrets_found_doc secret_registry [] secret_doc"
  unfolding secrets_found_doc_def secret_doc_def query_doc_def id_argument_def by code_simp

lemma secret_printed_masked:
  "stringify_exec_doc secret_registry (\<lambda>_. ''5'') [] secret_doc = ''query { id(n: '' @ write_quoted secret_text @ '') }''"
  by code_simp

lemma secret_printed:
  "stringify_exec_doc secret_registry (\<lambda>_. ''5'') [] (query_doc [] [untyped_fragment [id_argument (VNumber (NInt 5))]] []) =
     ''query { ... { id(n: 5) } }''"
  by code_simp

lemma secret_registry_introspectable: "introspectable ctx secret_registry"
  unfolding introspectable_def by code_simp

subsection \<open>Persisted queries\<close>

text \<open>A hash that is the text itself, and a configuration that is the hash as a string.\<close>

definition plain_config :: "const_value \<Rightarrow> persisted_query option" where
  "plain_config v = (case v of CString s \<Rightarrow> Some \<lparr>pq_version = 1, pq_sha256_hash = s\<rparr> | _ \<Rightarrow> None)"

definition persisted_request :: "string \<Rightarrow> (unit, unit) extended_request" where
  "persisted_request q =
     \<lparr>rq_query = q, rq_operation_name = None, rq_variables = [], rq_uploads = [], rq_data = (),
      rq_parsed_query = None, rq_introspection_mode = IntrospectionEnabled,
      rq_extensions = [(''persistedQuery'', CString ''{id}'')]\<rparr>"

definition persisted_answer :: "string \<Rightarrow> (unit, unit) extended_request" where
  "persisted_answer q = (persisted_request q)\<lparr>rq_parsed_query := Some id_doc, rq_extensions := []\<rparr>"

text \<open>The first request brings the text, the second only its hash.\<close>

lemma persisted_served:
  "serve (lookup_persisted (\<lambda>q. q) (\<lambda>_. Inr id_doc) plain_config hash_map_cache)
     [persisted_request ''{id}'', persisted_request []] [] =
   ([Inr (persisted_answer []), Inr (persisted_answer [])], [(''{id}'', id_doc)])"
  by code_simp

subsection \<open>Uploads\<close>

definition upload_request :: "(upload_value, unit) request" where
  "upload_request =
     \<lparr>rq_query = ''{id}'', rq_operation_name = None, rq_variables = [(''file'', CNull)], rq_uploads = [],
      rq_data = (), rq_parsed_query = None, rq_introspection_mode = IntrospectionEnabled\<rparr>"

definition upload_part :: "string \<Rightarrow> string option \<Rightarrow> string \<Rightarrow> multipart_part" where
  "upload_part n f body = \<lparr>mp_name = Some n, mp_file_name = f, mp_content_type = None, mp_body = Inr body\<rparr>"

definition upload_parts :: "(multer_error + multipart_part) list" where
  "upload_parts =
     map Inr [upload_part ''operations'' None ''q'', upload_part ''map'' None ''m'', upload_part ''0'' (Some ''a.txt'') ''hello'']"

definition upload_map :: "string \<Rightarrow> (string, string list) index_map option" where
  "upload_map body = Some [(''0'', [''variables.file''])]"

definition upload_batch :: "unit batch_request" where
  "upload_batch = BatchSingle (upload_request
     \<lparr>rq_variables := [(''file'', CString ''#__graphql_file__:0'')],
      rq_uploads := [\<lparr>up_filename = ''a.txt'', up_content_type = None, up_content = ''hello''\<rparr>]\<rparr>)"

lemma upload_received:
  "receive_batch_multipart (\<lambda>_. Some (BatchSingle upload_request)) upload_map upload_parts = Inr upload_batch"
  by code_simp

end
