(* ===== verification/Spec2Isabelle.thy ===== *)
theory Spec2Isabelle
  imports Samples_Schema
begin

text \<open>
  \<^bold>\<open>Verification of async-graphql\<close>

  A GraphQL request goes through these parts of the library: the parser turns its text into an
  \<open>ExecutableDocument\<close> (\<open>parser/\<close>); \<open>prepare_request\<close> (\<open>src/schema.rs\<close>) limits the document's depth and
  directives, has it validated against the registry of types by \<open>check_rules\<close> (\<open>src/validation/\<close>),
  chooses the operation, removes skipped selections and hands the result to execution. Execution collects the
  fields of a selection set, runs their resolvers and merges the values into a response; resolvers may batch
  their loads with a \<open>DataLoader\<close> (\<open>src/dataloader/\<close>). Schemas are generated by the derive macros or built at run
  time (\<open>src/dynamic/\<close>). Subscriptions are served over a WebSocket (\<open>src/http/websocket.rs\<close>), other requests over HTTP, with
  files as multipart bodies (\<open>src/http/\<close>). The registry is shown by introspection (\<open>src/model/\<close>) and exported as SDL.

  \<^bold>\<open>Theories\<close>, in the order of their dependencies:

  \<^item> \<open>Prelude\<close>: results as sums, maps as association lists in iteration order, strings.
  \<^item> \<open>Values\<close>: \<open>value/src/lib.rs\<close>: constant and variable values, conversion between them, equality.
  \<^item> \<open>Ast\<close>: \<open>parser/src/types/\<close>, \<open>parser/src/pos.rs\<close>: the document; printing and reading type references.
  \<^item> \<open>Meta_Registry\<close>: \<open>src/registry/mod.rs\<close>, \<open>cache_control.rs\<close>: type names, metadata, the registry
    and its operations, cache policies.
  \<^item> \<open>Graph_Search\<close>: the depth-first search that three rules share, with its reachability theorem.
  \<^item> \<open>Suggestion\<close>: \<open>src/validation/suggestion.rs\<close>; the Levenshtein table computes the edit distance.
  \<^item> \<open>Visitor\<close>: \<open>src/validation/visitor.rs\<close>: the visitor trait, its composition, the traversal.
  \<^item> \<open>Visitor_Trace\<close>: the calls of a traversal as a list, the contract \<open>rule_visitor\<close> of a rule (a call
    only adds errors and changes the rule's own state), and the theorem that a traversal replays its
    list of calls (\<open>visit_replay\<close>), from which composed rules are reduced to single rules.
  \<^item> \<open>Input_Value\<close>: \<open>is_valid_input_value\<close> of \<open>src/validation/utils.rs\<close> decides \<open>conforms\<close>.
  \<^item> \<open>Rules_Local\<close>, \<open>Rules_Overlap\<close>, \<open>Rules_Scope\<close>, \<open>Rules_Cycles\<close>: the 22 rules of
    \<open>src/validation/rules/\<close>, each an interpretation of \<open>rule_visitor\<close>.
  \<^item> \<open>Calculators\<close>: \<open>src/validation/visitors/\<close>: depth, complexity, cache policy.
  \<^item> \<open>Validation\<close>: \<open>check_rules\<close> of \<open>src/validation/mod.rs\<close>.
  \<^item> \<open>Scoped\<close>: what the rules for variables and fragments say of the document; contracts
    \<open>scope_rule\<close>, \<open>scope_collector\<close> and \<open>scope_keys\<close>, interpreted on the rules.
  \<^item> \<open>Request_Prep\<close>: \<open>prepare_request\<close>, \<open>check_recursive_depth\<close>, \<open>check_max_directives\<close>,
    \<open>remove_skipped_selection\<close> of \<open>src/schema.rs\<close>.
  \<^item> \<open>Parser_Pairs\<close>, \<open>Parser_Grammar\<close>: the pairs that \<open>pest\<close> returns, positions (\<open>parser/src/pos.rs\<close>), the
    pairs that \<open>graphql.pest\<close> admits, and rules to check a parsing function against the grammar: it
    does not panic and its result has a property (\<open>parses\<close>).
  \<^item> \<open>String_Literals\<close>: string and block string literals (\<open>parse/utils.rs\<close>), \<open>Display\<close> of values.
  \<^item> \<open>Parser_Values\<close>, \<open>Parser_Executable\<close>, \<open>Parser_Service\<close>: \<open>parser/src/parse/mod.rs\<close>, \<open>executable.rs\<close> and
    \<open>service.rs\<close>: values, directives, \<open>parse_query\<close> and \<open>parse_schema\<close>.
  \<^item> \<open>Data_Loader\<close>: \<open>src/dataloader/\<close>: caches with the contract \<open>cache_storage\<close>, batching, and the spawned tasks as a
    step relation in any order.
  \<^item> \<open>Resolution\<close>: \<open>src/resolver_utils/container.rs\<close>: which fields are resolved on which container, and how their
    values are merged.
  \<^item> \<open>Dynamic_Schema\<close>, \<open>Dynamic_Check\<close>, \<open>Schema_Builder\<close>: \<open>src/dynamic/\<close>: types made at run time and their
    registration, the checks of a schema with the search for input objects that need themselves, \<open>SchemaBuilder\<close>
    with the system, introspection and federation types of the registry.
  \<^item> \<open>Dynamic_Exec\<close>: \<open>src/dynamic/resolve.rs\<close> and \<open>execute\<close>: collecting and resolving fields, arguments, responses.
  \<^item> \<open>Web_Socket\<close>: \<open>src/http/websocket.rs\<close>: \<open>poll_next\<close>, and the automaton of the protocol that its runs follow.
  \<^item> \<open>Registry_Usage\<close>: \<open>remove_unused_types\<close> and \<open>find_visible_types\<close> of \<open>src/registry/mod.rs\<close>, as searches of
    \<open>Graph_Search\<close>.
  \<^item> \<open>Introspection\<close>: \<open>src/model/\<close>, \<open>src/types/query_root.rs\<close>: the introspection objects and what queries reach.
  \<^item> \<open>Exec_Doc_Print\<close>: \<open>src/registry/stringify_exec_doc.rs\<close>: the text of a document for logs, without secrets.
  \<^item> \<open>Export_Sdl\<close>: \<open>src/registry/export_sdl.rs\<close>: the SDL of a registry. \<open>export_sdl_plain\<close>: without federation it does
    not depend on the federation metadata; \<open>export_fields_sorted\<close>: sorted, nor on the order of the fields.
  \<^item> \<open>Persisted_Queries\<close>: \<open>src/extensions/apollo_persisted_queries.rs\<close>, over the storages of \<open>Data_Loader\<close>.
  \<^item> \<open>Input_Types\<close>: \<open>InputType\<close> and \<open>InputValueError\<close>, the scalars and wrappers of \<open>src/types/\<close>, \<open>src/validators/\<close>; the
    contracts \<open>input_type_laws\<close> and \<open>nonnull_input_laws\<close>, kept by options, lists and arrays.
  \<^item> \<open>Uploads\<close>: \<open>src/request.rs\<close>, \<open>src/http/mod.rs\<close>, \<open>multipart.rs\<close>, \<open>src/types/upload.rs\<close>: batches and uploads.
  \<^item> \<open>Samples\<close>, \<open>Samples_Schema\<close>: schemas, documents and requests for the evaluations that accompany the theorems.

  \<^bold>\<open>How code is read.\<close> A struct is a record, an enum a datatype, \<open>Result\<close> a sum with the error on the
  left. A panic is a value: \<open>Panic\<close> of the traversal, \<open>RulePanic\<close> among the errors of a rule (with which
  \<open>check_rules\<close> fails), \<open>Inl\<close> of \<open>is_valid_input_value\<close>. \<open>HashMap\<close>s and iterated \<open>HashSet\<close>s are lists in
  an arbitrary order. Complexities (\<open>usize\<close>) are 64-bit words that wrap around. The
  visibility callbacks, scalar validators and complexity functions of the schema's author are functions
  stored in the registry.

  \<^bold>\<open>Bounds.\<close> A traversal in inline mode follows fragment spreads, and a document with a spread cycle
  would make the source recurse without end. The functions take a bound on the nesting of spreads.
  \<open>prepare_request\<close> checks the recursion depth first, and the bound \<open>recursive_depth\<close> is enough for every
  document that passes (\<open>prepare_request_bounded\<close>); every larger bound gives the same result.

  The same bound is enough to execute a prepared operation on a dynamic schema (\<open>dynamic_execute_returns\<close>).

  \<^bold>\<open>Concurrency.\<close> The data loader is not \<open>Send\<close>: its code runs without interruption between two \<open>await\<close>s, and the
  step relation takes these pieces in any order. Fields complete in any order in \<open>Resolution\<close>; in \<open>Dynamic_Exec\<close>
  they run one after the other, as they do when no resolver suspends. A WebSocket connection is polled with
  arbitrary answers of its callbacks and streams.

  \<^bold>\<open>Not modelled\<close>: \<open>pest\<close>, an argument of \<open>parse_query\<close> whose pairs are assumed to follow the grammar
  (\<open>pest_conforms\<close>), the reading and printing of numbers, the crates \<open>lru\<close>, \<open>sha2\<close>, \<open>multer\<close> and \<open>mime\<close>, the JSON readers and
  the judges of regular expressions, addresses and passwords, also arguments; the resolvers of
  static schemas, which are generated by the derive macros and run the schema author's code; the code that the
  macros generate for introspection types, an argument of \<open>finish\<close> and \<open>execute\<close>; subscriptions of
  dynamic schemas; extensions that log or trace; scalars of other crates; derive macros and integrations.
\<close>

subsection \<open>Validation\<close>




text \<open>
  C3. Without extensions \<open>prepare_request\<close> never overflows the stack on fragment spreads: with the
  configured \<open>recursive_depth\<close> as bound on their nesting it does not run out, and every larger bound
  gives the same result.
\<close>

theorem prepare_request_bounded:
  "prepare_request (recursive_depth limits + k) parse no_hooks dd request sd reg mode limits =
     prepare_request (recursive_depth limits) parse no_hooks dd request sd reg mode limits \<and>
   prepare_request (recursive_depth limits) parse no_hooks dd request sd reg mode limits \<noteq>
     Inl StackOverflow"
  by (intro conjI prepare_request_mono prepare_request_fuel) simp_all











text \<open>
  C10. \<open>OverlappingFieldsCanBeMerged\<close> adds no error for a selection set exactly when each field it
  collects, in it and in the fragments it spreads, agrees in name and arguments with the first
  collected field of the same type condition and response key.
\<close>

theorem overlapping_fields_agree:
  "snd (find_conflicts frags (map (Product_Type.Pair None) (ss_items ss)) (([], {}), ctx)) = ctx \<longleftrightarrow>
     fields_agree (Rules_Overlap.collect_fields frags (map (Product_Type.Pair None) (ss_items ss)) {})"
  by (rule find_conflicts_agree)

text \<open>
  C11. When every type the registry's input objects mention is registered, \<open>is_valid_input_value\<close> does not
  panic for a type made of registered types, and reports no error exactly for the values that conform
  to the type.
\<close>

theorem input_value_decided:
  assumes "closed_registry reg" "closed_type reg t"
  shows "\<exists>r. is_valid_input_value reg (type_str t) val path = Inr r \<and> (r = None \<longleftrightarrow> conforms reg t val)"
  using is_valid_input_value_decides [OF assms] by (simp add: decides_def)

theorem input_value_decided_witness:
  "\<exists>r. is_valid_input_value sample_registry (type_str (GType (BList (GType (BNamed ''Point'') False)) True))
      (CList [CObject [(''y'', CNumber (NInt 1))]]) (QueryPathNode None (SegName ''p'')) = Inr r \<and>
    (r = None \<longleftrightarrow> conforms sample_registry (GType (BList (GType (BNamed ''Point'') False)) True)
      (CList [CObject [(''y'', CNumber (NInt 1))]]))"
proof (rule input_value_decided)
  show "closed_registry sample_registry" by code_simp
  show "closed_type sample_registry (GType (BList (GType (BNamed ''Point'') False)) True)" by code_simp
qed

text \<open>
  C12. On printed type references \<open>MetaTypeName::is_subtype\<close> is the compatibility of the GraphQL
  specification (a variable of type \<open>v\<close> may be used where \<open>l\<close> is expected) restricted to types that
  agree on nullability at every list level: \<open>[Int]!\<close> is refused where \<open>[Int]\<close> is expected.
\<close>

theorem is_subtype_compatible:
  assumes "wf_type v" "wf_type l"
  shows "is_subtype (create (type_str l)) (create (type_str v)) \<longleftrightarrow>
    types_compatible v l \<and> list_levels_agree v l"
  using assms by (rule is_subtype_type_str)

theorem is_subtype_compatible_witness:
  "\<not> is_subtype (create (type_str (GType (BList (GType (BNamed ''Int'') True)) True)))
      (create (type_str (GType (BList (GType (BNamed ''Int'') True)) False)))"
  by (subst is_subtype_compatible) (simp_all add: plain_name_def)

text \<open>
  C13. The edit distance that ranks suggestions is the least number of insertions, deletions and
  replacements of bytes that turn one string into the other.
\<close>

theorem levenshtein_least: "levenshtein_distance s1 s2 = (LEAST n. edit s1 s2 n)"
  unfolding levenshtein_distance_dist
  by (rule Least_equality [symmetric]) (auto intro: edit_dist dist_least)

subsection \<open>Requests\<close>


subsection \<open>Values and types\<close>

text \<open>
  C15. A text is read as the type reference \<open>t\<close> exactly when it is what \<open>t\<close> prints as: printing and reading
  type references are inverse.
\<close>

theorem type_read_iff_print:
  assumes "wf_type t"
  shows "type_new s = Some t \<longleftrightarrow> s = type_str t"
  using type_new_type_str [OF assms] type_str_type_new [of s t] by auto

theorem type_read_iff_print_witness:
  "type_new ''[Int!]'' = Some (GType (BList (GType (BNamed ''Int'') False)) True) \<longleftrightarrow>
    ''[Int!]'' = type_str (GType (BList (GType (BNamed ''Int'') False)) True)"
  by (rule type_read_iff_print) (simp add: plain_name_def)

text \<open>
  C16. The equality of constants, under which a string equals the enum value of the same name, is an
  equivalence on values whose objects have no repeated key.
\<close>

theorem const_eq_equivalence:
  assumes "wf_const x" "wf_const y"
  shows "const_eq x x \<and> (const_eq x y \<longleftrightarrow> const_eq y x) \<and> \<not> (const_eq x y \<and> const_eq y z \<and> \<not> const_eq x z)"
  using assms const_eq_refl const_eq_sym const_eq_trans by blast

theorem const_eq_equivalence_witness:
  "const_eq (CString ''a'') (CString ''a'') \<and>
   (const_eq (CString ''a'') (CEnum ''a'') \<longleftrightarrow> const_eq (CEnum ''a'') (CString ''a'')) \<and>
   \<not> (const_eq (CString ''a'') (CEnum ''a'') \<and> const_eq (CEnum ''a'') (CString ''a'') \<and>
      \<not> const_eq (CString ''a'') (CString ''a''))"
  by (rule const_eq_equivalence) simp_all

subsection \<open>Parsing\<close>

text \<open>
  C17. On every text, whatever pairs allowed by the grammar \<open>pest\<close> returns for it, \<open>parse_query\<close> returns a
  document or an error: none of its \<open>unwrap\<close>s, assertions, \<open>unreachable!\<close>s and slices of the input fails.
\<close>

theorem parse_query_no_panic:
  assumes "pest_conforms pest"
  shows "parse_query pest rn input \<noteq> Inl Panicked"
  using assms by (rule parse_query_no_panic_lemma)

theorem parse_query_no_panic_witness: "parse_query id_pest no_numbers ''{id}'' \<noteq> Inl Panicked"
  by (rule parse_query_no_panic [OF id_pest_conforms])



text \<open>
  C19. In a parsed document selection sets are nested at most 65 deep in every operation and fragment:
  \<open>MAX_RECURSION_DEPTH\<close> below the outermost.
\<close>

theorem parsed_nesting_bounded:
  assumes "pest_conforms pest" "parse_query pest rn input = Inr doc"
  shows "list_all (\<lambda>(n, op). nested_within 65 (node (od_selection_set (node op)))) (operations_iter (doc_operations doc)) \<and>
    list_all (\<lambda>(n, frag). nested_within 65 (node (fd_selection_set (node frag)))) (doc_fragments doc)"
proof -
  obtain items where items: "document_of_items items = Inr doc" "list_all item_within items"
    using parse_query_items [OF assms] .
  have "operation_within (node op)" if "(n, op) \<in> set (operations_iter (doc_operations doc))" for n op
    using document_operations_items [OF items(1) that] items(2) by (fastforce simp: list_all_iff)
  moreover have "fragment_within (node frag)" if "(n, frag) \<in> set (doc_fragments doc)" for n frag
    using document_fragments_items [OF items(1) that] items(2) by (fastforce simp: list_all_iff)
  ultimately show ?thesis
    by (auto simp: list_all_iff operation_within_def fragment_within_def max_recursion_depth_def)
qed

theorem parsed_nesting_bounded_witness:
  "list_all (\<lambda>(n, op). nested_within 65 (node (od_selection_set (node op)))) (operations_iter (doc_operations id_doc)) \<and>
    list_all (\<lambda>(n, frag). nested_within 65 (node (fd_selection_set (node frag)))) (doc_fragments id_doc)"
  by (rule parsed_nesting_bounded [OF id_pest_conforms id_parse])

text \<open>
  C20. The definitions of a text make a document exactly when no two fragments and no two operations have
  the same name, an anonymous operation is the only one, and there is an operation; the document then
  has these operations and fragments, in the order of the text.
\<close>

theorem document_of_definitions:
  "document_of_items items = Inr doc \<longleftrightarrow>
     items_valid items \<and> operations_of items = Some (doc_operations doc) \<and> doc_fragments doc = item_fragments items"
  by (rule document_of_items_iff)

text \<open>
  C21. Stepping the position calculator through pairs in the order of the text gives each the line and
  column of its start, as counted from the beginning of the text.
\<close>

theorem positions_of_pairs:
  assumes "sorted (map p_start ps)" "list_all (\<lambda>p. is_char_boundary input (p_start p)) ps"
  shows "\<exists>pc. pmap pc_step ps (position_calculator_new input) = Inr (map (\<lambda>p. pos_of input (p_start p)) ps, pc)"
  using pmap_pc_step [OF pc_ok_new assms] by (simp add: position_calculator_new_def)

theorem positions_of_pairs_witness:
  "\<exists>pc. pmap pc_step [id_pair, hd (p_inner id_pair)] (position_calculator_new ''{id}'') =
     Inr (map (\<lambda>p. pos_of ''{id}'' (p_start p)) [id_pair, hd (p_inner id_pair)], pc)"
proof (rule positions_of_pairs)
  show "sorted (map p_start [id_pair, hd (p_inner id_pair)])" by code_simp
  show "list_all (\<lambda>p. is_char_boundary ''{id}'' (p_start p)) [id_pair, hd (p_inner id_pair)]" by code_simp
qed

text \<open>
  C22. A string printed by \<open>write_quoted\<close> is always a string literal of the grammar, and reading it gives the
  string back exactly when it has no control character with a code above nine other than tabulator,
  line feed and carriage return: these are written in decimal and read in hexadecimal.
\<close>

theorem quoted_string_read:
  "string_text (quoted_chars s) \<and> (string_value (quoted_chars s) = Inr s \<longleftrightarrow> readable s)"
  by (simp add: string_text_quoted string_value_quoted reread_eq)

text \<open>
  C23. The value of a block string, computed with indices into its lines, is the text between the first and
  the last line with content, without the common indentation.
\<close>

theorem block_string_dedented:
  assumes "utf8_text raw"
  shows "block_string_value raw = Inr (block_string_reference raw)"
  using assms by (rule block_string_value_reference)

theorem block_string_dedented_witness: "block_string_value ''  a'' = Inr (block_string_reference ''  a'')"
  by (rule block_string_dedented) code_simp

text \<open>
  C24. \<open>parse_schema\<close> does not panic on any text, every schema definition that is not an extension has a query
  root, and every directive definition is marked repeatable, whether the text says so or not.
\<close>

theorem parse_schema_sound:
  assumes "pest_conforms pest"
  shows "parse_schema pest rn input \<noteq> Inl Panicked \<and>
    (case parse_schema pest rn input of Inr doc \<Rightarrow> list_all definition_ok (definitions doc) | Inl _ \<Rightarrow> True)"
  using parse_schema_ok [OF assms] by (auto split: sum.splits)

theorem parse_schema_sound_witness:
  "parse_schema id_pest no_numbers directive_text \<noteq> Inl Panicked \<and>
    (case parse_schema id_pest no_numbers directive_text of
       Inr doc \<Rightarrow> list_all definition_ok (definitions doc) | Inl _ \<Rightarrow> True)"
  by (rule parse_schema_sound [OF id_pest_conforms])

subsection \<open>Data loader\<close>

text \<open>
  C25. Whatever calls were made and in whatever order the spawned tasks then run, whatever the loads return,
  after at most \<open>dl_work\<close> steps no task is left, nothing has panicked, and every call that waits has been
  answered exactly once.
\<close>

theorem dataloader_answers_all:
  assumes "cache_storage ops cache_ok" "dl_reachable ops (\<lambda>_ _. True) (\<lambda>_. True) max_size s"
  shows "\<exists>s'. run_tasks ops scheduler (dl_work s) s = Some s' \<and> sy_tasks s' = [] \<and>
    mset (map fst (sy_replies s')) = mset [0..<length (sy_asked s)] \<and>
    list_all (\<lambda>(tx, reply). reply \<noteq> None) (sy_replies s')"
proof -
  have "cache_storage.dl_inv ops cache_ok (\<lambda>_. True) (\<lambda>_. True) max_size s"
    by (rule cache_storage.dl_inv_reachable [OF assms]) (simp add: list_all_iff)
  from cache_storage.run_tasks_ok [OF assms(1) this order_refl]
  show ?thesis using cache_storage.dl_inv_done [OF assms(1)] by metis
qed

theorem dataloader_answers_all_witness:
  "\<exists>s'. run_tasks hash_map_cache (\<lambda>_. (0, Inr [(1, ''1''), (2, ''2'')])) (dl_work dl_sample) dl_sample = Some s' \<and>
    sy_tasks s' = [] \<and> mset (map fst (sy_replies s')) = mset [0..<length (sy_asked dl_sample)] \<and>
    list_all (\<lambda>(tx, reply). reply \<noteq> None) (sy_replies s')"
  by (rule dataloader_answers_all [OF hash_map_storage.cache_storage_axioms dl_sample_reachable])

text \<open>
  C26. Batching and caching are transparent: when \<open>Loader::load\<close> and the fed values agree with a backend, every
  call that succeeds gets exactly the backend's values for its keys, at once or through its channel.
\<close>

theorem dataloader_transparent:
  assumes "cache_storage ops cache_ok"
    and "dl_reachable ops (consults backend) (\<lambda>(k, v). backend k = Some v) max_size s"
  shows "list_all (\<lambda>(keys, res). map_of res = backend |` set keys) (sy_returned s) \<and>
    list_all (\<lambda>(tx, reply). case reply of
        Some (Inr res) \<Rightarrow> map_of res = backend |` set (sy_asked s ! tx)
      | Some (Inl err) \<Rightarrow> True
      | None \<Rightarrow> False) (sy_replies s)"
proof -
  have "cache_storage.dl_inv ops cache_ok (\<lambda>(k, v). backend k = Some v) (\<lambda>k. backend k = None) max_size s"
    by (rule cache_storage.dl_inv_reachable [OF assms]) (auto simp: consults_def list_all_iff)
  then have ok: "list_all (reply_ok (\<lambda>(k, v). backend k = Some v) (\<lambda>k. backend k = None) (sy_asked s)) (sy_replies s)"
    "list_all (\<lambda>(ks, res). answers (\<lambda>(k, v). backend k = Some v) (\<lambda>k. backend k = None) ks res) (sy_returned s)"
    by (simp_all add: cache_storage.dl_inv_def [OF assms(1)])
  show ?thesis
  proof
    from ok(2) show "list_all (\<lambda>(keys, res). map_of res = backend |` set keys) (sy_returned s)"
      by (rule list.pred_mono_strong) (auto dest: answers_backend)
    from ok(1) show "list_all (\<lambda>(tx, reply). case reply of
        Some (Inr res) \<Rightarrow> map_of res = backend |` set (sy_asked s ! tx)
      | Some (Inl err) \<Rightarrow> True | None \<Rightarrow> False) (sy_replies s)"
      by (rule list.pred_mono_strong) (auto simp: reply_ok_def dest: answers_backend split: option.splits sum.splits)
  qed
qed

theorem dataloader_transparent_witness:
  "list_all (\<lambda>(keys, res). map_of res = digits |` set keys) (sy_returned (call_load_many hash_map_cache [1] dl_loaded)) \<and>
   list_all (\<lambda>(tx, reply). case reply of
        Some (Inr res) \<Rightarrow> map_of res = digits |` set (sy_asked (call_load_many hash_map_cache [1] dl_loaded) ! tx)
      | Some (Inl err) \<Rightarrow> True
      | None \<Rightarrow> False) (sy_replies (call_load_many hash_map_cache [1] dl_loaded))"
  by (rule dataloader_transparent [OF hash_map_storage.cache_storage_axioms dl_loaded_reachable])

subsection \<open>Execution\<close>





text \<open>
  C29. A schema that \<open>finish\<close> accepts executes every request: with the configured \<open>recursive_depth\<close> as bound,
  and if the generated introspection code returns, \<open>execute\<close> returns a response whatever the resolvers return,
  unless \<open>prepare_request\<close> panics. In particular no type is looked up that is not registered.
\<close>

theorem dynamic_execute_returns:
  assumes "adds_types gen" "finish gen show_number b = Inr s" "recursive_depth (sb_limits b) \<le> n"
    and "\<And>g path fld. returns (intro g path fld)"
  shows "(\<exists>resp. execute n parse intro dd s request root = Inr resp) \<or>
    (\<exists>msg. prepare_request n parse no_hooks dd request dd (si_registry s) (si_validation_mode s) (si_limits s) =
       Inl (request_failure.Panicked msg))"
proof -
  let ?prepared = "prepare_request n parse no_hooks dd request dd (si_registry s) (si_validation_mode s) (si_limits s)"
  note limits = finish_Inr(3) [OF assms(2)]
  show ?thesis
  proof (cases ?prepared)
    case (Inl fl)
    then show ?thesis
      using prepare_request_fuel [of "si_limits s" n parse dd request dd "si_registry s" "si_validation_mode s"] assms(3)
      by (cases fl) (auto simp: execute_def limits)
  next
    case (Inr x)
    then obtain env cc where x: "?prepared = Inr (env, cc)" by (cases x) auto
    have "spreads_fit n (qe_fragments env) (node (od_selection_set (node (qe_operation env))))"
      using prepared_spreads_fit [OF x] assms(3) limits by simp
    then have "\<exists>resp. execute_once n intro s env root = Inr resp"
      by (intro execute_once_returns finish_closed [OF assms(1,2)] assms(4))
    with x show ?thesis by (auto simp: execute_def)
  qed
qed

theorem dynamic_execute_returns_witness:
  "\<forall>request root. (\<exists>resp. execute 32 (\<lambda>_. Inr id_doc) no_introspection () dyn_schema request root = Inr resp) \<or>
    (\<exists>msg. prepare_request 32 (\<lambda>_. Inr id_doc) no_hooks () (request :: (unit, unit) request) () (si_registry dyn_schema)
       (si_validation_mode dyn_schema) (si_limits dyn_schema) = Inl (request_failure.Panicked msg))"
  by (intro allI dynamic_execute_returns [OF no_generated_adds_types dyn_schema_finished _ no_introspection_returns]) code_simp

text \<open>
  C30. An object of the response of a dynamic schema has no key but those of the collected fields, and if
  resolving it added no error it has all of them: no selected field is lost without an error.
\<close>

theorem dynamic_fields_kept:
  assumes "resolve_container n intro s env obj ss path par = Inr (Inr (Some v), errs)"
    and "dyn_collect_fields n s (qe_introspection_mode env) (qe_fragments env) obj ss = Inr (Inr futs, errs')"
  shows "object_keys v \<subseteq> future_key ` set futs \<and> (errs = [] \<longrightarrow> object_keys v = future_key ` set futs)"
  using resolve_container_keys [OF assms] by blast

theorem dynamic_fields_kept_witness:
  "object_keys (CObject [(''id'', CNumber (NInt 1))]) = {''id''}"
proof -
  let ?X = "dyn_collect_fields 0 dyn_schema (qe_introspection_mode id_env) (qe_fragments id_env) dyn_query
      (node (od_selection_set (node id_operation)))"
  have "\<not> isl ?X" "\<not> isl (fst (projr ?X))" "map future_key (projr (fst (projr ?X))) = [''id'']" by code_simp+
  then obtain futs errs' where futs: "?X = Inr (Inr futs, errs')" "map future_key futs = [''id'']"
    by (metis sum.collapse(2) surjective_pairing)
  show ?thesis using dynamic_fields_kept [OF dyn_executed futs(1)] futs(2) by (auto simp flip: set_map)
qed

text \<open>
  C31. The check of the input objects of a dynamic schema accepts exactly when their fields are well formed (not
  named with two underscores, of input types, nullable and without default in a \<open>oneof\<close> object) and no
  input object needs a value of itself: none reaches itself through fields of non-null named types.
\<close>

theorem input_objects_checked:
  assumes "named_types (si_types s)"
  shows "check_input_objects s = Inr () \<longleftrightarrow>
    (\<forall>k obj. im_get (si_types s) k = Some (DInputObject obj) \<longrightarrow>
       (\<forall>(_, fld)\<in>set (dio_fields obj). input_field_ok (si_types s) obj fld)) \<and>
    (\<forall>n. \<not> (requires_input (si_types s))\<^sup>+\<^sup>+ n n)"
  by (rule check_input_objects_iff [OF assms])

theorem input_objects_checked_witness:
  "check_input_objects dyn_schema = Inr () \<longleftrightarrow>
    (\<forall>k obj. im_get (si_types dyn_schema) k = Some (DInputObject obj) \<longrightarrow>
       (\<forall>(_, fld)\<in>set (dio_fields obj). input_field_ok (si_types dyn_schema) obj fld)) \<and>
    (\<forall>n. \<not> (requires_input (si_types dyn_schema))\<^sup>+\<^sup>+ n n)"
  by (rule input_objects_checked [OF finish_named [OF dyn_builder_named dyn_schema_finished]])

subsection \<open>WebSocket\<close>

text \<open>
  C32. However a connection is polled and whatever the client sends, the messages it consumes and sends follow
  the protocol: one acknowledgement, after the initialisation; responses and completions only for live
  subscriptions, in the form of the protocol; one pong for a ping; nothing after the message that closes the
  connection, and no message is consumed then or while a callback runs.
\<close>

theorem websocket_follows_protocol:
  assumes "ws_reachable protocol sy"
  shows "\<exists>se. session_run protocol (wy_events sy) session_start = Some se \<and> in_session (wy_socket sy) se"
  using ws_reachable_session [OF assms] by blast

theorem websocket_follows_protocol_witness:
  "\<exists>se. session_run GraphQLWS (wy_events ws_sample) session_start = Some se \<and> in_session (wy_socket ws_sample) se"
  by (rule websocket_follows_protocol [OF ws_sample_reachable])

text \<open>
  C33. A poll that leaves the connection pending has nothing left to do: it waits for a callback, or all
  messages of the client are consumed and every subscription is pending.
\<close>

theorem websocket_pending:
  assumes "poll_next env ws = (ws', Pending)"
  shows "\<not> ws_close ws \<and> \<not> (ws_keepalive_timer ws \<and> po_timer env) \<and>
    (if ws_init_fut ws' \<noteq> None then po_init env = None
     else if ws_ping_fut ws' \<noteq> None then po_ping env = None
     else ws_stream ws' = [] \<and> (\<forall>(i, _)\<in>set (ws_streams ws'). po_streams env i = None))"
  by (rule poll_next_pending [OF assms])

theorem websocket_pending_witness:
  "ws_stream (from_message_stream GraphQLWS :: (nat, nat, nat) web_socket) = []"
proof -
  have "poll_next (ws_answers\<lparr>po_streams := \<lambda>_. None\<rparr>) (from_message_stream GraphQLWS :: (nat, nat, nat) web_socket) =
      (from_message_stream GraphQLWS, Pending)"
    by code_simp
  from websocket_pending [OF this] show ?thesis by (simp add: from_message_stream_def)
qed

subsection \<open>The schema and what is shown of it\<close>

text \<open>
  C34. \<open>remove_unused_types\<close> keeps exactly the system types and the types that the schema uses: the arguments of
  directives, the roots of the operations and the entities, and whatever a used type mentions in its fields,
  arguments, possible types and input fields.
\<close>

theorem unused_types_removed:
  assumes "wf_registry reg"
  shows "map_of (types (remove_unused_types reg)) n =
    (if is_system_type n \<or> type_used reg n then map_of (types reg) n else None)"
  by (rule remove_unused_types_get [OF assms])

theorem unused_types_removed_witness:
  "map_of (types (remove_unused_types secret_registry)) ''Leaf'' = None"
  by (subst unused_types_removed [OF secret_registry_wf]) (simp add: leaf_unused is_system_type_def starts_with_def)

text \<open>
  C35. Introspection shows visible types only and does not panic: when the visible parts of the registry mention
  registered and visible types, every \<open>__Type\<close> that a query for \<open>__schema\<close> or \<open>__type\<close> can reach exists, and the
  type it is or wraps is a system type or a visible type that the roots lead to.
\<close>

theorem introspection_visible:
  assumes "wf_registry reg" "introspectable ctx reg"
    and "query_root_field reg mode ctx n = SchemaObject vis \<or> query_root_field reg mode ctx n = TypeObject vis"
    and "introspected ctx reg vis d"
  shows "\<exists>t ty. d = Some t \<and> map_of (types reg) (detail_base t) = Some ty \<and>
    (is_system_type (detail_base t) \<or> type_shown ctx reg (detail_base t) \<and> mt_is_visible ty ctx)"
proof -
  have vis: "vis = find_visible_types reg ctx" using assms(3) by (rule query_root_field_visible)
  obtain t where t: "d = Some t" "detail_base t \<in> set (find_visible_types reg ctx)"
    using introspected_detail_ok [OF assms(1,2) assms(4) [unfolded vis]] by (auto simp: detail_ok_def)
  then obtain ty where ty: "map_of (types reg) (detail_base t) = Some ty"
    using visible_registered [OF assms(1)] by blast
  have "mt_is_visible ty ctx" if "type_shown ctx reg (detail_base t)"
    using that ty by (auto elim!: shown_visible)
  with find_visible_types_sound [OF assms(1) t(2)] t(1) ty show ?thesis by blast
qed

theorem introspection_visible_witness:
  "\<forall>ctx. \<exists>t ty. schema_query_type secret_registry = Some t \<and> map_of (types secret_registry) (detail_base t) = Some ty \<and>
    (is_system_type (detail_base t) \<or> type_shown ctx secret_registry (detail_base t) \<and> mt_is_visible ty ctx)"
proof
  fix ctx
  have "query_root_field secret_registry IntrospectionEnabled ctx ''__schema'' =
      SchemaObject (find_visible_types secret_registry ctx)"
    by (simp add: query_root_field_def secret_registry_def sample_registry_def)
  from introspection_visible [OF secret_registry_wf secret_registry_introspectable disjI1 [OF this] introspected.query]
  show "\<exists>t ty. schema_query_type secret_registry = Some t \<and> map_of (types secret_registry) (detail_base t) = Some ty \<and>
    (is_system_type (detail_base t) \<or> type_shown ctx secret_registry (detail_base t) \<and> mt_is_visible ty ctx)" .
qed



text \<open>
  C37. A deprecation reason is printed as a string literal of the grammar exactly when it contains no double quote,
  and the parser's reading of the literal is then the reason.
\<close>

theorem deprecation_reason_read:
  "\<exists>text. write_deprecated (Deprecated (Some reason)) = '' @deprecated(reason: '' @ [CHR 0x22] @ text @ [CHR 0x22] @ '')'' \<and>
     (string_text text \<longleftrightarrow> CHR 0x22 \<notin> set reason) \<and> string_value text = Inr reason"
  by (intro exI [of _ "escape_string reason"])
     (simp add: write_deprecated_def in_quotes_def string_text_escape string_value_escape)

subsection \<open>Around a request\<close>

text \<open>
  C38. With persisted queries, whatever sequence of requests is served from an empty storage: a request that names
  a hash and succeeds runs the parse of a text with this hash, and this text is its own or that of an earlier
  request of the sequence.
\<close>

theorem persisted_query_text:
  assumes "cache_storage ops cache_ok" "cache_ok c" "co_iter ops c = []"
    and "serve (lookup_persisted sha256 parse read_config ops) reqs c = (rs, c')"
    and "i < length reqs" "rs ! i = Inr out"
    and "map_of (rq_extensions (reqs ! i)) ''persistedQuery'' = Some config"
  shows "\<exists>persisted doc q. read_config config = Some persisted \<and> pq_version persisted = 1 \<and>
    rq_parsed_query out = Some doc \<and> q \<noteq> [] \<and> sha256 q = pq_sha256_hash persisted \<and> parse q = Inr doc \<and>
    q \<in> rq_query ` set (take (Suc i) reqs)"
proof -
  have "stored_from sha256 parse {} (co_iter ops c)" by (simp add: stored_from_def assms(3))
  from serve_storage [OF assms(1,2) this assms(4-7)] show ?thesis
    using assms(5) by (fastforce simp: take_Suc_conv_app_nth split: if_splits)
qed

theorem persisted_query_text_witness:
  "\<exists>persisted doc q. plain_config (CString ''{id}'') = Some persisted \<and> pq_version persisted = 1 \<and>
    rq_parsed_query (persisted_answer []) = Some doc \<and> q \<noteq> [] \<and> q = pq_sha256_hash persisted \<and>
    (Inr id_doc :: server_error + executable_document) = Inr doc \<and>
    q \<in> rq_query ` set (take (Suc 1) [persisted_request ''{id}'', persisted_request []])"
  by (rule persisted_query_text [OF hash_map_storage.cache_storage_axioms _ _ persisted_served])
     (simp_all add: hash_map_cache_def persisted_request_def im_ok_def)




end
